(* ===== verification/Prelude.thy ===== *)
theory Prelude
  imports Main "HOL-Library.Word" "HOL-Library.Char_ord" "HOL-Library.List_Lexorder"
begin

text \<open>
  Shared vocabulary of the development: the collections of theorems the component theories
  fill (\<open>frame\<close>: what an operation leaves unchanged; \<open>keeps\<close>: which invariant an operation
  keeps; \<open>outcome\<close>: what the successful branch of a fallible operation returns), the types
  that stand for Rust's machine types and for the identifiers of
  \<open>crates/valyria-types/src/id.rs\<close>, and the facts on lists, options and sums that more than
  one component needs.

  Conventions: a Rust \<open>Result<T, E>\<close> is \<open>E + T\<close> with \<open>Inl\<close> the error; a \<open>String\<close> is the list
  of its UTF-8 bytes (\<open>string\<close>), so \<open>length\<close> is \<open>String::len\<close>; \<open>usize\<close>, \<open>u64\<close> and \<open>u32\<close> counters
  are words of their width or \<open>nat\<close> with the wrap-around written out; a fresh ULID is an
  argument of the operation that draws it.
\<close>

named_theorems frame "what an operation leaves unchanged"
named_theorems keeps "operations that keep an invariant"
named_theorems outcome "what the successful branch of a fallible operation returns"

type_synonym u8 = "8 word"
type_synonym u32 = "32 word"
type_synonym u64 = "64 word"
type_synonym timestamp = nat  \<comment> \<open>\<open>Timestamp::as_millis\<close>\<close>
type_synonym bytes = "u8 list"
type_synonym content_hash = bytes  \<comment> \<open>the 32 bytes of a \<open>ContentHash\<close>; the digest is a parameter\<close>

section \<open>Typed identifiers\<close>

text \<open>
  Every \<open>typed_id!\<close> is a newtype over a 128-bit ULID; the ULID is its number here and the
  newtypes stay distinct, as in the code.
\<close>

datatype task_id = TaskId nat
datatype step_id = StepId nat
datatype effect_id = EffectId nat
datatype event_id = EventId nat
datatype workspace_id = WorkspaceId nat
datatype session_id = SessionId nat
datatype ledger_entry_id = LedgerEntryId nat
datatype tool_invocation_id = ToolInvocationId nat
datatype checkpoint_id = CheckpointId nat

section \<open>Sums as results\<close>

fun is_ok :: "'e + 'a \<Rightarrow> bool" where
  "is_ok (Inl _) = False"
| "is_ok (Inr _) = True"

definition ok_or :: "'e \<Rightarrow> 'a option \<Rightarrow> 'e + 'a" where
  "ok_or e x = (case x of None \<Rightarrow> Inl e | Some a \<Rightarrow> Inr a)"

lemma is_ok_iff: "is_ok r \<longleftrightarrow> (\<exists>a. r = Inr a)"
  by (cases r) auto

lemma ok_or_simps [simp]:
  "ok_or e None = Inl e"
  "ok_or e (Some a) = Inr a"
  by (simp_all add: ok_or_def)

text \<open>\<open>collect::<Result<Vec<_>, _>>()\<close>: the first error wins.\<close>

fun collect :: "('e + 'a) list \<Rightarrow> 'e + 'a list" where
  "collect [] = Inr []"
| "collect (Inl e # _) = Inl e"
| "collect (Inr a # rs) = (case collect rs of Inl e \<Rightarrow> Inl e | Inr as \<Rightarrow> Inr (a # as))"

lemma collect_Inr_map [simp]: "collect (map (\<lambda>x. Inr (f x)) xs) = Inr (map f xs)"
  by (induction xs) auto

lemma collect_all_ok: "(\<And>x. x \<in> set xs \<Longrightarrow> g x = Inr (f x)) \<Longrightarrow> collect (map g xs) = Inr (map f xs)"
  by (induction xs) auto

text \<open>Sequencing of fallible operations on a state: Rust's \<open>?\<close>. What was written before the
  error stays written.\<close>

fun then_do :: "('e + 'a) \<times> 's \<Rightarrow> ('a \<Rightarrow> 's \<Rightarrow> ('e + 'b) \<times> 's) \<Rightarrow> ('e + 'b) \<times> 's" where
  "then_do (Inl e, s) f = (Inl e, s)"
| "then_do (Inr a, s) f = f a s"

fun_cases then_doE: "then_do r f = (Inr b, t)"

section \<open>Lists\<close>

text \<open>The length of the suffix of \<open>xs\<close> whose elements satisfy \<open>P\<close>: Rust's
  \<open>xs.iter().rev().take_while(P).count()\<close>.\<close>

definition streak :: "('a \<Rightarrow> bool) \<Rightarrow> 'a list \<Rightarrow> nat" where
  "streak P xs = length (takeWhile P (rev xs))"

lemma streak_Nil [simp]: "streak P [] = 0"
  by (simp add: streak_def)

lemma streak_snoc [simp]: "streak P (xs @ [x]) = (if P x then Suc (streak P xs) else 0)"
  by (simp add: streak_def)

lemma streak_le_length: "streak P xs \<le> length xs"
  by (induction xs rule: rev_induct) auto

lemma streak_ge_iff:
  "n \<le> streak P xs \<longleftrightarrow> n \<le> length xs \<and> (\<forall>x \<in> set (drop (length xs - n) xs). P x)"
proof (induction xs arbitrary: n rule: rev_induct)
  case Nil
  then show ?case by simp
next
  case (snoc x xs)
  show ?case
  proof (cases n)
    case 0
    then show ?thesis by simp
  next
    case (Suc m)
    then show ?thesis using snoc.IH [of m] by (auto simp: Suc_le_eq)
  qed
qed

text \<open>\<open>position\<close>: the index of the first element that satisfies \<open>P\<close>.\<close>

fun position :: "('a \<Rightarrow> bool) \<Rightarrow> 'a list \<Rightarrow> nat option" where
  "position P [] = None"
| "position P (x # xs) = (if P x then Some 0 else map_option Suc (position P xs))"

lemma position_None [simp]: "position P xs = None \<longleftrightarrow> (\<forall>x \<in> set xs. \<not> P x)"
  by (induction xs) auto

lemma position_Some:
  "position P xs = Some i \<Longrightarrow> i < length xs \<and> P (xs ! i) \<and> (\<forall>j < i. \<not> P (xs ! j))"
proof (induction xs arbitrary: i)
  case Nil
  then show ?case by simp
next
  case (Cons x xs)
  then show ?case
    by (auto simp: nth_Cons split: if_splits nat.splits)
qed

text \<open>Rust's \<open>Vec::remove\<close>.\<close>

definition remove_at :: "nat \<Rightarrow> 'a list \<Rightarrow> 'a list" where
  "remove_at i xs = take i xs @ drop (Suc i) xs"

lemma length_remove_at: "i < length xs \<Longrightarrow> length (remove_at i xs) = length xs - 1"
  by (simp add: remove_at_def)

lemma set_remove_at: "set (remove_at i xs) \<subseteq> set xs"
  by (auto simp: remove_at_def dest: in_set_takeD in_set_dropD)

lemma sum_list_remove_at:
  fixes f :: "'a \<Rightarrow> nat"
  assumes "i < length xs"
  shows "sum_list (map f (remove_at i xs)) + f (xs ! i) = sum_list (map f xs)"
proof -
  have "sum_list (map f xs) = sum_list (map f (take i xs @ xs ! i # drop (Suc i) xs))"
    using id_take_nth_drop [OF assms] by simp
  then show ?thesis by (simp add: remove_at_def)
qed

lemma map_remove_at: "map f (remove_at i xs) = remove_at i (map f xs)"
  by (simp add: remove_at_def take_map drop_map)

lemma distinct_remove_at: "distinct xs \<Longrightarrow> distinct (remove_at i xs)"
  using set_take_disj_set_drop_if_distinct [of xs i "Suc i"] by (auto simp: remove_at_def)

text \<open>\<open>iter().find(p)\<close> returns a member that satisfies \<open>p\<close>, and fails only when none does.\<close>

lemma find_SomeD: "find P xs = Some x \<Longrightarrow> x \<in> set xs \<and> P x"
  by (auto simp: find_Some_iff)

lemma find_None_iff_set: "find P xs = None \<longleftrightarrow> (\<forall>x \<in> set xs. \<not> P x)"
  by (auto simp: find_None_iff)

lemma find_append: "find P (xs @ ys) = (case find P xs of None \<Rightarrow> find P ys | Some x \<Rightarrow> Some x)"
  by (induction xs) auto

text \<open>Rust's \<open>find_map\<close>.\<close>

fun find_map :: "('a \<Rightarrow> 'b option) \<Rightarrow> 'a list \<Rightarrow> 'b option" where
  "find_map f [] = None"
| "find_map f (x # xs) = (case f x of Some y \<Rightarrow> Some y | None \<Rightarrow> find_map f xs)"

lemma find_map_None: "find_map f xs = None \<longleftrightarrow> (\<forall>x \<in> set xs. f x = None)"
  by (induction xs) (auto split: option.splits)

lemma find_map_Some_split:
  "find_map f xs = Some y \<longleftrightarrow>
     (\<exists>us x vs. xs = us @ x # vs \<and> (\<forall>u \<in> set us. f u = None) \<and> f x = Some y)"
proof (induction xs)
  case Nil
  then show ?case by simp
next
  case (Cons a xs)
  show ?case
  proof (cases "f a")
    case None
    have "(\<exists>us x vs. a # xs = us @ x # vs \<and> (\<forall>u \<in> set us. f u = None) \<and> f x = Some y)
      \<longleftrightarrow> (\<exists>us x vs. xs = us @ x # vs \<and> (\<forall>u \<in> set us. f u = None) \<and> f x = Some y)"
      (is "?l \<longleftrightarrow> ?r")
    proof
      assume ?l
      then obtain us x vs where "a # xs = us @ x # vs" "\<forall>u \<in> set us. f u = None" "f x = Some y"
        by blast
      with None show ?r by (cases us) auto
    next
      assume ?r
      then obtain us x vs where "xs = us @ x # vs" "\<forall>u \<in> set us. f u = None" "f x = Some y"
        by blast
      with None show ?l by (intro exI [of _ "a # us"] exI [of _ x] exI [of _ vs]) simp
    qed
    with None Cons show ?thesis by simp
  next
    case (Some z)
    then show ?thesis
      by (auto simp: Cons_eq_append_conv intro: exI [of _ "[]"])
  qed
qed

text \<open>Joining with a separator: Rust's \<open>join\<close>.\<close>

fun join :: "string \<Rightarrow> string list \<Rightarrow> string" where
  "join sep [] = []"
| "join sep [x] = x"
| "join sep (x # y # ys) = x @ sep @ join sep (y # ys)"

text \<open>The UTF-8 bytes of an em dash, and the quoting of a name in back ticks.\<close>

definition em_dash :: string where
  "em_dash = [CHR 0xE2, CHR 0x80, CHR 0x94]"

definition ticked :: "string \<Rightarrow> string" where
  "ticked s = ''`'' @ s @ ''`''"

text \<open>\<open>trim_end_matches(c)\<close> and \<open>replace(c, d)\<close> on single characters.\<close>

definition trim_end :: "char \<Rightarrow> string \<Rightarrow> string" where
  "trim_end c s = rev (dropWhile (\<lambda>x. x = c) (rev s))"

definition replace_char :: "char \<Rightarrow> char \<Rightarrow> string \<Rightarrow> string" where
  "replace_char c d s = map (\<lambda>x. if x = c then d else x) s"

section \<open>Decimal rendering\<close>

text \<open>\<open>format!("{n}")\<close> on an unsigned integer.\<close>

definition digit_char :: "nat \<Rightarrow> char" where
  "digit_char d = char_of (48 + d)"

fun show_nat :: "nat \<Rightarrow> string" where
  "show_nat n = (if n < 10 then [digit_char n] else show_nat (n div 10) @ [digit_char (n mod 10)])"

declare show_nat.simps [simp del]

lemma show_nat_not_Nil [simp]: "show_nat n \<noteq> []"
  by (subst show_nat.simps) simp

section \<open>Integer casts and machine arithmetic\<close>

text \<open>Rust's \<open>x as i64\<close> on a \<open>u64\<close> and \<open>x as u32\<close> on a \<open>usize\<close>; \<open>usize\<close> is 64 bits wide.\<close>

definition as_i64 :: "nat \<Rightarrow> int" where
  "as_i64 n = (if n mod 2 ^ 64 < 2 ^ 63 then int (n mod 2 ^ 64) else int (n mod 2 ^ 64) - 2 ^ 64)"

definition sat_add :: "nat \<Rightarrow> nat \<Rightarrow> nat" where
  "sat_add a b = min (a + b) (2 ^ 64 - 1)"

definition wrap_mul :: "nat \<Rightarrow> nat \<Rightarrow> nat" where
  "wrap_mul a b = (a * b) mod 2 ^ 64"

lemma as_i64_small: "n < 2 ^ 63 \<Longrightarrow> as_i64 n = int n"
  by (simp add: as_i64_def)

section \<open>JSON values\<close>

text \<open>
  \<open>serde_json::Value\<close>. The crate is built without \<open>preserve_order\<close>, so an object is a
  \<open>BTreeMap\<close>: its entries are kept sorted by key. Floats are opaque 64-bit patterns.
\<close>

datatype json =
    JNull
  | JBool bool
  | JInt int
  | JFloat u64
  | JString string
  | JArray "json list"
  | JObject "(string \<times> json) list"

definition json_get :: "string \<Rightarrow> json \<Rightarrow> json option" where
  "json_get k v = (case v of JObject kvs \<Rightarrow> map_of kvs k | _ \<Rightarrow> None)"

fun json_as_str :: "json \<Rightarrow> string option" where
  "json_as_str (JString s) = Some s"
| "json_as_str _ = None"

fun json_as_bool :: "json \<Rightarrow> bool option" where
  "json_as_bool (JBool b) = Some b"
| "json_as_bool _ = None"

fun json_as_u64 :: "json \<Rightarrow> nat option" where
  "json_as_u64 (JInt n) = (if 0 \<le> n \<and> n < 2 ^ 64 then Some (nat n) else None)"
| "json_as_u64 _ = None"

fun json_as_i64 :: "json \<Rightarrow> int option" where
  "json_as_i64 (JInt n) = (if - (2 ^ 63) \<le> n \<and> n < 2 ^ 63 then Some n else None)"
| "json_as_i64 _ = None"

fun json_as_array :: "json \<Rightarrow> json list option" where
  "json_as_array (JArray xs) = Some xs"
| "json_as_array _ = None"

text \<open>\<open>value[key] = v\<close> on an object that has the key.\<close>

fun assoc_set :: "string \<Rightarrow> 'v \<Rightarrow> (string \<times> 'v) list \<Rightarrow> (string \<times> 'v) list" where
  "assoc_set k v [] = []"
| "assoc_set k v ((j, w) # kvs) = (if j = k then (j, v) # kvs else (j, w) # assoc_set k v kvs)"

fun json_set :: "string \<Rightarrow> json \<Rightarrow> json \<Rightarrow> json" where
  "json_set k v (JObject kvs) = JObject (assoc_set k v kvs)"
| "json_set k v j = j"

lemma map_of_assoc_set:
  "map_of (assoc_set k v kvs) = (if k \<in> fst ` set kvs then (map_of kvs)(k \<mapsto> v) else map_of kvs)"
proof (induction kvs)
  case (Cons x kvs)
  then show ?case by (cases x) (auto simp: fun_eq_iff)
qed simp

lemma json_get_set:
  "json_get j (json_set k v x) =
    (if j = k \<and> json_get k x \<noteq> None then Some v else json_get j x)"
proof (cases x)
  case (JObject kvs)
  have "k \<in> fst ` set kvs \<longleftrightarrow> map_of kvs k \<noteq> None" by (metis map_of_eq_None_iff)
  with JObject show ?thesis by (auto simp: json_get_def map_of_assoc_set)
qed (auto simp: json_get_def)

section \<open>Ordered maps\<close>

fun btree_insert :: "'k::linorder \<Rightarrow> 'v \<Rightarrow> ('k \<times> 'v) list \<Rightarrow> ('k \<times> 'v) list" where
  "btree_insert k v [] = [(k, v)]"
| "btree_insert k v ((j, w) # kvs) =
     (if k < j then (k, v) # (j, w) # kvs
      else if k = j then (j, v) # kvs
      else (j, w) # btree_insert k v kvs)"

definition btree_collect :: "('k::linorder \<times> 'v) list \<Rightarrow> ('k \<times> 'v) list" where
  "btree_collect kvs = fold (\<lambda>(k, v). btree_insert k v) kvs []"

lemma set_btree_insert:
  "x \<in> set (btree_insert k v kvs) \<Longrightarrow> x = (k, v) \<or> x \<in> set kvs"
  by (induction k v kvs rule: btree_insert.induct) (auto split: if_splits)

lemma set_btree_collect: "x \<in> set (btree_collect kvs) \<Longrightarrow> x \<in> set kvs"
proof -
  have "x \<in> set (fold (\<lambda>(k, v). btree_insert k v) kvs acc) \<Longrightarrow> x \<in> set kvs \<union> set acc" for acc
    by (induction kvs arbitrary: acc) (auto dest: set_btree_insert)
  then show "x \<in> set (btree_collect kvs) \<Longrightarrow> x \<in> set kvs"
    by (fastforce simp: btree_collect_def)
qed

lemma map_of_btree_insert [simp]: "map_of (btree_insert k v kvs) = (map_of kvs)(k \<mapsto> v)"
  by (induction k v kvs rule: btree_insert.induct) (auto simp: fun_eq_iff)

lemma btree_insert_keys: "set (map fst (btree_insert k v kvs)) = insert k (set (map fst kvs))"
  by (induction k v kvs rule: btree_insert.induct) auto

lemma btree_insert_sorted:
  "sorted_wrt (<) (map fst kvs) \<Longrightarrow> sorted_wrt (<) (map fst (btree_insert k v kvs))"
proof (induction k v kvs rule: btree_insert.induct)
  case (2 k v j w kvs)
  have "fst ` set (btree_insert k v kvs) = insert k (fst ` set kvs)"
    using btree_insert_keys [of k v kvs] by simp
  then have "\<forall>x \<in> set (btree_insert k v kvs). fst x = k \<or> fst x \<in> fst ` set kvs" by auto
  then have "j < k \<Longrightarrow> (\<forall>x \<in> set kvs. j < fst x) \<Longrightarrow> \<forall>x \<in> set (btree_insert k v kvs). j < fst x" by fastforce
  with 2 show ?case by (auto intro: less_trans)
qed simp

section \<open>Substrings\<close>

definition ascii_lower :: "char \<Rightarrow> char" where
  "ascii_lower c = (if 65 \<le> (of_char c :: nat) \<and> (of_char c :: nat) \<le> 90
     then char_of ((of_char c :: nat) + 32) else c)"

definition lower_case :: "string \<Rightarrow> string" where
  "lower_case s = map ascii_lower s"

fun starts_with :: "string \<Rightarrow> string \<Rightarrow> bool" where
  "starts_with [] s = True"
| "starts_with (p # ps) [] = False"
| "starts_with (p # ps) (c # cs) = (p = c \<and> starts_with ps cs)"

fun contains_str :: "string \<Rightarrow> string \<Rightarrow> bool" where
  "contains_str p [] = (p = [])"
| "contains_str p (c # cs) = (starts_with p (c # cs) \<or> contains_str p cs)"

lemma starts_with_iff: "starts_with p s \<longleftrightarrow> (\<exists>v. s = p @ v)"
  by (induction p s rule: starts_with.induct) auto

lemma contains_str_iff: "contains_str p s \<longleftrightarrow> (\<exists>u v. s = u @ p @ v)"
proof (induction s)
  case Nil
  then show ?case by simp
next
  case (Cons c cs)
  have "(\<exists>u v. c # cs = u @ p @ v) \<longleftrightarrow> (\<exists>v. c # cs = p @ v) \<or> (\<exists>u v. cs = u @ p @ v)"
  proof
    assume "\<exists>u v. c # cs = u @ p @ v"
    then obtain u v where "c # cs = u @ p @ v" by blast
    then show "(\<exists>v. c # cs = p @ v) \<or> (\<exists>u v. cs = u @ p @ v)" by (cases u) auto
  next
    assume "(\<exists>v. c # cs = p @ v) \<or> (\<exists>u v. cs = u @ p @ v)"
    then show "\<exists>u v. c # cs = u @ p @ v" by (metis append_Cons append_Nil)
  qed
  then show ?case using Cons by (simp add: starts_with_iff)
qed

end
