(* ===== verification/Agent_State.thy ===== *)
theory Agent_State
  imports Prelude
begin

text \<open>
  The agent state machine of \<open>crates/valyria-types/src/state.rs\<close> (the fourteen states, the
  table of domain edges, the universal interrupts) and the text encoding of states and control
  signals of \<open>crates/valyria-task/src/codec.rs\<close>. \<open>agent_step\<close> is the graph of legal edges as
  a step relation, \<open>walk\<close> its paths; the task manager adds the resume rule on top
  (\<open>Task_Manager\<close>).
\<close>

section \<open>States and edges\<close>

datatype agent_state =
    Idle | Understanding | Discovery | Planning | Implementing | Verifying | Diagnosing
  | Repairing | WaitingForPermission | WaitingForUser | Paused | Completed | Failed | Cancelled

definition all_states :: "agent_state list" where
  "all_states = [Idle, Understanding, Discovery, Planning, Implementing, Verifying, Diagnosing,
     Repairing, WaitingForPermission, WaitingForUser, Paused, Completed, Failed, Cancelled]"

fun is_terminal :: "agent_state \<Rightarrow> bool" where
  "is_terminal Completed = True"
| "is_terminal Failed = True"
| "is_terminal Cancelled = True"
| "is_terminal _ = False"

fun domain_edges :: "agent_state \<Rightarrow> agent_state list" where
  "domain_edges Idle = [Understanding]"
| "domain_edges Understanding = [Discovery, WaitingForUser]"
| "domain_edges Discovery = [Planning, Understanding, WaitingForUser]"
| "domain_edges Planning = [Implementing, WaitingForPermission]"
| "domain_edges Implementing = [Verifying, WaitingForPermission, WaitingForUser]"
| "domain_edges Verifying = [Completed, Diagnosing]"
| "domain_edges Diagnosing = [Repairing, WaitingForUser, Failed]"
| "domain_edges Repairing = [Verifying, WaitingForUser]"
| "domain_edges WaitingForPermission = [Implementing, Planning, Failed]"
| "domain_edges WaitingForUser = [Understanding, Implementing, Diagnosing, Repairing]"
| "domain_edges Paused =
     [Idle, Understanding, Discovery, Planning, Implementing, Verifying, Diagnosing, Repairing,
      WaitingForPermission, WaitingForUser]"
| "domain_edges Completed = []"
| "domain_edges Failed = []"
| "domain_edges Cancelled = []"

definition can_transition_to :: "agent_state \<Rightarrow> agent_state \<Rightarrow> bool" where
  "can_transition_to s t =
     (if is_terminal s then False
      else if t \<in> set (domain_edges s) then True
      else if t = s then False
      else if t = Paused \<or> t = Cancelled then True
      else if t = Failed \<and> s \<noteq> Paused then True
      else False)"

lemma all_states_complete: "set all_states = UNIV"
proof -
  have "s \<in> set all_states" for s
    by (cases s) (simp_all add: all_states_def)
  then show ?thesis by auto
qed

section \<open>Facts on single edges\<close>

lemma terminal_iff: "is_terminal s \<longleftrightarrow> s = Completed \<or> s = Failed \<or> s = Cancelled"
  by (cases s) simp_all

lemma terminal_no_edge [simp]: "is_terminal s \<Longrightarrow> \<not> can_transition_to s t"
  by (simp add: can_transition_to_def)

lemma no_self_edge: "\<not> can_transition_to s s"
  by (cases s) (simp_all add: can_transition_to_def)

lemma edge_to_Completed: "can_transition_to s Completed \<longleftrightarrow> s = Verifying"
  by (cases s) (simp_all add: can_transition_to_def)

lemma edge_to_Failed:
  "can_transition_to s Failed \<longleftrightarrow> \<not> is_terminal s \<and> s \<noteq> Paused"
  by (cases s) (simp_all add: can_transition_to_def)

lemma edge_to_Cancelled: "can_transition_to s Cancelled \<longleftrightarrow> \<not> is_terminal s"
  by (cases s) (simp_all add: can_transition_to_def)

lemma edge_to_Paused: "can_transition_to s Paused \<longleftrightarrow> \<not> is_terminal s \<and> s \<noteq> Paused"
  by (cases s) (simp_all add: can_transition_to_def)

lemma edge_from_Paused:
  "can_transition_to Paused t \<longleftrightarrow> t \<noteq> Paused \<and> (t = Cancelled \<or> \<not> is_terminal t)"
  by (cases t) (simp_all add: can_transition_to_def)

lemmas edge_simps = edge_to_Completed edge_to_Failed edge_to_Cancelled edge_to_Paused
  edge_from_Paused terminal_no_edge

section \<open>Walks\<close>

inductive walk :: "agent_state \<Rightarrow> agent_state list \<Rightarrow> agent_state \<Rightarrow> bool" where
  walk_Nil: "walk s [] s"
| walk_snoc: "walk s ps t \<Longrightarrow> can_transition_to t u \<Longrightarrow> walk s (ps @ [t]) u"

inductive_cases walk_snocE: "walk s (ps @ [t]) u"
inductive_simps walk_Nil_iff [simp]: "walk s [] t"

text \<open>A task that has completed was verified: on every legal walk that ends in
  \<open>Completed\<close> and started elsewhere, the state just before it is \<open>Verifying\<close>. Neither an
  interrupt nor a resume opens another way in.\<close>

theorem completed_only_after_verifying:
  assumes "walk s ps Completed" and "s \<noteq> Completed"
  shows "ps \<noteq> [] \<and> last ps = Verifying"
  using assms
proof (cases rule: walk.cases)
  case walk_Nil
  with assms(2) show ?thesis by simp
next
  case (walk_snoc qs t)
  then show ?thesis by (simp add: edge_to_Completed)
qed

theorem completed_only_after_verifying_witness:
  "last [Idle, Understanding, Discovery, Planning, Implementing, Verifying] = Verifying"
proof -
  have "walk Idle [] Idle" by simp
  then have "walk Idle ([] @ [Idle]) Understanding"
    by (rule walk_snoc) (simp add: can_transition_to_def)
  then have "walk Idle (([] @ [Idle]) @ [Understanding]) Discovery"
    by (rule walk_snoc) (simp add: can_transition_to_def)
  then have "walk Idle ((([] @ [Idle]) @ [Understanding]) @ [Discovery]) Planning"
    by (rule walk_snoc) (simp add: can_transition_to_def)
  then have "walk Idle (((([] @ [Idle]) @ [Understanding]) @ [Discovery]) @ [Planning])
      Implementing"
    by (rule walk_snoc) (simp add: can_transition_to_def)
  then have "walk Idle ((((([] @ [Idle]) @ [Understanding]) @ [Discovery]) @ [Planning])
      @ [Implementing]) Verifying"
    by (rule walk_snoc) (simp add: can_transition_to_def)
  then have "walk Idle (((((([] @ [Idle]) @ [Understanding]) @ [Discovery]) @ [Planning])
      @ [Implementing]) @ [Verifying]) Completed"
    by (rule walk_snoc) (simp add: can_transition_to_def)
  from completed_only_after_verifying [OF this] show ?thesis by simp
qed

text \<open>Every state an interrupted task can be in still has a terminal successor.\<close>

lemma terminal_in_one_step: "\<not> is_terminal s \<Longrightarrow> \<exists>t. is_terminal t \<and> can_transition_to s t"
  by (rule exI [of _ Cancelled]) (simp add: edge_to_Cancelled)

lemma walk_from_terminal: "walk s ps t \<Longrightarrow> is_terminal s \<Longrightarrow> ps = [] \<and> t = s"
  by (induction rule: walk.induct) (auto simp: can_transition_to_def)

section \<open>Text encoding\<close>

fun show_state :: "agent_state \<Rightarrow> string" where
  "show_state Idle = ''IDLE''"
| "show_state Understanding = ''UNDERSTANDING''"
| "show_state Discovery = ''DISCOVERY''"
| "show_state Planning = ''PLANNING''"
| "show_state Implementing = ''IMPLEMENTING''"
| "show_state Verifying = ''VERIFYING''"
| "show_state Diagnosing = ''DIAGNOSING''"
| "show_state Repairing = ''REPAIRING''"
| "show_state WaitingForPermission = ''WAITING_FOR_PERMISSION''"
| "show_state WaitingForUser = ''WAITING_FOR_USER''"
| "show_state Paused = ''PAUSED''"
| "show_state Completed = ''COMPLETED''"
| "show_state Failed = ''FAILED''"
| "show_state Cancelled = ''CANCELLED''"

definition state_to_text :: "agent_state \<Rightarrow> string" where
  "state_to_text s = show_state s"

definition state_from_text :: "string \<Rightarrow> agent_state option" where
  "state_from_text s =
     (if s = ''IDLE'' then Some Idle
      else if s = ''UNDERSTANDING'' then Some Understanding
      else if s = ''DISCOVERY'' then Some Discovery
      else if s = ''PLANNING'' then Some Planning
      else if s = ''IMPLEMENTING'' then Some Implementing
      else if s = ''VERIFYING'' then Some Verifying
      else if s = ''DIAGNOSING'' then Some Diagnosing
      else if s = ''REPAIRING'' then Some Repairing
      else if s = ''WAITING_FOR_PERMISSION'' then Some WaitingForPermission
      else if s = ''WAITING_FOR_USER'' then Some WaitingForUser
      else if s = ''PAUSED'' then Some Paused
      else if s = ''COMPLETED'' then Some Completed
      else if s = ''FAILED'' then Some Failed
      else if s = ''CANCELLED'' then Some Cancelled
      else None)"

datatype control_signal = PauseRequested | CancelRequested

fun signal_to_text :: "control_signal \<Rightarrow> string" where
  "signal_to_text PauseRequested = ''PAUSE''"
| "signal_to_text CancelRequested = ''CANCEL''"

definition signal_from_text :: "string \<Rightarrow> control_signal option" where
  "signal_from_text s =
     (if s = ''PAUSE'' then Some PauseRequested
      else if s = ''CANCEL'' then Some CancelRequested
      else None)"

lemma state_text_roundtrip [simp]: "state_from_text (state_to_text s) = Some s"
  by (cases s) (simp_all add: state_from_text_def state_to_text_def)

lemma signal_text_roundtrip [simp]: "signal_from_text (signal_to_text c) = Some c"
  by (cases c) (simp_all add: signal_from_text_def)

text \<open>The column values of the task table are an exact code for the states: a text decodes
  to a state if and only if it is that state's encoding, so no two texts and no two states are
  confused, and every other text is rejected as corrupt.\<close>

theorem state_text_exact: "state_from_text x = Some s \<longleftrightarrow> x = state_to_text s"
proof
  assume "state_from_text x = Some s"
  then show "x = state_to_text s"
    by (auto simp: state_from_text_def state_to_text_def split: if_splits)
next
  assume "x = state_to_text s"
  then show "state_from_text x = Some s" by simp
qed

end
