(* ===== verification/Seq_Log.thy ===== *)
theory Seq_Log
  imports Prelude
begin

text \<open>
  The append-only, sequenced tables of \<open>workspace.db\<close> that the runtime replays: \<open>events\<close>
  (\<open>crates/valyria-events/src/bus.rs\<close>) and \<open>task_journal\<close>
  (\<open>crates/valyria-task/src/migrations.rs\<close>), both with an \<open>INTEGER PRIMARY KEY AUTOINCREMENT\<close>
  column \<open>seq\<close>. \<open>seq_table\<close> is such a table with the operations the SQL of both crates uses:
  an insert that returns the new row id, and \<open>WHERE seq > ? ORDER BY seq ASC\<close>.

  The locale \<open>seq_log\<close> is the contract its clients rely on; the lemmas on cursors (what a reader
  that remembers the last sequence number it saw gets back) are proved from it once.
\<close>

section \<open>The contract\<close>

locale seq_log =
  fixes append :: "'e \<Rightarrow> 's \<Rightarrow> 's"
    and entries :: "'s \<Rightarrow> (nat \<times> 'e) list"
    and next_seq :: "'s \<Rightarrow> nat"
    and ok :: "'s \<Rightarrow> bool"
  assumes ok_append: "ok s \<Longrightarrow> ok (append e s)"
    and entries_append: "entries (append e s) = entries s @ [(next_seq s, e)]"
    and seq_below_next: "ok s \<Longrightarrow> x \<in> set (entries s) \<Longrightarrow> fst x < next_seq s"
    and seq_increasing: "ok s \<Longrightarrow> sorted_wrt (<) (map fst (entries s))"
begin

definition since :: "nat \<Rightarrow> 's \<Rightarrow> (nat \<times> 'e) list" where
  "since k s = filter (\<lambda>x. k < fst x) (entries s)"

lemma since_append:
  "since k (append e s) = since k s @ (if k < next_seq s then [(next_seq s, e)] else [])"
  by (simp add: since_def entries_append)

lemma since_set: "x \<in> set (since k s) \<longleftrightarrow> x \<in> set (entries s) \<and> k < fst x"
  by (auto simp: since_def)

lemma distinct_seqs: "ok s \<Longrightarrow> distinct (map fst (entries s))"
  using seq_increasing [of s] by (simp add: strict_sorted_iff)

lemma since_sorted: "ok s \<Longrightarrow> sorted_wrt (<) (map fst (since k s))"
  using seq_increasing [of s] by (simp add: since_def sorted_wrt_map sorted_wrt_filter)

text \<open>A reader that has been given the entries after \<open>k\<close> up to the cursor \<open>c\<close> and asks again
  with \<open>c\<close> gets exactly the rest: nothing twice, nothing lost.\<close>

lemma cursor_split_filter:
  assumes "sorted_wrt (<) (map fst (xs :: (nat \<times> 'e) list))" and "k \<le> c"
  shows "filter (\<lambda>x. k < fst x \<and> fst x \<le> c) xs @ filter (\<lambda>x. c < fst x) xs
    = filter (\<lambda>x. k < fst x) xs"
  using assms
proof (induction xs)
  case Nil
  then show ?case by simp
next
  case (Cons x xs)
  show ?case
  proof (cases "fst x \<le> c")
    case True
    with Cons show ?thesis by auto
  next
    case False
    then have "filter (\<lambda>y. k < fst y \<and> fst y \<le> c) xs = []"
      using Cons.prems by (auto simp: filter_empty_conv)
    with False Cons show ?thesis by auto
  qed
qed

lemma cursor_split:
  assumes "ok s" and "k \<le> c"
  shows "filter (\<lambda>x. fst x \<le> c) (since k s) @ since c s = since k s"
proof -
  have "filter (\<lambda>x. fst x \<le> c) (since k s) = filter (\<lambda>x. k < fst x \<and> fst x \<le> c) (entries s)"
    by (simp add: since_def)
  then show ?thesis
    using cursor_split_filter [OF seq_increasing [OF assms(1)] assms(2)] by (simp add: since_def)
qed

lemma ok_fold: "ok s \<Longrightarrow> ok (fold append es s)"
  by (induction es arbitrary: s) (auto intro: ok_append)

text \<open>Appending never changes what was there: the log of an older state is a prefix.\<close>

lemma entries_fold: "\<exists>ys. entries (fold append es s) = entries s @ ys \<and> map snd ys = es"
proof (induction es arbitrary: s)
  case Nil
  then show ?case by simp
next
  case (Cons e es)
  from Cons.IH [of "append e s"] obtain ys where
    "entries (fold append es (append e s)) = entries (append e s) @ ys" "map snd ys = es"
    by blast
  then show ?case by (auto simp: entries_append)
qed

end

section \<open>The table\<close>

record 'e seq_table =
  rows :: "(nat \<times> 'e) list"
  autoinc :: nat  \<comment> \<open>the largest row id ever used\<close>

definition empty_table :: "'e seq_table" where
  "empty_table = \<lparr>rows = [], autoinc = 0\<rparr>"

definition insert_row :: "'e \<Rightarrow> 'e seq_table \<Rightarrow> 'e seq_table" where
  "insert_row e t = t\<lparr>rows := rows t @ [(Suc (autoinc t), e)], autoinc := Suc (autoinc t)\<rparr>"

definition last_insert_rowid :: "'e seq_table \<Rightarrow> nat" where
  "last_insert_rowid t = autoinc t"

definition table_ok :: "'e seq_table \<Rightarrow> bool" where
  "table_ok t \<longleftrightarrow> sorted_wrt (<) (map fst (rows t)) \<and> (\<forall>x \<in> set (rows t). fst x \<le> autoinc t)"

text \<open>\<open>SELECT \<dots> WHERE seq > ?k ORDER BY seq ASC\<close>, with the bound already cast to \<open>i64\<close>.\<close>

definition rows_after :: "int \<Rightarrow> 'e seq_table \<Rightarrow> (nat \<times> 'e) list" where
  "rows_after k t = filter (\<lambda>x. k < int (fst x)) (rows t)"

lemma table_ok_empty [simp]: "table_ok empty_table"
  by (simp add: table_ok_def empty_table_def)

lemma rows_insert_row [simp]: "rows (insert_row e t) = rows t @ [(Suc (autoinc t), e)]"
  by (simp add: insert_row_def)

lemma autoinc_insert_row [simp]: "autoinc (insert_row e t) = Suc (autoinc t)"
  by (simp add: insert_row_def)

lemma table_ok_insert_row [keeps]: "table_ok t \<Longrightarrow> table_ok (insert_row e t)"
  by (fastforce simp: table_ok_def sorted_wrt_append)

interpretation tab: seq_log insert_row rows "\<lambda>t. Suc (autoinc t)" table_ok
  by unfold_locales (auto simp: table_ok_insert_row less_Suc_eq_le, auto simp: table_ok_def)

lemma rows_after_since: "k < 2 ^ 63 \<Longrightarrow> rows_after (as_i64 k) t = tab.since k t"
  by (simp add: rows_after_def tab.since_def as_i64_small)

end
