(* ===== verification/Event_Bus.thy ===== *)
theory Event_Bus
  imports Seq_Log
begin

text \<open>
  The durable event bus of \<open>crates/valyria-events\<close>: the event kinds and their wire names
  (\<open>kind.rs\<close>), the envelope (\<open>envelope.rs\<close>) and the bus itself (\<open>bus.rs\<close>): \<open>append\<close> writes the row
  before it broadcasts, \<open>replay_since\<close> reads the rows after a cursor, a subscription joins the
  backlog to the live channel and drops what it delivered already.

  The live channel is tokio's broadcast channel: what it does to a receiver is an explicit queue
  of items (an event, the lag marker, closed), which the environment fills; \<open>live_sent\<close> records
  what the bus has sent. A receiver that would block is the value \<open>None\<close>.
\<close>

section \<open>Event kinds\<close>

datatype event_kind =
    EvTaskStarted | EvPlanCreated | EvContextRetrieved | EvModelStarted | EvModelCompleted
  | EvToolStarted | EvToolCompleted | EvFileChanged | EvTestStarted | EvTestPassed
  | EvTestFailed | EvApprovalRequested | EvTaskPaused | EvTaskCompleted | EvTaskFailed
  | EvStateChanged | EvProgressStalled | EvExternalChangeDetected | EvVerificationEvidence
  | EvMemoryWritten | EvResourcePressure | EvPlanCheckpoint | EvModelInstallProgress
  | EvModelInstallCompleted | EvModelInstallFailed | EvEngineInstallProgress
  | EvEngineInstallCompleted | EvEngineInstallFailed | EvModelServerStarting
  | EvModelServerReady | EvModelServerFailed | EvModelServerStopped | EvSubtaskStarted
  | EvSubtaskCompleted | EvArtifactPublished | EvModelLoaded | EvModelEvicted

definition all_kinds :: "event_kind list" where
  "all_kinds = [
     EvTaskStarted, EvPlanCreated, EvContextRetrieved, EvModelStarted, EvModelCompleted,
     EvToolStarted, EvToolCompleted, EvFileChanged, EvTestStarted, EvTestPassed, EvTestFailed,
     EvApprovalRequested, EvTaskPaused, EvTaskCompleted, EvTaskFailed, EvStateChanged,
     EvProgressStalled, EvExternalChangeDetected, EvVerificationEvidence, EvMemoryWritten,
     EvResourcePressure, EvPlanCheckpoint, EvModelInstallProgress, EvModelInstallCompleted,
     EvModelInstallFailed, EvEngineInstallProgress, EvEngineInstallCompleted,
     EvEngineInstallFailed, EvModelServerStarting, EvModelServerReady, EvModelServerFailed,
     EvModelServerStopped, EvSubtaskStarted, EvSubtaskCompleted, EvArtifactPublished,
     EvModelLoaded, EvModelEvicted]"

fun kind_str :: "event_kind \<Rightarrow> string" where
  "kind_str EvTaskStarted = ''task_started''"
| "kind_str EvPlanCreated = ''plan_created''"
| "kind_str EvContextRetrieved = ''context_retrieved''"
| "kind_str EvModelStarted = ''model_started''"
| "kind_str EvModelCompleted = ''model_completed''"
| "kind_str EvToolStarted = ''tool_started''"
| "kind_str EvToolCompleted = ''tool_completed''"
| "kind_str EvFileChanged = ''file_changed''"
| "kind_str EvTestStarted = ''test_started''"
| "kind_str EvTestPassed = ''test_passed''"
| "kind_str EvTestFailed = ''test_failed''"
| "kind_str EvApprovalRequested = ''approval_requested''"
| "kind_str EvTaskPaused = ''task_paused''"
| "kind_str EvTaskCompleted = ''task_completed''"
| "kind_str EvTaskFailed = ''task_failed''"
| "kind_str EvStateChanged = ''state_changed''"
| "kind_str EvProgressStalled = ''progress_stalled''"
| "kind_str EvExternalChangeDetected = ''external_change_detected''"
| "kind_str EvVerificationEvidence = ''verification_evidence''"
| "kind_str EvMemoryWritten = ''memory_written''"
| "kind_str EvResourcePressure = ''resource_pressure''"
| "kind_str EvPlanCheckpoint = ''plan_checkpoint''"
| "kind_str EvModelInstallProgress = ''model_install_progress''"
| "kind_str EvModelInstallCompleted = ''model_install_completed''"
| "kind_str EvModelInstallFailed = ''model_install_failed''"
| "kind_str EvEngineInstallProgress = ''engine_install_progress''"
| "kind_str EvEngineInstallCompleted = ''engine_install_completed''"
| "kind_str EvEngineInstallFailed = ''engine_install_failed''"
| "kind_str EvModelServerStarting = ''model_server_starting''"
| "kind_str EvModelServerReady = ''model_server_ready''"
| "kind_str EvModelServerFailed = ''model_server_failed''"
| "kind_str EvModelServerStopped = ''model_server_stopped''"
| "kind_str EvSubtaskStarted = ''subtask_started''"
| "kind_str EvSubtaskCompleted = ''subtask_completed''"
| "kind_str EvArtifactPublished = ''artifact_published''"
| "kind_str EvModelLoaded = ''model_loaded''"
| "kind_str EvModelEvicted = ''model_evicted''"

text \<open>Decoding a stored kind: serde's snake-case names are those of \<open>as_str\<close>.\<close>

definition kind_from_str :: "string \<Rightarrow> event_kind option" where
  "kind_from_str s = find (\<lambda>k. kind_str k = s) all_kinds"

lemma kind_roundtrip [simp]: "kind_from_str (kind_str k) = Some k"
  by (cases k) (simp_all add: kind_from_str_def all_kinds_def)

section \<open>Rows and envelopes\<close>

record envelope =
  env_seq :: nat
  env_id :: event_id
  env_task :: "task_id option"
  env_ts :: timestamp
  env_span :: "string option"
  env_kind :: event_kind
  env_payload :: json

record new_event =
  ne_task :: "task_id option"
  ne_span :: "string option"
  ne_kind :: event_kind
  ne_payload :: json

definition new_event_for :: "event_kind \<Rightarrow> json \<Rightarrow> new_event" where
  "new_event_for k v = \<lparr>ne_task = None, ne_span = None, ne_kind = k, ne_payload = v\<rparr>"

definition for_task :: "task_id \<Rightarrow> new_event \<Rightarrow> new_event" where
  "for_task t e = e\<lparr>ne_task := Some t\<rparr>"

record event_row =
  er_id :: event_id
  er_task :: "task_id option"
  er_ts :: timestamp
  er_span :: "string option"
  er_kind :: string
  er_payload :: json

datatype events_error = EvStoreError | EvShutDown | EvCorrupt string

definition row_to_envelope :: "nat \<times> event_row \<Rightarrow> events_error + envelope" where
  "row_to_envelope x =
     (let (q, r) = x in
      case kind_from_str (er_kind r) of
        None \<Rightarrow> Inl (EvCorrupt (''unknown event kind '' @ er_kind r))
      | Some k \<Rightarrow> Inr \<lparr>env_seq = q, env_id = er_id r, env_task = er_task r, env_ts = er_ts r,
          env_span = er_span r, env_kind = k, env_payload = er_payload r\<rparr>)"

section \<open>The bus\<close>

record event_bus =
  db :: "event_row seq_table"
  live_sent :: "envelope list"

definition append_event ::
  "event_id \<Rightarrow> timestamp \<Rightarrow> new_event \<Rightarrow> event_bus \<Rightarrow> envelope \<times> event_bus" where
  "append_event i ts e b =
     (let db' = insert_row \<lparr>er_id = i, er_task = ne_task e, er_ts = ts, er_span = ne_span e,
            er_kind = kind_str (ne_kind e), er_payload = ne_payload e\<rparr> (db b);
          env = \<lparr>env_seq = last_insert_rowid db', env_id = i, env_task = ne_task e, env_ts = ts,
            env_span = ne_span e, env_kind = ne_kind e, env_payload = ne_payload e\<rparr>
      in (env, b\<lparr>db := db', live_sent := live_sent b @ [env]\<rparr>))"

definition replay_since :: "nat \<Rightarrow> event_bus \<Rightarrow> events_error + envelope list" where
  "replay_since k b = collect (map row_to_envelope (rows_after (as_i64 k) (db b)))"

datatype live_item = LiveEvent envelope | LiveLagged | LiveClosed

record subscription =
  backlog :: "envelope list"
  live :: "live_item list"
  last_delivered :: nat

text \<open>What the channel has for a receiver that subscribed when the bus was \<open>b\<close> and reads when
  it is \<open>b'\<close>.\<close>

definition sent_between :: "event_bus \<Rightarrow> event_bus \<Rightarrow> live_item list" where
  "sent_between b b' = map LiveEvent (drop (length (live_sent b)) (live_sent b'))"

text \<open>The live receiver is created in \<open>b\<close>, the backlog is read in \<open>b'\<close>: events may be appended
  in between.\<close>

definition subscribe_since ::
  "nat \<Rightarrow> event_bus \<Rightarrow> event_bus \<Rightarrow> events_error + subscription" where
  "subscribe_since k b b' =
     (case replay_since k b' of
        Inl e \<Rightarrow> Inl e
      | Inr es \<Rightarrow> Inr \<lparr>backlog = es, live = sent_between b b', last_delivered = k\<rparr>)"

datatype delivery = DEvent envelope | DLagged nat

fun recv_live :: "nat \<Rightarrow> live_item list
    \<Rightarrow> (events_error + delivery) option \<times> nat \<times> live_item list" where
  "recv_live k [] = (None, k, [])"
| "recv_live k (LiveEvent e # q) =
     (if env_seq e \<le> k then recv_live k q
      else (Some (Inr (DEvent e)), env_seq e, q))"
| "recv_live k (LiveLagged # q) = (Some (Inr (DLagged k)), k, q)"
| "recv_live k (LiveClosed # q) = (Some (Inl EvShutDown), k, LiveClosed # q)"

definition recv :: "subscription \<Rightarrow> (events_error + delivery) option \<times> subscription" where
  "recv s =
     (case backlog s of
        e # es \<Rightarrow> (Some (Inr (DEvent e)), s\<lparr>backlog := es, last_delivered := env_seq e\<rparr>)
      | [] \<Rightarrow> (case recv_live (last_delivered s) (live s) of
          (r, k, q) \<Rightarrow> (r, s\<lparr>live := q, last_delivered := k\<rparr>)))"

section \<open>Draining a subscription\<close>

text \<open>A client that receives until the subscription blocks, lags or is shut down.\<close>

datatype stop = Blocked | LaggedAt nat | Down

lemma recv_live_length:
  "recv_live k q = (Some (Inr d), k', q') \<Longrightarrow> length q' < length q"
  by (induction k q rule: recv_live.induct) (auto split: if_splits)

function drain :: "subscription \<Rightarrow> envelope list \<times> stop" where
  "drain s =
     (case recv s of
        (None, _) \<Rightarrow> ([], Blocked)
      | (Some (Inl _), _) \<Rightarrow> ([], Down)
      | (Some (Inr (DLagged k)), _) \<Rightarrow> ([], LaggedAt k)
      | (Some (Inr (DEvent e)), s') \<Rightarrow> (case drain s' of (es, st) \<Rightarrow> (e # es, st)))"
  by pat_completeness auto
termination
  by (relation "measure (\<lambda>s. length (backlog s) + length (live s))")
    (auto simp: recv_def split: list.splits prod.splits dest: recv_live_length [OF sym]
      recv_live_length)

declare drain.simps [simp del]

fun drain_live :: "nat \<Rightarrow> live_item list \<Rightarrow> envelope list \<times> stop" where
  "drain_live k [] = ([], Blocked)"
| "drain_live k (LiveEvent e # q) =
     (if env_seq e \<le> k then drain_live k q
      else (case drain_live (env_seq e) q of (es, st) \<Rightarrow> (e # es, st)))"
| "drain_live k (LiveLagged # q) = ([], LaggedAt k)"
| "drain_live k (LiveClosed # q) = ([], Down)"

abbreviation sub_of :: "envelope list \<Rightarrow> live_item list \<Rightarrow> nat \<Rightarrow> subscription" where
  "sub_of es q k \<equiv> \<lparr>backlog = es, live = q, last_delivered = k\<rparr>"

lemma drain_no_backlog: "drain (sub_of [] q k) = drain_live k q"
proof (induction k q rule: drain_live.induct)
  case (2 k e q)
  show ?case
  proof (cases "env_seq e \<le> k")
    case True
    then have "recv (sub_of [] (LiveEvent e # q) k) = recv (sub_of [] q k)"
      by (simp add: recv_def)
    then have "drain (sub_of [] (LiveEvent e # q) k) = drain (sub_of [] q k)"
      by (metis drain.simps)
    with 2 True show ?thesis by simp
  next
    case False
    with 2 show ?thesis
      by (subst drain.simps) (simp add: recv_def)
  qed
qed (subst drain.simps, simp add: recv_def)+

lemma drain_backlog:
  "drain (sub_of es q k) =
     (case drain_live (if es = [] then k else env_seq (last es)) q of
        (ds, st) \<Rightarrow> (es @ ds, st))"
proof (induction es arbitrary: k)
  case Nil
  then show ?case by (simp add: drain_no_backlog)
next
  case (Cons e es)
  have "drain (sub_of (e # es) q k) = (case drain (sub_of es q (env_seq e)) of
      (ds, st) \<Rightarrow> (e # ds, st))"
    by (subst drain.simps) (simp add: recv_def)
  then show ?case using Cons [of "env_seq e"] by (simp split: prod.splits)
qed

lemma drain_live_events:
  "sorted_wrt (<) (map env_seq es) \<Longrightarrow>
     drain_live k (map LiveEvent es @ q) =
       (case drain_live (if filter (\<lambda>e. k < env_seq e) es = [] then k
            else env_seq (last es)) q of
          (ds, st) \<Rightarrow> (filter (\<lambda>e. k < env_seq e) es @ ds, st))"
proof (induction es arbitrary: k)
  case Nil
  then show ?case by simp
next
  case (Cons e es)
  have all: "\<forall>d \<in> set es. env_seq e < env_seq d" using Cons.prems by auto
  then have keep: "filter (\<lambda>d. env_seq e < env_seq d) es = es" by (simp add: filter_id_conv)
  show ?case
  proof (cases "env_seq e \<le> k")
    case True
    with Cons show ?thesis by auto
  next
    case False
    with all have "filter (\<lambda>d. k < env_seq d) es = es" by (auto simp: filter_id_conv)
    with False Cons keep show ?thesis by (auto split: prod.splits)
  qed
qed

section \<open>What the bus keeps\<close>

text \<open>A freshly migrated database and a bus opened on it.\<close>

definition empty_bus :: event_bus where
  "empty_bus = \<lparr>db = empty_table, live_sent = []\<rparr>"

text \<open>Every stored row decodes, and what was broadcast since this process started is the tail of
  the stored log.\<close>

definition decode :: "nat \<times> event_row \<Rightarrow> envelope" where
  "decode x = \<lparr>env_seq = fst x, env_id = er_id (snd x), env_task = er_task (snd x),
     env_ts = er_ts (snd x), env_span = er_span (snd x),
     env_kind = the (kind_from_str (er_kind (snd x))), env_payload = er_payload (snd x)\<rparr>"

definition history :: "event_bus \<Rightarrow> envelope list" where
  "history b = map decode (rows (db b))"

definition bus_ok :: "event_bus \<Rightarrow> bool" where
  "bus_ok b \<longleftrightarrow> table_ok (db b) \<and>
     (\<forall>x \<in> set (rows (db b)). kind_from_str (er_kind (snd x)) \<noteq> None) \<and>
     (\<exists>n. live_sent b = drop n (history b) \<and> n \<le> length (history b))"

fun append_all :: "(event_id \<times> timestamp \<times> new_event) list \<Rightarrow> event_bus \<Rightarrow> event_bus" where
  "append_all [] b = b"
| "append_all ((i, ts, e) # xs) b = append_all xs (snd (append_event i ts e b))"

lemma bus_ok_empty [simp]: "bus_ok empty_bus"
  by (simp add: bus_ok_def empty_bus_def history_def) (simp add: empty_table_def)

lemma env_seq_decode [simp]: "env_seq (decode x) = fst x"
  by (simp add: decode_def)

lemma row_to_envelope_decode:
  "kind_from_str (er_kind (snd x)) \<noteq> None \<Longrightarrow> row_to_envelope x = Inr (decode x)"
  by (auto simp: row_to_envelope_def decode_def split: prod.splits)

lemma history_append_event:
  "history (snd (append_event i ts e b)) = history b @ [fst (append_event i ts e b)]"
  by (simp add: history_def append_event_def Let_def decode_def last_insert_rowid_def)

lemma live_sent_append_event:
  "live_sent (snd (append_event i ts e b)) = live_sent b @ [fst (append_event i ts e b)]"
  by (simp add: append_event_def Let_def)

lemma bus_ok_append_event [keeps]: "bus_ok b \<Longrightarrow> bus_ok (snd (append_event i ts e b))"
proof -
  assume ok: "bus_ok b"
  then obtain n where n: "live_sent b = drop n (history b)" "n \<le> length (history b)"
    by (auto simp: bus_ok_def)
  have "table_ok (db (snd (append_event i ts e b)))"
    using ok by (simp add: bus_ok_def append_event_def Let_def table_ok_insert_row)
  moreover have "\<forall>x \<in> set (rows (db (snd (append_event i ts e b)))).
      kind_from_str (er_kind (snd x)) \<noteq> None"
    using ok by (auto simp: bus_ok_def append_event_def Let_def)
  moreover have "live_sent (snd (append_event i ts e b))
      = drop n (history (snd (append_event i ts e b)))"
    using n by (simp add: history_append_event live_sent_append_event)
  ultimately show ?thesis
    using n(2) unfolding bus_ok_def by (auto simp: history_append_event intro!: exI [of _ n])
qed

lemma bus_ok_append_all [keeps]: "bus_ok b \<Longrightarrow> bus_ok (append_all xs b)"
  by (induction xs b rule: append_all.induct) (auto intro: bus_ok_append_event)

text \<open>What is appended later extends the history and the broadcast by the same events.\<close>

lemma append_all_extends:
  "\<exists>es. history (append_all xs b) = history b @ es \<and> live_sent (append_all xs b) = live_sent b @ es"
proof (induction xs b rule: append_all.induct)
  case (1 b)
  then show ?case by simp
next
  case (2 i ts e xs b)
  then show ?case by (auto simp: history_append_event live_sent_append_event)
qed

lemma history_sorted: "bus_ok b \<Longrightarrow> sorted_wrt (<) (map env_seq (history b))"
  by (simp add: bus_ok_def table_ok_def history_def o_def)

lemma replay_since_history:
  assumes "bus_ok b" and "k < 2 ^ 63"
  shows "replay_since k b = Inr (filter (\<lambda>e. k < env_seq e) (history b))"
proof -
  have "replay_since k b = Inr (map decode (rows_after (as_i64 k) (db b)))"
    unfolding replay_since_def using assms(1)
    by (intro collect_all_ok row_to_envelope_decode) (auto simp: bus_ok_def rows_after_def)
  moreover have "map decode (rows_after (as_i64 k) (db b))
      = filter (\<lambda>e. k < env_seq e) (history b)"
    using assms(2) by (simp add: rows_after_def history_def filter_map o_def as_i64_small)
  ultimately show ?thesis by simp
qed

section \<open>No gap, no duplicate\<close>

lemma last_of_filtered:
  assumes "sorted_wrt (<) (map env_seq es)" and "filter (\<lambda>e. k < env_seq e) es \<noteq> []"
  shows "last (filter (\<lambda>e. k < env_seq e) es) = last es" and "k < env_seq (last es)"
  using assms by (induction es rule: rev_induct) (auto simp: sorted_wrt_append filter_empty_conv split: if_splits)

text \<open>The cursor after the backlog \<open>es\<close> was read from the cursor \<open>k\<close>.\<close>

definition cursor :: "nat \<Rightarrow> envelope list \<Rightarrow> nat" where
  "cursor k es = (if es = [] then k else env_seq (last es))"

lemma backlog_then_live:
  assumes sorted: "sorted_wrt (<) (map env_seq (hs @ as @ bs))"
    and bl: "bl = filter (\<lambda>e. k < env_seq e) (hs @ as)"
  shows "bl @ filter (\<lambda>e. cursor k bl < env_seq e) (as @ bs)
    = filter (\<lambda>e. k < env_seq e) (hs @ as @ bs)"
proof (cases "bl = []")
  case True
  with bl show ?thesis by (auto simp: cursor_def)
next
  case False
  have s1: "sorted_wrt (<) (map env_seq (hs @ as))" using sorted by (auto simp: sorted_wrt_append)
  from last_of_filtered [OF s1] bl False
  have c: "cursor k bl = env_seq (last (hs @ as))" and k: "k < env_seq (last (hs @ as))"
    by (auto simp: cursor_def)
  have ne: "hs @ as \<noteq> []" using bl False by auto
  have "\<forall>e \<in> set as. env_seq e \<le> cursor k bl"
    using s1 unfolding c by (induction as rule: rev_induct) (auto simp: sorted_wrt_append)
  then have "filter (\<lambda>e. cursor k bl < env_seq e) as = []" by (auto simp: filter_empty_conv)
  moreover have "\<forall>e \<in> set bs. cursor k bl < env_seq e \<and> k < env_seq e"
  proof
    fix e assume "e \<in> set bs"
    moreover have "last (hs @ as) \<in> set (hs @ as)" using ne by (rule last_in_set)
    ultimately have "env_seq (last (hs @ as)) < env_seq e"
      using sorted by (auto simp: sorted_wrt_append)
    then show "cursor k bl < env_seq e \<and> k < env_seq e" using c k by simp
  qed
  then have "filter (\<lambda>e. cursor k bl < env_seq e) bs = bs"
    and "filter (\<lambda>e. k < env_seq e) bs = bs" by (auto simp: filter_id_conv)
  ultimately show ?thesis using bl by simp
qed

lemma cursor_after_prefix:
  assumes sorted: "sorted_wrt (<) (map env_seq h)"
    and split: "filter (\<lambda>e. k < env_seq e) h = ds @ rest"
  shows "filter (\<lambda>e. cursor k ds < env_seq e) h = rest"
proof (cases "ds = []")
  case True
  with split show ?thesis by (simp add: cursor_def)
next
  case False
  let ?c = "env_seq (last ds)"
  have "sorted_wrt (<) (map env_seq (ds @ rest))"
    using sorted unfolding split [symmetric] by (simp add: sorted_wrt_map sorted_wrt_filter)
  then have "\<forall>e \<in> set rest. ?c < env_seq e" and "\<forall>e \<in> set ds. env_seq e \<le> ?c"
    using False by (auto simp: sorted_wrt_append)
      (induction ds rule: rev_induct, auto simp: sorted_wrt_append)
  then have "filter (\<lambda>e. ?c < env_seq e) (ds @ rest) = rest"
    by (auto simp: filter_empty_conv filter_id_conv)
  moreover have "k < ?c"
  proof -
    have "last ds \<in> set (filter (\<lambda>e. k < env_seq e) h)"
      unfolding split using False by simp
    then show ?thesis by simp
  qed
  then have "filter (\<lambda>e. ?c < env_seq e) h
      = filter (\<lambda>e. ?c < env_seq e) (filter (\<lambda>e. k < env_seq e) h)"
    by (auto intro!: filter_cong)
  ultimately show ?thesis using False split by (simp add: cursor_def)
qed

lemma cursor_append: "cursor (cursor k es) fs = cursor k (es @ fs)"
  by (simp add: cursor_def)

lemma drain_sub:
  assumes "sorted_wrt (<) (map env_seq es)"
  shows "drain (sub_of bl (map LiveEvent es @ q) k) =
    (case drain_live (cursor k (bl @ filter (\<lambda>e. cursor k bl < env_seq e) es)) q of
       (ds, st) \<Rightarrow> (bl @ filter (\<lambda>e. cursor k bl < env_seq e) es @ ds, st))"
  using assms last_of_filtered(1) [OF assms]
  by (auto simp: drain_backlog drain_live_events cursor_def split: prod.splits if_splits)

lemma subscribed:
  assumes "bus_ok b0" and "b1 = append_all xs b0" and "b2 = append_all ys b1" and "k < 2 ^ 63"
    and "subscribe_since k b0 b1 = Inr sub"
  obtains as bs where "history b1 = history b0 @ as" and "history b2 = history b0 @ as @ bs"
    and "sub = sub_of (filter (\<lambda>e. k < env_seq e) (history b0 @ as)) (map LiveEvent as) k"
    and "sent_between b1 b2 = map LiveEvent bs"
proof -
  obtain as where as: "history b1 = history b0 @ as" "live_sent b1 = live_sent b0 @ as"
    using append_all_extends [of xs b0] assms(2) by blast
  obtain bs where bs: "history b2 = history b1 @ bs" "live_sent b2 = live_sent b1 @ bs"
    using append_all_extends [of ys b1] assms(3) by blast
  have "bus_ok b1" using assms(1,2) by (simp add: bus_ok_append_all)
  then have "replay_since k b1 = Inr (filter (\<lambda>e. k < env_seq e) (history b0 @ as))"
    using assms(4) as by (simp add: replay_since_history)
  with assms(5) as bs that show ?thesis
    by (auto simp: subscribe_since_def sent_between_def)
qed


definition sample_event :: "nat \<Rightarrow> event_id \<times> timestamp \<times> new_event" where
  "sample_event n = (EventId n, n, new_event_for EvTaskStarted JNull)"

definition sample_bus0 :: event_bus where
  "sample_bus0 = append_all [sample_event 1, sample_event 2] empty_bus"

definition sample_bus1 :: event_bus where
  "sample_bus1 = append_all [sample_event 3] sample_bus0"

definition sample_bus2 :: event_bus where
  "sample_bus2 = append_all [sample_event 4] sample_bus1"

lemmas sample_defs = sample_event_def sample_bus0_def sample_bus1_def sample_bus2_def

lemma sample_ok: "bus_ok sample_bus0" "bus_ok sample_bus1" "bus_ok sample_bus2"
  by (simp_all add: sample_bus0_def sample_bus1_def sample_bus2_def bus_ok_append_all
      del: append_all.simps)

lemma sample_history: "map env_seq (history sample_bus2) = [1, 2, 3, 4]"
  by (simp add: sample_defs history_append_event append_event_def empty_bus_def empty_table_def
      insert_row_def last_insert_rowid_def history_def Let_def)


text \<open>A lag loses nothing either. When the live channel drops events and the subscription
  reports the lag, the events already received followed by a replay from the reported
  \<open>resume_from\<close> are exactly the durable log after the original cursor.\<close>

theorem lag_resume_gap_free:
  assumes "bus_ok b0" and "b1 = append_all xs b0" and "b2 = append_all ys b1" and "k < 2 ^ 63"
    and "subscribe_since k b0 b1 = Inr sub"
    and "live sub @ sent_between b1 b2 = map LiveEvent got @ lost"
    and "drain (sub\<lparr>live := map LiveEvent got @ LiveLagged # later\<rparr>) = (es, LaggedAt c)"
    and "c < 2 ^ 63"
  shows "map_sum id (\<lambda>rest. es @ rest) (replay_since c b2) = replay_since k b2"
proof -
  from subscribed [OF assms(1-5)] obtain as bs where h: "history b2 = history b0 @ as @ bs"
    and sub: "sub = sub_of (filter (\<lambda>e. k < env_seq e) (history b0 @ as)) (map LiveEvent as) k"
    and sent: "sent_between b1 b2 = map LiveEvent bs" by metis
  let ?bl = "filter (\<lambda>e. k < env_seq e) (history b0 @ as)"
  have ok2: "bus_ok b2" using assms(1-3) by (simp add: bus_ok_append_all)
  then have sorted: "sorted_wrt (<) (map env_seq (history b0 @ as @ bs))"
    using history_sorted [of b2] h by simp
  from assms(6) sub sent have "map LiveEvent (as @ bs) = map LiveEvent got @ lost" by simp
  then obtain ms where ms: "as @ bs = got @ ms"
    by (metis (no_types, lifting) append_eq_map_conv list.inj_map_strong live_item.inject(1))
  then have s2: "sorted_wrt (<) (map env_seq got)"
    using sorted by (metis map_append sorted_wrt_append)
  have "drain (sub_of ?bl (map LiveEvent got @ LiveLagged # later) k) = (es, LaggedAt c)"
    using assms(7) by (simp add: sub del: filter_append)
  then have es: "es = ?bl @ filter (\<lambda>e. cursor k ?bl < env_seq e) got" and c: "c = cursor k es"
    unfolding drain_sub [OF s2] by (auto simp del: filter_append)
  have "filter (\<lambda>e. k < env_seq e) (history b2)
      = es @ filter (\<lambda>e. cursor k ?bl < env_seq e) ms"
    using backlog_then_live [OF sorted refl, of k] ms
    by (metis (no_types, lifting) append.assoc es filter_append h)
  moreover from this have "filter (\<lambda>e. c < env_seq e) (history b2)
      = filter (\<lambda>e. cursor k ?bl < env_seq e) ms"
    unfolding c using history_sorted [OF ok2] by (rule cursor_after_prefix [rotated])
  ultimately show ?thesis
    using assms(4,8) ok2 by (simp add: replay_since_history)
qed

theorem lag_resume_gap_free_witness:
  "\<exists>sub es c. subscribe_since 0 sample_bus0 sample_bus1 = Inr sub \<and>
     drain (sub\<lparr>live := [LiveLagged]\<rparr>) = (es, LaggedAt c) \<and> es \<noteq> [] \<and>
     map_sum id (\<lambda>tl. es @ tl) (replay_since c sample_bus2) = replay_since 0 sample_bus2"
proof -
  let ?es = "history sample_bus1"
  have pos: "filter (\<lambda>e. 0 < env_seq e) ?es = ?es"
    by (simp add: sample_defs history_append_event append_event_def empty_bus_def empty_table_def
        insert_row_def last_insert_rowid_def history_def Let_def)
  obtain sub where sub: "subscribe_since 0 sample_bus0 sample_bus1 = Inr sub"
    and bl: "backlog sub = ?es" "last_delivered sub = 0"
    by (simp add: subscribe_since_def replay_since_history sample_ok pos)
  have three: "?es \<noteq> [] \<and> env_seq (last ?es) = 3"
    by (simp add: sample_defs history_append_event append_event_def empty_bus_def empty_table_def
        insert_row_def last_insert_rowid_def history_def Let_def)
  have "sub\<lparr>live := [LiveLagged]\<rparr> = sub_of ?es [LiveLagged] 0" using bl by simp
  then have d: "drain (sub\<lparr>live := map LiveEvent [] @ LiveLagged # []\<rparr>) = (?es, LaggedAt 3)"
    using three by (simp add: drain_backlog)
  have "map_sum id (\<lambda>tl. ?es @ tl) (replay_since 3 sample_bus2) = replay_since 0 sample_bus2"
    by (rule lag_resume_gap_free [OF sample_ok(1) sample_bus1_def sample_bus2_def _ sub _ d])
      simp_all
  with sub d three show ?thesis by auto
qed

end
