(* ===== verification/Ids.thy ===== *)
theory Ids
  imports Prelude
begin

text \<open>
  The textual form of the typed identifiers and the index generation counter of
  \<open>crates/valyria-types/src/id.rs\<close>. The \<open>typed_id!\<close> macro is expanded once per kind; what an
  expansion differs in is its prefix. The rendering and the parser of a bare ULID belong to the
  \<open>ulid\<close> crate: they are the arguments \<open>text\<close> and \<open>parse\<close>.
\<close>

datatype id_kind =
    TaskKind | StepKind | ToolInvocationKind | EventKindId | WorkspaceKind | SessionKind
  | PlanKind | CheckpointKind | MemoryKind | ApprovalKind | VerificationRunKind
  | ModelInstanceKind | LedgerEntryKind | ContextSnapshotKind | EffectKind

fun id_prefix :: "id_kind \<Rightarrow> string" where
  "id_prefix TaskKind = ''task''"
| "id_prefix StepKind = ''step''"
| "id_prefix ToolInvocationKind = ''tinv''"
| "id_prefix EventKindId = ''evt''"
| "id_prefix WorkspaceKind = ''ws''"
| "id_prefix SessionKind = ''sess''"
| "id_prefix PlanKind = ''plan''"
| "id_prefix CheckpointKind = ''ckpt''"
| "id_prefix MemoryKind = ''mem''"
| "id_prefix ApprovalKind = ''appr''"
| "id_prefix VerificationRunKind = ''vrun''"
| "id_prefix ModelInstanceKind = ''minst''"
| "id_prefix LedgerEntryKind = ''ledg''"
| "id_prefix ContextSnapshotKind = ''ctx''"
| "id_prefix EffectKind = ''eff''"

datatype id_parse_error = BadPrefix string string | BadUlid string

definition show_id :: "(nat \<Rightarrow> string) \<Rightarrow> id_kind \<Rightarrow> nat \<Rightarrow> string" where
  "show_id text k u = id_prefix k @ ''_'' @ text u"

text \<open>Rust's \<open>str::strip_prefix\<close>.\<close>

fun strip_prefix :: "string \<Rightarrow> string \<Rightarrow> string option" where
  "strip_prefix [] s = Some s"
| "strip_prefix (p # ps) [] = None"
| "strip_prefix (p # ps) (c # cs) = (if p = c then strip_prefix ps cs else None)"

definition id_from_str ::
  "(string \<Rightarrow> nat option) \<Rightarrow> id_kind \<Rightarrow> string \<Rightarrow> id_parse_error + nat" where
  "id_from_str parse k s =
     (case Option.bind (strip_prefix (id_prefix k) s) (strip_prefix ''_'') of
        None \<Rightarrow> Inl (BadPrefix (id_prefix k) s)
      | Some rest \<Rightarrow> (case parse rest of
          None \<Rightarrow> Inl (BadUlid s)
        | Some u \<Rightarrow> Inr u))"

lemma strip_prefix_append [simp]: "strip_prefix p (p @ s) = Some s"
  by (induction p) auto

lemma strip_prefix_Some: "strip_prefix p s = Some r \<longleftrightarrow> s = p @ r"
  by (induction p s rule: strip_prefix.induct) auto

lemma no_underscore_prefix: "CHR ''_'' \<notin> set (id_prefix k)"
  by (cases k) simp_all

lemma id_prefix_inject: "id_prefix j = id_prefix k \<Longrightarrow> j = k"
  by (cases j; cases k) simp_all

lemma show_id_prefix_unique:
  assumes "id_prefix j @ ''_'' @ r = id_prefix k @ ''_'' @ t"
  shows "j = k \<and> r = t"
proof -
  have "takeWhile (\<lambda>c. c \<noteq> CHR ''_'') (id_prefix j @ ''_'' @ r) = id_prefix j"
    using no_underscore_prefix [of j] by (subst takeWhile_append2) auto
  moreover have "takeWhile (\<lambda>c. c \<noteq> CHR ''_'') (id_prefix k @ ''_'' @ t) = id_prefix k"
    using no_underscore_prefix [of k] by (subst takeWhile_append2) auto
  ultimately have "id_prefix j = id_prefix k" using assms by metis
  with assms show ?thesis by (auto dest: id_prefix_inject)
qed

lemma id_from_str_show:
  "id_from_str parse j (show_id text k u) =
     (if j = k then (case parse (text u) of
          None \<Rightarrow> Inl (BadUlid (show_id text k u)) | Some v \<Rightarrow> Inr v)
      else Inl (BadPrefix (id_prefix j) (show_id text k u)))"
proof (cases "j = k")
  case True
  then show ?thesis
    using strip_prefix_append [of "''_''"]
    by (simp add: id_from_str_def show_id_def split: option.splits)
next
  case False
  have "Option.bind (strip_prefix (id_prefix j) (show_id text k u)) (strip_prefix ''_'') = None"
  proof (rule ccontr)
    assume "\<not> ?thesis"
    then obtain r where "show_id text k u = id_prefix j @ ''_'' @ r"
      by (auto simp: strip_prefix_Some bind_eq_None_conv split: option.splits)
    with False show_id_prefix_unique [of j r k "text u"] show False by (simp add: show_id_def)
  qed
  with False show ?thesis by (simp add: id_from_str_def)
qed

text \<open>Identifiers survive their textual form and the kinds never mix: parsing the text of an
  identifier as its own kind gives it back, and parsing it as any other kind is a prefix error,
  whatever the ULID renderer produces.\<close>

theorem id_text_roundtrip:
  assumes "\<And>u. u < 2 ^ 128 \<Longrightarrow> parse (text u) = Some u" and "u < 2 ^ 128"
  shows "id_from_str parse j (show_id text k u) =
    (if j = k then Inr u else Inl (BadPrefix (id_prefix j) (show_id text k u)))"
  using assms by (simp add: id_from_str_show)

definition sample_ulid_text :: "nat \<Rightarrow> string" where
  "sample_ulid_text u = replicate u CHR ''0''"

definition sample_ulid_parse :: "string \<Rightarrow> nat option" where
  "sample_ulid_parse s = (if set s \<subseteq> {CHR ''0''} then Some (length s) else None)"

theorem id_text_roundtrip_witness:
  "id_from_str sample_ulid_parse TaskKind (show_id sample_ulid_text TaskKind 3) = Inr 3 \<and>
   id_from_str sample_ulid_parse StepKind (show_id sample_ulid_text TaskKind 3)
     = Inl (BadPrefix ''step'' ''task_000'')"
proof -
  have r: "\<And>u. sample_ulid_parse (sample_ulid_text u) = Some u"
    by (auto simp: sample_ulid_parse_def sample_ulid_text_def)
  have "show_id sample_ulid_text TaskKind 3 = ''task_000''"
    by (simp add: show_id_def sample_ulid_text_def numeral_3_eq_3)
  with id_text_roundtrip [of sample_ulid_parse sample_ulid_text 3 TaskKind TaskKind, OF r]
    id_text_roundtrip [of sample_ulid_parse sample_ulid_text 3 StepKind TaskKind, OF r]
  show ?thesis by simp
qed

section \<open>Index generations\<close>

datatype generation = Generation u64

primrec gen_count :: "generation \<Rightarrow> u64" where
  "gen_count (Generation n) = n"

instantiation generation :: linorder
begin

definition less_eq_generation :: "generation \<Rightarrow> generation \<Rightarrow> bool" where
  "less_eq_generation g h \<longleftrightarrow> gen_count g \<le> gen_count h"

definition less_generation :: "generation \<Rightarrow> generation \<Rightarrow> bool" where
  "less_generation g h \<longleftrightarrow> gen_count g < gen_count h"

instance
proof
  fix g h :: generation
  show "g \<le> h \<Longrightarrow> h \<le> g \<Longrightarrow> g = h"
    by (cases g; cases h) (simp add: less_eq_generation_def)
qed (auto simp: less_eq_generation_def less_generation_def)

end

definition gen_initial :: generation where
  "gen_initial = Generation 0"

definition gen_next :: "generation \<Rightarrow> generation" where
  "gen_next g = Generation (gen_count g + 1)"

text \<open>The counter only fails to grow at the very end of its range, where it wraps.\<close>

lemma gen_next_greater: "g < gen_next g \<longleftrightarrow> gen_count g \<noteq> - 1"
proof (cases "gen_count g = - 1")
  case True
  then show ?thesis by (simp add: less_generation_def gen_next_def)
next
  case False
  then have "1 + gen_count g \<noteq> 0" by (metis add.inverse_inverse add_eq_0_iff)
  then have "unat (1 + gen_count g) = Suc (unat (gen_count g))" by (rule unatSuc)
  with False show ?thesis
    by (simp add: less_generation_def gen_next_def word_less_nat_alt add.commute)
qed

lemma gen_initial_least: "gen_initial \<le> g"
  by (simp add: less_eq_generation_def gen_initial_def)

end
