(* ===== verification/Task_Manager.thy ===== *)
theory Task_Manager
  imports Agent_State Event_Bus Ids
begin

text \<open>
  The task manager of \<open>crates/valyria-task\<close>: the task rows and the journal of
  \<open>workspace.db\<close> (\<open>migrations.rs\<close>), the journal entries (\<open>types.rs\<close>) and every operation of
  \<open>TaskManager\<close> (\<open>manager.rs\<close>), each with the state it leaves behind when it fails half way: the
  code runs one SQL statement at a time, without a transaction around an operation.

  State columns hold text, as in the database, and are decoded where the code decodes them. The
  clock and the ULID generator are streams the operations draw from (\<open>clock\<close>, \<open>ulid\<close>, any
  functions); the rendering of a bare ULID is the \<open>ulid\<close> crate's and is the field \<open>ulid_text\<close>.
  A journal payload is stored as the value that serde writes and reads back. SQLite itself failing
  (disk full, locked) is not modelled; a violated primary key is.
\<close>

section \<open>Tasks and journal entries\<close>

record budget =
  max_steps :: "u32 option"
  max_wall_ms :: "u64 option"
  max_tokens :: "u64 option"

record task =
  tk_id :: task_id
  tk_workspace :: workspace_id
  tk_parent :: "task_id option"
  tk_objective :: string
  tk_state :: agent_state
  tk_paused_from :: "agent_state option"
  tk_plan_scope :: "string list"
  tk_budget :: budget
  tk_generation :: "generation option"
  tk_created :: timestamp
  tk_updated :: timestamp
  tk_completed :: "timestamp option"
  tk_note :: "string option"
  tk_signal :: "control_signal option"

datatype journal_kind =
    TaskCreated
  | StateChanged agent_state agent_state
  | EffectIssued effect_id step_id string json
  | EffectCompleted effect_id step_id string json
  | RecoveryNote string

fun journal_tag :: "journal_kind \<Rightarrow> string" where
  "journal_tag TaskCreated = ''task_created''"
| "journal_tag (StateChanged _ _) = ''state_changed''"
| "journal_tag (EffectIssued _ _ _ _) = ''effect_issued''"
| "journal_tag (EffectCompleted _ _ _ _) = ''effect_completed''"
| "journal_tag (RecoveryNote _) = ''recovery_note''"

fun journal_effect_id :: "journal_kind \<Rightarrow> effect_id option" where
  "journal_effect_id (EffectIssued e _ _ _) = Some e"
| "journal_effect_id (EffectCompleted e _ _ _) = Some e"
| "journal_effect_id _ = None"

record journal_entry =
  je_seq :: nat
  je_task :: task_id
  je_kind :: journal_kind
  je_at :: timestamp

record pending_call =
  pc_effect :: effect_id
  pc_step :: step_id
  pc_tool :: string
  pc_input :: json

datatype task_error =
    TaskStoreError
  | TaskNotFound task_id
  | CorruptState task_id string
  | IllegalTransition task_id agent_state agent_state
  | WrongResumeTarget task_id agent_state agent_state

section \<open>The database\<close>

record task_row =
  tr_id :: task_id
  tr_workspace :: workspace_id
  tr_parent :: "task_id option"
  tr_objective :: string
  tr_state :: string
  tr_paused_from :: "string option"
  tr_plan_scope :: "string list"
  tr_budget :: budget
  tr_generation :: "generation option"
  tr_created :: timestamp
  tr_updated :: timestamp
  tr_completed :: "timestamp option"
  tr_note :: "string option"
  tr_signal :: "string option"

record journal_row =
  jr_task :: task_id
  jr_tag :: string
  jr_effect :: "effect_id option"
  jr_kind :: journal_kind
  jr_at :: timestamp

record task_store =
  tasks :: "task_row list"
  journal :: "journal_row seq_table"
  bus :: event_bus
  clock :: "nat \<Rightarrow> timestamp"
  ulid :: "nat \<Rightarrow> nat"
  ulid_text :: "nat \<Rightarrow> string"
  ticks :: nat
  draws :: nat

definition clock_now :: "task_store \<Rightarrow> timestamp \<times> task_store" where
  "clock_now s = (clock s (ticks s), s\<lparr>ticks := Suc (ticks s)\<rparr>)"

definition draw_ulid :: "task_store \<Rightarrow> nat \<times> task_store" where
  "draw_ulid s = (ulid s (draws s), s\<lparr>draws := Suc (draws s)\<rparr>)"

definition update_row :: "task_id \<Rightarrow> (task_row \<Rightarrow> task_row) \<Rightarrow> task_store \<Rightarrow> task_store" where
  "update_row i f s = s\<lparr>tasks := map (\<lambda>r. if tr_id r = i then f r else r) (tasks s)\<rparr>"

section \<open>Reading tasks\<close>

definition row_of :: "task_id \<Rightarrow> task_store \<Rightarrow> task_row option" where
  "row_of i s = find (\<lambda>r. tr_id r = i) (tasks s)"

definition row_to_task :: "task_row \<Rightarrow> task_error + task" where
  "row_to_task r =
     (case state_from_text (tr_state r) of
        None \<Rightarrow> Inl (CorruptState (tr_id r) (tr_state r))
      | Some st \<Rightarrow> Inr \<lparr>tk_id = tr_id r, tk_workspace = tr_workspace r, tk_parent = tr_parent r,
          tk_objective = tr_objective r, tk_state = st,
          tk_paused_from = Option.bind (tr_paused_from r) state_from_text,
          tk_plan_scope = tr_plan_scope r, tk_budget = tr_budget r,
          tk_generation = tr_generation r, tk_created = tr_created r, tk_updated = tr_updated r,
          tk_completed = tr_completed r, tk_note = tr_note r,
          tk_signal = Option.bind (tr_signal r) signal_from_text\<rparr>)"

definition get_task :: "task_id \<Rightarrow> task_store \<Rightarrow> task_error + task" where
  "get_task i s =
     (case row_of i s of None \<Rightarrow> Inl (TaskNotFound i) | Some r \<Rightarrow> row_to_task r)"

text \<open>\<open>ORDER BY created_at_ms ASC\<close>; rows with equal times stay in the order of the table.\<close>

definition children_of :: "task_id \<Rightarrow> task_store \<Rightarrow> task_error + task list" where
  "children_of i s =
     collect (map (\<lambda>r. get_task (tr_id r) s)
       (sort_key tr_created (filter (\<lambda>r. tr_parent r = Some i) (tasks s))))"

definition list_tasks :: "workspace_id \<Rightarrow> task_store \<Rightarrow> task_error + task list" where
  "list_tasks w s =
     collect (map (\<lambda>r. get_task (tr_id r) s)
       (sort_key tr_created (filter (\<lambda>r. tr_workspace r = w) (tasks s))))"

section \<open>The event projection\<close>

definition state_changed_payload :: "agent_state \<Rightarrow> agent_state \<Rightarrow> json" where
  "state_changed_payload a b =
     JObject [(''from'', JString (show_state a)), (''to'', JString (show_state b))]"

text \<open>What \<open>project_events\<close> emits for an entry, in order.\<close>

fun projection :: "journal_kind \<Rightarrow> (event_kind \<times> json) list" where
  "projection TaskCreated = [(EvTaskStarted, JObject [])]"
| "projection (StateChanged a b) =
     (EvStateChanged, state_changed_payload a b) #
     (case b of
        Completed \<Rightarrow> [(EvTaskCompleted, JObject [])]
      | Failed \<Rightarrow> [(EvTaskFailed, JObject [])]
      | Paused \<Rightarrow> [(EvTaskPaused, JObject [])]
      | _ \<Rightarrow> [])"
| "projection (EffectIssued _ _ k p) =
     (if k = ''model_call'' then [(EvModelStarted, p)]
      else if k = ''tool'' then [(EvToolStarted, p)]
      else if k = ''verify'' then [(EvTestStarted, p)]
      else if k = ''plan_accepted'' then [(EvPlanCreated, p)]
      else [])"
| "projection (EffectCompleted _ _ k p) =
     (if k = ''model_completion'' then [(EvModelCompleted, p)]
      else if k = ''context_retrieved'' then [(EvContextRetrieved, p)]
      else if k = ''plan_checkpoint'' then [(EvPlanCheckpoint, p)]
      else if k = ''tool_result'' \<or> k = ''tool_denied'' then [(EvToolCompleted, p)]
      else if k = ''permission_ask'' then [(EvApprovalRequested, p)]
      else if k = ''verify_result'' then
        [(EvVerificationEvidence, p),
         (if Option.bind (json_get ''passed'' p) json_as_bool = Some True
          then EvTestPassed else EvTestFailed, p)]
      else if k = ''loop_detected'' then [(EvProgressStalled, p)]
      else if k = ''plan_scope_expansion'' then [(EvApprovalRequested, p)]
      else if k = ''plan_rollback'' then [(EvFileChanged, p)]
      else if k = ''subtask_started'' then [(EvSubtaskStarted, p)]
      else if k = ''subtask_completed'' then [(EvSubtaskCompleted, p)]
      else if k = ''artifact_published'' then [(EvArtifactPublished, p)]
      else [])"
| "projection (RecoveryNote _) = []"

definition emit :: "task_id \<Rightarrow> event_kind \<times> json \<Rightarrow> task_store \<Rightarrow> task_store" where
  "emit i e s =
     (let (u, s1) = draw_ulid s;
          (t, s2) = clock_now s1
      in s2\<lparr>bus := snd (append_event (EventId u) t
           (for_task i (new_event_for (fst e) (snd e))) (bus s2))\<rparr>)"

definition project_events :: "task_id \<Rightarrow> journal_kind \<Rightarrow> task_store \<Rightarrow> task_store" where
  "project_events i k s = fold (emit i) (projection k) s"

section \<open>The journal\<close>

definition append_journal ::
  "task_id \<Rightarrow> journal_kind \<Rightarrow> task_store \<Rightarrow> journal_entry \<times> task_store" where
  "append_journal i k s =
     (let (t, s1) = clock_now s;
          j = insert_row \<lparr>jr_task = i, jr_tag = journal_tag k, jr_effect = journal_effect_id k,
            jr_kind = k, jr_at = t\<rparr> (journal s1);
          s2 = s1\<lparr>journal := j\<rparr>
      in (\<lparr>je_seq = last_insert_rowid j, je_task = i, je_kind = k, je_at = t\<rparr>,
          project_events i k s2))"

definition journal_since :: "task_id \<Rightarrow> nat \<Rightarrow> task_store \<Rightarrow> journal_entry list" where
  "journal_since i k s =
     map (\<lambda>(q, r). \<lparr>je_seq = q, je_task = i, je_kind = jr_kind r, je_at = jr_at r\<rparr>)
       (filter (\<lambda>x. jr_task (snd x) = i) (rows_after (as_i64 k) (journal s)))"

section \<open>Creating tasks\<close>

definition insert_task :: "task_row \<Rightarrow> task_store \<Rightarrow> (task_error + unit) \<times> task_store" where
  "insert_task r s =
     (if \<exists>q \<in> set (tasks s). tr_id q = tr_id r then (Inl TaskStoreError, s)
      else (Inr (), s\<lparr>tasks := tasks s @ [r]\<rparr>))"

definition id_text :: "task_store \<Rightarrow> task_id \<Rightarrow> string" where
  "id_text s i = (case i of TaskId u \<Rightarrow> show_id (ulid_text s) TaskKind u)"

text \<open>The entry a child leaves on its parent's journal; its effect and step ids are fresh.\<close>

definition parent_entry ::
  "task_id option \<Rightarrow> string \<Rightarrow> json \<Rightarrow> task_store \<Rightarrow> task_store" where
  "parent_entry p outcome payload s =
     (case p of
        None \<Rightarrow> s
      | Some q \<Rightarrow>
          let (u, s1) = draw_ulid s;
              (v, s2) = draw_ulid s1
          in snd (append_journal q (EffectCompleted (EffectId u) (StepId v) outcome payload) s2))"

definition create_with_parent ::
  "workspace_id \<Rightarrow> task_id option \<Rightarrow> string \<Rightarrow> budget \<Rightarrow> task_store
     \<Rightarrow> (task_error + task) \<times> task_store" where
  "create_with_parent w p obj bud s =
     (let (u, s1) = draw_ulid s;
          (t, s2) = clock_now s1;
          i = TaskId u;
          r = \<lparr>tr_id = i, tr_workspace = w, tr_parent = p, tr_objective = obj,
            tr_state = state_to_text Idle, tr_paused_from = None, tr_plan_scope = [],
            tr_budget = bud, tr_generation = None, tr_created = t, tr_updated = t,
            tr_completed = None, tr_note = None, tr_signal = None\<rparr>
      in then_do (insert_task r s2) (\<lambda>_ s3.
           let s4 = snd (append_journal i TaskCreated s3);
               s5 = parent_entry p ''subtask_started''
                 (JObject [(''child_task_id'', JString (id_text s i)), (''objective'', JString obj)]) s4
           in (Inr \<lparr>tk_id = i, tk_workspace = w, tk_parent = p, tk_objective = obj,
                tk_state = Idle, tk_paused_from = None, tk_plan_scope = [], tk_budget = bud,
                tk_generation = None, tk_created = t, tk_updated = t, tk_completed = None,
                tk_note = None, tk_signal = None\<rparr>, s5)))"

definition create_task ::
  "workspace_id \<Rightarrow> string \<Rightarrow> budget \<Rightarrow> task_store \<Rightarrow> (task_error + task) \<times> task_store" where
  "create_task w obj bud s = create_with_parent w None obj bud s"

definition create_child ::
  "task_id \<Rightarrow> string \<Rightarrow> budget \<Rightarrow> task_store \<Rightarrow> (task_error + task) \<times> task_store" where
  "create_child p obj bud s =
     (case get_task p s of
        Inl e \<Rightarrow> (Inl e, s)
      | Inr t \<Rightarrow> create_with_parent (tk_workspace t) (Some p) obj bud s)"

section \<open>State changes\<close>

text \<open>The guards of \<open>transition\<close>, in the order of the code.\<close>

definition transition_check :: "task \<Rightarrow> agent_state \<Rightarrow> task_error option" where
  "transition_check t to =
     (if tk_state t = Paused \<and> tk_paused_from t = None
      then Some (IllegalTransition (tk_id t) (tk_state t) to)
      else if tk_state t = Paused \<and> tk_paused_from t \<noteq> Some to
      then Some (WrongResumeTarget (tk_id t) (the (tk_paused_from t)) to)
      else if \<not> can_transition_to (tk_state t) to
      then Some (IllegalTransition (tk_id t) (tk_state t) to)
      else None)"

text \<open>The \<open>UPDATE\<close> of a transition of the task read as \<open>t\<close>; the pending signal is cleared.\<close>

definition transition_update ::
  "task \<Rightarrow> agent_state \<Rightarrow> timestamp \<Rightarrow> task_row \<Rightarrow> task_row" where
  "transition_update t to now r = r\<lparr>tr_state := state_to_text to,
     tr_paused_from := (if to = Paused then Some (state_to_text (tk_state t)) else None),
     tr_updated := now,
     tr_completed := (if is_terminal to then Some now else tk_completed t),
     tr_signal := None\<rparr>"

definition transition ::
  "task_id \<Rightarrow> agent_state \<Rightarrow> task_store \<Rightarrow> (task_error + unit) \<times> task_store" where
  "transition i to s =
     (case get_task i s of
        Inl e \<Rightarrow> (Inl e, s)
      | Inr t \<Rightarrow> (case transition_check t to of
          Some e \<Rightarrow> (Inl e, s)
        | None \<Rightarrow>
            let (now, s1) = clock_now s;
                s2 = update_row i (transition_update t to now) s1;
                s3 = snd (append_journal i (StateChanged (tk_state t) to) s2)
            in (Inr (), if is_terminal to
                then parent_entry (tk_parent t) ''subtask_completed''
                  (JObject [(''child_task_id'', JString (id_text s i)),
                    (''final_state'', JString (show_state to))]) s3
                else s3)))"

section \<open>Control signals\<close>

definition set_pending_signal ::
  "task_id \<Rightarrow> control_signal \<Rightarrow> task_store \<Rightarrow> (task_error + unit) \<times> task_store" where
  "set_pending_signal i c s =
     (case get_task i s of
        Inl e \<Rightarrow> (Inl e, s)
      | Inr _ \<Rightarrow> (Inr (), update_row i (\<lambda>r. r\<lparr>tr_signal := Some (signal_to_text c)\<rparr>) s))"

text \<open>The recursion over the descendants. The code recurses without a bound; \<open>None\<close> is running out
  of the fuel given here.\<close>

fun cascade_signal_to_children ::
    "nat \<Rightarrow> task_id \<Rightarrow> control_signal \<Rightarrow> task_store \<Rightarrow> ((task_error + unit) \<times> task_store) option"
  and cascade_each ::
    "nat \<Rightarrow> task list \<Rightarrow> control_signal \<Rightarrow> task_store
      \<Rightarrow> ((task_error + unit) \<times> task_store) option" where
  "cascade_signal_to_children 0 i c s = None"
| "cascade_signal_to_children (Suc n) i c s =
     (case children_of i s of
        Inl e \<Rightarrow> Some (Inl e, s)
      | Inr ts \<Rightarrow> cascade_each n ts c s)"
| "cascade_each n [] c s = Some (Inr (), s)"
| "cascade_each n (t # ts) c s =
     (case (if is_terminal (tk_state t) then (Inr (), s) else set_pending_signal (tk_id t) c s) of
        (Inl e, s1) \<Rightarrow> Some (Inl e, s1)
      | (Inr _, s1) \<Rightarrow> (case cascade_signal_to_children n (tk_id t) c s1 of
          None \<Rightarrow> None
        | Some (Inl e, s2) \<Rightarrow> Some (Inl e, s2)
        | Some (Inr _, s2) \<Rightarrow> cascade_each n ts c s2))"

definition request_signal ::
  "nat \<Rightarrow> control_signal \<Rightarrow> task_id \<Rightarrow> task_store
     \<Rightarrow> ((task_error + unit) \<times> task_store) option" where
  "request_signal n c i s =
     (case set_pending_signal i c s of
        (Inl e, s1) \<Rightarrow> Some (Inl e, s1)
      | (Inr _, s1) \<Rightarrow> cascade_signal_to_children n i c s1)"

definition request_pause ::
  "nat \<Rightarrow> task_id \<Rightarrow> task_store \<Rightarrow> ((task_error + unit) \<times> task_store) option" where
  "request_pause n i s = request_signal n PauseRequested i s"

definition request_cancel ::
  "nat \<Rightarrow> task_id \<Rightarrow> task_store \<Rightarrow> ((task_error + unit) \<times> task_store) option" where
  "request_cancel n i s = request_signal n CancelRequested i s"

section \<open>Crash recovery\<close>

definition is_stable_without_a_driver :: "agent_state \<Rightarrow> bool" where
  "is_stable_without_a_driver a \<longleftrightarrow>
     is_terminal a \<or> a \<in> {Paused, WaitingForPermission, WaitingForUser}"

definition recover_task :: "task_id \<Rightarrow> string \<Rightarrow> task_store \<Rightarrow> (task_error + unit) \<times> task_store" where
  "recover_task i note s =
     (case get_task i s of
        Inl e \<Rightarrow> (Inl e, s)
      | Inr t \<Rightarrow>
          let s1 = update_row i (\<lambda>r. r\<lparr>tr_note := Some note\<rparr>) s;
              s2 = snd (append_journal i (RecoveryNote note) s1)
          in then_do (transition i Paused s2) (\<lambda>_ s3.
               case tk_signal t of
                 None \<Rightarrow> (Inr (), s3)
               | Some c \<Rightarrow> set_pending_signal i c s3))"

definition recover_task_if_active ::
  "task_id \<Rightarrow> task_store \<Rightarrow> (task_error + bool) \<times> task_store" where
  "recover_task_if_active i s =
     (case get_task i s of
        Inl e \<Rightarrow> (Inl e, s)
      | Inr t \<Rightarrow>
          if is_stable_without_a_driver (tk_state t) then (Inr False, s)
          else then_do (recover_task i (''recovered on resume: task was in ''
              @ show_state (tk_state t) @ '' when last observed'') s)
            (\<lambda>_ s1. (Inr True, s1)))"

text \<open>The loop of \<open>recover_incomplete_tasks\<close> over the ids and state texts read at its start; rows
  whose state does not decode are skipped.\<close>

fun recover_each ::
  "(task_id \<times> string) list \<Rightarrow> task_store \<Rightarrow> (task_error + task_id list) \<times> task_store" where
  "recover_each [] s = (Inr [], s)"
| "recover_each ((i, txt) # xs) s =
     (case state_from_text txt of
        None \<Rightarrow> recover_each xs s
      | Some st \<Rightarrow>
          if is_stable_without_a_driver st then recover_each xs s
          else then_do (recover_task i (''recovered on startup: task was in '' @ show_state st
              @ '' when the runtime last stopped'') s)
            (\<lambda>_ s1. then_do (recover_each xs s1) (\<lambda>is s2. (Inr (i # is), s2))))"

definition recover_incomplete_tasks :: "task_store \<Rightarrow> (task_error + task_id list) \<times> task_store" where
  "recover_incomplete_tasks s = recover_each (map (\<lambda>r. (tr_id r, tr_state r)) (tasks s)) s"

section \<open>What the journal says is in flight\<close>

fun is_model_completion :: "journal_kind \<Rightarrow> bool" where
  "is_model_completion (EffectCompleted _ _ k _) = (k = ''model_completion'')"
| "is_model_completion _ = False"

definition count_model_calls :: "task_id \<Rightarrow> task_store \<Rightarrow> nat" where
  "count_model_calls i s =
     (let es = journal_since i 0 s; last_index = length es - 1
      in length (filter (\<lambda>(k, e). k \<noteq> last_index \<and> is_model_completion (je_kind e))
           (enumerate 0 es)))"

text \<open>A tool call that was issued, if the entry is one with a readable payload.\<close>

fun issued_tool_call :: "journal_kind \<Rightarrow> pending_call option" where
  "issued_tool_call (EffectIssued e st k p) =
     (if k = ''tool'' then
        (case Option.bind (json_get ''tool'' p) json_as_str of
           None \<Rightarrow> None
         | Some tool \<Rightarrow> (case json_get ''input'' p of
             None \<Rightarrow> None
           | Some inp \<Rightarrow> Some \<lparr>pc_effect = e, pc_step = st, pc_tool = tool, pc_input = inp\<rparr>))
      else None)"
| "issued_tool_call _ = None"

fun completion_of :: "effect_id \<Rightarrow> journal_kind \<Rightarrow> string option" where
  "completion_of e (EffectCompleted e' _ k _) = (if e' = e then Some k else None)"
| "completion_of e _ = None"

definition last_unresolved_tool_call ::
  "task_id \<Rightarrow> string option \<Rightarrow> task_store \<Rightarrow> pending_call option" where
  "last_unresolved_tool_call i required s =
     (let es = map je_kind (journal_since i 0 s) in
      case find_map (\<lambda>(k, e). map_option (Pair k) (issued_tool_call e)) (rev (enumerate 0 es)) of
        None \<Rightarrow> None
      | Some (k, pc) \<Rightarrow>
          (if find_map (completion_of (pc_effect pc)) (rev (drop (Suc k) es)) = required
           then Some pc else None))"

definition pending_tool_call :: "task_id \<Rightarrow> task_store \<Rightarrow> pending_call option" where
  "pending_tool_call i s = last_unresolved_tool_call i (Some ''permission_ask'') s"

definition interrupted_tool_call :: "task_id \<Rightarrow> task_store \<Rightarrow> pending_call option" where
  "interrupted_tool_call i s = last_unresolved_tool_call i None s"

end
