(* ===== verification/Task_Invariant.thy ===== *)
theory Task_Invariant
  imports Task_Manager
begin

text \<open>
  What every operation of \<open>TaskManager\<close> keeps: the columns of a row agree with one another
  (\<open>row_ok\<close>), the task table and the journal tell the same story (\<open>store_ok\<close>: the state changes
  journaled for a task are a legal chain from \<open>Idle\<close> to the state in its row), parents are older
  than their children, and the event bus stays sound. \<open>task_step\<close> is the step relation of the
  public operations, and the invariant holds in every state it reaches.
\<close>

section \<open>Frames\<close>

lemma clock_now_simps [simp]:
  "tasks (snd (clock_now s)) = tasks s" "journal (snd (clock_now s)) = journal s"
  "bus (snd (clock_now s)) = bus s" "ulid_text (snd (clock_now s)) = ulid_text s"
  "fst (clock_now s) = clock s (ticks s)"
  by (simp_all add: clock_now_def)

lemma draw_ulid_simps [simp]:
  "tasks (snd (draw_ulid s)) = tasks s" "journal (snd (draw_ulid s)) = journal s"
  "bus (snd (draw_ulid s)) = bus s" "ulid_text (snd (draw_ulid s)) = ulid_text s"
  by (simp_all add: draw_ulid_def)

lemma update_row_simps [simp]:
  "journal (update_row i f s) = journal s" "bus (update_row i f s) = bus s"
  "ulid_text (update_row i f s) = ulid_text s"
  by (simp_all add: update_row_def)

lemma emit_frame [frame]:
  "tasks (emit i e s) = tasks s" "journal (emit i e s) = journal s"
  "ulid_text (emit i e s) = ulid_text s"
  by (simp_all add: emit_def draw_ulid_def clock_now_def Let_def)

lemma emit_bus_ok [keeps]: "bus_ok (bus s) \<Longrightarrow> bus_ok (bus (emit i e s))"
  by (simp add: emit_def draw_ulid_def clock_now_def Let_def bus_ok_append_event)

lemma project_events_frame [frame]:
  "tasks (project_events i k s) = tasks s" "journal (project_events i k s) = journal s"
  "ulid_text (project_events i k s) = ulid_text s"
proof -
  have "tasks (fold (emit i) es s) = tasks s \<and> journal (fold (emit i) es s) = journal s \<and>
      ulid_text (fold (emit i) es s) = ulid_text s" for es
    by (induction es arbitrary: s) (simp_all add: frame)
  then show "tasks (project_events i k s) = tasks s" "journal (project_events i k s) = journal s"
    "ulid_text (project_events i k s) = ulid_text s" by (simp_all add: project_events_def)
qed

lemma project_events_bus_ok [keeps]: "bus_ok (bus s) \<Longrightarrow> bus_ok (bus (project_events i k s))"
proof -
  have "bus_ok (bus s) \<Longrightarrow> bus_ok (bus (fold (emit i) es s))" for es
    by (induction es arbitrary: s) (auto intro: emit_bus_ok)
  then show "bus_ok (bus s) \<Longrightarrow> bus_ok (bus (project_events i k s))"
    by (simp add: project_events_def)
qed

definition journal_row_for :: "task_id \<Rightarrow> journal_kind \<Rightarrow> task_store \<Rightarrow> journal_row" where
  "journal_row_for i k s = \<lparr>jr_task = i, jr_tag = journal_tag k, jr_effect = journal_effect_id k,
     jr_kind = k, jr_at = clock s (ticks s)\<rparr>"

lemma append_journal_frame [frame]:
  "tasks (snd (append_journal i k s)) = tasks s"
  "journal (snd (append_journal i k s)) = insert_row (journal_row_for i k s) (journal s)"
  "ulid_text (snd (append_journal i k s)) = ulid_text s"
  by (simp_all add: append_journal_def clock_now_def journal_row_for_def Let_def frame)

lemma append_journal_bus_ok [keeps]:
  "bus_ok (bus s) \<Longrightarrow> bus_ok (bus (snd (append_journal i k s)))"
  by (simp add: append_journal_def clock_now_def Let_def project_events_bus_ok)

lemma parent_entry_frame [frame]:
  "tasks (parent_entry p o' v s) = tasks s"
  "ulid_text (parent_entry p o' v s) = ulid_text s"
  by (simp_all add: parent_entry_def draw_ulid_def Let_def frame split: option.splits)

lemma parent_entry_bus_ok [keeps]: "bus_ok (bus s) \<Longrightarrow> bus_ok (bus (parent_entry p o' v s))"
  by (simp add: parent_entry_def draw_ulid_def Let_def append_journal_bus_ok split: option.splits)

section \<open>The state changes a journal records\<close>

fun change_of :: "journal_kind \<Rightarrow> (agent_state \<times> agent_state) list" where
  "change_of (StateChanged a b) = [(a, b)]"
| "change_of _ = []"

definition changes :: "task_id \<Rightarrow> task_store \<Rightarrow> (agent_state \<times> agent_state) list" where
  "changes i s =
     concat (map (\<lambda>x. if jr_task (snd x) = i then change_of (jr_kind (snd x)) else [])
       (rows (journal s)))"

lemma changes_cong: "journal s = journal t \<Longrightarrow> changes i s = changes i t"
  by (simp add: changes_def)

lemma changes_append_journal [simp]:
  "changes i (snd (append_journal j k s)) = changes i s @ (if i = j then change_of k else [])"
  by (simp add: changes_def frame journal_row_for_def)

lemma changes_parent_entry [simp]: "changes i (parent_entry p o' v s) = changes i s"
  by (simp add: parent_entry_def Let_def draw_ulid_def split: option.splits)
    (simp add: changes_def)

lemma changes_frame [simp]:
  "changes i (update_row j f s) = changes i s"
  "changes i (snd (clock_now s)) = changes i s"
  "changes i (snd (draw_ulid s)) = changes i s"
  by (simp_all add: changes_def)

text \<open>\<open>journal_since\<close> from the start, restricted to state changes, is this list.\<close>

lemma changes_journal_since:
  assumes "table_ok (journal s)"
  shows "concat (map (change_of \<circ> je_kind) (journal_since i 0 s)) =
    concat (map (\<lambda>x. if jr_task (snd x) = i \<and> 0 < fst x then change_of (jr_kind (snd x)) else [])
       (rows (journal s)))"
proof -
  have "concat (map (change_of \<circ> je_kind) (map (\<lambda>(q, r). \<lparr>je_seq = q, je_task = i,
        je_kind = jr_kind r, je_at = jr_at r\<rparr>)
      (filter (\<lambda>x. jr_task (snd x) = i) (filter (\<lambda>x. 0 < int (fst x)) xs)))) =
    concat (map (\<lambda>x. if jr_task (snd x) = i \<and> 0 < fst x then change_of (jr_kind (snd x)) else [])
       xs)" for xs :: "(nat \<times> journal_row) list"
    by (induction xs) auto
  then show ?thesis by (simp add: journal_since_def rows_after_def as_i64_small)
qed

fun chain :: "agent_state \<Rightarrow> (agent_state \<times> agent_state) list \<Rightarrow> agent_state \<Rightarrow> bool" where
  "chain a [] b \<longleftrightarrow> a = b"
| "chain a ((x, y) # es) b \<longleftrightarrow> a = x \<and> can_transition_to x y \<and> chain y es b"

lemma chain_append: "chain a (xs @ ys) c \<longleftrightarrow> (\<exists>b. chain a xs b \<and> chain b ys c)"
  by (induction a xs c rule: chain.induct) auto

lemma chain_snoc [simp]:
  "chain a (xs @ [(x, y)]) c \<longleftrightarrow> chain a xs x \<and> can_transition_to x y \<and> y = c"
  by (auto simp: chain_append)

lemma chain_functional: "chain a xs b \<Longrightarrow> chain a xs c \<Longrightarrow> b = c"
  by (induction a xs b rule: chain.induct) auto

lemma chain_walk: "chain a xs b \<Longrightarrow> walk a (map fst xs) b"
proof (induction xs arbitrary: b rule: rev_induct)
  case Nil
  then show ?case by simp
next
  case (snoc x xs)
  then show ?case by (cases x) (auto intro: walk_snoc)
qed

section \<open>The invariant\<close>

definition row_state :: "task_row \<Rightarrow> agent_state" where
  "row_state r = the (state_from_text (tr_state r))"

definition row_ok :: "task_row \<Rightarrow> bool" where
  "row_ok r \<longleftrightarrow>
     state_from_text (tr_state r) \<noteq> None \<and>
     (tr_paused_from r \<noteq> None \<longleftrightarrow> row_state r = Paused) \<and>
     (\<forall>p. tr_paused_from r = Some p \<longrightarrow>
        (\<exists>q. state_from_text p = Some q \<and> q \<noteq> Paused \<and> \<not> is_terminal q)) \<and>
     (tr_completed r \<noteq> None \<longleftrightarrow> is_terminal (row_state r)) \<and>
     (\<forall>c. tr_signal r = Some c \<longrightarrow> signal_from_text c \<noteq> None)"

definition skeleton :: "task_store \<Rightarrow> (task_id \<times> task_id option \<times> timestamp) list" where
  "skeleton s = map (\<lambda>r. (tr_id r, tr_parent r, tr_created r)) (tasks s)"

definition parents_earlier :: "(task_id \<times> task_id option \<times> timestamp) list \<Rightarrow> bool" where
  "parents_earlier xs \<longleftrightarrow> (\<forall>k < length xs. \<forall>p. fst (snd (xs ! k)) = Some p \<longrightarrow>
     p \<in> fst ` set (take k xs))"

definition task_ids :: "task_store \<Rightarrow> task_id list" where
  "task_ids s = map tr_id (tasks s)"

definition store_ok :: "task_store \<Rightarrow> bool" where
  "store_ok s \<longleftrightarrow>
     distinct (task_ids s) \<and>
     (\<forall>r \<in> set (tasks s). row_ok r \<and> chain Idle (changes (tr_id r) s) (row_state r)) \<and>
     (\<forall>i. i \<notin> set (task_ids s) \<longrightarrow> changes i s = []) \<and>
     parents_earlier (skeleton s) \<and> table_ok (journal s) \<and> bus_ok (bus s)"

lemma store_okD:
  assumes "store_ok s"
  shows "distinct (task_ids s)" "r \<in> set (tasks s) \<Longrightarrow> row_ok r"
    "r \<in> set (tasks s) \<Longrightarrow> chain Idle (changes (tr_id r) s) (row_state r)"
    "parents_earlier (skeleton s)" "table_ok (journal s)" "bus_ok (bus s)"
    "i \<notin> set (task_ids s) \<Longrightarrow> changes i s = []"
  using assms by (auto simp: store_ok_def)

lemma task_ids_skeleton: "task_ids s = map fst (skeleton s)"
  by (simp add: task_ids_def skeleton_def)

lemma row_of_Some:
  assumes "distinct (task_ids s)"
  shows "row_of i s = Some r \<longleftrightarrow> r \<in> set (tasks s) \<and> tr_id r = i"
proof
  assume "row_of i s = Some r"
  then show "r \<in> set (tasks s) \<and> tr_id r = i" by (auto simp: row_of_def dest: find_SomeD)
next
  assume r: "r \<in> set (tasks s) \<and> tr_id r = i"
  then obtain q where "row_of i s = Some q"
    by (cases "row_of i s") (auto simp: row_of_def find_None_iff_set)
  moreover from this have "q \<in> set (tasks s) \<and> tr_id q = i"
    by (auto simp: row_of_def dest: find_SomeD)
  ultimately show "row_of i s = Some r"
    using r assms by (auto simp: task_ids_def distinct_map dest: inj_onD)
qed

lemma row_of_None: "row_of i s = None \<longleftrightarrow> i \<notin> set (task_ids s)"
  by (auto simp: row_of_def find_None_iff_set task_ids_def)

lemma get_task_Inr:
  "get_task i s = Inr t \<Longrightarrow> \<exists>r. row_of i s = Some r \<and> row_to_task r = Inr t"
  by (auto simp: get_task_def split: option.splits)

lemma row_to_task_fields:
  "row_to_task r = Inr t \<Longrightarrow> tk_id t = tr_id r \<and> tk_state t = row_state r \<and>
     tk_parent t = tr_parent r \<and> tk_workspace t = tr_workspace r \<and>
     tk_completed t = tr_completed r \<and>
     tk_paused_from t = Option.bind (tr_paused_from r) state_from_text \<and>
     tk_signal t = Option.bind (tr_signal r) signal_from_text \<and> tr_created r = tk_created t"
  by (auto simp: row_to_task_def row_state_def split: option.splits)

lemma row_to_task_ok: "row_ok r \<Longrightarrow> \<exists>t. row_to_task r = Inr t"
  by (auto simp: row_to_task_def row_ok_def split: option.splits)

text \<open>In a sound store reading a task fails only when there is none.\<close>

lemma get_task_ok:
  assumes "store_ok s"
  shows "get_task i s = (if i \<in> set (task_ids s) then Inr (projr (get_task i s))
    else Inl (TaskNotFound i))"
proof (cases "row_of i s")
  case None
  then show ?thesis using row_of_None [of i s] by (simp add: get_task_def)
next
  case (Some r)
  then have "r \<in> set (tasks s)" using assms by (simp add: store_okD row_of_Some)
  moreover have "i \<in> set (task_ids s)" using Some row_of_None [of i s] by auto
  ultimately show ?thesis using assms Some row_to_task_ok [of r]
    by (auto simp: get_task_def store_okD)
qed

lemma get_task_row:
  assumes "store_ok s" and "get_task i s = Inr t"
  obtains r where "r \<in> set (tasks s)" and "tr_id r = i" and "row_ok r" and "tk_id t = i"
    and "tk_state t = row_state r" and "tk_parent t = tr_parent r"
    and "tk_completed t = tr_completed r"
    and "tk_paused_from t = Option.bind (tr_paused_from r) state_from_text"
    and "tk_signal t = Option.bind (tr_signal r) signal_from_text"
    and "chain Idle (changes i s) (row_state r)" and "row_to_task r = Inr t"
proof -
  from get_task_Inr [OF assms(2)] obtain r where r: "row_of i s = Some r" "row_to_task r = Inr t"
    by blast
  then have "r \<in> set (tasks s)" "tr_id r = i" using assms(1) by (simp_all add: store_okD row_of_Some)
  with r(2) row_to_task_fields [OF r(2)] store_okD(2,3) [OF assms(1), of r] that show ?thesis
    by auto
qed

section \<open>Every operation keeps it\<close>

lemma store_ok_frame:
  assumes "store_ok s" and "tasks s' = tasks s" and "\<And>i. changes i s' = changes i s"
    and "table_ok (journal s')" and "bus_ok (bus s')"
  shows "store_ok s'"
  using assms by (auto simp: store_ok_def task_ids_def skeleton_def)

lemma store_ok_update:
  assumes ok: "store_ok s" and r: "r \<in> set (tasks s)" "tr_id r = i"
    and f: "\<And>q. tr_id (f q) = tr_id q \<and> tr_parent (f q) = tr_parent q \<and> tr_created (f q) = tr_created q"
    and t: "tasks s' = tasks (update_row i f s)"
    and row: "row_ok (f r)" "chain Idle (changes i s') (row_state (f r))"
    and other: "\<And>j. j \<noteq> i \<Longrightarrow> changes j s' = changes j s"
    and rest: "table_ok (journal s')" "bus_ok (bus s')"
  shows "store_ok s'"
proof -
  have sk: "skeleton s' = skeleton s" by (simp add: skeleton_def t update_row_def f)
  then have ids: "task_ids s' = task_ids s" by (simp add: task_ids_skeleton)
  have "row_ok q \<and> chain Idle (changes (tr_id q) s') (row_state q)" if "q \<in> set (tasks s')" for q
  proof -
    from that obtain p where p: "p \<in> set (tasks s)" "q = (if tr_id p = i then f p else p)"
      by (auto simp: t update_row_def)
    show ?thesis
    proof (cases "tr_id p = i")
      case True
      with p(1) r ok have "p = r" by (metis row_of_Some store_okD(1) option.inject)
      with True p row f show ?thesis by auto
    next
      case False
      with p ok other show ?thesis by (auto simp: store_okD)
    qed
  qed
  moreover have "changes j s' = []" if "j \<notin> set (task_ids s')" for j
  proof -
    have "i \<in> set (task_ids s)" using r by (auto simp: task_ids_def)
    with that ids other [of j] ok show ?thesis by (auto simp: store_okD)
  qed
  ultimately show ?thesis
    using ok rest by (auto simp: store_ok_def sk ids)
qed

lemma append_journal_ok [keeps]:
  assumes "store_ok s" and "change_of k = []"
  shows "store_ok (snd (append_journal i k s))"
  using assms(1) by (rule store_ok_frame)
    (simp_all add: assms frame store_okD table_ok_insert_row append_journal_bus_ok)

lemma clock_now_ok [keeps]: "store_ok s \<Longrightarrow> store_ok (snd (clock_now s))"
  by (rule store_ok_frame, assumption) (simp_all add: store_okD)

lemma draw_ulid_ok [keeps]: "store_ok s \<Longrightarrow> store_ok (snd (draw_ulid s))"
  by (rule store_ok_frame, assumption) (simp_all add: store_okD)

lemma parent_entry_ok [keeps]: "store_ok s \<Longrightarrow> store_ok (parent_entry p o' v s)"
  by (cases p) (simp_all add: parent_entry_def Let_def case_prod_beta append_journal_ok draw_ulid_ok)

lemma update_quiet_ok:
  assumes "store_ok s"
    and "\<And>q. tr_id (f q) = tr_id q \<and> tr_parent (f q) = tr_parent q \<and> tr_created (f q) = tr_created q
      \<and> tr_state (f q) = tr_state q"
    and "\<And>q. row_ok q \<Longrightarrow> row_ok (f q)"
  shows "store_ok (update_row i f s)"
proof (cases "i \<in> set (task_ids s)")
  case True
  then obtain r where r: "r \<in> set (tasks s)" "tr_id r = i" by (auto simp: task_ids_def)
  from assms(1) r show ?thesis
    by (rule store_ok_update [where f = f])
      (use assms r in \<open>auto simp: store_okD row_state_def\<close>, use assms store_okD(3) in
        \<open>auto simp: row_state_def\<close>)
next
  case False
  then have "tasks (update_row i f s) = tasks s"
    by (auto simp: update_row_def task_ids_def intro!: map_idI)
  with assms(1) show ?thesis by (rule store_ok_frame) (use assms in \<open>auto simp: store_okD\<close>)
qed

lemma set_pending_signal_ok [keeps]:
  assumes "store_ok s"
  shows "store_ok (snd (set_pending_signal i c s))"
proof -
  have "store_ok (update_row i (\<lambda>r. r\<lparr>tr_signal := Some (signal_to_text c)\<rparr>) s)"
    using assms by (rule update_quiet_ok) (auto simp: row_ok_def row_state_def)
  with assms show ?thesis by (simp add: set_pending_signal_def split: sum.splits)
qed

text \<open>The state in the middle of a transition: the row is updated and the change journaled.\<close>

definition mid_transition :: "task_id \<Rightarrow> task \<Rightarrow> agent_state \<Rightarrow> task_store \<Rightarrow> task_store" where
  "mid_transition i t to s =
     snd (append_journal i (StateChanged (tk_state t) to)
       (update_row i (transition_update t to (clock s (ticks s))) (snd (clock_now s))))"

lemma transition_unfold:
  "transition i to s =
     (case get_task i s of
        Inl e \<Rightarrow> (Inl e, s)
      | Inr t \<Rightarrow> (case transition_check t to of
          Some e \<Rightarrow> (Inl e, s)
        | None \<Rightarrow> (Inr (), if is_terminal to
            then parent_entry (tk_parent t) ''subtask_completed''
              (JObject [(''child_task_id'', JString (id_text s i)),
                (''final_state'', JString (show_state to))]) (mid_transition i t to s)
            else mid_transition i t to s)))"
  by (simp add: transition_def mid_transition_def clock_now_def Let_def split: sum.splits option.splits)

lemma transition_check_legal: "transition_check t to = None \<Longrightarrow> can_transition_to (tk_state t) to"
  by (auto simp: transition_check_def split: if_splits)

lemma transition_update_id [simp]:
  "tr_id (transition_update t to now q) = tr_id q"
  "tr_parent (transition_update t to now q) = tr_parent q"
  "tr_created (transition_update t to now q) = tr_created q"
  by (simp_all add: transition_update_def)

lemma row_state_transition_update [simp]: "row_state (transition_update t to now r) = to"
  by (simp add: row_state_def transition_update_def)

lemma row_ok_transition_update:
  assumes "row_ok r" and "tk_state t = row_state r" and "tk_completed t = tr_completed r"
    and "can_transition_to (tk_state t) to"
  shows "row_ok (transition_update t to now r)"
proof -
  have "\<not> is_terminal (row_state r)" using assms(2,4) by (metis terminal_no_edge)
  then have "tr_completed r = None" using assms(1) by (auto simp: row_ok_def)
  with assms show ?thesis
    by (auto simp: row_ok_def transition_update_def row_state_def edge_to_Paused)
qed

lemma mid_transition_ok:
  assumes ok: "store_ok s" and g: "get_task i s = Inr t" and c: "transition_check t to = None"
  shows "store_ok (mid_transition i t to s)"
proof -
  from get_task_row [OF ok g] obtain r where r: "r \<in> set (tasks s)" "tr_id r = i" "row_ok r"
      "tk_state t = row_state r" "tk_completed t = tr_completed r"
      "chain Idle (changes i s) (row_state r)" by metis
  from ok r(1,2) show ?thesis
  proof (rule store_ok_update [where f = "transition_update t to (clock s (ticks s))"])
    show "row_ok (transition_update t to (clock s (ticks s)) r)"
      using r transition_check_legal [OF c] by (intro row_ok_transition_update) auto
    show "tasks (mid_transition i t to s)
        = tasks (update_row i (transition_update t to (clock s (ticks s))) s)"
      by (simp add: mid_transition_def frame update_row_def)
  qed (use ok r transition_check_legal [OF c] in \<open>simp_all add: mid_transition_def frame store_okD
    table_ok_insert_row append_journal_bus_ok\<close>)
qed

lemma transition_ok [keeps]: "store_ok s \<Longrightarrow> store_ok (snd (transition i to s))"
  by (auto simp: transition_unfold intro: mid_transition_ok parent_entry_ok
      split: sum.splits option.splits)

text \<open>A failed transition writes nothing.\<close>

lemma transition_error: "fst (transition i to s) = Inl e \<Longrightarrow> snd (transition i to s) = s"
  by (auto simp: transition_unfold split: sum.splits option.splits)

lemma then_do_ok_at:
  "store_ok (snd x) \<Longrightarrow> (\<And>a t. x = (Inr a, t) \<Longrightarrow> store_ok t \<Longrightarrow> store_ok (snd (f a t)))
    \<Longrightarrow> store_ok (snd (then_do x f))"
  by (cases x; cases "fst x") auto

lemma then_do_ok:
  "store_ok (snd x) \<Longrightarrow> (\<And>a t. store_ok t \<Longrightarrow> store_ok (snd (f a t)))
    \<Longrightarrow> store_ok (snd (then_do x f))"
  by (rule then_do_ok_at)

lemma recover_task_ok [keeps]:
  assumes "store_ok s"
  shows "store_ok (snd (recover_task i note s))"
proof -
  have "store_ok (update_row i (\<lambda>r. r\<lparr>tr_note := Some note\<rparr>) s)"
    using assms by (rule update_quiet_ok) (auto simp: row_ok_def row_state_def)
  then show ?thesis
    using assms by (auto simp: recover_task_def Let_def append_journal_ok transition_ok
        set_pending_signal_ok intro!: then_do_ok split: sum.splits option.splits)
qed

lemma recover_task_if_active_ok [keeps]:
  "store_ok s \<Longrightarrow> store_ok (snd (recover_task_if_active i s))"
  by (auto simp: recover_task_if_active_def recover_task_ok intro!: then_do_ok split: sum.splits)

lemma recover_each_ok [keeps]: "store_ok s \<Longrightarrow> store_ok (snd (recover_each xs s))"
proof (induction xs s rule: recover_each.induct)
  case (2 i tx xs s)
  show ?case
  proof (cases "state_from_text tx")
    case (Some st)
    with 2 show ?thesis
      by (auto simp: recover_task_ok intro!: then_do_ok_at)
  qed (use 2 in simp)
qed simp

lemma recover_incomplete_tasks_ok [keeps]:
  "store_ok s \<Longrightarrow> store_ok (snd (recover_incomplete_tasks s))"
  by (simp add: recover_incomplete_tasks_def recover_each_ok)

lemma cascade_ok [keeps]:
  "cascade_signal_to_children n i c s = Some (r, s') \<Longrightarrow> store_ok s \<Longrightarrow> store_ok s'"
  "cascade_each n ts c s = Some (r, s') \<Longrightarrow> store_ok s \<Longrightarrow> store_ok s'"
proof (induction n i c s and n ts c s arbitrary: r s' and r s'
    rule: cascade_signal_to_children_cascade_each.induct)
  case (4 n t ts c s)
  show ?case
  proof (cases "if is_terminal (tk_state t) then (Inr (), s) else set_pending_signal (tk_id t) c s")
    case (Pair a s1)
    then have s1: "store_ok s1"
      using 4(4) set_pending_signal_ok [OF 4(4), of "tk_id t" c] by (auto split: if_splits)
    with Pair 4(1-3) show ?thesis
      by (cases a) (auto split: option.splits prod.splits sum.splits)
  qed
qed (auto split: sum.splits)

lemma request_signal_ok [keeps]:
  assumes "store_ok s" and "request_signal n c i s = Some (r, s')"
  shows "store_ok s'"
proof (cases "set_pending_signal i c s")
  case (Pair a s1)
  with set_pending_signal_ok [OF assms(1), of i c] have "store_ok s1" by simp
  with Pair assms(2) show ?thesis
    by (cases a) (auto simp: request_signal_def dest: cascade_ok(1))
qed

lemma parents_earlier_snoc:
  assumes "parents_earlier xs" and "\<And>p. fst (snd x) = Some p \<Longrightarrow> p \<in> fst ` set xs"
  shows "parents_earlier (xs @ [x])"
  unfolding parents_earlier_def
proof (intro allI impI)
  fix k p assume "k < length (xs @ [x])" and e: "fst (snd ((xs @ [x]) ! k)) = Some p"
  then consider "k < length xs" | "k = length xs" by fastforce
  then show "p \<in> fst ` set (take k (xs @ [x]))"
  proof cases
    case 1
    with e assms(1) show ?thesis by (auto simp: parents_earlier_def nth_append)
  next
    case 2
    with e assms(2) show ?thesis by simp
  qed
qed

definition fresh_row :: "task_id \<Rightarrow> workspace_id \<Rightarrow> task_id option \<Rightarrow> string \<Rightarrow> budget \<Rightarrow> timestamp \<Rightarrow> task_row"
  where
  "fresh_row i w p obj bud t = \<lparr>tr_id = i, tr_workspace = w, tr_parent = p, tr_objective = obj,
     tr_state = state_to_text Idle, tr_paused_from = None, tr_plan_scope = [],
     tr_budget = bud, tr_generation = None, tr_created = t, tr_updated = t,
     tr_completed = None, tr_note = None, tr_signal = None\<rparr>"

lemma insert_task_ok:
  assumes ok: "store_ok s" and p: "\<And>q. p = Some q \<Longrightarrow> q \<in> set (task_ids s)"
  shows "store_ok (snd (insert_task (fresh_row i w p obj bud t) s))"
proof (cases "i \<in> set (task_ids s)")
  case True
  with ok show ?thesis by (auto simp: insert_task_def fresh_row_def task_ids_def)
next
  case False
  let ?r = "fresh_row i w p obj bud t" and ?s = "s\<lparr>tasks := tasks s @ [fresh_row i w p obj bud t]\<rparr>"
  have s': "snd (insert_task ?r s) = ?s"
    using False by (auto simp: insert_task_def fresh_row_def task_ids_def)
  have c: "changes j ?s = changes j s" for j by (simp add: changes_def)
  have "row_ok ?r \<and> row_state ?r = Idle \<and> tr_id ?r = i"
    by (simp add: row_ok_def row_state_def fresh_row_def)
  moreover have "changes i s = []" using ok False by (rule store_okD(7))
  moreover have "parents_earlier (skeleton ?s)"
  proof -
    have "skeleton ?s = skeleton s @ [(i, p, t)]" by (simp add: skeleton_def fresh_row_def)
    then show ?thesis
      using parents_earlier_snoc [OF store_okD(4) [OF ok], of "(i, p, t)"] p
      by (simp add: task_ids_skeleton)
  qed
  ultimately show ?thesis
    using ok False unfolding s' by (auto simp: store_ok_def c task_ids_def)
qed

lemma create_with_parent_ok [keeps]:
  assumes ok: "store_ok s" and p: "\<And>q. p = Some q \<Longrightarrow> q \<in> set (task_ids s)"
  shows "store_ok (snd (create_with_parent w p obj bud s))"
proof -
  let ?s2 = "snd (clock_now (snd (draw_ulid s)))"
  have ok2: "store_ok ?s2" using ok by (intro clock_now_ok draw_ulid_ok)
  have "store_ok (snd (insert_task (fresh_row i w p obj bud t) ?s2))" for i t
    using ok2 by (rule insert_task_ok) (use p in \<open>simp add: task_ids_def\<close>)
  then show ?thesis
    by (auto simp: create_with_parent_def Let_def case_prod_beta fresh_row_def
        intro!: then_do_ok parent_entry_ok append_journal_ok)
qed

lemma create_task_ok [keeps]: "store_ok s \<Longrightarrow> store_ok (snd (create_task w obj bud s))"
  unfolding create_task_def by (rule create_with_parent_ok) simp_all

lemma create_child_ok [keeps]:
  assumes "store_ok s"
  shows "store_ok (snd (create_child p obj bud s))"
proof (cases "get_task p s")
  case (Inl e)
  with assms show ?thesis by (simp add: create_child_def)
next
  case (Inr t)
  then have "p \<in> set (task_ids s)"
    using get_task_ok [OF assms, of p] by (auto split: if_splits)
  then have "store_ok (snd (create_with_parent (tk_workspace t) (Some p) obj bud s))"
    using assms by (intro create_with_parent_ok) auto
  with Inr show ?thesis by (simp add: create_child_def)
qed

section \<open>The manager as a transition system\<close>

text \<open>The public operations that write, on any arguments. Entries appended from outside the
  manager are effects.\<close>

inductive task_step :: "task_store \<Rightarrow> task_store \<Rightarrow> bool" where
  step_create: "task_step s (snd (create_task w obj bud s))"
| step_child: "task_step s (snd (create_child p obj bud s))"
| step_transition: "task_step s (snd (transition i to s))"
| step_issued: "task_step s (snd (append_journal i (EffectIssued e st k p) s))"
| step_completed: "task_step s (snd (append_journal i (EffectCompleted e st k p) s))"
| step_signal: "request_signal n c i s = Some (r, s') \<Longrightarrow> task_step s s'"
| step_recover: "task_step s (snd (recover_task_if_active i s))"
| step_recover_all: "task_step s (snd (recover_incomplete_tasks s))"

inductive_cases task_stepE: "task_step s s'"

lemma task_step_ok: "task_step s s' \<Longrightarrow> store_ok s \<Longrightarrow> store_ok s'"
  by (induction rule: task_step.induct)
    (auto intro: create_task_ok create_child_ok transition_ok append_journal_ok request_signal_ok
      recover_task_if_active_ok recover_incomplete_tasks_ok)

end
