(* ===== verification/Task_Correct.thy ===== *)
theory Task_Correct
  imports Task_Invariant
begin

text \<open>
  What the operations of the task manager achieve, proved from the invariant of
  \<open>Task_Invariant\<close>: what a transition leaves in the row, that the journal explains every state,
  that terminal tasks stay as they are, and that crash recovery parks a task without losing
  where it was or what was asked of it.
\<close>

section \<open>Reachable stores\<close>

definition empty_store :: "(nat \<Rightarrow> timestamp) \<Rightarrow> (nat \<Rightarrow> nat) \<Rightarrow> (nat \<Rightarrow> string) \<Rightarrow> task_store" where
  "empty_store ck ul ut = \<lparr>tasks = [], journal = empty_table, bus = empty_bus, clock = ck,
     ulid = ul, ulid_text = ut, ticks = 0, draws = 0\<rparr>"

lemma empty_store_ok [simp]: "store_ok (empty_store ck ul ut)"
  by (simp add: store_ok_def empty_store_def task_ids_def skeleton_def parents_earlier_def
      changes_def) (simp add: empty_table_def)

lemma task_steps_ok: "task_step\<^sup>*\<^sup>* s s' \<Longrightarrow> store_ok s \<Longrightarrow> store_ok s'"
  by (induction rule: rtranclp_induct) (auto intro: task_step_ok)

definition reachable_store :: "task_store \<Rightarrow> bool" where
  "reachable_store s \<longleftrightarrow> (\<exists>ck ul ut. task_step\<^sup>*\<^sup>* (empty_store ck ul ut) s)"

lemma reachable_store_ok: "reachable_store s \<Longrightarrow> store_ok s"
  by (auto simp: reachable_store_def intro: task_steps_ok)


section \<open>Reading back\<close>

lemma row_of_update_row:
  assumes "\<And>q. tr_id (f q) = tr_id q"
  shows "row_of j (update_row i f s) = map_option (\<lambda>r. if j = i then f r else r) (row_of j s)"
proof -
  have "find (\<lambda>r. tr_id r = j) (map (\<lambda>r. if tr_id r = i then f r else r) rs)
      = map_option (\<lambda>r. if j = i then f r else r) (find (\<lambda>r. tr_id r = j) rs)" for rs
    by (induction rs) (auto simp: assms)
  then show ?thesis by (simp add: row_of_def update_row_def)
qed

lemma row_of_cong: "tasks s = tasks t \<Longrightarrow> row_of i s = row_of i t"
  by (simp add: row_of_def)

lemma get_task_cong: "tasks s = tasks t \<Longrightarrow> get_task i s = get_task i t"
  by (simp add: get_task_def row_of_cong [of s t])

lemma get_task_append_journal [simp]: "get_task i (snd (append_journal j k s)) = get_task i s"
  by (rule get_task_cong) (simp add: frame)

lemma get_task_parent_entry [simp]: "get_task i (parent_entry p o' v s) = get_task i s"
  by (rule get_task_cong) (simp add: frame)

lemma row_to_task_transition_update:
  assumes "row_to_task r = Inr t"
  shows "row_to_task (transition_update t to now r) = Inr (t\<lparr>tk_state := to,
    tk_paused_from := (if to = Paused then Some (tk_state t) else None), tk_updated := now,
    tk_completed := (if is_terminal to then Some now else tk_completed t), tk_signal := None\<rparr>)"
  using assms by (auto simp: row_to_task_def transition_update_def split: option.splits)

lemma get_task_mid_transition:
  assumes "get_task i s = Inr t"
  shows "get_task j (mid_transition i t to s) =
    (if j = i then Inr (t\<lparr>tk_state := to,
       tk_paused_from := (if to = Paused then Some (tk_state t) else None),
       tk_updated := clock s (ticks s),
       tk_completed := (if is_terminal to then Some (clock s (ticks s)) else tk_completed t),
       tk_signal := None\<rparr>)
     else get_task j s)"
  using get_task_Inr [OF assms]
  by (auto simp: mid_transition_def get_task_def row_of_update_row row_to_task_transition_update
      row_of_cong [of "snd (append_journal _ _ _)"] row_of_cong [of "snd (clock_now _)" s] frame
      split: option.splits)

text \<open>\<open>transition\<close> is all or nothing on the row. It succeeds exactly when the task exists, the
  edge is legal and a paused task goes back to where it was paused from; then the task reads back
  in its new state, with the pause origin recorded exactly for a pause, the completion time set
  exactly by a terminal state and the pending signal cleared, and no other task has changed. When
  it fails nothing was written.\<close>

theorem transition_effect:
  "(case transition i to s of
      (Inl e, s') \<Rightarrow> s' = s \<and> (\<forall>t. get_task i s = Inr t \<longrightarrow> transition_check t to = Some e)
    | (Inr _, s') \<Rightarrow> (\<exists>t. get_task i s = Inr t \<and> transition_check t to = None \<and>
        can_transition_to (tk_state t) to \<and>
        get_task i s' = Inr (t\<lparr>tk_state := to,
          tk_paused_from := (if to = Paused then Some (tk_state t) else None),
          tk_updated := clock s (ticks s),
          tk_completed := (if is_terminal to then Some (clock s (ticks s)) else tk_completed t),
          tk_signal := None\<rparr>) \<and>
        (\<forall>j. j \<noteq> i \<longrightarrow> get_task j s' = get_task j s)))"
  by (cases "get_task i s")
    (auto simp: transition_unfold get_task_mid_transition transition_check_legal
      split: option.splits)

text \<open>A paused task can only be resumed: even cancelling it is refused, although the abstract
  table has an edge from \<open>Paused\<close> to \<open>Cancelled\<close>.\<close>

lemma paused_cannot_cancel:
  assumes "get_task i s = Inr t" and "tk_state t = Paused" and "tk_paused_from t = Some p"
    and "p \<noteq> Cancelled"
  shows "can_transition_to Paused Cancelled \<and>
    transition i Cancelled s = (Inl (WrongResumeTarget (tk_id t) p Cancelled), s)"
  using assms by (simp add: transition_unfold transition_check_def can_transition_to_def)

section \<open>The journal only grows\<close>

definition extends :: "task_store \<Rightarrow> task_store \<Rightarrow> bool" where
  "extends s s' \<longleftrightarrow> (\<exists>ys. rows (journal s') = rows (journal s) @ ys) \<and>
     set (task_ids s) \<subseteq> set (task_ids s')"

lemma extends_refl [simp]: "extends s s"
  by (simp add: extends_def)

lemma extends_trans: "extends s t \<Longrightarrow> extends t u \<Longrightarrow> extends s u"
  by (auto simp: extends_def)

lemma extends_changes: "extends s s' \<Longrightarrow> \<exists>ys. changes i s' = changes i s @ ys"
  by (auto simp: extends_def changes_def)

lemma task_ids_update_row:
  "(\<And>q. tr_id (f q) = tr_id q) \<Longrightarrow> task_ids (update_row i f s) = task_ids s"
  by (simp add: task_ids_def update_row_def)

lemma extends_append_journal [simp]: "extends s (snd (append_journal i k s))"
  by (simp add: extends_def frame task_ids_def)

lemma extends_parent_entry [simp]: "extends s (parent_entry p o' v s)"
  by (simp add: extends_def parent_entry_def draw_ulid_def Let_def task_ids_def frame
      split: option.splits)

lemma extends_update_row: "(\<And>q. tr_id (f q) = tr_id q) \<Longrightarrow> extends s (update_row i f s)"
  by (simp add: extends_def task_ids_update_row)

lemma extends_clock_now [simp]: "extends s (snd (clock_now s))"
  and extends_draw_ulid [simp]: "extends s (snd (draw_ulid s))"
  by (simp_all add: extends_def task_ids_def)

lemma extends_then_do:
  "extends s (snd x) \<Longrightarrow> (\<And>a t. extends t (snd (f a t))) \<Longrightarrow> extends s (snd (then_do x f))"
  by (cases x; cases "fst x") (auto intro: extends_trans)

lemmas extends_after = extends_trans [OF _ extends_append_journal]
  extends_trans [OF _ extends_parent_entry]

lemma extends_mid_transition [simp]: "extends s (mid_transition i t to s)"
  unfolding mid_transition_def
  by (rule extends_trans [OF _ extends_append_journal], rule extends_trans [OF extends_clock_now],
      rule extends_update_row) simp

lemma extends_transition [simp]: "extends s (snd (transition i to s))"
  by (auto simp: transition_unfold intro: extends_after split: sum.splits option.splits)

lemma extends_set_pending_signal [simp]: "extends s (snd (set_pending_signal i c s))"
  by (auto simp: set_pending_signal_def intro: extends_update_row split: sum.splits)

lemma extends_recover_task [simp]: "extends s (snd (recover_task i note s))"
proof -
  let ?s2 = "snd (append_journal i (RecoveryNote note) (update_row i (\<lambda>r. r\<lparr>tr_note := Some note\<rparr>) s))"
  have "extends s ?s2"
    by (rule extends_trans [OF _ extends_append_journal], rule extends_update_row) simp
  then have "extends s (snd (then_do (transition i Paused ?s2) (\<lambda>_ s3.
      case tk_signal t of None \<Rightarrow> (Inr (), s3) | Some c \<Rightarrow> set_pending_signal i c s3)))" for t
    by (intro extends_then_do) (auto intro: extends_trans split: option.splits)
  then show ?thesis unfolding recover_task_def Let_def by (cases "get_task i s") simp_all
qed

lemma extends_recover_if_active [simp]: "extends s (snd (recover_task_if_active i s))"
  by (auto simp: recover_task_if_active_def intro!: extends_then_do split: sum.splits)

lemma extends_recover_each [simp]: "extends s (snd (recover_each xs s))"
proof (induction xs s rule: recover_each.induct)
  case (2 i tx xs s)
  have "extends s (snd (then_do (recover_task i n s)
      (\<lambda>_ s1. then_do (recover_each xs s1) (\<lambda>is s2. (Inr (i # is), s2)))))"
    if "\<And>t. extends t (snd (recover_each xs t))" for n
    using that by (intro extends_then_do) auto
  moreover have "extends t (snd (recover_each xs t))" for t
    by (induction xs arbitrary: t)
      (auto intro!: extends_then_do split: option.splits)
  ultimately show ?case by (auto split: option.splits)
qed simp

lemma extends_cascade:
  "cascade_signal_to_children n i c s = Some (r, s') \<Longrightarrow> extends s s'"
  "cascade_each n ts c s = Some (r, s') \<Longrightarrow> extends s s'"
proof (induction n i c s and n ts c s arbitrary: r s' and r s'
    rule: cascade_signal_to_children_cascade_each.induct)
  case (4 n t ts c s)
  show ?case
  proof (cases "if is_terminal (tk_state t) then (Inr (), s) else set_pending_signal (tk_id t) c s")
    case (Pair a s1)
    then have "extends s s1"
      using extends_set_pending_signal [of s "tk_id t" c]
      by (auto simp del: extends_set_pending_signal split: if_splits)
    with Pair 4 show ?thesis
      by (cases a) (auto intro: extends_trans split: option.splits prod.splits sum.splits,
        metis extends_trans)
  qed
qed (auto split: sum.splits)

lemma extends_create: "extends s (snd (create_with_parent w p obj bud s))"
proof -
  have i: "extends t (snd (insert_task r t))" for r t
    by (auto simp: insert_task_def extends_def task_ids_def)
  have "extends s (snd (clock_now (snd (draw_ulid s))))" by (blast intro: extends_trans extends_clock_now extends_draw_ulid)
  then have "extends s (snd (insert_task r (snd (clock_now (snd (draw_ulid s))))))" for r
    using i extends_trans by blast
  then show ?thesis
    by (auto simp: create_with_parent_def Let_def case_prod_beta intro!: extends_then_do extends_after)
qed

lemma extends_step: "task_step s s' \<Longrightarrow> extends s s'"
proof (induction rule: task_step.induct)
  case (step_child s p obj bud)
  then show ?case by (auto simp: create_child_def extends_create split: sum.splits)
next
  case (step_signal n c i s r s')
  show ?case
  proof (cases "set_pending_signal i c s")
    case (Pair a s1)
    have "extends s (snd (set_pending_signal i c s))" by (rule extends_set_pending_signal)
    with Pair step_signal show ?thesis
      by (cases a) (auto simp: request_signal_def intro: extends_trans dest: extends_cascade(1))
  qed
qed (simp_all add: create_task_def extends_create recover_incomplete_tasks_def)

lemma extends_steps: "task_step\<^sup>*\<^sup>* s s' \<Longrightarrow> extends s s'"
  by (induction rule: rtranclp_induct) (auto intro: extends_trans extends_step)

text \<open>Terminal is final. Once a reachable task is completed, failed or cancelled, whatever the
  manager is asked to do afterwards (recovery and control signals included) leaves it in that
  state, and no further state change is ever journaled for it.\<close>

theorem terminal_is_final:
  assumes "reachable_store s" and "get_task i s = Inr t" and "is_terminal (tk_state t)"
    and "task_step\<^sup>*\<^sup>* s s'"
  shows "\<exists>t'. get_task i s' = Inr t' \<and> tk_state t' = tk_state t \<and> changes i s' = changes i s"
proof -
  have ok: "store_ok s" using assms(1) by (rule reachable_store_ok)
  have ok': "store_ok s'" using task_steps_ok [OF assms(4) ok] .
  have "i \<in> set (task_ids s)" using get_task_ok [OF ok, of i] assms(2) by (auto split: if_splits)
  then have "i \<in> set (task_ids s')" using extends_steps [OF assms(4)] by (auto simp: extends_def)
  then obtain t' where t': "get_task i s' = Inr t'" using get_task_ok [OF ok', of i] by auto
  obtain ys where ys: "changes i s' = changes i s @ ys"
    using extends_changes [OF extends_steps [OF assms(4)]] by blast
  from get_task_row [OF ok assms(2)] have c: "chain Idle (changes i s) (tk_state t)" by metis
  from get_task_row [OF ok' t'] have c': "chain Idle (changes i s @ ys) (tk_state t')"
    using ys by metis
  have "ys = []"
  proof (cases ys)
    case (Cons y zs)
    with c c' assms(3) show ?thesis
      by (cases y) (auto simp: chain_append dest: chain_functional)
  qed simp
  with c c' t' ys show ?thesis by (auto dest: chain_functional)
qed

section \<open>Crash recovery\<close>

text \<open>\<open>t'\<close> is \<open>t\<close> parked by recovery: paused, with the way back and the pending signal kept.\<close>

definition parked :: "task \<Rightarrow> task \<Rightarrow> bool" where
  "parked t t' \<longleftrightarrow> tk_id t' = tk_id t \<and> tk_state t' = Paused \<and>
     tk_paused_from t' = Some (tk_state t) \<and> tk_signal t' = tk_signal t \<and>
     tk_completed t' = None \<and> tk_objective t' = tk_objective t \<and> tk_parent t' = tk_parent t"

lemma get_task_update_row:
  assumes "\<And>q. tr_id (f q) = tr_id q"
  shows "get_task j (update_row i f s) =
    (case row_of j s of None \<Rightarrow> Inl (TaskNotFound j)
     | Some r \<Rightarrow> row_to_task (if j = i then f r else r))"
  by (simp add: get_task_def row_of_update_row [OF assms] split: option.splits)

lemma get_task_set_note:
  "get_task j (update_row i (\<lambda>r. r\<lparr>tr_note := Some n\<rparr>) s) =
    (if j = i then map_sum id (\<lambda>t. t\<lparr>tk_note := Some n\<rparr>) (get_task j s) else get_task j s)"
  by (subst get_task_update_row)
    (auto simp: get_task_def row_to_task_def split: option.splits)

lemma get_task_set_signal:
  "get_task j (update_row i (\<lambda>r. r\<lparr>tr_signal := Some (signal_to_text c)\<rparr>) s) =
    (if j = i then map_sum id (\<lambda>t. t\<lparr>tk_signal := Some c\<rparr>) (get_task j s) else get_task j s)"
  by (subst get_task_update_row)
    (auto simp: get_task_def row_to_task_def split: option.splits)

lemma active_can_pause:
  "\<not> is_stable_without_a_driver a \<Longrightarrow> can_transition_to a Paused \<and> a \<noteq> Paused"
  by (auto simp: is_stable_without_a_driver_def edge_to_Paused)

lemma recover_task_effect:
  assumes ok: "store_ok s" and g: "get_task i s = Inr t"
    and a: "\<not> is_stable_without_a_driver (tk_state t)"
  shows "\<exists>s' t'. recover_task i note s = (Inr (), s') \<and> get_task i s' = Inr t' \<and> parked t t' \<and>
    tk_note t' = Some note \<and> (\<forall>j. j \<noteq> i \<longrightarrow> get_task j s' = get_task j s)"
proof -
  let ?s2 = "snd (append_journal i (RecoveryNote note) (update_row i (\<lambda>r. r\<lparr>tr_note := Some note\<rparr>) s))"
  let ?t2 = "t\<lparr>tk_note := Some note\<rparr>"
  have g2: "get_task i ?s2 = Inr ?t2" "\<And>j. j \<noteq> i \<Longrightarrow> get_task j ?s2 = get_task j s"
    by (simp_all add: get_task_set_note g)
  have "transition_check ?t2 Paused = None"
    using active_can_pause [OF a] by (simp add: transition_check_def)
  then have tr: "transition i Paused ?s2 = (Inr (), mid_transition i ?t2 Paused ?s2)"
    unfolding transition_unfold g2(1) by simp
  define s3 where "s3 = mid_transition i ?t2 Paused ?s2"
  have none: "tk_completed t = None"
    by (rule get_task_row [OF ok g]) (use a in \<open>simp add: row_ok_def is_stable_without_a_driver_def\<close>)
  have g3: "get_task j s3 = get_task j s" if "j \<noteq> i" for j
    using that by (simp add: s3_def get_task_mid_transition [OF g2(1)] get_task_set_note)
  obtain t3 where t3: "get_task i s3 = Inr t3" "parked (t\<lparr>tk_signal := None\<rparr>) t3" "tk_note t3 = Some note"
    using none by (simp add: s3_def get_task_mid_transition [OF g2(1)] parked_def)
  have rt: "recover_task i note s = (case tk_signal t of None \<Rightarrow> (Inr (), s3)
      | Some c \<Rightarrow> set_pending_signal i c s3)"
    by (cases "tk_signal t") (simp_all add: recover_task_def g Let_def tr s3_def)
  show ?thesis
  proof (cases "tk_signal t")
    case None
    with rt t3 g3 show ?thesis by (auto simp: parked_def)
  next
    case (Some c)
    with rt t3 g3 show ?thesis
      by (auto simp: set_pending_signal_def get_task_set_signal parked_def)
  qed
qed

text \<open>Recovery of one task parks it and loses nothing. On a store the manager can reach,
  \<open>recover_task_if_active\<close> reports whether the task was active; an active task is then paused,
  remembers the state it was in, still carries its pending pause or cancel request, and can be
  resumed to exactly that state; a task at rest and every other task are untouched.\<close>

theorem recovery_parks_task:
  assumes "reachable_store s" and "get_task i s = Inr t"
  shows "\<exists>s' t'. recover_task_if_active i s = (Inr (\<not> is_stable_without_a_driver (tk_state t)), s') \<and>
    get_task i s' = Inr t' \<and> is_stable_without_a_driver (tk_state t') \<and>
    (if is_stable_without_a_driver (tk_state t) then s' = s
     else parked t t' \<and> transition_check t' (tk_state t) = None) \<and>
    (\<forall>j. j \<noteq> i \<longrightarrow> get_task j s' = get_task j s)"
proof (cases "is_stable_without_a_driver (tk_state t)")
  case True
  with assms(2) show ?thesis by (simp add: recover_task_if_active_def)
next
  case False
  from recover_task_effect [OF reachable_store_ok [OF assms(1)] assms(2) False] obtain s' t' where
    r: "recover_task i (''recovered on resume: task was in '' @ show_state (tk_state t)
      @ '' when last observed'') s = (Inr (), s')" and t': "get_task i s' = Inr t'" "parked t t'"
    and other: "\<forall>j. j \<noteq> i \<longrightarrow> get_task j s' = get_task j s" by blast
  have "can_transition_to Paused (tk_state t)"
    using False by (auto simp: is_stable_without_a_driver_def edge_from_Paused)
  then have "transition_check t' (tk_state t) = None"
    using t'(2) by (simp add: parked_def transition_check_def)
  with False r t' other assms(2) show ?thesis
    by (auto simp: recover_task_if_active_def parked_def is_stable_without_a_driver_def)
qed

definition active_row :: "task_id \<times> string \<Rightarrow> bool" where
  "active_row x = (case state_from_text (snd x) of None \<Rightarrow> False
     | Some st \<Rightarrow> \<not> is_stable_without_a_driver st)"

lemma recover_each_effect:
  assumes "store_ok s" and "distinct (map fst xs)"
    and "\<And>i tx. (i, tx) \<in> set xs \<Longrightarrow> \<exists>t. get_task i s = Inr t \<and> state_from_text tx = Some (tk_state t)"
  shows "\<exists>s'. recover_each xs s = (Inr (map fst (filter active_row xs)), s') \<and>
    (\<forall>j \<in> set (map fst (filter active_row xs)).
       \<exists>t t'. get_task j s = Inr t \<and> get_task j s' = Inr t' \<and> parked t t') \<and>
    (\<forall>j. j \<notin> set (map fst (filter active_row xs)) \<longrightarrow> get_task j s' = get_task j s)"
  using assms
proof (induction xs arbitrary: s)
  case Nil
  then show ?case by simp
next
  case (Cons x xs)
  obtain i tx where x: "x = (i, tx)" by (cases x)
  with Cons.prems(3) obtain t where t: "get_task i s = Inr t" "state_from_text tx = Some (tk_state t)"
    by auto
  show ?case
  proof (cases "is_stable_without_a_driver (tk_state t)")
    case True
    have "\<exists>s'. recover_each xs s = (Inr (map fst (filter active_row xs)), s') \<and>
      (\<forall>j \<in> set (map fst (filter active_row xs)).
         \<exists>t t'. get_task j s = Inr t \<and> get_task j s' = Inr t' \<and> parked t t') \<and>
      (\<forall>j. j \<notin> set (map fst (filter active_row xs)) \<longrightarrow> get_task j s' = get_task j s)"
      by (rule Cons.IH) (use Cons.prems in auto)
    moreover have "\<not> active_row x" "recover_each (x # xs) s = recover_each xs s"
      using True t x by (simp_all add: active_row_def)
    ultimately show ?thesis by simp
  next
    case False
    let ?n = "''recovered on startup: task was in '' @ show_state (tk_state t)
      @ '' when the runtime last stopped''"
    from recover_task_effect [OF Cons.prems(1) t(1) False] obtain s1 t1 where
      s1: "recover_task i ?n s = (Inr (), s1)" "get_task i s1 = Inr t1" "parked t t1"
      "\<forall>j. j \<noteq> i \<longrightarrow> get_task j s1 = get_task j s" by blast
    have ok1: "store_ok s1" using recover_task_ok [OF Cons.prems(1), of i ?n] s1(1) by simp
    have i: "i \<notin> set (map fst xs)" using Cons.prems(2) x by simp
    have "\<exists>s'. recover_each xs s1 = (Inr (map fst (filter active_row xs)), s') \<and>
      (\<forall>j \<in> set (map fst (filter active_row xs)).
         \<exists>t t'. get_task j s1 = Inr t \<and> get_task j s' = Inr t' \<and> parked t t') \<and>
      (\<forall>j. j \<notin> set (map fst (filter active_row xs)) \<longrightarrow> get_task j s' = get_task j s1)"
    proof (rule Cons.IH [OF ok1])
      fix j tj assume j: "(j, tj) \<in> set xs"
      then have "j \<noteq> i" using i by force
      with j s1(4) Cons.prems(3) show "\<exists>t. get_task j s1 = Inr t \<and> state_from_text tj = Some (tk_state t)"
        by auto
    qed (use Cons.prems in simp)
    then obtain s' where s': "recover_each xs s1 = (Inr (map fst (filter active_row xs)), s')"
      "\<forall>j \<in> set (map fst (filter active_row xs)).
         \<exists>t t'. get_task j s1 = Inr t \<and> get_task j s' = Inr t' \<and> parked t t'"
      "\<forall>j. j \<notin> set (map fst (filter active_row xs)) \<longrightarrow> get_task j s' = get_task j s1" by blast
    have sub: "set (map fst (filter active_row xs)) \<subseteq> set (map fst xs)" by auto
    have "active_row x" using False t x by (simp add: active_row_def)
    then have eq: "filter active_row (x # xs) = x # filter active_row xs" by simp
    have each: "\<exists>t t'. get_task j s = Inr t \<and> get_task j s' = Inr t' \<and> parked t t'"
      if "j = i \<or> j \<in> set (map fst (filter active_row xs))" for j
    proof (cases "j = i")
      case True
      then have "j \<notin> set (map fst (filter active_row xs))" using i sub by blast
      with s'(3) True s1(2,3) t(1) show ?thesis by auto
    next
      case False
      then have "get_task j s1 = get_task j s" using s1(4) by blast
      with False that s'(2) show ?thesis by force
    qed
    show ?thesis
      unfolding eq
    proof (intro exI [of _ s'] conjI ballI allI impI)
      show "recover_each (x # xs) s = (Inr (map fst (x # filter active_row xs)), s')"
        using False t x s1(1) s'(1) by simp
      show "\<exists>t t'. get_task j s = Inr t \<and> get_task j s' = Inr t' \<and> parked t t'"
        if "j \<in> set (map fst (x # filter active_row xs))" for j
        by (rule each) (use that x in auto)
      show "get_task j s' = get_task j s" if "j \<notin> set (map fst (x # filter active_row xs))" for j
        using that x s1(4) s'(3) by simp
    qed
  qed
qed

text \<open>C35: Startup recovery is complete. On a store the manager can reach,
  \<open>recover_incomplete_tasks\<close> succeeds, returns exactly the active tasks in table order, leaves
  every task at rest, parks each active one with its pending signal and way back, and leaves the
  others as they were.\<close>

theorem startup_recovery_complete:
  assumes "reachable_store s"
  shows "\<exists>s'. recover_incomplete_tasks s =
      (Inr (map tr_id (filter (\<lambda>r. \<not> is_stable_without_a_driver (row_state r)) (tasks s))), s') \<and>
    (\<forall>i t. get_task i s = Inr t \<longrightarrow> (\<exists>t'. get_task i s' = Inr t' \<and>
       is_stable_without_a_driver (tk_state t') \<and>
       (if is_stable_without_a_driver (tk_state t) then t' = t else parked t t')))"
proof -
  have ok: "store_ok s" using assms by (rule reachable_store_ok)
  let ?xs = "map (\<lambda>r. (tr_id r, tr_state r)) (tasks s)"
  have read: "\<exists>t. get_task (tr_id r) s = Inr t \<and> state_from_text (tr_state r) = Some (tk_state t) \<and>
      tk_state t = row_state r" if "r \<in> set (tasks s)" for r
  proof -
    have "row_of (tr_id r) s = Some r" using that ok by (simp add: row_of_Some store_okD)
    moreover have "row_ok r" using that ok by (simp add: store_okD)
    ultimately show ?thesis
      by (auto simp: get_task_def row_to_task_def row_ok_def row_state_def split: option.splits)
  qed
  have "map fst ?xs = task_ids s" by (simp add: task_ids_def)
  then have "distinct (map fst ?xs)" using store_okD(1) [OF ok] by simp
  from recover_each_effect [OF ok this] read obtain s' where
    s': "recover_each ?xs s = (Inr (map fst (filter active_row ?xs)), s')"
    and act: "\<forall>j \<in> set (map fst (filter active_row ?xs)).
       \<exists>t t'. get_task j s = Inr t \<and> get_task j s' = Inr t' \<and> parked t t'"
    and oth: "\<forall>j. j \<notin> set (map fst (filter active_row ?xs)) \<longrightarrow> get_task j s' = get_task j s"
    by force
  have iff: "active_row (tr_id r, tr_state r) \<longleftrightarrow> \<not> is_stable_without_a_driver (row_state r)"
    if "r \<in> set (tasks s)" for r
    using read [OF that] by (auto simp: active_row_def)
  have ids: "map fst (filter active_row ?xs)
      = map tr_id (filter (\<lambda>r. \<not> is_stable_without_a_driver (row_state r)) (tasks s))"
    using iff by (simp add: filter_map o_def cong: filter_cong)
  have "\<exists>t'. get_task i s' = Inr t' \<and> is_stable_without_a_driver (tk_state t') \<and>
       (if is_stable_without_a_driver (tk_state t) then t' = t else parked t t')"
    if g: "get_task i s = Inr t" for i t
  proof -
    from get_task_row [OF ok g] obtain r where
      r: "r \<in> set (tasks s)" "tr_id r = i" "tk_state t = row_state r" by metis
    have same: "q = r" if "q \<in> set (tasks s)" "tr_id q = i" for q
    proof -
      have "row_of i s = Some q" "row_of i s = Some r"
        using that r store_okD(1) [OF ok] by (simp_all add: row_of_Some)
      then show ?thesis by simp
    qed
    have "i \<in> set (map fst (filter active_row ?xs)) \<longleftrightarrow>
        (\<exists>q \<in> set (tasks s). tr_id q = i \<and> \<not> is_stable_without_a_driver (row_state q))"
      unfolding ids by auto
    then have m: "i \<in> set (map fst (filter active_row ?xs)) \<longleftrightarrow>
        \<not> is_stable_without_a_driver (tk_state t)"
      using r same by metis
    show ?thesis
    proof (cases "is_stable_without_a_driver (tk_state t)")
      case True
      then have "get_task i s' = Inr t" using m oth g by metis
      with True show ?thesis by simp
    next
      case False
      then obtain t' where "get_task i s' = Inr t'" "parked t t'" using m act g by force
      with False show ?thesis by (simp add: parked_def is_stable_without_a_driver_def)
    qed
  qed
  with s' ids show ?thesis unfolding recover_incomplete_tasks_def by auto
qed

section \<open>Effects in flight\<close>

definition journal_kinds :: "task_id \<Rightarrow> task_store \<Rightarrow> journal_kind list" where
  "journal_kinds i s = map je_kind (journal_since i 0 s)"

lemma journal_kinds_append [simp]:
  "journal_kinds i (snd (append_journal j k s)) = journal_kinds i s @ (if i = j then [k] else [])"
  by (simp add: journal_kinds_def journal_since_def frame rows_after_def as_i64_small
      journal_row_for_def)

lemma find_map_last_issued:
  "find_map (\<lambda>(k, e). map_option (Pair k) (f e)) (rev (enumerate n (es @ [e]))) =
    (case f e of Some y \<Rightarrow> Some (n + length es, y)
     | None \<Rightarrow> find_map (\<lambda>(k, e). map_option (Pair k) (f e)) (rev (enumerate n es)))"
  by (simp add: enumerate_append_eq split: option.splits)

lemma find_map_enumerate_bound:
  "find_map (\<lambda>(k, e). map_option (Pair k) (f e)) (rev (enumerate n es)) = Some (m, y)
    \<Longrightarrow> m < n + length es"
proof (induction es rule: rev_induct)
  case (snoc e es)
  then show ?case
    unfolding find_map_last_issued by (auto split: option.splits)
qed simp

definition last_issued :: "journal_kind list \<Rightarrow> (nat \<times> pending_call) option" where
  "last_issued es = find_map (\<lambda>(k, e). map_option (Pair k) (issued_tool_call e)) (rev (enumerate 0 es))"

lemma last_issued_snoc:
  "last_issued (es @ [e]) = (case issued_tool_call e of
     Some pc \<Rightarrow> Some (length es, pc) | None \<Rightarrow> last_issued es)"
  by (simp add: last_issued_def find_map_last_issued split: option.splits)

text \<open>The status of the last issued call: the call and the kind of its last completion.\<close>

definition call_status :: "journal_kind list \<Rightarrow> (pending_call \<times> string option) option" where
  "call_status es = map_option (\<lambda>(k, pc).
     (pc, find_map (completion_of (pc_effect pc)) (rev (drop (Suc k) es)))) (last_issued es)"

lemma last_unresolved_status:
  "last_unresolved_tool_call i q s =
    (case call_status (journal_kinds i s) of
       Some (pc, c) \<Rightarrow> if c = q then Some pc else None | None \<Rightarrow> None)"
  by (simp add: last_unresolved_tool_call_def call_status_def last_issued_def journal_kinds_def
      Let_def split: option.splits prod.splits)

lemma call_status_snoc:
  "call_status (es @ [e]) =
    (case issued_tool_call e of
       Some pc \<Rightarrow> Some (pc, None)
     | None \<Rightarrow> map_option (\<lambda>(pc, c). (pc, case completion_of (pc_effect pc) e of
           Some k \<Rightarrow> Some k | None \<Rightarrow> c)) (call_status es))"
proof (cases "issued_tool_call e")
  case (Some pc)
  then show ?thesis by (simp add: call_status_def last_issued_snoc)
next
  case None
  have "m < length es" if "last_issued es = Some (m, pc)" for m pc
    using find_map_enumerate_bound [of issued_tool_call 0 es m pc] that by (simp add: last_issued_def)
  then show ?thesis
    using None by (cases "last_issued es") (auto simp: call_status_def last_issued_snoc)
qed

definition tool_payload :: "string \<Rightarrow> json \<Rightarrow> json" where
  "tool_payload tool inp = JObject [(''input'', inp), (''tool'', JString tool)]"

lemma issued_tool_payload [simp]:
  "issued_tool_call (EffectIssued e st ''tool'' (tool_payload tool inp)) =
    Some \<lparr>pc_effect = e, pc_step = st, pc_tool = tool, pc_input = inp\<rparr>"
  by (simp add: tool_payload_def json_get_def)

text \<open>The journal is enough to know what is in flight. Once a tool call is issued it is the
  interrupted call until a completion for it is journaled; after a permission ask it is the
  pending call and no longer interrupted; any other completion settles it. The two are never
  reported for the same journal.\<close>

theorem tool_call_tracking:
  "let pc = \<lparr>pc_effect = e, pc_step = st, pc_tool = tool, pc_input = inp\<rparr>;
       s1 = snd (append_journal i (EffectIssued e st ''tool'' (tool_payload tool inp)) s);
       s2 = snd (append_journal i (EffectCompleted e st2 ''permission_ask'' p2) s1);
       s3 = snd (append_journal i (EffectCompleted e st3 k p3) s2)
   in interrupted_tool_call i s1 = Some pc \<and> pending_tool_call i s1 = None \<and>
      interrupted_tool_call i s2 = None \<and> pending_tool_call i s2 = Some pc \<and>
      interrupted_tool_call i s3 = None \<and>
      pending_tool_call i s3 = (if k = ''permission_ask'' then Some pc else None) \<and>
      (interrupted_tool_call i s = None \<or> pending_tool_call i s = None)"
proof -
  let ?pc = "\<lparr>pc_effect = e, pc_step = st, pc_tool = tool, pc_input = inp\<rparr>"
  define s1 where "s1 = snd (append_journal i (EffectIssued e st ''tool'' (tool_payload tool inp)) s)"
  define s2 where "s2 = snd (append_journal i (EffectCompleted e st2 ''permission_ask'' p2) s1)"
  define s3 where "s3 = snd (append_journal i (EffectCompleted e st3 k p3) s2)"
  have c1: "call_status (journal_kinds i s1) = Some (?pc, None)"
    by (simp add: s1_def call_status_snoc del: issued_tool_call.simps(1))
  have c2: "call_status (journal_kinds i s2) = Some (?pc, Some ''permission_ask'')"
    by (simp add: s2_def call_status_snoc c1)
  have c3: "call_status (journal_kinds i s3) = Some (?pc, Some k)"
    by (simp add: s3_def call_status_snoc c2)
  show ?thesis
    unfolding Let_def interrupted_tool_call_def pending_tool_call_def last_unresolved_status
      s1_def [symmetric] s2_def [symmetric] s3_def [symmetric] c1 c2 c3
    by (auto split: option.splits)
qed

text \<open>A model decision counts once it was acted on. As soon as an entry follows, every model
  completion journaled before is counted, and a completion that is itself the newest entry is not:
  a crash in that gap makes the driver redo the decision instead of skipping it.\<close>

theorem model_calls_counted_when_acted_on:
  "count_model_calls i (snd (append_journal i k s)) =
     length (filter is_model_completion (journal_kinds i s))"
proof -
  have len: "length (filter (\<lambda>(k, e). P e) (enumerate n es)) = length (filter P es)"
    for P :: "journal_entry \<Rightarrow> bool" and n es
    by (induction es arbitrary: n) auto
  have cut: "filter (\<lambda>(k, e). k \<noteq> n + length es \<and> P e) (enumerate n es)
      = filter (\<lambda>(k, e). P e) (enumerate n es)" for P :: "journal_entry \<Rightarrow> bool" and n es
    by (rule filter_cong) (auto simp: in_set_enumerate_eq)
  have snoc: "\<exists>e. journal_since i 0 (snd (append_journal i k s)) = journal_since i 0 s @ [e]"
    by (simp add: journal_since_def frame rows_after_def as_i64_small journal_row_for_def)
  then obtain e where e: "journal_since i 0 (snd (append_journal i k s)) = journal_since i 0 s @ [e]"
    by blast
  show ?thesis
    using cut [of 0 "journal_since i 0 s" "\<lambda>e. is_model_completion (je_kind e)"]
    by (simp add: count_model_calls_def e enumerate_append_eq len journal_kinds_def filter_map o_def)
qed

section \<open>A concrete run\<close>

definition sample_store0 :: task_store where
  "sample_store0 = empty_store (\<lambda>n. n) (\<lambda>n. n) sample_ulid_text"

definition sample_store1 :: task_store where
  "sample_store1 = snd (create_task (WorkspaceId 7) ''fix it'' \<lparr>max_steps = None,
     max_wall_ms = None, max_tokens = None\<rparr> sample_store0)"

definition sample_store2 :: task_store where
  "sample_store2 = snd (transition (TaskId 0) Understanding sample_store1)"

definition sample_store3 :: task_store where
  "sample_store3 = snd (transition (TaskId 0) Cancelled sample_store2)"

lemma sample_reachable:
  "reachable_store sample_store2" "reachable_store sample_store3"
proof -
  have "task_step\<^sup>*\<^sup>* sample_store0 sample_store1"
    unfolding sample_store1_def by (rule r_into_rtranclp) (rule step_create)
  then have r2: "task_step\<^sup>*\<^sup>* sample_store0 sample_store2"
    unfolding sample_store2_def by (rule rtranclp.rtrancl_into_rtrancl) (rule step_transition)
  then show "reachable_store sample_store2"
    unfolding reachable_store_def sample_store0_def by blast
  from r2 have "task_step\<^sup>*\<^sup>* sample_store0 sample_store3"
    unfolding sample_store3_def by (rule rtranclp.rtrancl_into_rtrancl) (rule step_transition)
  then show "reachable_store sample_store3"
    unfolding reachable_store_def sample_store0_def by blast
qed

lemma sample_states:
  "map_sum (\<lambda>_. ()) tk_state (get_task (TaskId 0) sample_store2) = Inr Understanding"
  "map_sum (\<lambda>_. ()) tk_state (get_task (TaskId 0) sample_store3) = Inr Cancelled"
  by code_simp+

lemma sample_task2: "\<exists>t. get_task (TaskId 0) sample_store2 = Inr t \<and> tk_state t = Understanding"
  using sample_states(1) by (cases "get_task (TaskId 0) sample_store2") auto

lemma sample_task3: "\<exists>t. get_task (TaskId 0) sample_store3 = Inr t \<and> tk_state t = Cancelled"
  using sample_states(2) by (cases "get_task (TaskId 0) sample_store3") auto


theorem terminal_is_final_witness:
  "\<exists>t'. get_task (TaskId 0) (snd (recover_incomplete_tasks sample_store3)) = Inr t' \<and>
     tk_state t' = Cancelled"
proof -
  obtain t where t: "get_task (TaskId 0) sample_store3 = Inr t" "tk_state t = Cancelled"
    using sample_task3 by blast
  have "task_step\<^sup>*\<^sup>* sample_store3 (snd (recover_incomplete_tasks sample_store3))"
    by (rule r_into_rtranclp) (rule step_recover_all)
  from terminal_is_final [OF sample_reachable(2) t(1) _ this] t(2) show ?thesis by auto
qed

theorem recovery_parks_task_witness:
  "\<exists>s' t'. recover_task_if_active (TaskId 0) sample_store2 = (Inr True, s') \<and>
     get_task (TaskId 0) s' = Inr t' \<and> tk_state t' = Paused \<and>
     tk_paused_from t' = Some Understanding"
proof -
  obtain t where t: "get_task (TaskId 0) sample_store2 = Inr t" "tk_state t = Understanding"
    using sample_task2 by blast
  have "\<not> is_stable_without_a_driver (tk_state t)"
    using t(2) by (simp add: is_stable_without_a_driver_def)
  with recovery_parks_task [OF sample_reachable(1) t(1)] t(2) show ?thesis
    by (auto simp: parked_def)
qed

theorem startup_recovery_complete_witness:
  "\<exists>s'. recover_incomplete_tasks sample_store2 = (Inr [TaskId 0], s')"
proof -
  have "map tr_id (filter (\<lambda>r. \<not> is_stable_without_a_driver (row_state r)) (tasks sample_store2))
      = [TaskId 0]" by code_simp
  with startup_recovery_complete [OF sample_reachable(1)] show ?thesis by auto
qed

theorem transition_effect_witness:
  "\<exists>t s'. transition (TaskId 0) Understanding sample_store1 = (Inr (), s') \<and>
     get_task (TaskId 0) s' = Inr t \<and> tk_state t = Understanding \<and> tk_signal t = None"
proof -
  have ok: "is_ok (fst (transition (TaskId 0) Understanding sample_store1))" by code_simp
  show ?thesis
  proof (cases "transition (TaskId 0) Understanding sample_store1")
    case (Pair r s')
    with ok transition_effect [where i = "TaskId 0" and to = Understanding and s = sample_store1] show ?thesis
      by (cases r) auto
  qed
qed

end
