(* ===== verification/Task_Cascade.thy ===== *)
theory Task_Cascade
  imports Task_Correct
begin

text \<open>
  The pause and cancel cascade of \<open>TaskManager\<close> (\<open>cascade_signal_to_children\<close>): the recursion
  over the descendants ends, because a parent is older than its children, and its effect is the
  same as marking every live descendant at once. \<open>mark\<close> is that specification; the lemmas show
  that the recursion implements it with any fuel above the number of tasks.
\<close>

section \<open>Descendants\<close>

definition child_rel :: "(task_id \<times> task_id option \<times> timestamp) list \<Rightarrow> (task_id \<times> task_id) set" where
  "child_rel sk = {(p, c). \<exists>t. (c, Some p, t) \<in> set sk}"

definition descendants :: "task_store \<Rightarrow> task_id \<Rightarrow> task_id set" where
  "descendants s i = {j. (i, j) \<in> (child_rel (skeleton s))\<^sup>+}"

lemma descendants_unfold:
  "descendants s i = (\<Union>c \<in> {c. (i, c) \<in> child_rel (skeleton s)}. insert c (descendants s c))"
proof -
  have "(i, j) \<in> R\<^sup>+ \<longleftrightarrow> (\<exists>c. (i, c) \<in> R \<and> (j = c \<or> (c, j) \<in> R\<^sup>+))" for R :: "(task_id \<times> task_id) set" and j
  proof
    assume "(i, j) \<in> R\<^sup>+"
    then show "\<exists>c. (i, c) \<in> R \<and> (j = c \<or> (c, j) \<in> R\<^sup>+)"
      by (cases rule: converse_tranclE) auto
  next
    assume "\<exists>c. (i, c) \<in> R \<and> (j = c \<or> (c, j) \<in> R\<^sup>+)"
    then show "(i, j) \<in> R\<^sup>+" by (auto intro: trancl_into_trancl2)
  qed
  then show ?thesis by (auto simp: descendants_def set_eq_iff)
qed

definition rank_in :: "task_id list \<Rightarrow> task_id \<Rightarrow> nat" where
  "rank_in is i = (case position (\<lambda>j. j = i) is of None \<Rightarrow> 0 | Some k \<Rightarrow> length is - k)"

lemma position_distinct:
  "distinct xs \<Longrightarrow> k < length xs \<Longrightarrow> position (\<lambda>j. j = xs ! k) xs = Some k"
proof (induction xs arbitrary: k)
  case (Cons x xs)
  then show ?case by (cases k) auto
qed simp

lemma rank_le_length: "rank_in is i \<le> length is"
  by (simp add: rank_in_def split: option.splits)

lemma child_rank:
  assumes "distinct (map fst sk)" and "parents_earlier sk" and "(p, c) \<in> child_rel sk"
  shows "rank_in (map fst sk) c < rank_in (map fst sk) p \<and> 0 < rank_in (map fst sk) c"
proof -
  from assms(3) obtain k t where k: "k < length sk" "sk ! k = (c, Some p, t)"
    by (auto simp: child_rel_def in_set_conv_nth)
  with assms(2) have "p \<in> fst ` set (take k sk)" by (auto simp: parents_earlier_def)
  then obtain m where m: "m < k" "fst (sk ! m) = p"
    by (auto simp: in_set_conv_nth)
  have "position (\<lambda>j. j = c) (map fst sk) = Some k"
    using position_distinct [OF assms(1), of k] k by simp
  moreover have "position (\<lambda>j. j = p) (map fst sk) = Some m"
    using position_distinct [OF assms(1), of m] k m by simp
  ultimately show ?thesis using k m by (simp add: rank_in_def)
qed

section \<open>Marking a set of tasks\<close>

definition mark_row :: "task_id set \<Rightarrow> control_signal \<Rightarrow> task_row \<Rightarrow> task_row" where
  "mark_row D c r = (if tr_id r \<in> D \<and> \<not> is_terminal (row_state r)
     then r\<lparr>tr_signal := Some (signal_to_text c)\<rparr> else r)"

definition mark :: "task_id set \<Rightarrow> control_signal \<Rightarrow> task_store \<Rightarrow> task_store" where
  "mark D c s = s\<lparr>tasks := map (mark_row D c) (tasks s)\<rparr>"

lemma mark_row_simps [simp]:
  "tr_id (mark_row D c r) = tr_id r" "tr_parent (mark_row D c r) = tr_parent r"
  "tr_created (mark_row D c r) = tr_created r" "row_state (mark_row D c r) = row_state r"
  by (simp_all add: mark_row_def row_state_def)

lemma mark_skeleton [simp]: "skeleton (mark D c s) = skeleton s"
  by (simp add: skeleton_def mark_def o_def)

lemma mark_descendants [simp]: "descendants (mark D c s) = descendants s"
  by (simp add: descendants_def fun_eq_iff)

lemma mark_fields [simp]:
  "tasks (mark D c s) = map (mark_row D c) (tasks s)" "journal (mark D c s) = journal s"
  "bus (mark D c s) = bus s"
  by (simp_all add: mark_def)

lemma mark_mark: "mark A c (mark B c s) = mark (A \<union> B) c s"
proof -
  have "mark_row A c (mark_row B c r) = mark_row (A \<union> B) c r" for r
    by (cases "is_terminal (row_state r)") (simp_all add: mark_row_def row_state_def)
  then show ?thesis by (simp add: mark_def o_def)
qed

lemma mark_task_ids [simp]: "task_ids (mark D c s) = task_ids s"
  by (simp add: task_ids_skeleton)

lemma mark_ok: "store_ok s \<Longrightarrow> store_ok (mark D c s)"
proof -
  assume ok: "store_ok s"
  have "changes i (mark D c s) = changes i s" for i by (simp add: changes_def mark_def)
  moreover have "row_ok r \<Longrightarrow> row_ok (mark_row D c r)" for r
    by (simp add: mark_row_def row_ok_def row_state_def)
  ultimately show ?thesis using ok unfolding store_ok_def by auto
qed

lemma set_pending_signal_mark:
  assumes ok: "store_ok s" and r: "r \<in> set (tasks s)" "tr_id r = i" "\<not> is_terminal (row_state r)"
  shows "set_pending_signal i c s = (Inr (), mark {i} c s)"
proof -
  have "i \<in> set (task_ids s)" using r by (auto simp: task_ids_def)
  then obtain t where t: "get_task i s = Inr t" using get_task_ok [OF ok, of i] by simp
  have "(if tr_id q = i then q\<lparr>tr_signal := Some (signal_to_text c)\<rparr> else q) = mark_row {i} c q"
    if "q \<in> set (tasks s)" for q
  proof (cases "tr_id q = i")
    case True
    with that r ok have "q = r" by (metis row_of_Some store_okD(1) option.inject)
    with r show ?thesis by (simp add: mark_row_def)
  qed (simp add: mark_row_def)
  then show ?thesis by (simp add: set_pending_signal_def t update_row_def mark_def cong: map_cong)
qed

lemma mark_terminal:
  assumes ok: "store_ok s" and r: "r \<in> set (tasks s)" "tr_id r = i" "is_terminal (row_state r)"
  shows "mark {i} c s = s"
proof -
  have "mark_row {i} c q = q" if "q \<in> set (tasks s)" for q
  proof (cases "tr_id q = i")
    case True
    with that r ok have "q = r" by (metis row_of_Some store_okD(1) option.inject)
    with r show ?thesis by (simp add: mark_row_def)
  qed (simp add: mark_row_def)
  then show ?thesis by (simp add: mark_def map_idI)
qed

section \<open>The recursion implements the marking\<close>

lemma children_of_ok:
  assumes ok: "store_ok s"
  shows "\<exists>ts. children_of i s = Inr ts \<and> tk_id ` set ts = {c. (i, c) \<in> child_rel (skeleton s)} \<and>
    (\<forall>t \<in> set ts. get_task (tk_id t) s = Inr t)"
proof -
  let ?rs = "sort_key tr_created (filter (\<lambda>r. tr_parent r = Some i) (tasks s))"
  let ?f = "\<lambda>r. projr (get_task (tr_id r) s)"
  have g: "get_task (tr_id r) s = Inr (?f r) \<and> tk_id (?f r) = tr_id r" if "r \<in> set (tasks s)" for r
  proof -
    have "tr_id r \<in> set (task_ids s)" using that by (auto simp: task_ids_def)
    then have "get_task (tr_id r) s = Inr (?f r)" using get_task_ok [OF ok, of "tr_id r"] by simp
    moreover from get_task_row [OF ok this] have "tk_id (?f r) = tr_id r" by metis
    ultimately show ?thesis by blast
  qed
  have "children_of i s = Inr (map ?f ?rs)"
    unfolding children_of_def by (rule collect_all_ok) (use g in auto)
  moreover have "tk_id ` set (map ?f ?rs) = {c. (i, c) \<in> child_rel (skeleton s)}"
    using g by (force simp: child_rel_def skeleton_def)
  ultimately show ?thesis using g by fastforce
qed

lemma cascade_each_mark:
  assumes casc: "\<And>t s. t \<in> set ts \<Longrightarrow> store_ok s \<Longrightarrow> skeleton s = sk \<Longrightarrow>
      cascade_signal_to_children n (tk_id t) c s = Some (Inr (), mark (descendants s (tk_id t)) c s)"
    and "store_ok s" and "skeleton s = sk"
    and "\<And>t. t \<in> set ts \<Longrightarrow> \<exists>r \<in> set (tasks s). tr_id r = tk_id t \<and>
      is_terminal (row_state r) = is_terminal (tk_state t)"
  shows "cascade_each n ts c s
    = Some (Inr (), mark (\<Union>t \<in> set ts. insert (tk_id t) (descendants s (tk_id t))) c s)"
  using assms
proof (induction ts arbitrary: s)
  case Nil
  have "map (mark_row {} c) (tasks s) = tasks s" by (rule map_idI) (simp add: mark_row_def)
  then show ?case by (simp add: mark_def)
next
  case (Cons t ts)
  let ?i = "tk_id t"
  obtain r where r: "r \<in> set (tasks s)" "tr_id r = ?i"
      "is_terminal (row_state r) = is_terminal (tk_state t)"
    using Cons.prems(4) [of t] by auto
  have first: "(if is_terminal (tk_state t) then (Inr (), s) else set_pending_signal ?i c s)
      = (Inr (), mark {?i} c s)"
    using set_pending_signal_mark [OF Cons.prems(2) r(1,2)] mark_terminal [OF Cons.prems(2) r(1,2)] r(3)
    by simp
  let ?s1 = "mark {?i} c s"
  let ?s2 = "mark (insert ?i (descendants s ?i)) c s"
  have "cascade_signal_to_children n ?i c ?s1 = Some (Inr (), mark (descendants ?s1 ?i) c ?s1)"
    by (rule Cons.prems(1)) (simp_all add: mark_ok Cons.prems)
  then have second: "cascade_signal_to_children n ?i c ?s1 = Some (Inr (), ?s2)"
    by (simp add: mark_mark)
  have "cascade_each n ts c ?s2
      = Some (Inr (), mark (\<Union>t \<in> set ts. insert (tk_id t) (descendants ?s2 (tk_id t))) c ?s2)"
  proof (rule Cons.IH)
    show "\<exists>r \<in> set (tasks ?s2). tr_id r = tk_id u \<and> is_terminal (row_state r) = is_terminal (tk_state u)"
      if "u \<in> set ts" for u
      using Cons.prems(4) [of u] that by (auto simp: mark_def)
  qed (simp_all add: Cons.prems mark_ok)
  then show ?case using first second by (simp add: mark_mark Un_commute)
qed

lemma cascade_mark:
  assumes "store_ok s" and "rank_in (task_ids s) i \<le> n" and "0 < n"
  shows "cascade_signal_to_children n i c s = Some (Inr (), mark (descendants s i) c s)"
  using assms
proof (induction n arbitrary: i s)
  case 0
  then show ?case by simp
next
  case (Suc n)
  obtain ts where ts: "children_of i s = Inr ts"
      "tk_id ` set ts = {c. (i, c) \<in> child_rel (skeleton s)}"
      "\<And>t. t \<in> set ts \<Longrightarrow> get_task (tk_id t) s = Inr t"
    using children_of_ok [OF Suc.prems(1), of i] by blast
  have "cascade_each n ts c s
      = Some (Inr (), mark (\<Union>t \<in> set ts. insert (tk_id t) (descendants s (tk_id t))) c s)"
  proof (rule cascade_each_mark [where sk = "skeleton s"])
    fix t s' assume t: "t \<in> set ts" and s': "store_ok s'" "skeleton s' = skeleton s"
    have "(i, tk_id t) \<in> child_rel (skeleton s)" using t ts(2) by auto
    then have "rank_in (task_ids s) (tk_id t) < rank_in (task_ids s) i \<and> 0 < rank_in (task_ids s) (tk_id t)"
      using child_rank [of "skeleton s"] store_okD(1,4) [OF Suc.prems(1)]
      by (simp add: task_ids_skeleton)
    with Suc.prems(2) s' show "cascade_signal_to_children n (tk_id t) c s'
        = Some (Inr (), mark (descendants s' (tk_id t)) c s')"
      by (intro Suc.IH) (simp_all add: task_ids_skeleton)
  next
    fix t assume "t \<in> set ts"
    then show "\<exists>r \<in> set (tasks s). tr_id r = tk_id t \<and> is_terminal (row_state r) = is_terminal (tk_state t)"
      using get_task_row [OF Suc.prems(1) ts(3)] by metis
  qed (simp_all add: Suc.prems)
  moreover have "(\<Union>t \<in> set ts. insert (tk_id t) (descendants s (tk_id t))) = descendants s i"
    unfolding descendants_unfold [of s i] ts(2) [symmetric] by auto
  ultimately show ?case by (simp add: ts(1))
qed

lemma get_task_mark:
  assumes ok: "store_ok s" and g: "get_task j s = Inr u"
  shows "get_task j (mark D c s) =
    Inr (if j \<in> D \<and> \<not> is_terminal (tk_state u) then u\<lparr>tk_signal := Some c\<rparr> else u)"
proof -
  from get_task_row [OF ok g] obtain r where r: "r \<in> set (tasks s)" "tr_id r = j"
    "row_to_task r = Inr u" "tk_state u = row_state r" by metis
  have "mark_row D c r \<in> set (tasks (mark D c s))" using r by (simp add: mark_def)
  then have "row_of j (mark D c s) = Some (mark_row D c r)"
    using row_of_Some [of "mark D c s" j "mark_row D c r"] store_okD(1) [OF ok] r(2) by simp
  then show ?thesis
    using r by (auto simp: get_task_def mark_row_def row_to_task_def split: option.splits)
qed

lemma request_signal_done:
  assumes ok: "store_ok s" and "get_task i s = Inr t" and "length (tasks s) < n"
  shows "\<exists>s'. request_signal n c i s = Some (Inr (), s') \<and> length (tasks s') = length (tasks s) \<and>
    (\<forall>j u. get_task j s = Inr u \<longrightarrow> get_task j s' =
      Inr (if j = i \<or> (j \<in> descendants s i \<and> \<not> is_terminal (tk_state u))
           then u\<lparr>tk_signal := Some c\<rparr> else u))"
proof -
  let ?s1 = "update_row i (\<lambda>r. r\<lparr>tr_signal := Some (signal_to_text c)\<rparr>) s"
  have p: "set_pending_signal i c s = (Inr (), ?s1)"
    by (simp add: set_pending_signal_def assms(2))
  have ok1: "store_ok ?s1" using set_pending_signal_ok [OF ok, of i c] p by simp
  have sk: "skeleton ?s1 = skeleton s" by (simp add: skeleton_def update_row_def)
  have "rank_in (task_ids ?s1) i \<le> n"
    using rank_le_length [of "task_ids ?s1" i] assms(3) by (simp add: task_ids_def update_row_def)
  then have r: "request_signal n c i s = Some (Inr (), mark (descendants s i) c ?s1)"
    using cascade_mark [OF ok1, of i n c] assms(3)
    by (simp add: request_signal_def p descendants_def sk)
  have "get_task j (mark (descendants s i) c ?s1) =
      Inr (if j = i \<or> (j \<in> descendants s i \<and> \<not> is_terminal (tk_state u))
           then u\<lparr>tk_signal := Some c\<rparr> else u)" if u: "get_task j s = Inr u" for j u
  proof -
    have "get_task j ?s1 = Inr (if j = i then u\<lparr>tk_signal := Some c\<rparr> else u)"
      using u by (auto simp: get_task_set_signal)
    from get_task_mark [OF ok1 this] show ?thesis by auto
  qed
  moreover have "length (tasks (mark (descendants s i) c ?s1)) = length (tasks s)"
    by (simp add: mark_def update_row_def)
  ultimately show ?thesis using r by blast
qed

text \<open>C18: a pause or cancel request reaches the whole subtree. On a store the manager can reach
  and for an existing task, the cascade ends (fuel above the number of tasks is enough), returns
  without an error, and afterwards the task named and every descendant of it that is not terminal
  carries the signal, while every other task and every other field is as before.\<close>

theorem signal_reaches_descendants:
  assumes "reachable_store s" and "get_task i s = Inr t" and "length (tasks s) < n"
  shows "\<exists>s'. request_signal n c i s = Some (Inr (), s') \<and>
    (\<forall>j u. get_task j s = Inr u \<longrightarrow> get_task j s' =
      Inr (if j = i \<or> (j \<in> descendants s i \<and> \<not> is_terminal (tk_state u))
           then u\<lparr>tk_signal := Some c\<rparr> else u))"
  using request_signal_done [OF reachable_store_ok [OF assms(1)] assms(2,3)] by blast

definition sample_family :: task_store where
  "sample_family = snd (create_child (TaskId 0) ''part'' \<lparr>max_steps = None, max_wall_ms = None,
     max_tokens = None\<rparr> sample_store2)"

lemma create_child_tasks:
  assumes "get_task p s = Inr t" and "TaskId (ulid s (draws s)) \<notin> set (task_ids s)"
  shows "tasks (snd (create_child p obj bud s)) = tasks s @
    [fresh_row (TaskId (ulid s (draws s))) (tk_workspace t) (Some p) obj bud (clock s (ticks s))]"
proof -
  have "\<not> (\<exists>q \<in> set (tasks s). tr_id q = TaskId (ulid s (draws s)))"
    using assms(2) by (force simp: task_ids_def)
  then show ?thesis
    by (simp add: create_child_def assms(1) create_with_parent_def draw_ulid_def clock_now_def
        insert_task_def fresh_row_def Let_def frame)
qed

lemma sample_family_tasks:
  "\<exists>w t. tasks sample_family = tasks sample_store2 @
     [fresh_row (TaskId 3) w (Some (TaskId 0)) ''part'' \<lparr>max_steps = None, max_wall_ms = None,
       max_tokens = None\<rparr> t]"
proof -
  obtain t where t: "get_task (TaskId 0) sample_store2 = Inr t" using sample_task2 by blast
  have i: "ulid sample_store2 (draws sample_store2) = 3" by code_simp
  have "task_ids sample_store2 = [TaskId 0]" by code_simp
  then show ?thesis
    using create_child_tasks [OF t, of "''part''" "\<lparr>max_steps = None, max_wall_ms = None, max_tokens = None\<rparr>"]
    unfolding sample_family_def i by auto
qed

theorem signal_reaches_descendants_witness:
  "\<exists>s' u. request_signal 3 CancelRequested (TaskId 0) sample_family = Some (Inr (), s') \<and>
     get_task (TaskId 3) s' = Inr u \<and> tk_signal u = Some CancelRequested"
proof -
  have "task_step sample_store2 sample_family"
    unfolding sample_family_def by (rule step_child)
  then have r: "reachable_store sample_family"
    using sample_reachable(1) unfolding reachable_store_def by (meson rtranclp.rtrancl_into_rtrancl)
  have ok: "store_ok sample_family" using r by (rule reachable_store_ok)
  obtain w ti where rows: "tasks sample_family = tasks sample_store2 @
     [fresh_row (TaskId 3) w (Some (TaskId 0)) ''part'' \<lparr>max_steps = None, max_wall_ms = None,
       max_tokens = None\<rparr> ti]" using sample_family_tasks by blast
  have old: "task_ids sample_store2 = [TaskId 0]" by code_simp
  then have ids: "task_ids sample_family = [TaskId 0, TaskId 3]"
    using rows by (simp add: task_ids_def fresh_row_def)
  obtain t where t: "get_task (TaskId 0) sample_family = Inr t"
    using get_task_ok [OF ok, of "TaskId 0"] ids by auto
  have "row_of (TaskId 3) sample_family = Some (fresh_row (TaskId 3) w (Some (TaskId 0)) ''part''
      \<lparr>max_steps = None, max_wall_ms = None, max_tokens = None\<rparr> ti)"
    using rows store_okD(1) [OF ok] by (simp add: row_of_Some) (simp add: fresh_row_def)
  then obtain u where u: "get_task (TaskId 3) sample_family = Inr u" "tk_state u = Idle"
    by (auto simp: get_task_def row_to_task_def fresh_row_def)
  have len: "length (tasks sample_family) < 3"
    using arg_cong [OF ids, of length] by (simp add: task_ids_def)
  have "(TaskId 0, TaskId 3) \<in> child_rel (skeleton sample_family)"
    by (auto simp: child_rel_def skeleton_def rows fresh_row_def)
  then have "TaskId 3 \<in> descendants sample_family (TaskId 0)"
    by (simp add: descendants_def r_into_trancl)
  with signal_reaches_descendants [OF r t len, of CancelRequested] u show ?thesis by fastforce
qed

end
