(* ===== verification/Permissions.thy ===== *)
theory Permissions
  imports Prelude
begin

text \<open>
  The permission engine of \<open>crates/valyria-permissions\<close>: the request (\<open>request.rs\<close>), the default
  decision table (\<open>rules.rs\<close>), the grants (\<open>grants.rs\<close>), the authorization a decision mints
  (\<open>authorization.rs\<close>) and the engine that combines them (\<open>engine.rs\<close>), over the vocabulary of
  \<open>crates/valyria-types/src/policy.rs\<close>. The clock reading of an operation is its argument \<open>now\<close>.
  The locale \<open>permission_gate\<close> is what the tool runtime relies on.
\<close>

section \<open>Vocabulary\<close>

datatype permission_mode = Manual | Assisted | Autonomous

datatype permission_category =
    Filesystem | Shell | Network | DependencyInstallation | DestructiveCommands
  | GitHistoryModification | OutsideWorkspaceAccess | SecretAccess | PlanScopeExpansion

datatype action_kind = ReadAction | WriteAction | ExecuteAction

datatype risk_level = Safe | Controlled | UnknownRisk | Destructive

fun auto_allowable :: "risk_level \<Rightarrow> bool" where
  "auto_allowable Safe = True"
| "auto_allowable Controlled = True"
| "auto_allowable _ = False"

record permission_request =
  rq_task :: task_id
  rq_step :: step_id
  rq_tool :: string
  rq_category :: permission_category
  rq_action :: action_kind
  rq_risk :: risk_level
  rq_hash :: content_hash
  rq_target :: string
  rq_in_scope :: bool

section \<open>The default decision table\<close>

datatype default_decision = DefaultAllow | DefaultAsk | DefaultDeny

definition filesystem_decision :: "permission_mode \<Rightarrow> permission_request \<Rightarrow> default_decision" where
  "filesystem_decision m r =
     (if rq_action r = ReadAction then DefaultAllow
      else case m of
        Manual \<Rightarrow> DefaultAsk
      | _ \<Rightarrow> if rq_in_scope r then DefaultAllow else DefaultAsk)"

definition shell_decision :: "permission_mode \<Rightarrow> permission_request \<Rightarrow> default_decision" where
  "shell_decision m r =
     (case m of
        Manual \<Rightarrow> DefaultAsk
      | Assisted \<Rightarrow> if rq_risk r = Safe then DefaultAllow else DefaultAsk
      | Autonomous \<Rightarrow> if auto_allowable (rq_risk r) then DefaultAllow else DefaultAsk)"

definition decide_default :: "permission_mode \<Rightarrow> permission_request \<Rightarrow> default_decision" where
  "decide_default m r =
     (case rq_category r of
        GitHistoryModification \<Rightarrow> DefaultDeny
      | Filesystem \<Rightarrow> filesystem_decision m r
      | Shell \<Rightarrow> shell_decision m r
      | _ \<Rightarrow> DefaultAsk)"

section \<open>Grants\<close>

datatype grant_scope = OneShot | TaskScope task_id | WorkspaceScope | SessionScope session_id

record grant =
  gr_scope :: grant_scope
  gr_tool :: string
  gr_category :: permission_category
  gr_action :: action_kind
  gr_granted :: timestamp
  gr_expires :: "timestamp option"

definition covers ::
  "grant \<Rightarrow> permission_request \<Rightarrow> session_id option \<Rightarrow> timestamp \<Rightarrow> bool" where
  "covers g r session now \<longleftrightarrow>
     gr_tool g = rq_tool r \<and> gr_category g = rq_category r \<and> gr_action g = rq_action r \<and>
     (case gr_expires g of Some e \<Rightarrow> \<not> (e \<le> now) | None \<Rightarrow> True) \<and>
     (case gr_scope g of
        OneShot \<Rightarrow> False
      | TaskScope t \<Rightarrow> t = rq_task r
      | WorkspaceScope \<Rightarrow> True
      | SessionScope s \<Rightarrow> Some s = session)"

definition add_grant :: "grant \<Rightarrow> grant list \<Rightarrow> grant list" where
  "add_grant g gs = (if gr_scope g = OneShot then gs else gs @ [g])"

definition find_covering ::
  "permission_request \<Rightarrow> session_id option \<Rightarrow> timestamp \<Rightarrow> grant list \<Rightarrow> grant option" where
  "find_covering r session now gs = find (\<lambda>g. covers g r session now) gs"

section \<open>Authorizations\<close>

record authorization_key =
  ak_task :: task_id
  ak_step :: step_id
  ak_tool :: string
  ak_hash :: content_hash

record authorization =
  au_key :: authorization_key
  au_issued :: timestamp
  au_expires :: "timestamp option"

definition auth_matches ::
  "authorization \<Rightarrow> task_id \<Rightarrow> step_id \<Rightarrow> string \<Rightarrow> content_hash \<Rightarrow> bool" where
  "auth_matches a t st tool h \<longleftrightarrow>
     ak_task (au_key a) = t \<and> ak_step (au_key a) = st \<and> ak_tool (au_key a) = tool \<and>
     ak_hash (au_key a) = h"

definition is_expired :: "authorization \<Rightarrow> timestamp \<Rightarrow> bool" where
  "is_expired a now = (case au_expires a of Some e \<Rightarrow> e \<le> now | None \<Rightarrow> False)"

definition mint :: "permission_request \<Rightarrow> timestamp \<Rightarrow> timestamp option \<Rightarrow> authorization" where
  "mint r now expires = \<lparr>au_key = \<lparr>ak_task = rq_task r, ak_step = rq_step r, ak_tool = rq_tool r,
     ak_hash = rq_hash r\<rparr>, au_issued = now, au_expires = expires\<rparr>"

section \<open>The engine\<close>

datatype decision = Allow authorization | Deny string | Ask string

datatype decision_source = ExistingGrant | DefaultRule | ExplicitApproval

record decision_record =
  dr_tool :: string
  dr_category :: permission_category
  dr_target :: string
  dr_outcome :: string
  dr_source :: decision_source
  dr_at :: timestamp

record permission_engine =
  pe_mode :: permission_mode
  pe_task_modes :: "task_id \<rightharpoonup> permission_mode"
  pe_grants :: "grant list"
  pe_session :: "session_id option"
  pe_journal :: "decision_record list"

definition new_engine :: "permission_mode \<Rightarrow> permission_engine" where
  "new_engine m = \<lparr>pe_mode = m, pe_task_modes = Map.empty, pe_grants = [], pe_session = None,
     pe_journal = []\<rparr>"

definition with_session :: "session_id \<Rightarrow> permission_engine \<Rightarrow> permission_engine" where
  "with_session s e = e\<lparr>pe_session := Some s\<rparr>"

definition set_mode :: "permission_mode \<Rightarrow> permission_engine \<Rightarrow> permission_engine" where
  "set_mode m e = e\<lparr>pe_mode := m\<rparr>"

definition set_task_mode ::
  "task_id \<Rightarrow> permission_mode \<Rightarrow> permission_engine \<Rightarrow> permission_engine" where
  "set_task_mode t m e = e\<lparr>pe_task_modes := (pe_task_modes e)(t \<mapsto> m)\<rparr>"

definition clear_task_mode :: "task_id \<Rightarrow> permission_engine \<Rightarrow> permission_engine" where
  "clear_task_mode t e = e\<lparr>pe_task_modes := (pe_task_modes e)(t := None)\<rparr>"

definition effective_mode :: "task_id \<Rightarrow> permission_engine \<Rightarrow> permission_mode" where
  "effective_mode t e = (case pe_task_modes e t of Some m \<Rightarrow> m | None \<Rightarrow> pe_mode e)"

definition record_decision ::
  "permission_request \<Rightarrow> string \<Rightarrow> decision_source \<Rightarrow> timestamp \<Rightarrow> permission_engine
     \<Rightarrow> permission_engine" where
  "record_decision r outcome src now e = e\<lparr>pe_journal := pe_journal e @
     [\<lparr>dr_tool = rq_tool r, dr_category = rq_category r, dr_target = rq_target r,
       dr_outcome = outcome, dr_source = src, dr_at = now\<rparr>]\<rparr>"

fun show_category :: "permission_category \<Rightarrow> string" where
  "show_category Filesystem = ''Filesystem''"
| "show_category Shell = ''Shell''"
| "show_category Network = ''Network''"
| "show_category DependencyInstallation = ''DependencyInstallation''"
| "show_category DestructiveCommands = ''DestructiveCommands''"
| "show_category GitHistoryModification = ''GitHistoryModification''"
| "show_category OutsideWorkspaceAccess = ''OutsideWorkspaceAccess''"
| "show_category SecretAccess = ''SecretAccess''"
| "show_category PlanScopeExpansion = ''PlanScopeExpansion''"

definition evaluate ::
  "timestamp \<Rightarrow> permission_request \<Rightarrow> permission_engine \<Rightarrow> decision \<times> permission_engine" where
  "evaluate now r e =
     (case find_covering r (pe_session e) now (pe_grants e) of
        Some g \<Rightarrow> (Allow (mint r now (gr_expires g)), record_decision r ''allow'' ExistingGrant now e)
      | None \<Rightarrow> (case decide_default (effective_mode (rq_task r) e) r of
          DefaultAllow \<Rightarrow> (Allow (mint r now None), record_decision r ''allow'' DefaultRule now e)
        | DefaultDeny \<Rightarrow> (Deny (show_category (rq_category r) @ '' is denied by policy regardless of mode''),
            record_decision r ''deny'' DefaultRule now e)
        | DefaultAsk \<Rightarrow> (Ask (''Allow '' @ rq_tool r @ '' to '' @ rq_target r @ ''?''),
            record_decision r ''ask'' DefaultRule now e)))"

definition approve ::
  "timestamp \<Rightarrow> permission_request \<Rightarrow> grant_scope \<Rightarrow> timestamp option \<Rightarrow> permission_engine
     \<Rightarrow> authorization \<times> permission_engine" where
  "approve now r scope expires e =
     (let e1 = e\<lparr>pe_grants := add_grant \<lparr>gr_scope = scope, gr_tool = rq_tool r,
            gr_category = rq_category r, gr_action = rq_action r, gr_granted = now,
            gr_expires = expires\<rparr> (pe_grants e)\<rparr>
      in (mint r now expires, record_decision r ''allow'' ExplicitApproval now e1))"

section \<open>The contract the tool runtime relies on\<close>

locale permission_gate =
  fixes eval :: "timestamp \<Rightarrow> permission_request \<Rightarrow> 'e \<Rightarrow> decision \<times> 'e"
    and grant_it :: "timestamp \<Rightarrow> permission_request \<Rightarrow> grant_scope \<Rightarrow> timestamp option \<Rightarrow> 'e
      \<Rightarrow> authorization \<times> 'e"
    and justified :: "permission_request \<Rightarrow> timestamp \<Rightarrow> 'e \<Rightarrow> bool"
    and sound :: "'e \<Rightarrow> bool"
  assumes eval_sound: "sound e \<Longrightarrow> sound (snd (eval now r e))"
    and grant_sound: "sound e \<Longrightarrow> sound (snd (grant_it now r sc ex e))"
    and eval_binds: "eval now r e = (Allow a, e') \<Longrightarrow> auth_matches a t st tool h \<longleftrightarrow>
      t = rq_task r \<and> st = rq_step r \<and> tool = rq_tool r \<and> h = rq_hash r"
    and eval_fresh: "eval now r e = (Allow a, e') \<Longrightarrow> \<not> is_expired a now"
    and eval_justified: "sound e \<Longrightarrow> eval now r e = (Allow a, e') \<Longrightarrow> justified r now e"
    and grant_binds: "grant_it now r sc ex e = (a, e') \<Longrightarrow> auth_matches a t st tool h \<longleftrightarrow>
      t = rq_task r \<and> st = rq_step r \<and> tool = rq_tool r \<and> h = rq_hash r"
begin

text \<open>An authorization covers one request only: two requests it matches are the same call.\<close>

lemma one_call_only:
  assumes "eval now r e = (Allow a, e')"
    and "auth_matches a (rq_task q) (rq_step q) (rq_tool q) (rq_hash q)"
  shows "rq_task q = rq_task r \<and> rq_step q = rq_step r \<and> rq_tool q = rq_tool r \<and> rq_hash q = rq_hash r"
  using eval_binds [OF assms(1)] assms(2) by blast

text \<open>What a batch of evaluations allows is justified in the state each one saw.\<close>

fun eval_all :: "(timestamp \<times> permission_request) list \<Rightarrow> 'e \<Rightarrow> decision list \<times> 'e" where
  "eval_all [] e = ([], e)"
| "eval_all ((now, r) # xs) e =
     (let (d, e1) = eval now r e; (ds, e2) = eval_all xs e1 in (d # ds, e2))"

lemma eval_all_sound: "sound e \<Longrightarrow> sound (snd (eval_all xs e))"
proof (induction xs arbitrary: e)
  case (Cons x xs)
  obtain now r where x: "x = (now, r)" by (cases x)
  have "sound (snd (eval now r e))" using Cons.prems by (rule eval_sound)
  from Cons.IH [OF this] x show ?case by (simp add: Let_def case_prod_beta)
qed simp

end

section \<open>Every grant was approved\<close>

text \<open>The journal entry that an explicit approval of the grant left behind.\<close>

definition approved_in :: "decision_record list \<Rightarrow> grant \<Rightarrow> bool" where
  "approved_in ds g \<longleftrightarrow> (\<exists>d \<in> set ds. dr_source d = ExplicitApproval \<and> dr_outcome d = ''allow'' \<and>
     dr_tool d = gr_tool g \<and> dr_category d = gr_category g \<and> dr_at d = gr_granted g)"

definition engine_ok :: "permission_engine \<Rightarrow> bool" where
  "engine_ok e \<longleftrightarrow> (\<forall>g \<in> set (pe_grants e). gr_scope g \<noteq> OneShot \<and> approved_in (pe_journal e) g)"

definition allow_justified :: "permission_request \<Rightarrow> timestamp \<Rightarrow> permission_engine \<Rightarrow> bool" where
  "allow_justified r now e \<longleftrightarrow>
     decide_default (effective_mode (rq_task r) e) r = DefaultAllow \<or>
     (\<exists>g \<in> set (pe_grants e). covers g r (pe_session e) now \<and> approved_in (pe_journal e) g)"

lemma approved_in_append: "approved_in ds g \<Longrightarrow> approved_in (ds @ es) g"
  by (auto simp: approved_in_def)

lemma engine_ok_record [keeps]: "engine_ok e \<Longrightarrow> engine_ok (record_decision r oc src now e)"
  by (auto simp: engine_ok_def record_decision_def intro: approved_in_append)

lemma evaluate_ok [keeps]: "engine_ok e \<Longrightarrow> engine_ok (snd (evaluate now r e))"
  by (auto simp: evaluate_def engine_ok_record split: option.splits default_decision.splits)

lemma approve_ok [keeps]:
  assumes "engine_ok e"
  shows "engine_ok (snd (approve now r sc ex e))"
proof -
  let ?g = "\<lparr>gr_scope = sc, gr_tool = rq_tool r, gr_category = rq_category r,
    gr_action = rq_action r, gr_granted = now, gr_expires = ex\<rparr>"
  let ?d = "\<lparr>dr_tool = rq_tool r, dr_category = rq_category r, dr_target = rq_target r,
       dr_outcome = ''allow'', dr_source = ExplicitApproval, dr_at = now\<rparr>"
  have "approved_in (pe_journal e @ [?d]) ?g" by (simp add: approved_in_def)
  moreover have "approved_in (pe_journal e @ [?d]) g" if "g \<in> set (pe_grants e)" for g
    using assms that by (auto simp: engine_ok_def intro: approved_in_append)
  ultimately show ?thesis
    using assms by (auto simp: approve_def engine_ok_def record_decision_def add_grant_def Let_def)
qed

lemma evaluate_Allow:
  assumes "evaluate now r e = (Allow a, e')"
  shows "\<exists>ex. a = mint r now ex \<and>
    (ex = None \<and> decide_default (effective_mode (rq_task r) e) r = DefaultAllow \<and>
       e' = record_decision r ''allow'' DefaultRule now e \<or>
     (\<exists>g \<in> set (pe_grants e). covers g r (pe_session e) now \<and> ex = gr_expires g \<and>
       e' = record_decision r ''allow'' ExistingGrant now e))"
  using assms unfolding evaluate_def find_covering_def
  by (auto split: option.splits default_decision.splits dest: find_SomeD)

lemma auth_matches_mint [simp]:
  "auth_matches (mint r now ex) t st tool h \<longleftrightarrow>
     t = rq_task r \<and> st = rq_step r \<and> tool = rq_tool r \<and> h = rq_hash r"
  by (auto simp: auth_matches_def mint_def)

interpretation pg: permission_gate evaluate approve allow_justified engine_ok
proof
  show "engine_ok e \<Longrightarrow> engine_ok (snd (evaluate now r e))" for e now r by (rule evaluate_ok)
  show "engine_ok e \<Longrightarrow> engine_ok (snd (approve now r sc ex e))" for e now r sc ex by (rule approve_ok)
  show "\<not> is_expired a now" if "evaluate now r e = (Allow a, e')" for now r e a e'
    using evaluate_Allow [OF that] by (auto simp: is_expired_def mint_def covers_def split: option.splits)
  show "allow_justified r now e" if "engine_ok e" "evaluate now r e = (Allow a, e')" for now r e a e'
    using evaluate_Allow [OF that(2)] that(1) by (auto simp: allow_justified_def engine_ok_def)
qed (auto dest!: evaluate_Allow simp: approve_def Let_def)

section \<open>The engine as a transition system\<close>

inductive engine_step :: "permission_engine \<Rightarrow> permission_engine \<Rightarrow> bool" where
  step_evaluate: "engine_step e (snd (evaluate now r e))"
| step_approve: "engine_step e (snd (approve now r sc ex e))"
| step_set_mode: "engine_step e (set_mode m e)"
| step_set_task_mode: "engine_step e (set_task_mode t m e)"
| step_clear_task_mode: "engine_step e (clear_task_mode t e)"
| step_session: "engine_step e (with_session s e)"

definition reachable_engine :: "permission_engine \<Rightarrow> bool" where
  "reachable_engine e \<longleftrightarrow> (\<exists>m. engine_step\<^sup>*\<^sup>* (new_engine m) e)"

lemma engine_step_ok: "engine_step e e' \<Longrightarrow> engine_ok e \<Longrightarrow> engine_ok e'"
  by (induction rule: engine_step.induct)
    (auto simp: evaluate_ok approve_ok,
      auto simp: engine_ok_def set_mode_def set_task_mode_def clear_task_mode_def with_session_def)

lemma reachable_engine_ok: "reachable_engine e \<Longrightarrow> engine_ok e"
proof -
  assume "reachable_engine e"
  then obtain m where "engine_step\<^sup>*\<^sup>* (new_engine m) e" by (auto simp: reachable_engine_def)
  moreover have "engine_ok (new_engine m)" by (simp add: engine_ok_def new_engine_def)
  ultimately show ?thesis by (induction rule: rtranclp_induct) (auto intro: engine_step_ok)
qed

text \<open>C21: An \<open>Allow\<close> is justified, bound and audited. Whatever sequence of decisions, approvals
  and mode changes led here, an authorization that \<open>evaluate\<close> returns matches exactly the call it
  was asked about, is not expired, rests on the default table or on a covering grant that an
  explicit approval in the journal created, and leaves exactly one journal entry.\<close>

theorem allow_is_justified:
  assumes "reachable_engine e" and "evaluate now r e = (Allow a, e')"
  shows "(\<forall>t st tool h. auth_matches a t st tool h \<longleftrightarrow>
      t = rq_task r \<and> st = rq_step r \<and> tool = rq_tool r \<and> h = rq_hash r) \<and>
    \<not> is_expired a now \<and>
    (decide_default (effective_mode (rq_task r) e) r = DefaultAllow \<or>
     (\<exists>g \<in> set (pe_grants e). covers g r (pe_session e) now \<and> approved_in (pe_journal e) g)) \<and>
    (\<exists>d. pe_journal e' = pe_journal e @ [d] \<and> dr_outcome d = ''allow'' \<and> dr_at d = now)"
proof -
  have "engine_ok e" using assms(1) by (rule reachable_engine_ok)
  from pg.eval_justified [OF this assms(2)] have "allow_justified r now e" .
  moreover have "\<exists>d. pe_journal e' = pe_journal e @ [d] \<and> dr_outcome d = ''allow'' \<and> dr_at d = now"
    using evaluate_Allow [OF assms(2)] by (auto simp: record_decision_def)
  ultimately show ?thesis
    using pg.eval_binds [OF assms(2)] pg.eval_fresh [OF assms(2)] by (simp add: allow_justified_def)
qed

definition sample_request :: "permission_category \<Rightarrow> risk_level \<Rightarrow> permission_request" where
  "sample_request c k = \<lparr>rq_task = TaskId 1, rq_step = StepId 2, rq_tool = ''run_command'',
     rq_category = c, rq_action = ExecuteAction, rq_risk = k, rq_hash = [7], rq_target = ''x'',
     rq_in_scope = True\<rparr>"

text \<open>A user answered an ask on a shell command for the whole task.\<close>

definition sample_engine :: permission_engine where
  "sample_engine = snd (approve 5 (sample_request Shell UnknownRisk) (TaskScope (TaskId 1)) (Some 9)
     (new_engine Assisted))"

lemma sample_engine_reachable: "reachable_engine sample_engine"
  unfolding reachable_engine_def sample_engine_def
  by (rule exI, rule r_into_rtranclp, rule step_approve)

theorem allow_is_justified_witness:
  "\<exists>a. fst (evaluate 8 (sample_request Shell UnknownRisk) sample_engine) = Allow a \<and>
     \<not> is_expired a 8 \<and> \<not> auth_matches a (TaskId 1) (StepId 2) ''run_command'' [8]"
proof -
  obtain a e' where a: "evaluate 8 (sample_request Shell UnknownRisk) sample_engine = (Allow a, e')"
    by (simp add: sample_engine_def approve_def evaluate_def find_covering_def covers_def Let_def
        add_grant_def record_decision_def sample_request_def new_engine_def)
  from allow_is_justified [OF sample_engine_reachable a] a show ?thesis
    by (simp add: sample_request_def)
qed

section \<open>The default table\<close>

instantiation permission_mode :: linorder
begin

primrec mode_rank :: "permission_mode \<Rightarrow> nat" where
  "mode_rank Manual = 0"
| "mode_rank Assisted = 1"
| "mode_rank Autonomous = 2"

definition less_eq_permission_mode :: "permission_mode \<Rightarrow> permission_mode \<Rightarrow> bool" where
  "less_eq_permission_mode a b \<longleftrightarrow> mode_rank a \<le> mode_rank b"

definition less_permission_mode :: "permission_mode \<Rightarrow> permission_mode \<Rightarrow> bool" where
  "less_permission_mode a b \<longleftrightarrow> mode_rank a < mode_rank b"

instance
proof
  fix a b :: permission_mode
  show "a \<le> b \<Longrightarrow> b \<le> a \<Longrightarrow> a = b"
    by (cases a; cases b) (simp_all add: less_eq_permission_mode_def)
qed (auto simp: less_eq_permission_mode_def less_permission_mode_def)

end

text \<open>More autonomy only ever turns an ask into an allow. Raising the mode never withdraws what
  a lower mode allowed, and never changes what is denied.\<close>

theorem mode_monotone:
  assumes "m \<le> m'"
  shows "decide_default m' r = decide_default m r \<or>
    (decide_default m r = DefaultAsk \<and> decide_default m' r = DefaultAllow)"
  using assms
  by (cases m; cases m'; cases "rq_category r"; cases "rq_risk r")
    (simp_all add: less_eq_permission_mode_def decide_default_def filesystem_decision_def
      shell_decision_def)

theorem mode_monotone_witness:
  "decide_default Assisted (sample_request Shell Controlled) = DefaultAsk \<and>
   decide_default Autonomous (sample_request Shell Controlled) = DefaultAllow"
  using mode_monotone [of Assisted Autonomous "sample_request Shell Controlled"]
  by (simp add: less_eq_permission_mode_def decide_default_def shell_decision_def sample_request_def)

text \<open>The requests that no mode allows by itself.\<close>

definition never_automatic :: "permission_request \<Rightarrow> bool" where
  "never_automatic r \<longleftrightarrow>
     rq_category r \<notin> {Filesystem, Shell} \<or>
     (rq_category r = Shell \<and> rq_risk r \<in> {UnknownRisk, Destructive}) \<or>
     (rq_category r = Filesystem \<and> rq_action r \<noteq> ReadAction \<and> \<not> rq_in_scope r)"

lemma never_automatic_iff: "never_automatic r \<longleftrightarrow> (\<forall>m. decide_default m r \<noteq> DefaultAllow)"
proof
  show "never_automatic r \<Longrightarrow> \<forall>m. decide_default m r \<noteq> DefaultAllow"
    by (auto simp: never_automatic_def decide_default_def filesystem_decision_def shell_decision_def
        split: permission_mode.splits permission_category.splits)
next
  assume "\<forall>m. decide_default m r \<noteq> DefaultAllow"
  then have "decide_default Autonomous r \<noteq> DefaultAllow" by blast
  then show "never_automatic r"
    by (cases "rq_category r"; cases "rq_risk r")
      (auto simp: never_automatic_def decide_default_def filesystem_decision_def shell_decision_def
        split: if_splits)
qed

text \<open>Secrets, installs, network, out-of-workspace access, unknown or destructive shell
  commands and writes outside the plan are never allowed on the engine's own authority: in every
  mode and every reachable engine, an \<open>Allow\<close> for one of them rests on a stored, unexpired grant
  for the same tool, category and action, never a one-shot one, that the journal shows a user
  approving.\<close>

theorem risky_needs_approval:
  assumes "reachable_engine e" and "never_automatic r" and "evaluate now r e = (Allow a, e')"
  shows "\<exists>g \<in> set (pe_grants e). gr_scope g \<noteq> OneShot \<and> gr_tool g = rq_tool r \<and>
    gr_category g = rq_category r \<and> gr_action g = rq_action r \<and>
    (\<forall>ex. gr_expires g = Some ex \<longrightarrow> now < ex) \<and> approved_in (pe_journal e) g"
proof -
  have "decide_default (effective_mode (rq_task r) e) r \<noteq> DefaultAllow"
    using assms(2) by (simp add: never_automatic_iff)
  with pg.eval_justified [OF reachable_engine_ok [OF assms(1)] assms(3)] show ?thesis
    using reachable_engine_ok [OF assms(1)]
    by (auto simp: covers_def engine_ok_def allow_justified_def split: option.splits)
qed

theorem risky_needs_approval_witness:
  "\<exists>g \<in> set (pe_grants sample_engine). gr_tool g = ''run_command'' \<and> gr_category g = Shell"
proof -
  obtain a e' where a: "evaluate 8 (sample_request Shell Destructive) sample_engine = (Allow a, e')"
    by (simp add: sample_engine_def approve_def evaluate_def find_covering_def covers_def Let_def
        add_grant_def record_decision_def sample_request_def new_engine_def)
  have "never_automatic (sample_request Shell Destructive)"
    by (simp add: never_automatic_def sample_request_def)
  from risky_needs_approval [OF sample_engine_reachable this a] show ?thesis
    by (auto simp: sample_request_def)
qed

section \<open>What a remembered approval reaches\<close>

text \<open>A grant is consulted before the table and does not mention the risk: approving one shell
  command for a task allows a destructive one later, in every mode, and approving a history
  rewrite for the workspace allows the next, although the table denies the category.\<close>

lemma grant_covers_any_risk:
  "\<exists>a. fst (evaluate 8 (sample_request Shell Destructive) sample_engine) = Allow a"
  by (simp add: sample_engine_def approve_def evaluate_def find_covering_def covers_def Let_def
      add_grant_def record_decision_def sample_request_def new_engine_def)

lemma history_deny_is_conditional:
  "decide_default m (sample_request GitHistoryModification Safe) = DefaultDeny \<and>
   (\<exists>a. fst (evaluate now (sample_request GitHistoryModification Safe)
     (snd (approve 0 (sample_request GitHistoryModification Safe) WorkspaceScope None e))) = Allow a)"
proof -
  let ?r = "sample_request GitHistoryModification Safe"
  let ?e = "snd (approve 0 ?r WorkspaceScope None e)"
  let ?g = "\<lparr>gr_scope = WorkspaceScope, gr_tool = rq_tool ?r, gr_category = rq_category ?r,
    gr_action = rq_action ?r, gr_granted = 0, gr_expires = None\<rparr>"
  have "?g \<in> set (pe_grants ?e)" and "covers ?g ?r (pe_session ?e) now"
    by (simp_all add: approve_def add_grant_def record_decision_def covers_def Let_def)
  then have "find_covering ?r (pe_session ?e) now (pe_grants ?e) \<noteq> None"
    unfolding find_covering_def find_None_iff_set by blast
  then show ?thesis
    by (auto simp: evaluate_def decide_default_def sample_request_def)
qed

end
