(* ===== verification/Command_Risk.thy ===== *)
theory Command_Risk
  imports Permissions
begin

text \<open>
  The command risk classifier of \<open>crates/valyria-permissions/src/risk.rs\<close>: \<open>classify_command\<close>
  over a program and its argument vector. Strings are byte strings; lower-casing is that of
  ASCII, so the model is exact for commands in ASCII (Unicode has a few letters whose lower case
  is an ASCII letter). \<open>basename\<close> is \<open>Path::file_name\<close> with the program itself as the fallback.
\<close>

section \<open>String helpers\<close>

text \<open>The pieces of a string between separators, as \<open>str::split\<close>.\<close>

fun split_on :: "char \<Rightarrow> string \<Rightarrow> string list" where
  "split_on d [] = [[]]"
| "split_on d (c # cs) =
     (if c = d then [] # split_on d cs
      else (case split_on d cs of [] \<Rightarrow> [[c]] | x # xs \<Rightarrow> (c # x) # xs))"

definition basename :: "string \<Rightarrow> string" where
  "basename program =
     (let cs = filter (\<lambda>c. c \<noteq> [] \<and> c \<noteq> ''.'') (split_on CHR ''/'' program)
      in lower_case (if cs = [] \<or> last cs = ''..'' then program else last cs))"

section \<open>The tables\<close>

definition destructive_substrings :: "string list" where
  "destructive_substrings = [
     ''rm -rf'', ''rm -fr'', ''rm -r -f'', ''rm -f -r'', ''rm --recursive --force'', ''dd if='',
     ''dd of='', ''git push --force'', ''git push -f'', ''git reset --hard'', ''git clean -fdx'',
     ''git clean -xfd'', ''git clean -fd'', ''chmod -r 777'', ''chmod 777 -r'', ''mkfs'',
     ''of=/dev/'', ''| sh'', ''| bash'', ''curl | sh'']"

definition safe_programs :: "string list" where
  "safe_programs = [''echo'', ''cat'', ''ls'', ''pwd'', ''grep'', ''find'', ''head'', ''tail'', ''wc'',
     ''true'', ''test'', ''stat'', ''file'', ''which'', ''env'', ''printf'']"

definition safe_read_subcommands :: "(string \<times> string list) list" where
  "safe_read_subcommands =
     [(''git'', [''status'', ''diff'', ''log'', ''show'', ''blame'', ''branch'', ''rev-parse''])]"

definition shell_interpreters :: "string list" where
  "shell_interpreters = [''sh'', ''bash'', ''zsh'', ''dash'', ''ksh'']"

definition install_programs :: "string list" where
  "install_programs = [''npm'', ''pip'', ''pip3'', ''cargo'', ''gem'', ''go'', ''brew'', ''apt'',
     ''apt-get'', ''yum'', ''dnf'', ''pnpm'', ''yarn'']"

definition install_verbs :: "string list" where
  "install_verbs = [''install'', ''add'', ''uninstall'', ''remove'', ''update'', ''upgrade'']"

section \<open>The classifier\<close>

definition joined_lower :: "string \<Rightarrow> string list \<Rightarrow> string" where
  "joined_lower program args = lower_case (basename program @ '' '' @ join '' '' args)"

definition matches_destructive :: "string \<Rightarrow> string list \<Rightarrow> bool" where
  "matches_destructive program args \<longleftrightarrow>
     (\<exists>p \<in> set destructive_substrings. contains_str p (joined_lower program args))"

definition safe_read :: "string \<Rightarrow> string list \<Rightarrow> bool" where
  "safe_read prog args =
     (case map_of safe_read_subcommands prog of
        None \<Rightarrow> False
      | Some subs \<Rightarrow> (case args of [] \<Rightarrow> False | a # _ \<Rightarrow> a \<in> set subs))"

definition classify_command :: "string \<Rightarrow> string list \<Rightarrow> risk_level" where
  "classify_command program args =
     (let prog = basename program in
      if matches_destructive program args then Destructive
      else if prog \<in> set shell_interpreters \<and> ''-c'' \<in> set args then UnknownRisk
      else if safe_read prog args then Safe
      else if prog \<in> set install_programs \<and> (\<exists>a \<in> set args. a \<in> set install_verbs) then Controlled
      else if prog \<in> set safe_programs then Safe
      else UnknownRisk)"

section \<open>What the classes mean\<close>

lemma shell_not_read: "prog \<in> set shell_interpreters \<Longrightarrow> \<not> safe_read prog args"
  by (auto simp: shell_interpreters_def safe_read_def safe_read_subcommands_def)

lemma classify_cases:
  "classify_command program args = Destructive \<longleftrightarrow> matches_destructive program args"
  "classify_command program args = Controlled \<longleftrightarrow> \<not> matches_destructive program args \<and>
     basename program \<in> set install_programs \<and> (\<exists>a \<in> set args. a \<in> set install_verbs)"
proof -
  show "classify_command program args = Destructive \<longleftrightarrow> matches_destructive program args"
    by (simp add: classify_command_def Let_def)
  have "\<not> (basename program \<in> set shell_interpreters)" "\<not> safe_read (basename program) args"
    if "basename program \<in> set install_programs"
    using that by (auto simp: shell_interpreters_def install_programs_def safe_read_def
        safe_read_subcommands_def)
  then show "classify_command program args = Controlled \<longleftrightarrow> \<not> matches_destructive program args \<and>
     basename program \<in> set install_programs \<and> (\<exists>a \<in> set args. a \<in> set install_verbs)"
    by (auto simp: classify_command_def Let_def)
qed

text \<open>What runs without asking is known and unflagged. A command is auto-allowable exactly
  when no destructive pattern occurs in it, it is not an interpreter given text with \<open>-c\<close>, and its
  program is a listed safe one, \<open>git\<close> with a listed read subcommand first, or an installer given an
  install verb; every other command is \<open>Unknown\<close> or \<open>Destructive\<close> and is asked about.\<close>

theorem auto_allowable_exactly:
  "auto_allowable (classify_command program args) \<longleftrightarrow>
     (\<forall>p \<in> set destructive_substrings. \<not> contains_str p (joined_lower program args)) \<and>
     \<not> (basename program \<in> set shell_interpreters \<and> ''-c'' \<in> set args) \<and>
     (basename program \<in> set safe_programs \<or> safe_read (basename program) args \<or>
      (basename program \<in> set install_programs \<and> (\<exists>a \<in> set args. a \<in> set install_verbs)))"
  by (auto simp: classify_command_def matches_destructive_def Let_def)

theorem auto_allowable_exactly_witness:
  "auto_allowable (classify_command ''/usr/bin/git'' [''status'']) \<and>
   \<not> auto_allowable (classify_command ''git'' [''push'', ''--force''])"
proof -
  have "\<forall>p \<in> set destructive_substrings. \<not> contains_str p (joined_lower ''/usr/bin/git'' [''status''])"
    by code_simp
  moreover have "safe_read (basename ''/usr/bin/git'') [''status'']" by code_simp
  moreover have "basename ''/usr/bin/git'' \<notin> set shell_interpreters" by code_simp
  ultimately have "auto_allowable (classify_command ''/usr/bin/git'' [''status''])"
    using auto_allowable_exactly [of "''/usr/bin/git''" "[''status'']"] by blast
  moreover have "\<not> auto_allowable (classify_command ''git'' [''push'', ''--force''])"
    by code_simp
  ultimately show ?thesis by blast
qed

text \<open>A launcher in the safe list launders what it launches. Any command line run through
  \<open>env\<close> that contains none of the patterns is \<open>Safe\<close>, whatever the program it starts and
  although that program run directly may be \<open>Unknown\<close>.\<close>

theorem env_launders_unknown:
  assumes "\<not> matches_destructive ''env'' (program # args)"
  shows "classify_command ''env'' (program # args) = Safe"
proof -
  have b: "basename ''env'' = ''env''" by code_simp
  have "\<not> safe_read ''env'' (program # args)"
    by (simp add: safe_read_def safe_read_subcommands_def)
  with assms b show ?thesis
    by (simp add: classify_command_def Let_def shell_interpreters_def install_programs_def
        safe_programs_def)
qed

theorem env_launders_unknown_witness:
  "classify_command ''env'' [''sh'', ''-c'', ''rm -r /''] = Safe \<and>
   classify_command ''sh'' [''-c'', ''rm -r /''] = UnknownRisk"
proof -
  have "\<not> matches_destructive ''env'' [''sh'', ''-c'', ''rm -r /'']" by code_simp
  from env_launders_unknown [OF this] show ?thesis by simp code_simp
qed

lemma find_delete_is_safe: "classify_command ''find'' [''.'', ''-delete''] = Safe"
  by code_simp

lemma branch_delete_is_safe: "classify_command ''git'' [''branch'', ''-D'', ''main''] = Safe"
  by code_simp

end
