(* ===== verification/Tool_Runtime.thy ===== *)
theory Tool_Runtime
  imports Command_Risk
begin

text \<open>
  The tool runtime of \<open>crates/valyria-tools\<close>: the registry and the permission-gated invocation
  path (\<open>runtime.rs\<close>), the helpers every tool uses (\<open>tools/helpers.rs\<close>) and the
  process-execution tools (\<open>tools/process.rs\<close>). The world a tool acts on is a type variable; what
  spawning a process does to it (\<open>launch\<close>), the digest of a JSON value (\<open>hash\<close>, blake3 over
  serde's bytes) and the redaction of a text (\<open>redact\<close>, regular expressions) are parameters.
\<close>

section \<open>Tools\<close>

datatype tool_error =
    ToolUnknown string
  | InvalidInput string string
  | AuthorizationMismatch
  | ToolOther string string

fun tool_error_code :: "tool_error \<Rightarrow> string" where
  "tool_error_code (ToolUnknown _) = ''tools.unknown_tool''"
| "tool_error_code (InvalidInput _ _) = ''tools.invalid_input''"
| "tool_error_code AuthorizationMismatch = ''tools.authorization_mismatch''"
| "tool_error_code (ToolOther c _) = c"

fun show_tool_error :: "tool_error \<Rightarrow> string" where
  "show_tool_error (ToolUnknown t) = ''unknown tool: '' @ t"
| "show_tool_error (InvalidInput t r) = ''invalid input for '' @ t @ '': '' @ r"
| "show_tool_error AuthorizationMismatch =
     ''authorization does not match the request that was actually executed''"
| "show_tool_error (ToolOther _ m) = m"

datatype tool_outcome = ToolSuccess json string | ToolFailure string string string

definition tool_failure :: "string \<Rightarrow> string \<Rightarrow> tool_outcome" where
  "tool_failure code msg = ToolFailure code msg (''error: '' @ msg)"

record tool_ctx =
  tc_task :: task_id
  tc_step :: step_id

record 'w tool =
  tl_name :: string
  tl_preflight :: "tool_ctx \<Rightarrow> json \<Rightarrow> tool_error + permission_request"
  tl_execute :: "tool_ctx \<Rightarrow> authorization \<Rightarrow> json \<Rightarrow> 'w \<Rightarrow> tool_outcome \<times> 'w"

record invocation_record =
  ir_id :: tool_invocation_id
  ir_task :: task_id
  ir_step :: step_id
  ir_tool :: string
  ir_input :: json
  ir_authorized :: bool
  ir_start :: timestamp
  ir_end :: timestamp
  ir_success :: bool
  ir_exit :: "int option"
  ir_stdout :: "string option"
  ir_stderr :: "string option"
  ir_error :: "string option"

datatype invocation_result =
    Executed tool_outcome invocation_record
  | Denied string
  | AskRequired string permission_request
  | UnknownTool string

section \<open>Helpers\<close>

definition require_str :: "json \<Rightarrow> string \<Rightarrow> string \<Rightarrow> tool_error + string" where
  "require_str inp field tool =
     ok_or (InvalidInput tool (''missing or non-string field `'' @ field @ ''`''))
       (Option.bind (json_get field inp) json_as_str)"

definition optional_str :: "json \<Rightarrow> string \<Rightarrow> string option" where
  "optional_str inp field = Option.bind (json_get field inp) json_as_str"

definition optional_bool :: "json \<Rightarrow> string \<Rightarrow> bool \<Rightarrow> bool" where
  "optional_bool inp field d =
     (case Option.bind (json_get field inp) json_as_bool of None \<Rightarrow> d | Some b \<Rightarrow> b)"

definition optional_u64 :: "json \<Rightarrow> string \<Rightarrow> nat option" where
  "optional_u64 inp field = Option.bind (json_get field inp) json_as_u64"

definition verify_authorization ::
  "(json \<Rightarrow> content_hash) \<Rightarrow> authorization \<Rightarrow> task_id \<Rightarrow> step_id \<Rightarrow> string \<Rightarrow> json
     \<Rightarrow> tool_error + unit" where
  "verify_authorization hash a t st tool inp =
     (if auth_matches a t st tool (hash inp) then Inr () else Inl AuthorizationMismatch)"

section \<open>Process tools\<close>

definition args_of :: "json \<Rightarrow> string list" where
  "args_of inp = (case Option.bind (json_get ''args'' inp) json_as_array of
     None \<Rightarrow> [] | Some xs \<Rightarrow> List.map_filter json_as_str xs)"

definition shell_request ::
  "(json \<Rightarrow> content_hash) \<Rightarrow> tool_ctx \<Rightarrow> string \<Rightarrow> json \<Rightarrow> tool_error + permission_request" where
  "shell_request hash ctx tool inp =
     (case require_str inp ''program'' tool of
        Inl e \<Rightarrow> Inl e
      | Inr program \<Rightarrow> Inr \<lparr>rq_task = tc_task ctx, rq_step = tc_step ctx, rq_tool = tool,
          rq_category = Shell, rq_action = ExecuteAction,
          rq_risk = classify_command program (args_of inp), rq_hash = hash inp,
          rq_target = program @ '' '' @ join '' '' (args_of inp), rq_in_scope = True\<rparr>)"

text \<open>\<open>launch\<close> is wrapping in the sandbox, running and rendering: the program, its arguments and the
  timeout in seconds.\<close>

definition process_execute ::
  "(json \<Rightarrow> content_hash) \<Rightarrow> (string \<Rightarrow> string list \<Rightarrow> nat \<Rightarrow> 'w \<Rightarrow> tool_outcome \<times> 'w) \<Rightarrow> string
     \<Rightarrow> tool_ctx \<Rightarrow> authorization \<Rightarrow> json \<Rightarrow> 'w \<Rightarrow> tool_outcome \<times> 'w" where
  "process_execute hash launch tool ctx a inp w =
     (case verify_authorization hash a (tc_task ctx) (tc_step ctx) tool inp of
        Inl e \<Rightarrow> (tool_failure (tool_error_code e) (show_tool_error e), w)
      | Inr _ \<Rightarrow> (case require_str inp ''program'' tool of
          Inl e \<Rightarrow> (tool_failure (tool_error_code e) (show_tool_error e), w)
        | Inr program \<Rightarrow> launch program (args_of inp)
            (case optional_u64 inp ''timeout_secs'' of None \<Rightarrow> 120 | Some n \<Rightarrow> n) w))"

definition process_tool ::
  "(json \<Rightarrow> content_hash) \<Rightarrow> (string \<Rightarrow> string list \<Rightarrow> nat \<Rightarrow> 'w \<Rightarrow> tool_outcome \<times> 'w) \<Rightarrow> string
     \<Rightarrow> 'w tool" where
  "process_tool hash launch name = \<lparr>tl_name = name,
     tl_preflight = (\<lambda>ctx. shell_request hash ctx name),
     tl_execute = process_execute hash launch name\<rparr>"

section \<open>The runtime\<close>

definition redact_field :: "(string \<Rightarrow> string) \<Rightarrow> json \<Rightarrow> string \<Rightarrow> json" where
  "redact_field redact v field = (case Option.bind (json_get field v) json_as_str of
     None \<Rightarrow> v | Some s \<Rightarrow> json_set field (JString (redact s)) v)"

fun redact_outcome :: "(string \<Rightarrow> string) \<Rightarrow> tool_outcome \<Rightarrow> tool_outcome" where
  "redact_outcome redact (ToolSuccess v rendered) =
     ToolSuccess (foldl (redact_field redact) v [''stdout'', ''stderr'', ''content'']) (redact rendered)"
| "redact_outcome redact (ToolFailure code msg rendered) =
     ToolFailure code (redact msg) (redact rendered)"

text \<open>\<open>as i32\<close>.\<close>

definition as_i32 :: "int \<Rightarrow> int" where
  "as_i32 n = sint (word_of_int n :: 32 word)"

definition run_tool ::
  "(string \<Rightarrow> string) \<Rightarrow> tool_invocation_id \<Rightarrow> timestamp \<times> timestamp \<Rightarrow> tool_ctx \<Rightarrow> 'w tool \<Rightarrow> json
     \<Rightarrow> authorization \<Rightarrow> 'w \<Rightarrow> invocation_result \<times> 'w" where
  "run_tool redact i ts ctx t inp a w =
     (let (out, w') = tl_execute t ctx a inp w;
          out = redact_outcome redact out;
          rcd = \<lparr>ir_id = i, ir_task = tc_task ctx, ir_step = tc_step ctx, ir_tool = tl_name t,
            ir_input = inp, ir_authorized = True, ir_start = fst ts, ir_end = snd ts,
            ir_success = False, ir_exit = None, ir_stdout = None, ir_stderr = None, ir_error = None\<rparr>
      in (Executed out
            (case out of
               ToolSuccess v _ \<Rightarrow> rcd\<lparr>ir_success := True,
                 ir_exit := map_option as_i32 (Option.bind (json_get ''exit_status'' v) json_as_i64),
                 ir_stdout := Option.bind (json_get ''stdout'' v) json_as_str,
                 ir_stderr := Option.bind (json_get ''stderr'' v) json_as_str\<rparr>
             | ToolFailure _ msg _ \<Rightarrow> rcd\<lparr>ir_error := Some msg\<rparr>), w'))"

type_synonym 'w registry = "string \<rightharpoonup> 'w tool"

definition register_tool :: "'w tool \<Rightarrow> 'w registry \<Rightarrow> 'w registry" where
  "register_tool t reg = reg(tl_name t \<mapsto> t)"

text \<open>\<open>gate\<close> is the engine's \<open>evaluate\<close> at the time of the call.\<close>

definition invoke ::
  "(permission_request \<Rightarrow> 'e \<Rightarrow> decision \<times> 'e) \<Rightarrow> (string \<Rightarrow> string) \<Rightarrow> tool_invocation_id
     \<Rightarrow> timestamp \<times> timestamp \<Rightarrow> 'w registry \<Rightarrow> tool_ctx \<Rightarrow> string \<Rightarrow> json \<Rightarrow> 'e \<Rightarrow> 'w
     \<Rightarrow> invocation_result \<times> 'e \<times> 'w" where
  "invoke gate redact i ts reg ctx name inp e w =
     (case reg name of
        None \<Rightarrow> (UnknownTool name, e, w)
      | Some t \<Rightarrow> (case tl_preflight t ctx inp of
          Inl err \<Rightarrow> (Denied (show_tool_error err), e, w)
        | Inr r \<Rightarrow> (case gate r e of
            (Allow a, e') \<Rightarrow> (case run_tool redact i ts ctx t inp a w of (res, w') \<Rightarrow> (res, e', w'))
          | (Deny reason, e') \<Rightarrow> (Denied reason, e', w)
          | (Ask prompt, e') \<Rightarrow> (AskRequired prompt r, e', w))))"

definition invoke_with_authorization ::
  "(string \<Rightarrow> string) \<Rightarrow> tool_invocation_id \<Rightarrow> timestamp \<times> timestamp \<Rightarrow> 'w registry \<Rightarrow> tool_ctx
     \<Rightarrow> string \<Rightarrow> json \<Rightarrow> authorization \<Rightarrow> 'w \<Rightarrow> invocation_result \<times> 'w" where
  "invoke_with_authorization redact i ts reg ctx name inp a w =
     (case reg name of
        None \<Rightarrow> (UnknownTool name, w)
      | Some t \<Rightarrow> run_tool redact i ts ctx t inp a w)"

section \<open>Guarded tools\<close>

text \<open>What the runtime needs of a tool: its request names the call it is about, and without a
  matching authorization it does nothing.\<close>

definition guarded :: "(json \<Rightarrow> content_hash) \<Rightarrow> 'w tool \<Rightarrow> bool" where
  "guarded hash t \<longleftrightarrow>
     (\<forall>ctx inp r. tl_preflight t ctx inp = Inr r \<longrightarrow> rq_task r = tc_task ctx \<and>
        rq_step r = tc_step ctx \<and> rq_tool r = tl_name t \<and> rq_hash r = hash inp) \<and>
     (\<forall>ctx a inp w. \<not> auth_matches a (tc_task ctx) (tc_step ctx) (tl_name t) (hash inp) \<longrightarrow>
        tl_execute t ctx a inp w = (tool_failure (tool_error_code AuthorizationMismatch)
          (show_tool_error AuthorizationMismatch), w))"

lemma process_tool_guarded: "guarded hash (process_tool hash launch name)"
  by (auto simp: guarded_def process_tool_def shell_request_def process_execute_def
      verify_authorization_def split: sum.splits)

lemma run_tool_world: "snd (run_tool redact i ts ctx t inp a w) = snd (tl_execute t ctx a inp w)"
  by (simp add: run_tool_def Let_def case_prod_beta)

context permission_gate
begin

lemma invoke_justified:
  assumes "sound e" and "reg name = Some t" and "guarded hash t" and "tl_name t = name"
    and inv: "invoke (eval now) redact i ts reg ctx name inp e w = (res, e', w')"
  shows "sound e' \<and> (w' = w \<or> (\<exists>r a. tl_preflight t ctx inp = Inr r \<and> eval now r e = (Allow a, e') \<and>
    justified r now e \<and> auth_matches a (tc_task ctx) (tc_step ctx) name (hash inp) \<and>
    w' = snd (tl_execute t ctx a inp w)))"
proof (cases "tl_preflight t ctx inp")
  case (Inl err)
  with assms(1,2) inv show ?thesis by (simp add: invoke_def)
next
  case (Inr r)
  obtain d e1 where d: "eval now r e = (d, e1)" by fastforce
  have "sound e1" using eval_sound [OF assms(1), of now r] d by simp
  then have s: "sound e'" using inv Inr d assms(2)
    by (auto simp: invoke_def split: decision.splits prod.splits)
  show ?thesis
  proof (cases d)
    case (Allow a)
    have "auth_matches a (tc_task ctx) (tc_step ctx) name (hash inp)"
      using eval_binds [OF d [unfolded Allow]] assms(3,4) Inr by (auto simp: guarded_def)
    moreover have "justified r now e" using eval_justified [OF assms(1) d [unfolded Allow]] .
    moreover have "e' = e1" "w' = snd (tl_execute t ctx a inp w)"
      using inv Inr d Allow assms(2) run_tool_world [of redact i ts ctx t inp a w]
      by (auto simp: invoke_def split: prod.splits)
    ultimately show ?thesis using s Inr d Allow by blast
  qed (use inv Inr d assms(2) s in \<open>auto simp: invoke_def\<close>)
qed

end

text \<open>C20: The process tools act only with permission. Whatever the engine's history, invoking a
  process tool either leaves the world as it was or launched exactly the program and arguments of
  the input, and then the engine allowed that call: for its classified risk in the mode in force,
  or under a covering grant a user approved.\<close>

theorem process_tool_gated:
  assumes "reachable_engine e" and "reg name = Some (process_tool hash launch name)"
    and "invoke (evaluate now) redact i ts reg ctx name inp e w = (res, e', w')"
  shows "w' = w \<or>
    (\<exists>program r a. require_str inp ''program'' name = Inr program \<and>
       evaluate now r e = (Allow a, e') \<and> rq_hash r = hash inp \<and>
       rq_risk r = classify_command program (args_of inp) \<and>
       (auto_allowable (rq_risk r) \<and> effective_mode (tc_task ctx) e \<noteq> Manual \<or>
        (\<exists>g \<in> set (pe_grants e). covers g r (pe_session e) now \<and> approved_in (pe_journal e) g)) \<and>
       w' = snd (launch program (args_of inp)
         (case optional_u64 inp ''timeout_secs'' of None \<Rightarrow> 120 | Some n \<Rightarrow> n) w))"
proof -
  let ?t = "process_tool hash launch name"
  have "tl_name ?t = name" by (simp add: process_tool_def)
  from pg.invoke_justified [OF reachable_engine_ok [OF assms(1)] assms(2) process_tool_guarded this assms(3)]
  show ?thesis
  proof (elim conjE disjE)
    assume "\<exists>r a. tl_preflight ?t ctx inp = Inr r \<and> evaluate now r e = (Allow a, e') \<and>
      allow_justified r now e \<and> auth_matches a (tc_task ctx) (tc_step ctx) name (hash inp) \<and>
      w' = snd (tl_execute ?t ctx a inp w)"
    then obtain r a where r: "shell_request hash ctx name inp = Inr r" "evaluate now r e = (Allow a, e')"
      "allow_justified r now e" "auth_matches a (tc_task ctx) (tc_step ctx) name (hash inp)"
      "w' = snd (process_execute hash launch name ctx a inp w)" by (auto simp: process_tool_def)
    then obtain program where p: "require_str inp ''program'' name = Inr program"
      by (auto simp: shell_request_def split: sum.splits)
    with r have f: "rq_hash r = hash inp" "rq_risk r = classify_command program (args_of inp)"
      "rq_category r = Shell" "rq_task r = tc_task ctx" by (auto simp: shell_request_def)
    have "auto_allowable (rq_risk r) \<and> effective_mode (tc_task ctx) e \<noteq> Manual \<or>
        (\<exists>g \<in> set (pe_grants e). covers g r (pe_session e) now \<and> approved_in (pe_journal e) g)"
      using r(3) f(3,4) by (auto simp: allow_justified_def decide_default_def shell_decision_def
          split: permission_mode.splits if_splits)
    moreover have "w' = snd (launch program (args_of inp)
         (case optional_u64 inp ''timeout_secs'' of None \<Rightarrow> 120 | Some n \<Rightarrow> n) w)"
      using r(4,5) p by (simp add: process_execute_def verify_authorization_def)
    ultimately show ?thesis using p r(2) f by blast
  qed simp
qed

text \<open>An approval cannot be spent on another call. An authorization minted by \<open>approve\<close> for one
  request, presented with any other task, step, tool or input digest, executes nothing: the world
  is unchanged and the result is the authorization-mismatch failure.\<close>

theorem approval_not_transferable:
  assumes "approve now r sc ex e = (a, e')" and "reg name = Some (process_tool hash launch name)"
    and "(tc_task ctx, tc_step ctx, name, hash inp) \<noteq> (rq_task r, rq_step r, rq_tool r, rq_hash r)"
  shows "\<exists>rcd. invoke_with_authorization redact i ts reg ctx name inp a w =
    (Executed (redact_outcome redact (tool_failure ''tools.authorization_mismatch''
       (show_tool_error AuthorizationMismatch))) rcd, w)"
proof -
  have "\<not> auth_matches a (tc_task ctx) (tc_step ctx) name (hash inp)"
    using pg.grant_binds [OF assms(1)] assms(3) by auto
  then have "process_execute hash launch name ctx a inp w
      = (tool_failure ''tools.authorization_mismatch'' (show_tool_error AuthorizationMismatch), w)"
    by (simp add: process_execute_def verify_authorization_def)
  then show ?thesis
    by (simp add: invoke_with_authorization_def assms(2) run_tool_def process_tool_def Let_def)
qed

text \<open>Redaction is a choke point. Whatever a tool returns, the rendered text the runtime hands
  out, and the \<open>stdout\<close>, \<open>stderr\<close> and \<open>content\<close> strings of the structured result and of the
  persisted record, are the redacted ones; every other field of the structured result is as the
  tool produced it.\<close>

theorem outcome_is_redacted:
  "let v' = foldl (redact_field redact) v [''stdout'', ''stderr'', ''content''] in
   redact_outcome redact (ToolSuccess v rendered) = ToolSuccess v' (redact rendered) \<and>
   json_get f v' =
     (if f = ''stdout'' \<or> f = ''stderr'' \<or> f = ''content''
      then (case json_get f v of Some (JString s) \<Rightarrow> Some (JString (redact s)) | x \<Rightarrow> x)
      else json_get f v)"
proof -
  have one: "json_get g (redact_field redact x k) =
      (if g = k then (case json_get g x of Some (JString s) \<Rightarrow> Some (JString (redact s)) | y \<Rightarrow> y)
       else json_get g x)" for g x k
  proof (cases "json_get k x")
    case None
    then show ?thesis by (auto simp: redact_field_def)
  next
    case (Some y)
    then show ?thesis by (cases y) (auto simp: redact_field_def json_get_set)
  qed
  show ?thesis by (auto simp: Let_def one)
qed

lemma record_is_redacted:
  assumes "run_tool redact i ts ctx t inp a w = (Executed out rcd, w')"
  shows "out = redact_outcome redact (fst (tl_execute t ctx a inp w)) \<and>
    (\<forall>v rendered. out = ToolSuccess v rendered \<longrightarrow>
       ir_stdout rcd = Option.bind (json_get ''stdout'' v) json_as_str)"
  using assms by (auto simp: run_tool_def Let_def case_prod_beta split: tool_outcome.splits)

text \<open>The expiry of an authorization is recorded and never enforced. Presenting an approved
  authorization to a process tool has the same result and the same effect whatever its expiry
  time, a past one included: \<open>is_expired\<close> is not consulted on the way to \<open>execute\<close>.\<close>

theorem expiry_not_enforced:
  assumes "reg name = Some (process_tool hash launch name)"
  shows "invoke_with_authorization redact i ts reg ctx name inp (a\<lparr>au_expires := x\<rparr>) w =
    invoke_with_authorization redact i ts reg ctx name inp a w"
proof -
  have "auth_matches (a\<lparr>au_expires := x\<rparr>) = auth_matches a"
    by (simp add: auth_matches_def fun_eq_iff)
  then have "process_execute hash launch name ctx (a\<lparr>au_expires := x\<rparr>) inp w
      = process_execute hash launch name ctx a inp w"
    by (simp add: process_execute_def verify_authorization_def)
  then show ?thesis
    by (simp add: invoke_with_authorization_def assms run_tool_def process_tool_def)
qed

section \<open>A concrete call\<close>

definition sample_hash :: "json \<Rightarrow> content_hash" where
  "sample_hash v = (case json_get ''program'' v of Some (JString s) \<Rightarrow> map (\<lambda>c. of_char c) s | _ \<Rightarrow> [])"

definition sample_launch :: "string \<Rightarrow> string list \<Rightarrow> nat \<Rightarrow> string list \<Rightarrow> tool_outcome \<times> string list" where
  "sample_launch program args timeout w = (ToolSuccess (JObject []) program, program # w)"

definition sample_registry :: "string list registry" where
  "sample_registry = register_tool (process_tool sample_hash sample_launch ''run_command'') Map.empty"

definition sample_input :: "string \<Rightarrow> json" where
  "sample_input p = JObject [(''program'', JString p)]"

lemma sample_registry_lookup:
  "sample_registry ''run_command'' = Some (process_tool sample_hash sample_launch ''run_command'')"
  by (simp add: sample_registry_def register_tool_def process_tool_def)

theorem process_tool_gated_witness:
  "\<exists>res e' w'. invoke (evaluate 3) id (ToolInvocationId 0) (0, 0) sample_registry
      \<lparr>tc_task = TaskId 1, tc_step = StepId 2\<rparr> ''run_command'' (sample_input ''ls'')
      (new_engine Assisted) [] = (res, e', w') \<and> w' = [''ls'']"
proof -
  have r: "reachable_engine (new_engine Assisted)" by (auto simp: reachable_engine_def)
  obtain res e' w' where inv: "invoke (evaluate 3) id (ToolInvocationId 0) (0, 0) sample_registry
      \<lparr>tc_task = TaskId 1, tc_step = StepId 2\<rparr> ''run_command'' (sample_input ''ls'')
      (new_engine Assisted) [] = (res, e', w')" by (metis prod_cases3)
  have ne: "w' \<noteq> []"
  proof -
    have c: "classify_command ''ls'' [] = Safe" by code_simp
    from inv show ?thesis
      by (auto simp: invoke_def sample_registry_lookup process_tool_def shell_request_def
          require_str_def sample_input_def json_get_def args_of_def c evaluate_def find_covering_def
          new_engine_def effective_mode_def decide_default_def shell_decision_def run_tool_def
          process_execute_def verify_authorization_def sample_launch_def Let_def)
  qed
  from process_tool_gated [where reg = sample_registry and name = "''run_command''" and
      hash = sample_hash and launch = sample_launch, OF r sample_registry_lookup inv] ne inv show ?thesis
    by (auto simp: require_str_def sample_input_def json_get_def sample_launch_def)
qed

theorem approval_not_transferable_witness:
  "\<exists>rcd a e'. approve 3 (sample_request Shell Safe) OneShot None (new_engine Manual) = (a, e') \<and>
     invoke_with_authorization id (ToolInvocationId 0) (0, 0) sample_registry
       \<lparr>tc_task = TaskId 1, tc_step = StepId 2\<rparr> ''run_command'' (sample_input ''rm'') a [''before'']
     = (Executed (tool_failure ''tools.authorization_mismatch''
          (show_tool_error AuthorizationMismatch)) rcd, [''before''])"
proof -
  let ?c = "\<lparr>tc_task = TaskId 1, tc_step = StepId 2\<rparr>"
  obtain a e' where a: "approve 3 (sample_request Shell Safe) OneShot None (new_engine Manual) = (a, e')"
    by (metis surj_pair)
  have "(tc_task ?c, tc_step ?c, ''run_command'', sample_hash (sample_input ''rm'')) \<noteq>
      (rq_task (sample_request Shell Safe), rq_step (sample_request Shell Safe),
       rq_tool (sample_request Shell Safe), rq_hash (sample_request Shell Safe))"
    by (simp add: sample_request_def sample_hash_def sample_input_def json_get_def)
  from approval_not_transferable [where redact = id and reg = sample_registry and
      name = "''run_command''" and hash = sample_hash and launch = sample_launch, OF a sample_registry_lookup this] a show ?thesis
    by (auto simp: tool_failure_def)
qed

theorem expiry_not_enforced_witness:
  "snd (invoke_with_authorization id (ToolInvocationId 0) (9, 9) sample_registry
      \<lparr>tc_task = TaskId 1, tc_step = StepId 2\<rparr> ''run_command'' (sample_input [CHR 0x07])
      (fst (approve 3 (sample_request Shell Safe) OneShot None (new_engine Manual))\<lparr>au_expires := Some 4\<rparr>)
      []) = [[CHR 0x07]]"
  unfolding expiry_not_enforced [where reg = sample_registry and name = "''run_command''" and
    hash = sample_hash and launch = sample_launch, OF sample_registry_lookup]
  by (simp add: invoke_with_authorization_def sample_registry_lookup process_tool_def run_tool_def
      process_execute_def verify_authorization_def require_str_def sample_input_def json_get_def
      sample_launch_def approve_def sample_request_def sample_hash_def Let_def case_prod_beta)

end
