(* ===== verification/Plan_Model.thy ===== *)
theory Plan_Model
  imports Command_Risk
begin

text \<open>
  The plan model of \<open>crates/valyria-plan\<close>: validated step ids, steps, plans, diffs and revisions
  (\<open>model.rs\<close>), and the agent roles with their tool allowlists (\<open>roles.rs\<close>). The digest of a plan
  is the parameter \<open>hash\<close>. A \<open>PathBuf\<close> target is the string it was written as; a \<open>BTreeSet\<close> of
  step ids is the sorted list of its elements.
\<close>

section \<open>Step ids\<close>

datatype plan_step_id = PlanStepId string

primrec step_text :: "plan_step_id \<Rightarrow> string" where
  "step_text (PlanStepId s) = s"

lemma step_text_inject [simp]: "step_text a = step_text b \<longleftrightarrow> a = b"
  by (cases a; cases b) simp

instantiation plan_step_id :: linorder
begin

definition less_eq_plan_step_id :: "plan_step_id \<Rightarrow> plan_step_id \<Rightarrow> bool" where
  "less_eq_plan_step_id a b \<longleftrightarrow> step_text a \<le> step_text b"

definition less_plan_step_id :: "plan_step_id \<Rightarrow> plan_step_id \<Rightarrow> bool" where
  "less_plan_step_id a b \<longleftrightarrow> step_text a < step_text b"

instance
  by standard (auto simp: less_eq_plan_step_id_def less_plan_step_id_def less_le)

end

datatype plan_format_error = StepIdError string string

definition step_id_char :: "char \<Rightarrow> bool" where
  "step_id_char c \<longleftrightarrow> (let n = (of_char c :: nat) in
     (97 \<le> n \<and> n \<le> 122) \<or> (48 \<le> n \<and> n \<le> 57) \<or> c = CHR ''_'' \<or> c = CHR ''-'')"

definition new_step_id :: "string \<Rightarrow> plan_format_error + plan_step_id" where
  "new_step_id raw =
     (if raw = [] \<or> 64 < length raw then Inl (StepIdError raw ''must be 1-64 characters'')
      else if \<not> list_all step_id_char raw then Inl (StepIdError raw ''only [a-z0-9_-] allowed'')
      else Inr (PlanStepId raw))"

lemma new_step_id_Inr:
  "new_step_id raw = Inr i \<longleftrightarrow>
     i = PlanStepId raw \<and> raw \<noteq> [] \<and> length raw \<le> 64 \<and> (\<forall>c \<in> set raw. step_id_char c)"
  by (auto simp: new_step_id_def list_all_iff)

section \<open>Plans\<close>

datatype verification_requirement = VerifyNone | VerifyInherit | VerifyCommand string

datatype risk = RiskLow | RiskMedium | RiskHigh

record estimated_scope =
  es_files :: u32
  es_risk :: risk

record plan_step =
  ps_id :: plan_step_id
  ps_intent :: string
  ps_targets :: "string list"
  ps_depends :: "plan_step_id list"
  ps_parallel :: bool
  ps_checkpoint :: bool
  ps_verification :: verification_requirement
  ps_rollback :: bool
  ps_approval :: bool
  ps_scope :: estimated_scope

definition is_mutating :: "plan_step \<Rightarrow> bool" where
  "is_mutating s \<longleftrightarrow> ps_targets s \<noteq> []"

record plan =
  pl_scope :: "string list"
  pl_steps :: "plan_step list"

definition plan_find :: "plan \<Rightarrow> plan_step_id \<Rightarrow> plan_step option" where
  "plan_find p i = find (\<lambda>s. ps_id s = i) (pl_steps p)"

definition step_ids :: "plan \<Rightarrow> plan_step_id list" where
  "step_ids p = sort (remdups (map ps_id (pl_steps p)))"

lemma step_ids_simps [simp]:
  "set (step_ids p) = ps_id ` set (pl_steps p)" "distinct (step_ids p)" "sorted (step_ids p)"
  by (simp_all add: step_ids_def)

lemma plan_find_Some:
  "distinct (map ps_id (pl_steps p)) \<Longrightarrow>
     plan_find p i = Some s \<longleftrightarrow> s \<in> set (pl_steps p) \<and> ps_id s = i"
proof
  assume "plan_find p i = Some s"
  then show "s \<in> set (pl_steps p) \<and> ps_id s = i" by (auto simp: plan_find_def dest: find_SomeD)
next
  assume d: "distinct (map ps_id (pl_steps p))" and s: "s \<in> set (pl_steps p) \<and> ps_id s = i"
  then obtain t where t: "plan_find p i = Some t"
    by (cases "plan_find p i") (auto simp: plan_find_def find_None_iff_set)
  then have "t \<in> set (pl_steps p) \<and> ps_id t = i" by (auto simp: plan_find_def dest: find_SomeD)
  with s d t show "plan_find p i = Some s" by (auto simp: distinct_map dest: inj_onD)
qed

section \<open>Diffs and revisions\<close>

record plan_diff =
  pd_added :: "plan_step_id list"
  pd_removed :: "plan_step_id list"
  pd_changed :: "plan_step_id list"

definition diff_plan :: "plan \<Rightarrow> plan \<Rightarrow> plan_diff" where
  "diff_plan p prior =
     (let now = step_ids p; before = step_ids prior
      in \<lparr>pd_added = filter (\<lambda>i. i \<notin> set before) now,
          pd_removed = filter (\<lambda>i. i \<notin> set now) before,
          pd_changed = filter (\<lambda>i. i \<in> set before \<and> plan_find p i \<noteq> plan_find prior i) now\<rparr>)"

definition diff_is_empty :: "plan_diff \<Rightarrow> bool" where
  "diff_is_empty d \<longleftrightarrow> pd_added d = [] \<and> pd_removed d = [] \<and> pd_changed d = []"

record plan_revision =
  rv_number :: u32
  rv_parent :: "string option"
  rv_rationale :: string
  rv_plan :: plan
  rv_created :: timestamp

definition first_revision :: "plan \<Rightarrow> string \<Rightarrow> timestamp \<Rightarrow> plan_revision" where
  "first_revision p why t =
     \<lparr>rv_number = 1, rv_parent = None, rv_rationale = why, rv_plan = p, rv_created = t\<rparr>"

definition revise ::
  "(plan \<Rightarrow> string) \<Rightarrow> plan_revision \<Rightarrow> plan \<Rightarrow> string \<Rightarrow> timestamp \<Rightarrow> plan_revision" where
  "revise hash_hex r p why t =
     \<lparr>rv_number = rv_number r + 1, rv_parent = Some (hash_hex (rv_plan r)), rv_rationale = why,
       rv_plan = p, rv_created = t\<rparr>"

text \<open>An empty diff means the same steps: between plans whose ids are unique, nothing was added,
  removed or changed exactly when the two have the same set of steps.\<close>

lemma diff_empty_iff:
  assumes "distinct (map ps_id (pl_steps p))" and "distinct (map ps_id (pl_steps q))"
  shows "diff_is_empty (diff_plan p q) \<longleftrightarrow> set (pl_steps p) = set (pl_steps q)"
proof
  assume e: "diff_is_empty (diff_plan p q)"
  then have sub: "ps_id ` set (pl_steps p) = ps_id ` set (pl_steps q)"
    by (auto simp: diff_is_empty_def diff_plan_def Let_def filter_empty_conv)
  have same: "plan_find p i = plan_find q i" if "i \<in> ps_id ` set (pl_steps p)" for i
    using e that sub by (auto simp: diff_is_empty_def diff_plan_def Let_def filter_empty_conv)
  show "set (pl_steps p) = set (pl_steps q)"
  proof (intro equalityI subsetI)
    fix s assume "s \<in> set (pl_steps p)"
    then show "s \<in> set (pl_steps q)"
      using same [of "ps_id s"] plan_find_Some [OF assms(1), of "ps_id s" s]
        plan_find_Some [OF assms(2), of "ps_id s" s] by auto
  next
    fix s assume "s \<in> set (pl_steps q)"
    then show "s \<in> set (pl_steps p)"
      using same [of "ps_id s"] plan_find_Some [OF assms(1), of "ps_id s" s] sub
        plan_find_Some [OF assms(2), of "ps_id s" s] by auto
  qed
next
  assume s: "set (pl_steps p) = set (pl_steps q)"
  have "plan_find p i = plan_find q i" for i
    using plan_find_Some [OF assms(1), of i] plan_find_Some [OF assms(2), of i] s
    by (cases "plan_find p i"; cases "plan_find q i") auto
  then show "diff_is_empty (diff_plan p q)"
    by (simp add: diff_is_empty_def diff_plan_def Let_def filter_empty_conv s)
qed

section \<open>Roles\<close>

datatype agent_role = Researcher | Planner | Implementer | Tester | Reviewer

definition read_tools :: "string list" where
  "read_tools = [''read_file'', ''list_dir'', ''search'', ''symbol_search'', ''grep'']"

fun tool_allowlist :: "agent_role \<Rightarrow> string list" where
  "tool_allowlist Researcher = read_tools"
| "tool_allowlist Reviewer = read_tools"
| "tool_allowlist Planner = read_tools"
| "tool_allowlist Tester = read_tools @ [''run_command'']"
| "tool_allowlist Implementer = read_tools @
     [''run_command'', ''edit_file'', ''write_file'', ''delete_file'', ''create_file'']"

fun can_write :: "agent_role \<Rightarrow> bool" where
  "can_write Implementer = True"
| "can_write _ = False"

definition permission_ceiling :: "agent_role \<Rightarrow> permission_mode" where
  "permission_ceiling r = (if can_write r then Autonomous else Manual)"

datatype artifact_kind = ResearchBrief | PlanArtifact | ChangeSet | VerificationReport | ReviewFindings

fun produces :: "agent_role \<Rightarrow> artifact_kind" where
  "produces Researcher = ResearchBrief"
| "produces Planner = PlanArtifact"
| "produces Implementer = ChangeSet"
| "produces Tester = VerificationReport"
| "produces Reviewer = ReviewFindings"

fun role_str :: "agent_role \<Rightarrow> string" where
  "role_str Researcher = ''researcher''"
| "role_str Planner = ''planner''"
| "role_str Implementer = ''implementer''"
| "role_str Tester = ''tester''"
| "role_str Reviewer = ''reviewer''"

fun artifact_kind_str :: "artifact_kind \<Rightarrow> string" where
  "artifact_kind_str ResearchBrief = ''research_brief''"
| "artifact_kind_str PlanArtifact = ''plan''"
| "artifact_kind_str ChangeSet = ''change_set''"
| "artifact_kind_str VerificationReport = ''verification_report''"
| "artifact_kind_str ReviewFindings = ''review_findings''"

definition writing_tools :: "string set" where
  "writing_tools = {''edit_file'', ''write_file'', ''delete_file'', ''create_file''}"

lemma only_writers_get_writing_tools:
  "(set (tool_allowlist r) \<inter> writing_tools \<noteq> {}) = can_write r"
  by (cases r) (auto simp: writing_tools_def read_tools_def)

text \<open>A role that cannot write may not even be auto-allowed a safe shell command: under its ceiling
  the default table allows only reads.\<close>

lemma reader_ceiling_reads_only:
  assumes "\<not> can_write r" and "decide_default (permission_ceiling r) q = DefaultAllow"
  shows "rq_category q = Filesystem \<and> rq_action q = ReadAction"
  using assms
  by (auto simp: permission_ceiling_def decide_default_def filesystem_decision_def shell_decision_def
      split: permission_category.splits if_splits)

end
