(* ===== verification/Plan_Graph.thy ===== *)
theory Plan_Graph
  imports Plan_Model "HOL-Library.While_Combinator"
begin

text \<open>
  The dependency graph of a plan (\<open>crates/valyria-plan/src/validate.rs\<close>): \<open>adjacency\<close>, the layering
  loop of \<open>topological_waves\<close> and the depth-first search that renders a cycle (\<open>dfs_cycle\<close>,
  \<open>find_cycle\<close>). The loop is \<open>while_option\<close>, so not ending is a value, and the lemmas show that it
  ends; the recursive search takes fuel, and one more than the number of steps is enough. The two
  algorithms agree: either the waves exist and respect every dependency, or the search finds a
  real cycle, which is why \<open>validate\<close> never reaches its \<open>expect\<close>.
\<close>

section \<open>The graph\<close>

text \<open>A \<open>BTreeMap\<close>: a later step with the same id overwrites the entry.\<close>

definition adjacency :: "plan \<Rightarrow> plan_step_id \<rightharpoonup> plan_step_id list" where
  "adjacency p = map_of (rev (map (\<lambda>s. (ps_id s, filter (\<lambda>d. d \<in> set (step_ids p)) (ps_depends s)))
     (pl_steps p)))"

definition succs :: "(plan_step_id \<rightharpoonup> plan_step_id list) \<Rightarrow> plan_step_id \<Rightarrow> plan_step_id list" where
  "succs adj i = (case adj i of None \<Rightarrow> [] | Some ds \<Rightarrow> ds)"

section \<open>Layering\<close>

record wave_state =
  ws_remaining :: "plan_step_id list"
  ws_waves :: "plan_step_id list list"
  ws_stuck :: bool

definition ready_steps ::
  "(plan_step_id \<rightharpoonup> plan_step_id list) \<Rightarrow> plan_step_id list \<Rightarrow> plan_step_id list" where
  "ready_steps adj rem = filter (\<lambda>i. \<forall>d \<in> set (succs adj i). d \<notin> set rem) rem"

definition wave_step :: "plan \<Rightarrow> wave_state \<Rightarrow> wave_state" where
  "wave_step p st =
     (let ready = ready_steps (adjacency p) (ws_remaining st)
      in if ready = [] then st\<lparr>ws_stuck := True\<rparr>
         else (let wave = remdups_adj (filter (\<lambda>i. i \<in> set ready) (map ps_id (pl_steps p)))
               in st\<lparr>ws_remaining := filter (\<lambda>i. i \<notin> set wave) (ws_remaining st),
                    ws_waves := ws_waves st @ [wave]\<rparr>))"

definition wave_loop :: "plan \<Rightarrow> wave_state option" where
  "wave_loop p = while_option (\<lambda>st. ws_remaining st \<noteq> [] \<and> \<not> ws_stuck st) (wave_step p)
     \<lparr>ws_remaining = step_ids p, ws_waves = [], ws_stuck = False\<rparr>"

definition topological_waves :: "plan \<Rightarrow> plan_step_id list list option" where
  "topological_waves p = (case wave_loop p of
     None \<Rightarrow> None
   | Some st \<Rightarrow> if ws_stuck st then None else Some (ws_waves st))"

section \<open>The cycle search\<close>

fun dfs_cycle ::
    "nat \<Rightarrow> plan_step_id \<Rightarrow> (plan_step_id \<rightharpoonup> plan_step_id list) \<Rightarrow> (plan_step_id \<Rightarrow> nat)
      \<Rightarrow> plan_step_id list
      \<Rightarrow> (plan_step_id list option \<times> (plan_step_id \<Rightarrow> nat) \<times> plan_step_id list) option"
  and dfs_each ::
    "nat \<Rightarrow> plan_step_id list \<Rightarrow> (plan_step_id \<rightharpoonup> plan_step_id list) \<Rightarrow> (plan_step_id \<Rightarrow> nat)
      \<Rightarrow> plan_step_id list
      \<Rightarrow> (plan_step_id list option \<times> (plan_step_id \<Rightarrow> nat) \<times> plan_step_id list) option" where
  "dfs_cycle 0 node adj col stack = None"
| "dfs_cycle (Suc n) node adj col stack =
     (case dfs_each n (succs adj node) adj (col(node := 1)) (stack @ [node]) of
        None \<Rightarrow> None
      | Some (Some c, col', stack') \<Rightarrow> Some (Some c, col', stack')
      | Some (None, col', stack') \<Rightarrow> Some (None, col'(node := 2), butlast stack'))"
| "dfs_each n [] adj col stack = Some (None, col, stack)"
| "dfs_each n (x # xs) adj col stack =
     (if col x = 1 then
        (let pos = (case position (\<lambda>s. s = x) stack of None \<Rightarrow> 0 | Some k \<Rightarrow> k)
         in Some (Some (drop pos stack @ [x]), col, stack))
      else if col x = 0 then
        (case dfs_cycle n x adj col stack of
           None \<Rightarrow> None
         | Some (Some c, col', stack') \<Rightarrow> Some (Some c, col', stack')
         | Some (None, col', stack') \<Rightarrow> dfs_each n xs adj col' stack')
      else dfs_each n xs adj col stack)"

text \<open>The loop over the keys in order.\<close>

fun dfs_from ::
  "nat \<Rightarrow> plan_step_id list \<Rightarrow> (plan_step_id \<rightharpoonup> plan_step_id list) \<Rightarrow> (plan_step_id \<Rightarrow> nat)
     \<Rightarrow> plan_step_id list \<Rightarrow> plan_step_id list option option" where
  "dfs_from n [] adj col stack = Some None"
| "dfs_from n (s # ss) adj col stack =
     (if col s = 0 then
        (case dfs_cycle n s adj col stack of
           None \<Rightarrow> None
         | Some (Some c, _, _) \<Rightarrow> Some (Some c)
         | Some (None, col', stack') \<Rightarrow> dfs_from n ss adj col' stack')
      else dfs_from n ss adj col stack)"

text \<open>\<open>None\<close> is running out of fuel.\<close>

definition find_cycle :: "nat \<Rightarrow> plan \<Rightarrow> plan_step_id list option option" where
  "find_cycle n p =
     (if topological_waves p \<noteq> None then Some None
      else dfs_from n (step_ids p) (adjacency p) (\<lambda>_. 0) [])"

section \<open>Facts on the graph\<close>

abbreviation plan_ids :: "plan \<Rightarrow> plan_step_id set" where
  "plan_ids p \<equiv> ps_id ` set (pl_steps p)"

lemma adjacency_dom: "adjacency p i \<noteq> None \<longleftrightarrow> i \<in> plan_ids p"
  unfolding adjacency_def by (auto simp: map_of_eq_None_iff image_iff)

lemma succs_in_ids: "d \<in> set (succs (adjacency p) i) \<Longrightarrow> d \<in> plan_ids p"
proof (cases "adjacency p i")
  case (Some ds)
  then have "(i, ds) \<in> set (rev (map (\<lambda>s. (ps_id s, filter (\<lambda>d. d \<in> set (step_ids p)) (ps_depends s)))
     (pl_steps p)))" unfolding adjacency_def by (rule map_of_SomeD)
  then show "d \<in> set (succs (adjacency p) i) \<Longrightarrow> d \<in> plan_ids p"
    using Some by (auto simp: succs_def)
qed (simp add: succs_def)

lemma succs_distinct:
  assumes "distinct (map ps_id (pl_steps p))" and "s \<in> set (pl_steps p)"
  shows "set (succs (adjacency p) (ps_id s)) = set (ps_depends s) \<inter> plan_ids p"
proof -
  have "adjacency p (ps_id s) = Some (filter (\<lambda>d. d \<in> set (step_ids p)) (ps_depends s))"
    unfolding adjacency_def
    by (rule map_of_is_SomeI) (use assms in \<open>auto simp: o_def rev_map [symmetric]\<close>)
  then show ?thesis by (auto simp: succs_def)
qed

section \<open>The layering loop ends and layers\<close>

fun layered ::
  "(plan_step_id \<rightharpoonup> plan_step_id list) \<Rightarrow> plan_step_id set \<Rightarrow> plan_step_id list list \<Rightarrow> bool" where
  "layered adj D [] = True"
| "layered adj D (w # ws) = (w \<noteq> [] \<and> set w \<inter> D = {} \<and>
     (\<forall>i \<in> set w. set (succs adj i) \<subseteq> D) \<and> layered adj (D \<union> set w) ws)"

lemma layered_snoc:
  "layered adj D (ws @ [w]) \<longleftrightarrow> layered adj D ws \<and> w \<noteq> [] \<and>
     set w \<inter> (D \<union> set (concat ws)) = {} \<and> (\<forall>i \<in> set w. set (succs adj i) \<subseteq> D \<union> set (concat ws))"
  by (induction adj D ws rule: layered.induct) (auto simp: Un_assoc)

lemma layered_nth:
  assumes "layered adj D ws" and "k < length ws" and "i \<in> set (ws ! k)"
  shows "set (succs adj i) \<subseteq> D \<union> set (concat (take k ws))"
  using assms
proof (induction adj D ws arbitrary: k rule: layered.induct)
  case (2 adj D w ws)
  then show ?case by (cases k) fastforce+
qed simp

definition waves_inv :: "plan \<Rightarrow> wave_state \<Rightarrow> bool" where
  "waves_inv p st \<longleftrightarrow>
     set (ws_remaining st) \<union> set (concat (ws_waves st)) = plan_ids p \<and>
     set (ws_remaining st) \<inter> set (concat (ws_waves st)) = {} \<and>
     layered (adjacency p) {} (ws_waves st) \<and>
     (ws_stuck st \<longrightarrow> ws_remaining st \<noteq> [] \<and> ready_steps (adjacency p) (ws_remaining st) = []) \<and>
     (distinct (map ps_id (pl_steps p)) \<longrightarrow> distinct (concat (ws_waves st)))"

lemma remdups_adj_distinct: "distinct xs \<Longrightarrow> remdups_adj xs = xs"
  by (induction xs rule: remdups_adj.induct) auto

lemma wave_step_inv:
  assumes inv: "waves_inv p st" and more: "ws_remaining st \<noteq> []" "\<not> ws_stuck st"
  shows "waves_inv p (wave_step p st) \<and>
    (ws_stuck (wave_step p st) \<or> length (ws_remaining (wave_step p st)) < length (ws_remaining st))"
proof (cases "ready_steps (adjacency p) (ws_remaining st) = []")
  case True
  with inv more show ?thesis by (auto simp: wave_step_def Let_def waves_inv_def)
next
  case False
  define rem where "rem = ws_remaining st"
  define ready where "ready = ready_steps (adjacency p) rem"
  define wave where "wave = remdups_adj (filter (\<lambda>i. i \<in> set ready) (map ps_id (pl_steps p)))"
  define placed where "placed = set (concat (ws_waves st))"
  have inv': "set rem \<union> placed = plan_ids p" "set rem \<inter> placed = {}"
    "layered (adjacency p) {} (ws_waves st)"
    "distinct (map ps_id (pl_steps p)) \<Longrightarrow> distinct (concat (ws_waves st))"
    using inv by (auto simp: waves_inv_def rem_def placed_def)
  have sub: "set ready \<subseteq> set rem" by (auto simp: ready_def ready_steps_def)
  have w: "set wave = set ready" using sub inv'(1) by (auto simp: wave_def)
  have deps: "set (succs (adjacency p) i) \<subseteq> placed" if "i \<in> set wave" for i
  proof
    fix d assume d: "d \<in> set (succs (adjacency p) i)"
    then have "d \<notin> set rem" using that unfolding w by (auto simp: ready_def ready_steps_def)
    with succs_in_ids [OF d] inv'(1) show "d \<in> placed" by auto
  qed
  have st: "wave_step p st = st\<lparr>ws_remaining := filter (\<lambda>i. i \<notin> set wave) rem,
      ws_waves := ws_waves st @ [wave]\<rparr>"
    using False by (simp add: wave_step_def Let_def wave_def ready_def rem_def)
  have ne: "wave \<noteq> []" using w False unfolding ready_def rem_def by (metis set_empty)
  then obtain i where "i \<in> set wave" "i \<in> set rem" using w sub by (metis hd_in_set subsetD)
  then have "length (filter (\<lambda>i. i \<notin> set wave) rem) < length rem"
    by (intro length_filter_less [of i]) auto
  moreover have "layered (adjacency p) {} (ws_waves st @ [wave])"
    unfolding layered_snoc using inv' ne deps sub w by (auto simp: placed_def)
  moreover have "distinct (concat (ws_waves st @ [wave]))" if "distinct (map ps_id (pl_steps p))"
  proof -
    have "distinct wave" using that by (simp add: wave_def remdups_adj_distinct)
    moreover have "set wave \<inter> placed = {}" using inv'(2) sub w by auto
    ultimately show ?thesis using inv'(4) that by (auto simp: placed_def)
  qed
  moreover have "set (filter (\<lambda>i. i \<notin> set wave) rem) \<union> set (concat (ws_waves st @ [wave])) = plan_ids p"
    "set (filter (\<lambda>i. i \<notin> set wave) rem) \<inter> set (concat (ws_waves st @ [wave])) = {}"
    using inv'(1,2) sub w by (auto simp: placed_def)
  ultimately show ?thesis using more(2) by (simp add: st waves_inv_def rem_def)
qed

lemma wave_loop_ends:
  "\<exists>st. wave_loop p = Some st \<and> waves_inv p st \<and> (ws_remaining st = [] \<or> ws_stuck st)"
proof -
  let ?b = "\<lambda>st. ws_remaining st \<noteq> [] \<and> \<not> ws_stuck st"
  let ?s0 = "\<lparr>ws_remaining = step_ids p, ws_waves = [], ws_stuck = False\<rparr>"
  let ?m = "\<lambda>st. length (ws_remaining st) + (if ws_stuck st then 0 else 1)"
  have init: "waves_inv p ?s0" by (simp add: waves_inv_def)
  have len: "length (ws_remaining (wave_step p st)) \<le> length (ws_remaining st)" for st
    by (simp add: wave_step_def Let_def)
  have "\<exists>t. while_option ?b (wave_step p) ?s0 = Some t"
  proof (rule measure_while_option_Some [where P = "waves_inv p" and f = ?m])
    show "waves_inv p (wave_step p st) \<and> ?m (wave_step p st) < ?m st"
      if "waves_inv p st" "?b st" for st
      using wave_step_inv [of p st] that len [of st] by auto
  qed (rule init)
  then obtain t where t: "wave_loop p = Some t" by (auto simp: wave_loop_def)
  have "waves_inv p t"
    by (rule while_option_rule [where P = "waves_inv p", OF _ t [unfolded wave_loop_def] init])
      (use wave_step_inv in blast)
  moreover have "\<not> ?b t" using while_option_stop [OF t [unfolded wave_loop_def]] .
  ultimately show ?thesis using t by blast
qed

lemma topological_waves_Some:
  assumes "topological_waves p = Some ws"
  shows "layered (adjacency p) {} ws \<and> set (concat ws) = plan_ids p \<and>
    (distinct (map ps_id (pl_steps p)) \<longrightarrow> distinct (concat ws))"
proof -
  obtain st where "wave_loop p = Some st" "waves_inv p st" "ws_remaining st = [] \<or> ws_stuck st"
    using wave_loop_ends by blast
  with assms show ?thesis by (auto simp: topological_waves_def waves_inv_def split: if_splits)
qed

text \<open>When the loop is stuck, every remaining step waits for a remaining step.\<close>

lemma topological_waves_None:
  assumes "topological_waves p = None"
  shows "\<exists>R. R \<noteq> {} \<and> R \<subseteq> plan_ids p \<and> (\<forall>i \<in> R. \<exists>d \<in> R. d \<in> set (succs (adjacency p) i))"
proof -
  obtain st where st: "wave_loop p = Some st" "waves_inv p st" "ws_remaining st = [] \<or> ws_stuck st"
    using wave_loop_ends by blast
  with assms have "ws_stuck st" by (auto simp: topological_waves_def split: if_splits)
  with st(2) have "set (ws_remaining st) \<noteq> {}" "set (ws_remaining st) \<subseteq> plan_ids p"
    "ready_steps (adjacency p) (ws_remaining st) = []" by (auto simp: waves_inv_def)
  then show ?thesis
    by (intro exI [of _ "set (ws_remaining st)"]) (auto simp: ready_steps_def filter_empty_conv)
qed

end
