(* ===== verification/Plan_Cycle.thy ===== *)
theory Plan_Cycle
  imports Plan_Graph
begin

text \<open>
  The depth-first search of \<open>validate.rs\<close> is correct and ends: the grey nodes are the stack, which
  is a path; the black nodes are closed under dependencies, finished in an order that respects
  them. So a reported cycle is one, and if no start finds a cycle the graph has a topological
  order, which the layering loop could not have failed on.
\<close>

fun dep_path :: "(plan_step_id \<rightharpoonup> plan_step_id list) \<Rightarrow> plan_step_id list \<Rightarrow> bool" where
  "dep_path adj [] = True"
| "dep_path adj [x] = True"
| "dep_path adj (x # y # zs) = (y \<in> set (succs adj x) \<and> dep_path adj (y # zs))"

definition is_cycle :: "(plan_step_id \<rightharpoonup> plan_step_id list) \<Rightarrow> plan_step_id list \<Rightarrow> bool" where
  "is_cycle adj c \<longleftrightarrow> 2 \<le> length c \<and> hd c = last c \<and> dep_path adj c"

lemma dep_path_snoc:
  "dep_path adj (xs @ [x]) \<longleftrightarrow> dep_path adj xs \<and> (xs \<noteq> [] \<longrightarrow> x \<in> set (succs adj (last xs)))"
  by (induction adj xs rule: dep_path.induct) auto

lemma dep_path_drop: "dep_path adj xs \<Longrightarrow> dep_path adj (drop n xs)"
proof (induction n arbitrary: xs)
  case (Suc n)
  show ?case
  proof (cases xs)
    case (Cons x ys)
    with Suc.prems have "dep_path adj ys" by (cases ys) auto
    with Suc.IH Cons show ?thesis by simp
  qed simp
qed simp

definition finished_order :: "(plan_step_id \<rightharpoonup> plan_step_id list) \<Rightarrow> plan_step_id list \<Rightarrow> bool" where
  "finished_order adj fin \<longleftrightarrow>
     (\<forall>k < length fin. set (succs adj (fin ! k)) \<subseteq> set (take k fin))"

lemma finished_order_snoc:
  assumes "finished_order adj fin" and "set (succs adj x) \<subseteq> set fin"
  shows "finished_order adj (fin @ [x])"
  unfolding finished_order_def
proof (intro allI impI)
  fix k assume "k < length (fin @ [x])"
  then consider "k < length fin" | "k = length fin" by fastforce
  then show "set (succs adj ((fin @ [x]) ! k)) \<subseteq> set (take k (fin @ [x]))"
    by cases (use assms in \<open>auto simp: finished_order_def nth_append\<close>)
qed

definition dfs_inv ::
  "plan_step_id set \<Rightarrow> (plan_step_id \<rightharpoonup> plan_step_id list) \<Rightarrow> (plan_step_id \<Rightarrow> nat)
     \<Rightarrow> plan_step_id list \<Rightarrow> plan_step_id list \<Rightarrow> bool" where
  "dfs_inv K adj col stack fin \<longleftrightarrow>
     (\<forall>x. col x = (if x \<in> set stack then 1 else if x \<in> set fin then 2 else 0)) \<and>
     distinct stack \<and> set stack \<inter> set fin = {} \<and> dep_path adj stack \<and>
     finished_order adj fin \<and> set stack \<union> set fin \<subseteq> K"

definition whites :: "plan_step_id set \<Rightarrow> plan_step_id list \<Rightarrow> plan_step_id list \<Rightarrow> plan_step_id set" where
  "whites K stack fin = K - set stack - set fin"

lemma dfs_inv_col:
  assumes "dfs_inv K adj col stack fin"
  shows "col x = 1 \<longleftrightarrow> x \<in> set stack" and "col x = 0 \<longleftrightarrow> x \<notin> set stack \<and> x \<notin> set fin"
proof -
  have c: "col x = (if x \<in> set stack then 1 else if x \<in> set fin then 2 else 0)"
    using assms unfolding dfs_inv_def by blast
  then show "col x = 1 \<longleftrightarrow> x \<in> set stack" by simp
  from c show "col x = 0 \<longleftrightarrow> x \<notin> set stack \<and> x \<notin> set fin" by simp
qed

lemma dfs_inv_push:
  assumes "dfs_inv K adj col stack fin" and "node \<in> K" and "col node = 0"
    and "stack \<noteq> [] \<longrightarrow> node \<in> set (succs adj (last stack))"
  shows "dfs_inv K adj (col(node := 1)) (stack @ [node]) fin"
proof -
  have "node \<notin> set stack" "node \<notin> set fin" using dfs_inv_col(2) [OF assms(1)] assms(3) by auto
  with assms show ?thesis by (simp add: dfs_inv_def dep_path_snoc)
qed

lemma dfs_inv_pop:
  assumes "dfs_inv K adj col (stack @ [node]) fin" and "set (succs adj node) \<subseteq> set fin"
  shows "dfs_inv K adj (col(node := 2)) stack (fin @ [node])"
proof -
  have col: "col x = (if x \<in> set (stack @ [node]) then 1 else if x \<in> set fin then 2 else 0)" for x
    using assms(1) unfolding dfs_inv_def by blast
  have other: "distinct (stack @ [node])" "set (stack @ [node]) \<inter> set fin = {}"
    "dep_path adj (stack @ [node])" "finished_order adj fin" "set (stack @ [node]) \<union> set fin \<subseteq> K"
    using assms(1) by (simp_all add: dfs_inv_def)
  have "finished_order adj (fin @ [node])" using other(4) assms(2) by (rule finished_order_snoc)
  moreover have "dep_path adj stack" using other(3) by (simp add: dep_path_snoc)
  ultimately show ?thesis unfolding dfs_inv_def using other col by auto
qed

lemma back_edge_cycle:
  assumes inv: "dfs_inv K adj col stack fin" and ne: "stack \<noteq> []"
    and x: "x \<in> set (succs adj (last stack))" "col x = 1"
  shows "is_cycle adj (drop (case position (\<lambda>s. s = x) stack of None \<Rightarrow> 0 | Some k \<Rightarrow> k) stack @ [x])"
proof -
  have "x \<in> set stack" using dfs_inv_col(1) [OF inv] x(2) by simp
  then obtain k where k: "position (\<lambda>s. s = x) stack = Some k"
    by (cases "position (\<lambda>s. s = x) stack") auto
  then have kx: "k < length stack" "stack ! k = x" by (auto dest: position_Some)
  have "dep_path adj (drop k stack)" using inv by (simp add: dfs_inv_def dep_path_drop)
  moreover have "last (drop k stack) = last stack" "drop k stack \<noteq> []" using kx by auto
  ultimately have "dep_path adj (drop k stack @ [x])" using x(1) by (simp add: dep_path_snoc)
  moreover have "hd (drop k stack @ [x]) = x" using kx by (simp add: hd_drop_conv_nth)
  ultimately show ?thesis using k kx by (simp add: is_cycle_def)
qed

text \<open>What both mutually recursive functions return.\<close>

definition dfs_result ::
  "plan_step_id set \<Rightarrow> (plan_step_id \<rightharpoonup> plan_step_id list) \<Rightarrow> plan_step_id list \<Rightarrow> plan_step_id list
     \<Rightarrow> plan_step_id set
     \<Rightarrow> (plan_step_id list option \<times> (plan_step_id \<Rightarrow> nat) \<times> plan_step_id list) option \<Rightarrow> bool" where
  "dfs_result K adj stack fin goal r \<longleftrightarrow>
     (\<exists>c col stack'. r = Some (Some c, col, stack') \<and> is_cycle adj c) \<or>
     (\<exists>col fin'. r = Some (None, col, stack) \<and> dfs_inv K adj col stack (fin @ fin') \<and>
        goal \<subseteq> set (fin @ fin'))"

lemma dfs_result_extend:
  assumes "dfs_result K adj stack (fin @ fin') goal r" and "x \<in> set (fin @ fin')"
  shows "dfs_result K adj stack fin (insert x goal) r"
proof -
  from assms(1) consider "\<exists>c col stack'. r = Some (Some c, col, stack') \<and> is_cycle adj c"
    | col fin2 where "r = Some (None, col, stack)" "dfs_inv K adj col stack ((fin @ fin') @ fin2)"
      "goal \<subseteq> set ((fin @ fin') @ fin2)"
    unfolding dfs_result_def by blast
  then show ?thesis
  proof cases
    case 1
    then show ?thesis unfolding dfs_result_def by blast
  next
    case (2 col fin2)
    then have "dfs_inv K adj col stack (fin @ (fin' @ fin2))" "insert x goal \<subseteq> set (fin @ (fin' @ fin2))"
      using assms(2) by auto
    with 2(1) show ?thesis unfolding dfs_result_def by blast
  qed
qed

lemma dfs_correct:
  assumes K: "finite K" "\<And>i. i \<in> K \<Longrightarrow> set (succs adj i) \<subseteq> K"
  shows "dfs_inv K adj col stack fin \<Longrightarrow> node \<in> K \<Longrightarrow> col node = 0 \<Longrightarrow>
      (stack \<noteq> [] \<longrightarrow> node \<in> set (succs adj (last stack))) \<Longrightarrow> card (whites K stack fin) \<le> n \<Longrightarrow>
      dfs_result K adj stack fin {node} (dfs_cycle n node adj col stack)"
    and "dfs_inv K adj col stack fin \<Longrightarrow> stack \<noteq> [] \<Longrightarrow> set xs \<subseteq> set (succs adj (last stack)) \<Longrightarrow>
      card (whites K stack fin) \<le> n \<Longrightarrow>
      dfs_result K adj stack fin (set xs) (dfs_each n xs adj col stack)"
  using K(2)
proof (induction n node adj col stack and n xs adj col stack arbitrary: fin and fin
    rule: dfs_cycle_dfs_each.induct)
  case (1 node adj col stack)
  then have "node \<in> whites K stack fin" using dfs_inv_col(2) [OF 1(1)] by (simp add: whites_def)
  then have "0 < card (whites K stack fin)" using K(1) by (auto simp: card_gt_0_iff whites_def)
  with 1 show ?case by simp
next
  case (2 n node adj col stack)
  let ?col = "col(node := 1)" and ?st = "stack @ [node]"
  have push: "dfs_inv K adj ?col ?st fin" using 2(2-5) by (rule dfs_inv_push)
  have "node \<in> whites K stack fin" using 2(3,4) dfs_inv_col(2) [OF 2(2)] by (simp add: whites_def)
  moreover have "whites K ?st fin = whites K stack fin - {node}" by (auto simp: whites_def)
  moreover have "finite (whites K stack fin)" using K(1) by (simp add: whites_def)
  ultimately have "card (whites K ?st fin) \<le> n" using 2(6) by simp
  then have "dfs_result K adj ?st fin (set (succs adj node)) (dfs_each n (succs adj node) adj ?col ?st)"
    using 2(7) by (intro 2(1) [OF push]) (simp_all del: fun_upd_apply)
  then consider c col' st' where "dfs_each n (succs adj node) adj ?col ?st = Some (Some c, col', st')"
      "is_cycle adj c"
    | col' fin' where "dfs_each n (succs adj node) adj ?col ?st = Some (None, col', ?st)"
      "dfs_inv K adj col' ?st (fin @ fin')" "set (succs adj node) \<subseteq> set (fin @ fin')"
    unfolding dfs_result_def by blast
  then show ?case
  proof cases
    case 1
    then show ?thesis by (simp add: dfs_result_def)
  next
    case (2 col' fin')
    have "dfs_inv K adj (col'(node := 2)) stack (fin @ (fin' @ [node]))"
      using dfs_inv_pop [OF 2(2,3)] by simp
    with 2(1) show ?thesis
      unfolding dfs_result_def by (intro disjI2 exI [of _ "col'(node := 2)"] exI [of _ "fin' @ [node]"]) simp
  qed
next
  case (3 n adj col stack)
  then show ?case by (auto simp: dfs_result_def intro: exI [of _ "[]"])
next
  case (4 n x xs adj col stack)
  have x: "x \<in> set (succs adj (last stack))" using 4(6) by simp
  have xK: "x \<in> K"
  proof -
    have "last stack \<in> K" using 4(4,5) by (auto simp: dfs_inv_def)
    with 4(8) x show ?thesis by blast
  qed
  consider "col x = 1" | "col x = 0" | "col x \<noteq> 0" "col x \<noteq> 1" by blast
  then show ?case
  proof cases
    case 1
    with back_edge_cycle [OF 4(4,5) x] show ?thesis by (simp add: dfs_result_def Let_def)
  next
    case 2
    have "dfs_result K adj stack fin {x} (dfs_cycle n x adj col stack)"
      using 2 4(4-8) x xK by (intro 4(1)) auto
    then consider c col' st' where "dfs_cycle n x adj col stack = Some (Some c, col', st')" "is_cycle adj c"
      | col' fin' where "dfs_cycle n x adj col stack = Some (None, col', stack)"
        "dfs_inv K adj col' stack (fin @ fin')" "x \<in> set (fin @ fin')"
      unfolding dfs_result_def by blast
    then show ?thesis
    proof cases
      case 1
      with 2 show ?thesis by (simp add: dfs_result_def)
    next
      case inner: (2 col' fin')
      have "card (whites K stack (fin @ fin')) \<le> card (whites K stack fin)"
        using K(1) by (intro card_mono) (auto simp: whites_def)
      then have "dfs_result K adj stack (fin @ fin') (set xs) (dfs_each n xs adj col' stack)"
        using 2 inner 4(5-8) by (intro 4(2)) auto
      from dfs_result_extend [OF this inner(3)] show ?thesis using 2 inner(1) by simp
    qed
  next
    case 3
    then have x: "x \<in> set (fin @ [])" using dfs_inv_col [OF 4(4)] by simp
    have "dfs_result K adj stack (fin @ []) (set xs) (dfs_each n xs adj col stack)"
      unfolding append_Nil2 using 4(6) by (intro 4(3) [OF 3(2,1) 4(4,5) _ 4(7,8)]) auto
    from dfs_result_extend [OF this x] show ?thesis using 3 by simp
  qed
qed

section \<open>The search over all starts\<close>

lemma dfs_from_correct:
  assumes K: "finite K" "\<And>i. i \<in> K \<Longrightarrow> set (succs adj i) \<subseteq> K"
    and "dfs_inv K adj col [] fin" and "set ss \<subseteq> K" and "card K \<le> n"
  shows "\<exists>res. dfs_from n ss adj col [] = Some res \<and>
    (case res of
       Some c \<Rightarrow> is_cycle adj c
     | None \<Rightarrow> \<exists>fin'. finished_order adj (fin @ fin') \<and> set ss \<subseteq> set (fin @ fin'))"
  using assms(3,4)
proof (induction ss arbitrary: col fin)
  case Nil
  then show ?case by (auto simp: dfs_inv_def intro: exI [of _ "[]"])
next
  case (Cons s ss)
  show ?case
  proof (cases "col s = 0")
    case False
    then have "s \<in> set fin" using dfs_inv_col(2) [OF Cons.prems(1)] by simp
    moreover have "set ss \<subseteq> K" using Cons.prems(2) by simp
    from Cons.IH [OF Cons.prems(1) this] obtain res where "dfs_from n ss adj col [] = Some res"
      "case res of Some c \<Rightarrow> is_cycle adj c
       | None \<Rightarrow> \<exists>fin'. finished_order adj (fin @ fin') \<and> set ss \<subseteq> set (fin @ fin')" by blast
    ultimately show ?thesis using False by (auto split: option.splits)
  next
    case True
    have "card (whites K [] fin) \<le> n"
      using card_mono [OF K(1), of "whites K [] fin"] assms(5) by (auto simp: whites_def)
    then have "dfs_result K adj [] fin {s} (dfs_cycle n s adj col [])"
      using Cons.prems True by (intro dfs_correct(1) [OF K]) auto
    then consider c col' st' where "dfs_cycle n s adj col [] = Some (Some c, col', st')" "is_cycle adj c"
      | col' fin1 where "dfs_cycle n s adj col [] = Some (None, col', [])"
        "dfs_inv K adj col' [] (fin @ fin1)" "s \<in> set (fin @ fin1)"
      unfolding dfs_result_def by blast
    then show ?thesis
    proof cases
      case 1
      with True show ?thesis by simp
    next
      case (2 col' fin1)
      have "set ss \<subseteq> K" using Cons.prems(2) by simp
      from Cons.IH [OF 2(2) this] obtain res where res: "dfs_from n ss adj col' [] = Some res"
        "case res of Some c \<Rightarrow> is_cycle adj c
         | None \<Rightarrow> \<exists>fin'. finished_order adj ((fin @ fin1) @ fin') \<and> set ss \<subseteq> set ((fin @ fin1) @ fin')"
        by blast
      show ?thesis
      proof (cases res)
        case None
        with res obtain fin' where "finished_order adj (fin @ (fin1 @ fin'))"
          "set ss \<subseteq> set (fin @ (fin1 @ fin'))" by auto
        with None res(1) 2 True show ?thesis
          by (intro exI [of _ None]) (auto intro!: exI [of _ "fin1 @ fin'"])
      qed (use res 2 True in auto)
    qed
  qed
qed

lemma finished_order_no_stuck:
  assumes "finished_order adj fin" and "R \<subseteq> set fin" and "R \<noteq> {}"
  shows "\<exists>i \<in> R. \<forall>d \<in> R. d \<notin> set (succs adj i)"
proof -
  let ?P = "\<lambda>k. k < length fin \<and> fin ! k \<in> R"
  obtain k where k: "?P k" using assms(2,3) by (metis equals0I in_set_conv_nth subsetD)
  define m where "m = (LEAST k. ?P k)"
  have m: "?P m" unfolding m_def using k by (rule LeastI)
  have least: "\<not> ?P j" if "j < m" for j using that not_less_Least unfolding m_def by blast
  have "d \<notin> set (succs adj (fin ! m))" if "d \<in> R" for d
  proof
    assume "d \<in> set (succs adj (fin ! m))"
    then have "d \<in> set (take m fin)" using assms(1) m by (auto simp: finished_order_def)
    then obtain j where "j < m" "j < length fin" "fin ! j = d" by (auto simp: in_set_conv_nth)
    with least that show False by blast
  qed
  with m show ?thesis by blast
qed

lemma layered_level:
  assumes "layered adj {} ws" and "i \<in> set (concat ws)" and "d \<in> set (succs adj i)"
  shows "(LEAST k. k < length ws \<and> d \<in> set (ws ! k)) < (LEAST k. k < length ws \<and> i \<in> set (ws ! k))"
proof -
  let ?k = "LEAST k. k < length ws \<and> i \<in> set (ws ! k)"
  have "\<exists>w \<in> set ws. i \<in> set w" using assms(2) by auto
  then have "\<exists>k. k < length ws \<and> i \<in> set (ws ! k)" by (metis in_set_conv_nth)
  then have k: "?k < length ws \<and> i \<in> set (ws ! ?k)" by (rule LeastI_ex)
  then have "d \<in> set (concat (take ?k ws))" using layered_nth [OF assms(1)] assms(3) by fastforce
  then obtain w where w: "w \<in> set (take ?k ws)" "d \<in> set w" by auto
  from w(1) obtain j where "j < length (take ?k ws)" "take ?k ws ! j = w"
    unfolding in_set_conv_nth by blast
  with w(2) have "j < ?k" "j < length ws" "d \<in> set (ws ! j)" by auto
  then have "(LEAST k. k < length ws \<and> d \<in> set (ws ! k)) \<le> j" by (intro Least_le) simp
  with \<open>j < ?k\<close> show ?thesis by simp
qed

lemma waves_acyclic:
  assumes "topological_waves p = Some ws"
  shows "\<not> is_cycle (adjacency p) c"
proof
  assume cyc: "is_cycle (adjacency p) c"
  let ?f = "\<lambda>i. LEAST k. k < length ws \<and> i \<in> set (ws ! k)"
  have lay: "layered (adjacency p) {} ws" "set (concat ws) = plan_ids p"
    using topological_waves_Some [OF assms] by auto
  have step: "?f d < ?f i" if "d \<in> set (succs (adjacency p) i)" for d i
  proof -
    have "adjacency p i \<noteq> None" using that by (cases "adjacency p i") (simp_all add: succs_def)
    then have "i \<in> set (concat ws)" using lay(2) adjacency_dom [of p i] by simp
    with layered_level [OF lay(1)] that show ?thesis by blast
  qed
  have dec: "ys \<noteq> [] \<Longrightarrow> ?f (last ys) < ?f x" if "dep_path (adjacency p) (x # ys)" for x ys
    using that
  proof (induction ys arbitrary: x)
    case (Cons y ys)
    then show ?case using step [of y x] by (cases "ys = []") (fastforce dest: Cons.IH)+
  qed simp
  from cyc obtain x ys where "c = x # ys" "ys \<noteq> []" "x = last ys" "dep_path (adjacency p) (x # ys)"
    by (cases c) (auto simp: is_cycle_def split: if_splits)
  with dec [of x ys] show False by simp
qed

lemma find_cycle_agrees:
  assumes "card (plan_ids p) \<le> n"
  shows "\<exists>res. find_cycle n p = Some res \<and> (res = None \<longleftrightarrow> topological_waves p \<noteq> None) \<and>
    (\<forall>c. res = Some c \<longrightarrow> is_cycle (adjacency p) c) \<and>
    (res = None \<longleftrightarrow> (\<forall>c. \<not> is_cycle (adjacency p) c))"
proof (cases "topological_waves p")
  case (Some ws)
  with waves_acyclic [OF Some] show ?thesis by (simp add: find_cycle_def)
next
  case None
  have closed: "set (succs (adjacency p) i) \<subseteq> plan_ids p" for i using succs_in_ids by blast
  have inv: "dfs_inv (plan_ids p) (adjacency p) (\<lambda>_. 0) [] []"
    by (simp add: dfs_inv_def finished_order_def)
  obtain res where res: "dfs_from n (step_ids p) (adjacency p) (\<lambda>_. 0) [] = Some res"
    "case res of Some c \<Rightarrow> is_cycle (adjacency p) c
     | None \<Rightarrow> \<exists>fin'. finished_order (adjacency p) ([] @ fin') \<and> set (step_ids p) \<subseteq> set ([] @ fin')"
    using dfs_from_correct [OF _ closed inv, of "step_ids p" n] assms by auto
  have "res \<noteq> None"
  proof
    assume "res = None"
    with res obtain fin' where f: "finished_order (adjacency p) fin'" "plan_ids p \<subseteq> set fin'" by auto
    obtain R where "R \<noteq> {}" "R \<subseteq> plan_ids p" "\<forall>i \<in> R. \<exists>d \<in> R. d \<in> set (succs (adjacency p) i)"
      using topological_waves_None [OF None] by blast
    with finished_order_no_stuck [OF f(1), of R] f(2) show False by blast
  qed
  with None res show ?thesis by (auto simp: find_cycle_def)
qed

text \<open>C28: The two cycle algorithms agree and the search ends. With fuel for as many steps as the
  plan has ids, \<open>find_cycle\<close> always returns; it returns a cycle exactly when the layering loop
  gives up, the list it returns is a real dependency cycle (each step depends on the next, the last
  is the first), and a plan that layers has none. So \<open>validate\<close> never reaches its \<open>expect\<close> without
  waves.\<close>

theorem find_cycle_correct:
  assumes "card (plan_ids p) \<le> n"
  shows "\<exists>res. find_cycle n p = Some res \<and> (res = None \<longleftrightarrow> topological_waves p \<noteq> None) \<and>
    (\<forall>c. res = Some c \<longrightarrow> is_cycle (adjacency p) c) \<and>
    (res = None \<longleftrightarrow> (\<forall>c. \<not> is_cycle (adjacency p) c))"
  using assms by (rule find_cycle_agrees)

definition sample_step :: "string \<Rightarrow> string list \<Rightarrow> plan_step" where
  "sample_step i deps = \<lparr>ps_id = PlanStepId i, ps_intent = ''do'', ps_targets = [],
     ps_depends = map PlanStepId deps, ps_parallel = True, ps_checkpoint = False,
     ps_verification = VerifyNone, ps_rollback = False, ps_approval = False,
     ps_scope = \<lparr>es_files = 0, es_risk = RiskLow\<rparr>\<rparr>"

definition sample_cyclic :: plan where
  "sample_cyclic = \<lparr>pl_scope = [], pl_steps = [sample_step ''a'' [''b''], sample_step ''b'' [''a'']]\<rparr>"

definition sample_plan :: plan where
  "sample_plan = \<lparr>pl_scope = [], pl_steps = [sample_step ''c'' [''a'', ''b''], sample_step ''b'' [],
     sample_step ''a'' []]\<rparr>"

lemma sample_waves:
  "topological_waves sample_plan =
     Some [[PlanStepId ''b'', PlanStepId ''a''], [PlanStepId ''c'']]"
  "topological_waves sample_cyclic = None"
  by code_simp+

theorem find_cycle_correct_witness:
  "\<exists>c. find_cycle 2 sample_cyclic = Some (Some c) \<and> is_cycle (adjacency sample_cyclic) c"
proof -
  have "card (plan_ids sample_cyclic) \<le> 2"
    by (simp add: sample_cyclic_def sample_step_def)
  from find_cycle_correct [OF this] sample_waves(2) show ?thesis by auto
qed

end
