(* ===== verification/Plan_Validate.thy ===== *)
theory Plan_Validate
  imports Plan_Cycle
begin

text \<open>
  Plan validation and scheduling (\<open>crates/valyria-plan/src/validate.rs\<close>, \<open>schedule.rs\<close>) and the
  bounded repair of rejected plans (\<open>repair.rs\<close>). Resolving a path under the workspace root is the
  file system's: the context carries it as the function \<open>pc_resolve\<close> from a path to the components
  of the resolved one. \<open>validate\<close> is \<open>None\<close> where the code would panic on its \<open>expect\<close>.
\<close>

section \<open>Errors\<close>

datatype plan_error_code =
    EmptyPlan | NotSubmitted | Malformed | DuplicateStepId | UnknownDependency | CyclicDependency
  | MutatingStepWithoutVerification | RollbackBoundaryWithoutCheckpoint | TargetOutsidePlanScope
  | TargetUnresolvable | PlanScopeOutsideProfile

fun plan_code_str :: "plan_error_code \<Rightarrow> string" where
  "plan_code_str EmptyPlan = ''empty_plan''"
| "plan_code_str NotSubmitted = ''plan_not_submitted''"
| "plan_code_str Malformed = ''plan_malformed''"
| "plan_code_str DuplicateStepId = ''duplicate_step_id''"
| "plan_code_str UnknownDependency = ''unknown_dependency''"
| "plan_code_str CyclicDependency = ''cyclic_dependency''"
| "plan_code_str MutatingStepWithoutVerification = ''mutating_step_without_verification''"
| "plan_code_str RollbackBoundaryWithoutCheckpoint = ''rollback_boundary_without_checkpoint''"
| "plan_code_str TargetOutsidePlanScope = ''target_outside_plan_scope''"
| "plan_code_str TargetUnresolvable = ''target_unresolvable''"
| "plan_code_str PlanScopeOutsideProfile = ''plan_scope_outside_profile''"

record plan_error =
  pe_code :: plan_error_code
  pe_step :: "plan_step_id option"
  pe_message :: string
  pe_hint :: string

definition step_error ::
  "plan_error_code \<Rightarrow> plan_step \<Rightarrow> string \<Rightarrow> string \<Rightarrow> plan_error" where
  "step_error c s msg hint =
     \<lparr>pe_code = c, pe_step = Some (ps_id s), pe_message = msg, pe_hint = hint\<rparr>"

definition plan_wide_error :: "plan_error_code \<Rightarrow> string \<Rightarrow> string \<Rightarrow> plan_error" where
  "plan_wide_error c msg hint = \<lparr>pe_code = c, pe_step = None, pe_message = msg, pe_hint = hint\<rparr>"

definition ticked_step :: "plan_step \<Rightarrow> string" where
  "ticked_step s = ticked (step_text (ps_id s))"

record plan_context =
  pc_resolve :: "string \<Rightarrow> string list option"
  pc_mode :: permission_mode
  pc_roots :: "string list list"

record validated_plan =
  vp_plan :: plan
  vp_waves :: "plan_step_id list list"

section \<open>The checks\<close>

fun duplicate_errors :: "plan_step_id set \<Rightarrow> plan_step list \<Rightarrow> plan_error list" where
  "duplicate_errors seen [] = []"
| "duplicate_errors seen (s # ss) =
     (if ps_id s \<in> seen
      then step_error DuplicateStepId s (''step id '' @ ticked_step s @ '' is used more than once'')
        ''give every step a unique id'' # duplicate_errors seen ss
      else duplicate_errors (insert (ps_id s) seen) ss)"

definition dependency_errors :: "plan \<Rightarrow> plan_error list" where
  "dependency_errors p = concat (map (\<lambda>s.
     map (\<lambda>d. step_error UnknownDependency s
         (''step '' @ ticked_step s @ '' depends on unknown step '' @ ticked (step_text d))
         ''every `depends_on` entry must name another step's id'')
       (filter (\<lambda>d. d \<notin> set (step_ids p)) (ps_depends s))) (pl_steps p))"

definition cycle_errors :: "plan_step_id list option \<Rightarrow> plan_error list" where
  "cycle_errors c = (case c of
     None \<Rightarrow> []
   | Some c \<Rightarrow> [\<lparr>pe_code = CyclicDependency,
       pe_step = (case c of [] \<Rightarrow> None | x # _ \<Rightarrow> Some x),
       pe_message = ''dependency cycle: '' @ join '' -> '' (map step_text c),
       pe_hint = ''break the cycle '' @ em_dash @ '' a plan must be a DAG''\<rparr>])"

definition mutation_errors :: "plan \<Rightarrow> plan_error list" where
  "mutation_errors p = concat (map (\<lambda>s.
     (if is_mutating s \<and> ps_verification s = VerifyNone
      then [step_error MutatingStepWithoutVerification s
        (''step '' @ ticked_step s @ '' changes files but has no verification'')
        ''set `verification` to `inherit` or a concrete command on every step that has `targets`'']
      else []) @
     (if ps_rollback s \<and> \<not> ps_checkpoint s
      then [step_error RollbackBoundaryWithoutCheckpoint s
        (''step '' @ ticked_step s @ '' is a rollback boundary but takes no checkpoint'')
        ''a rollback boundary needs `checkpoint: true` so there is a state to roll back to'']
      else [])) (pl_steps p))"

definition path_starts_with :: "string list \<Rightarrow> string list \<Rightarrow> bool" where
  "path_starts_with path root \<longleftrightarrow> take (length root) path = root"

definition scope_entry_errors :: "plan_context \<Rightarrow> string \<Rightarrow> plan_error list" where
  "scope_entry_errors cx raw =
     (case pc_resolve cx (trim_end CHR ''/'' raw) of
        Some path \<Rightarrow>
          if pc_roots cx = [] \<or> (\<exists>r \<in> set (pc_roots cx). path_starts_with path r) then []
          else [plan_wide_error PlanScopeOutsideProfile
            (''plan_scope entry '' @ ticked raw @ '' is outside the permitted write roots'')
            ''narrow plan_scope to paths the permission profile allows writing'']
      | None \<Rightarrow> [plan_wide_error PlanScopeOutsideProfile
            (''plan_scope entry '' @ ticked raw @ '' does not resolve inside the workspace'')
            ''plan_scope entries are workspace-relative path prefixes''])"

definition scope_prefixes :: "plan \<Rightarrow> string list" where
  "scope_prefixes p = map (\<lambda>s. let t = trim_end CHR ''/'' s in if t = [] then [] else t @ ''/'')
     (pl_scope p)"

definition in_scope :: "string \<Rightarrow> string list \<Rightarrow> bool" where
  "in_scope target prefixes =
     (let t = replace_char (char_of (92 :: nat)) CHR ''/'' target
      in \<exists>p \<in> set prefixes. p = [] \<or> t = trim_end CHR ''/'' p \<or> starts_with p t)"

definition target_error :: "plan_context \<Rightarrow> plan \<Rightarrow> plan_step \<Rightarrow> string \<Rightarrow> plan_error list" where
  "target_error cx p s t =
     (if pc_resolve cx t = None
      then [step_error TargetUnresolvable s
        (''target '' @ ticked t @ '' in step '' @ ticked_step s
          @ '' does not resolve safely under the workspace root'')
        ''targets are workspace-relative paths and may not escape the root'']
      else if scope_prefixes p \<noteq> [] \<and> \<not> in_scope t (scope_prefixes p)
      then [step_error TargetOutsidePlanScope s
        (''target '' @ ticked t @ '' in step '' @ ticked_step s @ '' is outside plan_scope'')
        ''either add the target's directory to plan_scope or drop the target'']
      else [])"

definition target_errors :: "plan_context \<Rightarrow> plan \<Rightarrow> plan_error list" where
  "target_errors cx p =
     concat (map (\<lambda>s. concat (map (target_error cx p s) (ps_targets s))) (pl_steps p))"

definition validate_scope :: "plan_context \<Rightarrow> plan \<Rightarrow> plan_error list" where
  "validate_scope cx p =
     concat (map (scope_entry_errors cx) (pl_scope p)) @
     (if pc_mode cx = Manual \<and> pl_scope p \<noteq> []
      then [plan_wide_error PlanScopeOutsideProfile
        ''plan_scope is not honoured in Manual permission mode''
        ''leave plan_scope empty in Manual mode; each write is approved individually'']
      else []) @
     target_errors cx p"

section \<open>Validation\<close>

definition validate_plan ::
  "plan_context \<Rightarrow> plan \<Rightarrow> (plan_error list + validated_plan) option" where
  "validate_plan cx p =
     (if pl_steps p = []
      then Some (Inl [plan_wide_error EmptyPlan ''the plan has no steps''
        ''produce at least one step, even for a trivial task''])
      else (case find_cycle (length (pl_steps p)) p of
        None \<Rightarrow> None
      | Some c \<Rightarrow>
          let errors = duplicate_errors {} (pl_steps p) @ dependency_errors p @ cycle_errors c @
                mutation_errors p @ validate_scope cx p
          in if errors = []
             then map_option (\<lambda>ws. Inr \<lparr>vp_plan = p, vp_waves = ws\<rparr>) (topological_waves p)
             else Some (Inl errors)))"

section \<open>Scheduling\<close>

record schedule =
  sc_plan :: plan
  sc_waves :: "plan_step_id list list list"
  sc_order :: "plan_step_id list"

definition is_parallel :: "plan \<Rightarrow> plan_step_id \<Rightarrow> bool" where
  "is_parallel p i = (case plan_find p i of None \<Rightarrow> False | Some s \<Rightarrow> ps_parallel s)"

definition wave_groups :: "plan \<Rightarrow> plan_step_id list \<Rightarrow> plan_step_id list list" where
  "wave_groups p w =
     (let bucket = filter (is_parallel p) w
      in map (\<lambda>i. [i]) (filter (\<lambda>i. \<not> is_parallel p i) w) @ (if bucket = [] then [] else [bucket]))"

definition make_schedule :: "validated_plan \<Rightarrow> schedule" where
  "make_schedule v = \<lparr>sc_plan = vp_plan v, sc_waves = map (wave_groups (vp_plan v)) (vp_waves v),
     sc_order = concat (vp_waves v)\<rparr>"

definition next_incomplete :: "schedule \<Rightarrow> plan_step_id set \<Rightarrow> plan_step option" where
  "next_incomplete sc fin =
     Option.bind (find (\<lambda>i. i \<notin> fin) (sc_order sc)) (plan_find (sc_plan sc))"

definition remaining :: "schedule \<Rightarrow> plan_step_id set \<Rightarrow> nat" where
  "remaining sc fin = length (filter (\<lambda>i. i \<notin> fin) (sc_order sc))"

definition group_for :: "schedule \<Rightarrow> plan_step_id \<Rightarrow> plan_step_id list option" where
  "group_for sc i = find (\<lambda>g. i \<in> set g) (concat (sc_waves sc))"

section \<open>Bounded repair\<close>

record repair_attempt =
  at_number :: u32
  at_codes :: "string list"

datatype plan_repair_decision = PlanRetry string | PlanGiveUp string

record plan_repair_ledger =
  rl_attempts :: "repair_attempt list"
  rl_max :: u32

definition new_plan_ledger :: "u32 \<Rightarrow> plan_repair_ledger" where
  "new_plan_ledger n = \<lparr>rl_attempts = [], rl_max = n\<rparr>"

definition resumed_plan_ledger :: "u32 \<Rightarrow> u32 \<Rightarrow> plan_repair_ledger" where
  "resumed_plan_ledger n prior = \<lparr>rl_attempts = map (\<lambda>k. \<lparr>at_number = of_nat k,
     at_codes = [''(from a prior run)'']\<rparr>) [1..<Suc (unat prior)], rl_max = n\<rparr>"

definition summarize_codes :: "plan_error list \<Rightarrow> string" where
  "summarize_codes es = join '', '' (remdups_adj (sort (map (plan_code_str \<circ> pe_code) es)))"

definition render_feedback :: "plan_error list \<Rightarrow> string" where
  "render_feedback es = ''The plan was rejected. Fix every item and resubmit:'' @ [CHR 0x0A] @
     concat (map (\<lambda>e. ''- ['' @ plan_code_str (pe_code e) @ '']'' @
       (case pe_step e of None \<Rightarrow> [] | Some s \<Rightarrow> '' (step '' @ ticked (step_text s) @ '')'') @
       '' '' @ pe_message e @ '' '' @ em_dash @ '' '' @ pe_hint e @ [CHR 0x0A]) es)"

definition plan_record_and_decide ::
  "plan_error list \<Rightarrow> plan_repair_ledger \<Rightarrow> plan_repair_decision \<times> plan_repair_ledger" where
  "plan_record_and_decide es l =
     (let attempt = of_nat (length (rl_attempts l)) + 1 :: u32;
          l' = l\<lparr>rl_attempts := rl_attempts l @
            [\<lparr>at_number = attempt, at_codes = map (plan_code_str \<circ> pe_code) es\<rparr>]\<rparr>
      in (if rl_max l \<le> attempt
          then PlanGiveUp (''plan still invalid after '' @ show_nat (unat attempt) @ '' attempts (''
            @ summarize_codes es @ '')'')
          else PlanRetry (render_feedback es), l'))"

end
