(* ===== verification/Plan_Correct.thy ===== *)
theory Plan_Correct
  imports Plan_Validate "HOL-Library.Multiset"
begin

text \<open>
  What validation accepts (\<open>plan_valid\<close> is the specification the error list implements), what the
  schedule of an accepted plan guarantees, and when plan repair stops.
\<close>

section \<open>Validation implements its specification\<close>

definition target_ok :: "plan_context \<Rightarrow> plan \<Rightarrow> string \<Rightarrow> bool" where
  "target_ok cx p t \<longleftrightarrow> pc_resolve cx t \<noteq> None \<and>
     (pl_scope p \<noteq> [] \<longrightarrow> in_scope t (scope_prefixes p))"

definition scope_entry_ok :: "plan_context \<Rightarrow> string \<Rightarrow> bool" where
  "scope_entry_ok cx raw \<longleftrightarrow> (\<exists>path. pc_resolve cx (trim_end CHR ''/'' raw) = Some path \<and>
     (pc_roots cx = [] \<or> (\<exists>r \<in> set (pc_roots cx). path_starts_with path r)))"

definition plan_valid :: "plan_context \<Rightarrow> plan \<Rightarrow> bool" where
  "plan_valid cx p \<longleftrightarrow>
     pl_steps p \<noteq> [] \<and>
     distinct (map ps_id (pl_steps p)) \<and>
     (\<forall>s \<in> set (pl_steps p). set (ps_depends s) \<subseteq> plan_ids p) \<and>
     (\<forall>c. \<not> is_cycle (adjacency p) c) \<and>
     (\<forall>s \<in> set (pl_steps p). ps_targets s \<noteq> [] \<longrightarrow> ps_verification s \<noteq> VerifyNone) \<and>
     (\<forall>s \<in> set (pl_steps p). ps_rollback s \<longrightarrow> ps_checkpoint s) \<and>
     (\<forall>raw \<in> set (pl_scope p). scope_entry_ok cx raw) \<and>
     (pc_mode cx = Manual \<longrightarrow> pl_scope p = []) \<and>
     (\<forall>s \<in> set (pl_steps p). \<forall>t \<in> set (ps_targets s). target_ok cx p t)"

lemma duplicate_errors_Nil:
  "duplicate_errors seen ss = [] \<longleftrightarrow> distinct (map ps_id ss) \<and> ps_id ` set ss \<inter> seen = {}"
  by (induction seen ss rule: duplicate_errors.induct) auto

lemma dependency_errors_Nil:
  "dependency_errors p = [] \<longleftrightarrow> (\<forall>s \<in> set (pl_steps p). set (ps_depends s) \<subseteq> plan_ids p)"
  by (auto simp: dependency_errors_def filter_empty_conv)

lemma mutation_errors_Nil:
  "mutation_errors p = [] \<longleftrightarrow>
     (\<forall>s \<in> set (pl_steps p). (ps_targets s \<noteq> [] \<longrightarrow> ps_verification s \<noteq> VerifyNone) \<and>
        (ps_rollback s \<longrightarrow> ps_checkpoint s))"
  by (auto simp: mutation_errors_def is_mutating_def)

lemma scope_entry_errors_Nil: "scope_entry_errors cx raw = [] \<longleftrightarrow> scope_entry_ok cx raw"
  by (auto simp: scope_entry_errors_def scope_entry_ok_def split: option.splits)

lemma target_error_Nil: "target_error cx p s t = [] \<longleftrightarrow> target_ok cx p t"
  by (auto simp: target_error_def target_ok_def scope_prefixes_def)

lemma target_errors_Nil:
  "target_errors cx p = [] \<longleftrightarrow>
     (\<forall>s \<in> set (pl_steps p). \<forall>t \<in> set (ps_targets s). target_ok cx p t)"
  by (simp add: target_errors_def target_error_Nil)

lemma cycle_errors_Nil: "cycle_errors c = [] \<longleftrightarrow> c = None"
  by (simp add: cycle_errors_def split: option.splits)

lemmas errors_Nil = duplicate_errors_Nil dependency_errors_Nil mutation_errors_Nil
  scope_entry_errors_Nil target_errors_Nil cycle_errors_Nil

lemma enough_fuel: "card (plan_ids p) \<le> length (pl_steps p)"
  by (metis card_length length_map set_map)

lemma validate_decides:
  "\<exists>res. validate_plan cx p = Some res \<and>
    (case res of
       Inr v \<Rightarrow> plan_valid cx p \<and> vp_plan v = p \<and> topological_waves p = Some (vp_waves v)
     | Inl es \<Rightarrow> \<not> plan_valid cx p \<and> es \<noteq> [])"
proof (cases "pl_steps p = []")
  case True
  then show ?thesis by (simp add: validate_plan_def plan_valid_def)
next
  case False
  obtain c where c: "find_cycle (length (pl_steps p)) p = Some c"
    "c = None \<longleftrightarrow> topological_waves p \<noteq> None" "c = None \<longleftrightarrow> (\<forall>c. \<not> is_cycle (adjacency p) c)"
    using find_cycle_agrees [OF enough_fuel] by metis
  let ?errors = "duplicate_errors {} (pl_steps p) @ dependency_errors p @ cycle_errors c @
    mutation_errors p @ validate_scope cx p"
  have "?errors = [] \<longleftrightarrow> plan_valid cx p"
    using False c(3) by (auto simp: errors_Nil validate_scope_def plan_valid_def)
  moreover have "plan_valid cx p \<Longrightarrow> topological_waves p \<noteq> None"
    using c by (auto simp: plan_valid_def)
  ultimately show ?thesis
    using False c(1) by (auto simp: validate_plan_def Let_def)
qed

text \<open>C27: \<open>validate\<close> decides plan validity and cannot panic. It always returns; it accepts a plan
  exactly when the plan is not empty, its ids are unique, its dependencies exist and are acyclic,
  every step with targets is verified, every rollback boundary takes a checkpoint, the scope lies
  in the permitted roots (and is empty in \<open>Manual\<close> mode) and every target resolves inside the
  scope; what it returns carries the plan and its waves. Otherwise the error list is not empty.\<close>

theorem validate_exact:
  "\<exists>res. validate_plan cx p = Some res \<and>
    (case res of
       Inr v \<Rightarrow> plan_valid cx p \<and> vp_plan v = p \<and> topological_waves p = Some (vp_waves v)
     | Inl es \<Rightarrow> \<not> plan_valid cx p \<and> es \<noteq> [])"
  by (rule validate_decides)

section \<open>The schedule\<close>

lemma distinct_split_unique:
  assumes "us @ i # vs = us' @ i # vs'" and "distinct (us @ i # vs)"
  shows "us = us'"
proof -
  have t: "distinct (as @ i # bs) \<Longrightarrow> takeWhile (\<lambda>x. x \<noteq> i) (as @ i # bs) = as" for as bs
    by (induction as) auto
  from t [OF assms(2)] t [of us' vs'] assms show ?thesis by metis
qed

lemma in_concat_before:
  assumes "distinct (concat ws)" and "k < length ws" and "i \<in> set (ws ! k)"
    and "concat ws = us @ i # vs"
  shows "set (concat (take k ws)) \<subseteq> set us"
proof
  fix d assume d: "d \<in> set (concat (take k ws))"
  have split: "concat ws = concat (take k ws) @ ws ! k @ concat (drop (Suc k) ws)"
    using id_take_nth_drop [OF assms(2)] by (metis concat.simps(2) concat_append)
  obtain xs ys where xy: "ws ! k = xs @ i # ys" using assms(3) by (meson split_list)
  have "concat ws = (concat (take k ws) @ xs) @ i # (ys @ concat (drop (Suc k) ws))"
    using split xy by simp
  with assms(1,4) have "us = concat (take k ws) @ xs" by (metis distinct_split_unique)
  with d show "d \<in> set us" by simp
qed

text \<open>What the later proofs use of an accepted plan.\<close>

lemma validated_facts:
  assumes "validate_plan cx p = Some (Inr v)"
  shows "vp_plan v = p" and "distinct (map ps_id (pl_steps p))"
    and "layered (adjacency p) {} (vp_waves v)" and "set (concat (vp_waves v)) = plan_ids p"
    and "distinct (concat (vp_waves v))"
    and "s \<in> set (pl_steps p) \<Longrightarrow> set (succs (adjacency p) (ps_id s)) = set (ps_depends s)"
    and "topological_waves p = Some (vp_waves v)" and "plan_valid cx p"
proof -
  have d: "plan_valid cx p \<and> vp_plan v = p \<and> topological_waves p = Some (vp_waves v)"
    using validate_decides [of cx p] assms by auto
  then show "vp_plan v = p" "topological_waves p = Some (vp_waves v)" "plan_valid cx p" by auto
  show dist: "distinct (map ps_id (pl_steps p))" using d by (simp add: plan_valid_def)
  show "layered (adjacency p) {} (vp_waves v)" "set (concat (vp_waves v)) = plan_ids p"
    "distinct (concat (vp_waves v))" using topological_waves_Some [of p "vp_waves v"] d dist by auto
  show "set (succs (adjacency p) (ps_id s)) = set (ps_depends s)" if "s \<in> set (pl_steps p)"
    using succs_distinct [OF dist that] d that by (auto simp: plan_valid_def)
qed

lemma order_after_deps:
  assumes v: "validate_plan cx p = Some (Inr v)" and o: "concat (vp_waves v) = us @ ps_id s # vs"
    and s: "s \<in> set (pl_steps p)"
  shows "set (ps_depends s) \<subseteq> set us"
proof -
  note f = validated_facts [OF v]
  have "ps_id s \<in> set (concat (vp_waves v))" using o by simp
  then obtain w where w: "w \<in> set (vp_waves v)" "ps_id s \<in> set w" by auto
  then obtain k where k: "k < length (vp_waves v)" "vp_waves v ! k = w" by (auto simp: in_set_conv_nth)
  have "set (succs (adjacency p) (ps_id s)) \<subseteq> set (concat (take k (vp_waves v)))"
    using layered_nth [OF f(3) k(1)] k(2) w(2) by auto
  also have "\<dots> \<subseteq> set us" using in_concat_before [OF f(5) k(1) _ o] k(2) w(2) by simp
  finally show ?thesis using f(6) [OF s] by simp
qed

lemma wave_groups_set: "set (concat (wave_groups p w)) = set w"
  by (auto simp: wave_groups_def Let_def filter_empty_conv)

lemma wave_groups_mset: "mset (concat (wave_groups p w)) = mset w"
proof -
  have "concat (map (\<lambda>i. [i]) xs) = xs" for xs :: "plan_step_id list" by (induction xs) auto
  moreover have "concat (if b = [] then [] else [b]) = b" for b :: "plan_step_id list" by simp
  ultimately have "mset (concat (wave_groups p w))
      = mset (filter (\<lambda>i. \<not> is_parallel p i) w) + mset (filter (is_parallel p) w)"
    by (simp only: wave_groups_def Let_def concat_append mset_append)
  then show ?thesis by (metis mset_filter multiset_partition add.commute)
qed

lemma group_in_wave: "g \<in> set (wave_groups p w) \<Longrightarrow> set g \<subseteq> set w \<and>
  (1 < length g \<longrightarrow> (\<forall>i \<in> set g. is_parallel p i))"
  by (auto simp: wave_groups_def Let_def split: if_splits)

lemma wave_independent:
  assumes "layered adj D ws" and "w \<in> set ws" and "i \<in> set w"
  shows "set (succs adj i) \<inter> set w = {}"
  using assms by (induction adj D ws rule: layered.induct) auto

text \<open>C29: The schedule of an accepted plan is sound. Its order holds every step exactly once and
  puts each step after all its dependencies; the groups of the waves hold the same steps, a group
  of more than one is made of steps marked parallelizable, and no step of a group depends on
  another of the same group, so running a group together respects the plan.\<close>

theorem schedule_sound:
  assumes "validate_plan cx p = Some (Inr v)"
  shows "distinct (sc_order (make_schedule v)) \<and> set (sc_order (make_schedule v)) = plan_ids p \<and>
    (\<forall>us vs s. s \<in> set (pl_steps p) \<longrightarrow> sc_order (make_schedule v) = us @ ps_id s # vs \<longrightarrow>
       set (ps_depends s) \<subseteq> set us) \<and>
    mset (concat (concat (sc_waves (make_schedule v)))) = mset (sc_order (make_schedule v)) \<and>
    (\<forall>g \<in> set (concat (sc_waves (make_schedule v))).
       (1 < length g \<longrightarrow> (\<forall>i \<in> set g. is_parallel p i)) \<and>
       (\<forall>s \<in> set (pl_steps p). ps_id s \<in> set g \<longrightarrow> set (ps_depends s) \<inter> set g = {}))"
proof -
  note f = validated_facts [OF assms]
  have ms: "mset (concat (concat (map (wave_groups p) ws))) = mset (concat ws)" for ws
    by (induction ws) (simp_all add: wave_groups_mset)
  have "(1 < length g \<longrightarrow> (\<forall>i \<in> set g. is_parallel p i)) \<and>
       (\<forall>s \<in> set (pl_steps p). ps_id s \<in> set g \<longrightarrow> set (ps_depends s) \<inter> set g = {})"
    if "g \<in> set (concat (map (wave_groups p) (vp_waves v)))" for g
  proof -
    from that obtain w where w: "w \<in> set (vp_waves v)" "g \<in> set (wave_groups p w)" by auto
    from group_in_wave [OF w(2)] wave_independent [OF f(3) w(1)] f(6) show ?thesis by fastforce
  qed
  then show ?thesis
    using f(1,4,5) ms order_after_deps [OF assms] by (simp add: make_schedule_def)
qed

lemma find_first:
  "find (\<lambda>i. i \<notin> fin) xs = Some i \<Longrightarrow> \<exists>us vs. xs = us @ i # vs \<and> set us \<subseteq> fin \<and> i \<notin> fin"
proof (induction xs)
  case (Cons x xs)
  show ?case
  proof (cases "x \<in> fin")
    case True
    with Cons obtain us vs where "xs = us @ i # vs" "set us \<subseteq> fin" "i \<notin> fin" by auto
    with True show ?thesis by (intro exI [of _ "x # us"] exI [of _ vs]) simp
  next
    case False
    with Cons.prems show ?thesis by (intro exI [of _ "[]"] exI [of _ xs]) auto
  qed
qed simp

text \<open>Resuming a half-run plan is a lookup. For any durable set of finished steps, the next
  incomplete step of an accepted plan's schedule is an unfinished step of the plan all of whose
  dependencies are finished; there is none exactly when every step is finished, which is when
  nothing remains.\<close>

theorem next_incomplete_ready:
  assumes "validate_plan cx p = Some (Inr v)"
  shows "(case next_incomplete (make_schedule v) fin of
      Some s \<Rightarrow> s \<in> set (pl_steps p) \<and> ps_id s \<notin> fin \<and> set (ps_depends s) \<subseteq> fin
    | None \<Rightarrow> plan_ids p \<subseteq> fin) \<and>
    (next_incomplete (make_schedule v) fin = None \<longleftrightarrow> remaining (make_schedule v) fin = 0)"
proof -
  note f = validated_facts [OF assms]
  have o: "sc_order (make_schedule v) = concat (vp_waves v)" and sp: "sc_plan (make_schedule v) = p"
    using f(1) by (simp_all add: make_schedule_def)
  show ?thesis
  proof (cases "find (\<lambda>i. i \<notin> fin) (concat (vp_waves v))")
    case None
    then have "\<forall>i \<in> plan_ids p. i \<in> fin" unfolding find_None_iff_set f(4) [symmetric] by auto
    moreover from None have "filter (\<lambda>i. i \<notin> fin) (concat (vp_waves v)) = []"
      unfolding find_None_iff_set filter_empty_conv by auto
    ultimately show ?thesis using None by (auto simp: next_incomplete_def o remaining_def)
  next
    case (Some i)
    from find_first [OF Some] obtain us vs where
      u: "concat (vp_waves v) = us @ i # vs" "set us \<subseteq> fin" "i \<notin> fin" by blast
    have "i \<in> plan_ids p" using u(1) f(4) by (metis in_set_conv_decomp)
    then obtain s where s: "s \<in> set (pl_steps p)" "ps_id s = i" by auto
    then have "plan_find p i = Some s" using plan_find_Some [OF f(2)] by simp
    then have n: "next_incomplete (make_schedule v) fin = Some s"
      using Some by (simp add: next_incomplete_def o sp)
    have "set (ps_depends s) \<subseteq> fin"
      using order_after_deps [OF assms _ s(1)] u s(2) by blast
    moreover have "remaining (make_schedule v) fin \<noteq> 0" using u by (simp add: remaining_def o)
    ultimately show ?thesis using n s u(3) by simp
  qed
qed

section \<open>Repair stops\<close>

fun is_give_up :: "plan_repair_decision \<Rightarrow> bool" where
  "is_give_up (PlanGiveUp _) = True"
| "is_give_up (PlanRetry _) = False"

text \<open>The decisions on a sequence of rejected revisions.\<close>

fun plan_run :: "plan_error list list \<Rightarrow> plan_repair_ledger \<Rightarrow> plan_repair_decision list" where
  "plan_run [] l = []"
| "plan_run (es # ess) l =
     (case plan_record_and_decide es l of (d, l') \<Rightarrow> d # plan_run ess l')"

lemma plan_decide_give_up:
  assumes "length (rl_attempts l) + 1 < 2 ^ 32"
  shows "is_give_up (fst (plan_record_and_decide es l)) \<longleftrightarrow>
    unat (rl_max l) \<le> Suc (length (rl_attempts l))"
proof -
  have "of_nat (length (rl_attempts l)) + 1 = (of_nat (Suc (length (rl_attempts l))) :: u32)"
    by simp
  then have "unat (of_nat (length (rl_attempts l)) + 1 :: u32) = Suc (length (rl_attempts l))"
    using assms by (simp only: unat_of_nat) simp
  then show ?thesis by (simp add: plan_record_and_decide_def Let_def word_le_nat_alt)
qed

lemma plan_run_give_up:
  assumes "length (rl_attempts l) + length ess < 2 ^ 32"
  shows "map is_give_up (plan_run ess l)
    = map (\<lambda>i. unat (rl_max l) \<le> length (rl_attempts l) + Suc i) [0..<length ess]"
  using assms
proof (induction ess arbitrary: l)
  case Nil
  then show ?case by simp
next
  case (Cons es ess)
  obtain d l' where dl: "plan_record_and_decide es l = (d, l')" by fastforce
  then have l': "length (rl_attempts l') = Suc (length (rl_attempts l))" "rl_max l' = rl_max l"
    by (auto simp: plan_record_and_decide_def Let_def)
  have "is_give_up d \<longleftrightarrow> unat (rl_max l) \<le> Suc (length (rl_attempts l))"
    using plan_decide_give_up [of l es] Cons.prems dl by simp
  moreover have "map is_give_up (plan_run ess l')
      = map (\<lambda>i. unat (rl_max l) \<le> Suc (length (rl_attempts l)) + Suc i) [0..<length ess]"
    using Cons.IH [of l'] Cons.prems l' by simp
  moreover have "[0..<length (es # ess)] = 0 # map Suc [0..<length ess]"
    by (simp add: map_Suc_upt upt_conv_Cons del: upt_Suc)
  ultimately show ?case using dl by simp
qed

text \<open>Plan repair is bounded across restarts. A ledger resumed after \<open>prior\<close> rejections counts
  them: the \<open>i\<close>-th further rejection (from 0) gives up exactly when \<open>prior + i + 1\<close> has reached
  the maximum, so no restart buys the model extra rounds. The bound on the number of rounds keeps
  the 32-bit counter from wrapping.\<close>

theorem plan_repair_bounded:
  assumes "unat prior + length ess < 2 ^ 32"
  shows "map is_give_up (plan_run ess (resumed_plan_ledger n prior))
    = map (\<lambda>i. unat n \<le> unat prior + Suc i) [0..<length ess]"
  using plan_run_give_up [of "resumed_plan_ledger n prior" ess] assms
  by (simp add: resumed_plan_ledger_def del: upt_Suc)

theorem plan_repair_bounded_witness:
  "map is_give_up (plan_run [[], [], []] (resumed_plan_ledger 3 1)) = [False, True, True]"
proof -
  have "unat (1 :: u32) + length [[], [], [] :: plan_error list] < 2 ^ 32" by simp
  from plan_repair_bounded [OF this, of 3] show ?thesis by (simp add: upt_rec)
qed

section \<open>A concrete plan\<close>

definition sample_context :: plan_context where
  "sample_context = \<lparr>pc_resolve = (\<lambda>t. Some (split_on CHR ''/'' t)), pc_mode = Assisted, pc_roots = []\<rparr>"

lemma sample_validates:
  "validate_plan sample_context sample_plan = Some (Inr \<lparr>vp_plan = sample_plan,
     vp_waves = [[PlanStepId ''b'', PlanStepId ''a''], [PlanStepId ''c'']]\<rparr>)"
proof -
  have v: "plan_valid sample_context sample_plan"
  proof -
    have "\<forall>c. \<not> is_cycle (adjacency sample_plan) c" using waves_acyclic [OF sample_waves(1)] by blast
    then show ?thesis
      by (simp add: plan_valid_def sample_plan_def sample_step_def sample_context_def)
  qed
  obtain res where res: "validate_plan sample_context sample_plan = Some res"
    "case res of Inr v \<Rightarrow> plan_valid sample_context sample_plan \<and> vp_plan v = sample_plan \<and>
       topological_waves sample_plan = Some (vp_waves v)
     | Inl es \<Rightarrow> \<not> plan_valid sample_context sample_plan \<and> es \<noteq> []"
    using validate_decides by blast
  with v sample_waves(1) show ?thesis by (auto split: sum.splits)
qed

theorem validate_exact_witness:
  "\<exists>es. validate_plan sample_context sample_cyclic = Some (Inl es) \<and> es \<noteq> []"
proof -
  have "\<not> plan_valid sample_context sample_cyclic"
  proof -
    have "is_cycle (adjacency sample_cyclic) [PlanStepId ''a'', PlanStepId ''b'', PlanStepId ''a'']"
      by code_simp
    then show ?thesis by (auto simp: plan_valid_def)
  qed
  moreover obtain res where "validate_plan sample_context sample_cyclic = Some res"
    "case res of Inr v \<Rightarrow> plan_valid sample_context sample_cyclic \<and> vp_plan v = sample_cyclic \<and>
       topological_waves sample_cyclic = Some (vp_waves v)
     | Inl es \<Rightarrow> \<not> plan_valid sample_context sample_cyclic \<and> es \<noteq> []"
    using validate_exact by blast
  ultimately show ?thesis by (cases res) auto
qed

theorem schedule_sound_witness:
  "sc_order (make_schedule \<lparr>vp_plan = sample_plan,
     vp_waves = [[PlanStepId ''b'', PlanStepId ''a''], [PlanStepId ''c'']]\<rparr>)
   = [PlanStepId ''b'', PlanStepId ''a'', PlanStepId ''c''] \<and>
   set [PlanStepId ''b'', PlanStepId ''a'', PlanStepId ''c''] = plan_ids sample_plan"
proof -
  let ?v = "\<lparr>vp_plan = sample_plan,
     vp_waves = [[PlanStepId ''b'', PlanStepId ''a''], [PlanStepId ''c'']]\<rparr>"
  have o: "sc_order (make_schedule ?v) = [PlanStepId ''b'', PlanStepId ''a'', PlanStepId ''c'']"
    by (simp add: make_schedule_def)
  have "set (sc_order (make_schedule ?v)) = plan_ids sample_plan"
    using schedule_sound [OF sample_validates] by blast
  with o show ?thesis by simp
qed

theorem next_incomplete_ready_witness:
  "\<exists>s. next_incomplete (make_schedule \<lparr>vp_plan = sample_plan,
     vp_waves = [[PlanStepId ''b'', PlanStepId ''a''], [PlanStepId ''c'']]\<rparr>) {PlanStepId ''b''} = Some s \<and>
     set (ps_depends s) \<subseteq> {PlanStepId ''b''}"
proof -
  have "\<not> plan_ids sample_plan \<subseteq> {PlanStepId ''b''}"
    by (simp add: sample_plan_def sample_step_def)
  with next_incomplete_ready [OF sample_validates, of "{PlanStepId ''b''}"] show ?thesis
    by (auto split: option.splits)
qed

end
