(* ===== verification/Content_Hash.thy ===== *)
theory Content_Hash
  imports Prelude
begin

text \<open>
  The text form of content hashes (\<open>crates/valyria-util/src/hash.rs\<close>): \<open>hex_encode\<close> and
  \<open>hex_decode\<close>, with \<open>str::get\<close>'s character boundaries and \<open>u8::from_str_radix\<close>'s optional sign
  written out. The digest itself (\<open>blake3\<close>) is a parameter wherever it is needed.
\<close>

section \<open>Encoding\<close>

definition hex_digit :: "nat \<Rightarrow> char" where
  "hex_digit d = (if d < 10 then char_of (48 + d) else char_of (87 + d))"

definition hex_byte :: "u8 \<Rightarrow> string" where
  "hex_byte b = [hex_digit (unat b div 16), hex_digit (unat b mod 16)]"

definition hex_encode :: "bytes \<Rightarrow> string" where
  "hex_encode bs = concat (map hex_byte bs)"

section \<open>Decoding\<close>

definition digit_value :: "char \<Rightarrow> nat option" where
  "digit_value c = (let n = of_char c :: nat in
     if 48 \<le> n \<and> n \<le> 57 then Some (n - 48)
     else if 97 \<le> n \<and> n \<le> 102 then Some (n - 87)
     else if 65 \<le> n \<and> n \<le> 70 then Some (n - 55)
     else None)"

text \<open>\<open>u8::from_str_radix(s, 16)\<close>: one leading \<open>+\<close> is accepted when something follows it.\<close>

fun radix_digits :: "nat \<Rightarrow> string \<Rightarrow> nat option" where
  "radix_digits acc [] = Some acc"
| "radix_digits acc (c # cs) = (case digit_value c of
     None \<Rightarrow> None
   | Some d \<Rightarrow> if acc * 16 + d < 256 then radix_digits (acc * 16 + d) cs else None)"

definition from_str_radix16 :: "string \<Rightarrow> u8 option" where
  "from_str_radix16 s = map_option of_nat
     (case s of
        [] \<Rightarrow> None
      | c # cs \<Rightarrow>
          if cs = [] \<and> (c = CHR ''+'' \<or> c = CHR ''-'') then None
          else radix_digits 0 (if c = CHR ''+'' then cs else s))"

definition is_char_boundary :: "string \<Rightarrow> nat \<Rightarrow> bool" where
  "is_char_boundary s i \<longleftrightarrow> i = 0 \<or> i = length s
     \<or> (i < length s \<and> \<not> (128 \<le> (of_char (s ! i) :: nat) \<and> (of_char (s ! i) :: nat) < 192))"

definition str_get :: "string \<Rightarrow> nat \<Rightarrow> nat \<Rightarrow> string option" where
  "str_get s i j =
     (if i \<le> j \<and> j \<le> length s \<and> is_char_boundary s i \<and> is_char_boundary s j
      then Some (take (j - i) (drop i s)) else None)"

definition hex_pair :: "string \<Rightarrow> nat \<Rightarrow> u8 option" where
  "hex_pair s i = Option.bind (str_get s i (i + 2)) from_str_radix16"

definition hex_decode :: "string \<Rightarrow> bytes option" where
  "hex_decode s =
     (if odd (length s) then None else those (map (\<lambda>k. hex_pair s (2 * k)) [0..<length s div 2]))"

definition hash_from_str :: "string \<Rightarrow> string + content_hash" where
  "hash_from_str s = (case hex_decode s of
     None \<Rightarrow> Inl (''invalid content hash: '' @ s)
   | Some bs \<Rightarrow> if length bs \<noteq> 32 then Inl (''invalid content hash: '' @ s) else Inr bs)"

definition to_hex :: "content_hash \<Rightarrow> string" where
  "to_hex h = hex_encode h"

section \<open>Lemmas\<close>

lemma length_hex_byte [simp]: "length (hex_byte b) = 2"
  by (simp add: hex_byte_def)

lemma length_hex_encode [simp]: "length (hex_encode bs) = 2 * length bs"
  by (induction bs) (simp_all add: hex_encode_def)

lemma hex_encode_Cons: "hex_encode (b # bs) = hex_byte b @ hex_encode bs"
  by (simp add: hex_encode_def)

lemma hex_encode_nth:
  "k < length bs \<Longrightarrow> hex_encode bs ! (2 * k) = hex_digit (unat (bs ! k) div 16)
     \<and> hex_encode bs ! Suc (2 * k) = hex_digit (unat (bs ! k) mod 16)"
proof (induction bs arbitrary: k)
  case (Cons b bs)
  then show ?case by (cases k) (simp_all add: hex_encode_Cons hex_byte_def)
qed simp

lemma of_char_hex_digit:
  "d < 16 \<Longrightarrow> (of_char (hex_digit d) :: nat) = (if d < 10 then 48 + d else 87 + d)"
  by (simp add: hex_digit_def)

lemma digit_value_hex_digit [simp]: "d < 16 \<Longrightarrow> digit_value (hex_digit d) = Some d"
  by (simp add: digit_value_def of_char_hex_digit)

lemma digit_value_bound: "digit_value c = Some d \<Longrightarrow> d < 16"
  by (auto simp: digit_value_def Let_def split: if_splits)

lemma digit_value_ascii: "digit_value c = Some d \<Longrightarrow> (of_char c :: nat) < 128"
  by (auto simp: digit_value_def Let_def split: if_splits)

lemma digit_value_sign [simp]: "digit_value CHR ''+'' = None" "digit_value CHR ''-'' = None"
  by (simp_all add: digit_value_def)

text \<open>A pair of bytes parses as two digits, or as a sign and one digit.\<close>

lemma radix_two:
  "from_str_radix16 [c, d] = (case digit_value d of
     None \<Rightarrow> None
   | Some y \<Rightarrow> (if c = CHR ''+'' then Some (of_nat y)
       else map_option (\<lambda>x. of_nat (x * 16 + y)) (digit_value c)))"
proof -
  have b: "x * 16 + y < 256" "y < 256"
    if "digit_value c = Some x" "digit_value d = Some y" for x y
    using that [THEN digit_value_bound] by linarith+
  have b1: "x < 256" if "digit_value e = Some x" for x e
    using digit_value_bound [OF that] by linarith
  show ?thesis
    by (cases "digit_value c"; cases "digit_value d")
      (auto simp: from_str_radix16_def b b1 dest: digit_value_bound)
qed

lemma radix_two_ascii:
  "from_str_radix16 [c, d] = Some b \<Longrightarrow> (of_char c :: nat) < 128 \<and> (of_char d :: nat) < 128"
  by (auto simp: radix_two split: option.splits if_splits dest: digit_value_ascii)

lemma take2_drop:
  "2 * k + 1 < length s \<Longrightarrow> take 2 (drop (2 * k) s) = [s ! (2 * k), s ! Suc (2 * k)]"
  by (simp add: numeral_2_eq_2 take_Suc_conv_app_nth nth_append)

lemma hex_pair_Some:
  "hex_pair s (2 * k) = Some b \<Longrightarrow>
     2 * k + 1 < length s \<and> from_str_radix16 [s ! (2 * k), s ! Suc (2 * k)] = Some b"
  by (auto simp: hex_pair_def str_get_def take2_drop bind_eq_Some_conv split: if_splits)

lemma those_Some: "those xs = Some ys \<longleftrightarrow> xs = map Some ys"
proof (induction xs arbitrary: ys)
  case (Cons x xs)
  then show ?case by (cases x; cases ys) (auto split: option.splits)
qed auto

lemma hex_decode_Some:
  "hex_decode s = Some bs \<longleftrightarrow> length s = 2 * length bs
     \<and> (\<forall>k < length bs. from_str_radix16 [s ! (2 * k), s ! Suc (2 * k)] = Some (bs ! k))"
  (is "?l \<longleftrightarrow> ?r")
proof
  assume ?l
  then have ev: "even (length s)"
    and m: "map (\<lambda>k. hex_pair s (2 * k)) [0..<length s div 2] = map Some bs"
    by (auto simp: hex_decode_def those_Some split: if_splits)
  have "length s div 2 = length bs" using arg_cong [OF m, of length] by simp
  with ev have len: "length s = 2 * length bs" by (metis dvd_mult_div_cancel)
  have "hex_pair s (2 * k) = Some (bs ! k)" if "k < length bs" for k
    using arg_cong [OF m, of "\<lambda>xs. xs ! k"] that len by simp
  with len show ?r using hex_pair_Some by blast
next
  assume r: ?r
  have asc: "(of_char (s ! i) :: nat) < 128" if "i < length s" for i
  proof -
    have k: "i div 2 < length bs" using that r by auto
    then have "from_str_radix16 [s ! (2 * (i div 2)), s ! Suc (2 * (i div 2))] = Some (bs ! (i div 2))"
      using r by blast
    note radix_two_ascii [OF this]
    moreover have "i = 2 * (i div 2) \<or> i = Suc (2 * (i div 2))" by arith
    ultimately show ?thesis by metis
  qed
  have b: "is_char_boundary s i" if "i \<le> length s" for i
    using that asc [of i] by (cases "i = length s") (auto simp: is_char_boundary_def)
  have "hex_pair s (2 * k) = Some (bs ! k)" if "k < length bs" for k
    using that r b [of "2 * k"] b [of "2 * k + 2"]
    by (simp add: hex_pair_def str_get_def take2_drop)
  then have "map (\<lambda>k. hex_pair s (2 * k)) [0..<length bs] = map Some bs"
    by (intro nth_equalityI) auto
  then show ?l using r by (simp add: hex_decode_def those_Some)
qed

lemma radix_hex_byte: "from_str_radix16 [hex_digit (unat b div 16), hex_digit (unat b mod 16)] = Some b"
proof -
  have "unat (b :: u8) < 256" using unsigned_less [of b, where ?'a = nat] by simp
  then have q: "unat b div 16 < 16" by auto
  have "hex_digit (unat b div 16) \<noteq> CHR ''+''"
    using digit_value_hex_digit [OF q] by (metis digit_value_sign(1) option.distinct(1))
  then have "from_str_radix16 [hex_digit (unat b div 16), hex_digit (unat b mod 16)]
      = Some (of_nat (unat b div 16 * 16 + unat b mod 16))"
    using q by (simp add: radix_two del: of_nat_add of_nat_mult)
  then show ?thesis by (simp only: div_mult_mod_eq) simp
qed

lemma hex_decode_encode [simp]: "hex_decode (hex_encode bs) = Some bs"
  by (auto simp: hex_decode_Some hex_encode_nth radix_hex_byte)

lemma hex_encode_inject [simp]: "hex_encode a = hex_encode b \<longleftrightarrow> a = b"
  by (metis hex_decode_encode option.inject)

section \<open>The text form is exact\<close>

definition lower_hex :: "char \<Rightarrow> bool" where
  "lower_hex c \<longleftrightarrow> c \<in> hex_digit ` {0..<16}"

lemma lower_hex_value: "lower_hex c \<Longrightarrow> \<exists>x < 16. digit_value c = Some x \<and> hex_digit x = c"
  by (auto simp: lower_hex_def)

lemma hex_byte_of_pair:
  assumes "from_str_radix16 [c, d] = Some b" and "lower_hex c" and "lower_hex d"
  shows "hex_byte b = [c, d]"
proof -
  obtain x y where x: "x < 16" "digit_value c = Some x" "hex_digit x = c"
    and y: "y < 16" "digit_value d = Some y" "hex_digit y = d"
    using assms(2,3) lower_hex_value by blast
  have "b = of_nat (x * 16 + y)"
    using assms(1) x y by (auto simp: radix_two split: if_splits)
  then have "unat b = (x * 16 + y) mod 256" by (simp only: unsigned_of_nat take_bit_eq_mod) simp
  moreover have "x * 16 + y < 256" using x(1) y(1) by simp
  ultimately have "unat b = x * 16 + y" by simp
  then show ?thesis using x y by (simp add: hex_byte_def)
qed

lemma hex_encode_decode:
  assumes d: "hex_decode s = Some bs" and l: "\<forall>c \<in> set s. lower_hex c"
  shows "hex_encode bs = s"
proof (rule nth_equalityI)
  from d have len: "length s = 2 * length bs"
    and p: "k < length bs \<Longrightarrow> from_str_radix16 [s ! (2 * k), s ! Suc (2 * k)] = Some (bs ! k)" for k
    by (auto simp: hex_decode_Some)
  then show "length (hex_encode bs) = length s" by simp
  fix i assume "i < length (hex_encode bs)"
  then have k: "i div 2 < length bs" by auto
  have "hex_byte (bs ! (i div 2)) = [s ! (2 * (i div 2)), s ! Suc (2 * (i div 2))]"
    using k len l by (intro hex_byte_of_pair p) auto
  with hex_encode_nth [OF k] have
    "hex_encode bs ! (2 * (i div 2)) = s ! (2 * (i div 2))"
    "hex_encode bs ! Suc (2 * (i div 2)) = s ! Suc (2 * (i div 2))"
    by (simp_all add: hex_byte_def)
  moreover have "i = 2 * (i div 2) \<or> i = Suc (2 * (i div 2))" by arith
  ultimately show "hex_encode bs ! i = s ! i" by metis
qed

lemma hash_from_str_to_hex [simp]: "length h = 32 \<Longrightarrow> hash_from_str (to_hex h) = Inr h"
  by (simp add: hash_from_str_def to_hex_def)

text \<open>The hexadecimal text of a content hash reads back as the same hash, every accepted text
  has exactly 64 bytes, and on lower-case text reading is the inverse of writing.\<close>

theorem hash_text_exact:
  "(length h = 32 \<longrightarrow> hash_from_str (to_hex h) = Inr h) \<and>
   (hash_from_str s = Inr h \<longrightarrow> length s = 64 \<and> length h = 32
      \<and> ((\<forall>c \<in> set s. lower_hex c) \<longrightarrow> to_hex h = s))"
  by (auto simp: hash_from_str_def to_hex_def hex_encode_decode hex_decode_Some
      split: option.splits if_splits)

theorem hash_text_exact_witness:
  "hash_from_str (to_hex (replicate 32 0xAF)) = Inr (replicate 32 0xAF)"
  using hash_text_exact [where h = "replicate 32 0xAF"] by simp

text \<open>Reading accepts a plus sign in the place of the first digit of a byte: the 64-byte text
  \<open>"+f"\<close> thirty-two times is accepted as the hash of thirty-two bytes 15, so reading is not
  injective.\<close>

lemma hash_text_accepts_sign:
  "hash_from_str (concat (replicate 32 ''+f'')) = Inr (replicate 32 15) \<and>
   hash_from_str (to_hex (replicate 32 15)) = Inr (replicate 32 15) \<and>
   to_hex (replicate 32 15) \<noteq> concat (replicate 32 ''+f'')"
  by code_simp

end
