(* ===== verification/Vfs_Path.thy ===== *)
theory Vfs_Path
  imports Prelude "HOL-Library.Sublist"
begin

text \<open>
  Workspace-rooted path resolution: \<open>std::path::Component\<close> as the code uses it, the lexical
  normalisation of \<open>crates/valyria-util/src/path.rs\<close> and \<open>WorkspaceRoot::resolve\<close> of
  \<open>crates/valyria-vfs/src/workspace_path.rs\<close>. The operating system is the record \<open>os\<close>: what
  \<open>canonicalize\<close> and \<open>exists\<close> answer and which writes, reads and removals fail, as functions of the
  disk. An absolute canonical path is the list of its names. Unix paths only: there is no \<open>Prefix\<close>
  component.
\<close>

section \<open>Paths\<close>

datatype component = RootDir | CurDir | ParentDir | Normal string

type_synonym path = "component list"  \<comment> \<open>a \<open>PathBuf\<close>: \<open>std\<close> compares paths by their components\<close>
type_synonym real_path = "string list"

fun split_char :: "char \<Rightarrow> string \<Rightarrow> string list" where
  "split_char c [] = [[]]"
| "split_char c (x # xs) =
     (if x = c then [] # split_char c xs
      else (case split_char c xs of [] \<Rightarrow> [[x]] | s # ss \<Rightarrow> (x # s) # ss))"

fun name_component :: "string \<Rightarrow> component option" where
  "name_component s =
     (if s = [] \<or> s = ''.'' then None else if s = ''..'' then Some ParentDir else Some (Normal s))"

definition path_of :: "string \<Rightarrow> path" where
  "path_of s = (let segs = split_char CHR ''/'' s in
     (case s of
        c # _ \<Rightarrow> (if c = CHR ''/'' then [RootDir] else if hd segs = ''.'' then [CurDir] else [])
      | [] \<Rightarrow> [])
     @ List.map_filter name_component segs)"

definition is_absolute :: "path \<Rightarrow> bool" where
  "is_absolute p \<longleftrightarrow> (case p of RootDir # _ \<Rightarrow> True | _ \<Rightarrow> False)"

definition has_traversal_risk :: "path \<Rightarrow> bool" where
  "has_traversal_risk p \<longleftrightarrow> (\<exists>c \<in> set p. c = ParentDir \<or> c = RootDir)"

text \<open>The loop of \<open>normalize_relative\<close>: \<open>out\<close> is kept with its last element first.\<close>

fun normalize_step :: "string list \<Rightarrow> path \<Rightarrow> string list option" where
  "normalize_step out [] = Some (rev out)"
| "normalize_step out (CurDir # cs) = normalize_step out cs"
| "normalize_step out (ParentDir # cs) =
     (case out of [] \<Rightarrow> None | _ # out' \<Rightarrow> normalize_step out' cs)"
| "normalize_step out (Normal n # cs) = normalize_step (n # out) cs"
| "normalize_step out (RootDir # cs) = None"

definition normalize_relative :: "path \<Rightarrow> string list option" where
  "normalize_relative p = normalize_step [] p"

section \<open>The order of paths\<close>

fun component_rank :: "component \<Rightarrow> nat" where
  "component_rank RootDir = 0"
| "component_rank CurDir = 1"
| "component_rank ParentDir = 2"
| "component_rank (Normal _) = 3"

fun component_name :: "component \<Rightarrow> string" where
  "component_name (Normal n) = n"
| "component_name _ = []"

instantiation component :: linorder
begin

definition less_eq_component :: "component \<Rightarrow> component \<Rightarrow> bool" where
  "less_eq_component a b \<longleftrightarrow> component_rank a < component_rank b
     \<or> component_rank a = component_rank b \<and> component_name a \<le> component_name b"

definition less_component :: "component \<Rightarrow> component \<Rightarrow> bool" where
  "less_component a b \<longleftrightarrow> component_rank a < component_rank b
     \<or> component_rank a = component_rank b \<and> component_name a < component_name b"

instance
proof
  fix a b :: component
  assume "a \<le> b" "b \<le> a"
  then show "a = b"
    by (cases a; cases b) (auto simp: less_eq_component_def)
qed (auto simp: less_eq_component_def less_component_def)

end

text \<open>\<open>Path::display\<close>, for a path that was spelled without redundant separators.\<close>

fun show_component :: "component \<Rightarrow> string" where
  "show_component RootDir = []"
| "show_component CurDir = ''.''"
| "show_component ParentDir = ''..''"
| "show_component (Normal n) = n"

definition show_path :: "path \<Rightarrow> string" where
  "show_path p = (if p = [RootDir] then ''/'' else join ''/'' (map show_component p))"

section \<open>The operating system\<close>

type_synonym disk = "real_path \<rightharpoonup> bytes"

record os =
  os_canonicalize :: "disk \<Rightarrow> real_path \<Rightarrow> string + real_path"
  os_exists :: "disk \<Rightarrow> real_path \<Rightarrow> bool"
  os_read_err :: "disk \<Rightarrow> real_path \<Rightarrow> string option"
  os_write_err :: "disk \<Rightarrow> real_path \<Rightarrow> bytes \<Rightarrow> string option"
  os_remove_err :: "disk \<Rightarrow> real_path \<Rightarrow> string option"

datatype vfs_error =
    VfsIo real_path string
  | PathTraversal path
  | SymlinkEscape path
  | VfsWatch string

fun vfs_error_code :: "vfs_error \<Rightarrow> string" where
  "vfs_error_code (VfsIo _ _) = ''vfs.io''"
| "vfs_error_code (PathTraversal _) = ''vfs.path_traversal''"
| "vfs_error_code (SymlinkEscape _) = ''vfs.symlink_escape''"
| "vfs_error_code (VfsWatch _) = ''vfs.watch''"

section \<open>WorkspaceRoot\<close>

datatype workspace_root = WorkspaceRoot real_path

fun root_path :: "workspace_root \<Rightarrow> real_path" where
  "root_path (WorkspaceRoot p) = p"

definition new_root :: "os \<Rightarrow> disk \<Rightarrow> real_path \<Rightarrow> vfs_error + workspace_root" where
  "new_root os d p = (case os_canonicalize os d p of
     Inl e \<Rightarrow> Inl (VfsIo p e) | Inr c \<Rightarrow> Inr (WorkspaceRoot c))"

text \<open>The loop of \<open>deepest_existing_ancestor\<close> on the reversed path: \<open>pop\<close> takes its last name.\<close>

fun climb :: "(real_path \<Rightarrow> bool) \<Rightarrow> string list \<Rightarrow> string list \<Rightarrow> real_path \<times> string list" where
  "climb ex [] tail = ([], tail)"
| "climb ex (n # up) tail =
     (if ex (rev (n # up)) then (rev (n # up), tail) else climb ex up (n # tail))"

definition deepest_existing_ancestor :: "(real_path \<Rightarrow> bool) \<Rightarrow> real_path \<Rightarrow> real_path \<times> string list" where
  "deepest_existing_ancestor ex p = climb ex (rev p) []"

definition resolve :: "os \<Rightarrow> workspace_root \<Rightarrow> disk \<Rightarrow> path \<Rightarrow> vfs_error + real_path" where
  "resolve os root d rel =
     (if is_absolute rel then Inl (PathTraversal rel)
      else case normalize_relative rel of
        None \<Rightarrow> Inl (PathTraversal rel)
      | Some normalized \<Rightarrow>
          (let (anc, tail) = deepest_existing_ancestor (os_exists os d) (root_path root @ normalized) in
           case os_canonicalize os d anc of
             Inl e \<Rightarrow> Inl (VfsIo anc e)
           | Inr canon \<Rightarrow>
               if \<not> prefix (root_path root) canon then Inl (SymlinkEscape rel)
               else Inr (canon @ tail)))"

section \<open>Atomic writes\<close>

text \<open>\<open>write_atomic\<close>: everything or nothing; \<open>os_write_err\<close> covers the creation of the parent, the
  temporary file and the rename. Permission bits are not part of the disk.\<close>

definition write_atomic :: "os \<Rightarrow> real_path \<Rightarrow> bytes \<Rightarrow> disk \<Rightarrow> (vfs_error + unit) \<times> disk" where
  "write_atomic os p content d =
     (if p = [] then (Inl (VfsIo p ''path has no parent''), d)
      else case os_write_err os d p content of
        Some e \<Rightarrow> (Inl (VfsIo p e), d)
      | None \<Rightarrow> (Inr (), d(p \<mapsto> content)))"

text \<open>\<open>std::fs::read\<close> and \<open>std::fs::remove_file\<close>: \<open>Inl None\<close> is \<open>NotFound\<close>, \<open>Inl (Some e)\<close> another
  error.\<close>

definition fs_read :: "os \<Rightarrow> disk \<Rightarrow> real_path \<Rightarrow> string option + bytes" where
  "fs_read os d p = (case os_read_err os d p of
     Some e \<Rightarrow> Inl (Some e)
   | None \<Rightarrow> (case d p of None \<Rightarrow> Inl None | Some b \<Rightarrow> Inr b))"

definition fs_remove :: "os \<Rightarrow> real_path \<Rightarrow> disk \<Rightarrow> (string option + unit) \<times> disk" where
  "fs_remove os p d = (case os_remove_err os d p of
     Some e \<Rightarrow> (Inl (Some e), d)
   | None \<Rightarrow> (case d p of None \<Rightarrow> (Inl None, d) | Some _ \<Rightarrow> (Inr (), d(p := None))))"

section \<open>Normalisation\<close>

text \<open>The depth a path reaches: a name goes down, \<open>..\<close> goes up.\<close>

definition depth :: "path \<Rightarrow> int" where
  "depth p = (\<Sum>c \<leftarrow> p. case c of Normal _ \<Rightarrow> 1 | ParentDir \<Rightarrow> - 1 | _ \<Rightarrow> 0)"

lemma depth_simps [simp]:
  "depth [] = 0" "depth (CurDir # p) = depth p" "depth (RootDir # p) = depth p"
  "depth (ParentDir # p) = depth p - 1" "depth (Normal n # p) = depth p + 1"
  by (simp_all add: depth_def)

lemma all_le_Suc: "(\<forall>k \<le> Suc n. P k) \<longleftrightarrow> P 0 \<and> (\<forall>k \<le> n. P (Suc k))"
proof
  assume r: "P 0 \<and> (\<forall>k \<le> n. P (Suc k))"
  show "\<forall>k \<le> Suc n. P k"
  proof (intro allI impI)
    fix k assume "k \<le> Suc n"
    then show "P k" using r by (cases k) auto
  qed
qed auto

lemma normalize_step_Some_iff:
  "normalize_step out p \<noteq> None \<longleftrightarrow> RootDir \<notin> set p
     \<and> (\<forall>k \<le> length p. 0 \<le> int (length out) + depth (take k p))"
proof (induction out p rule: normalize_step.induct)
  case (3 out cs)
  show ?case
  proof (cases out)
    case Nil
    show ?thesis unfolding Nil
      by (simp add: all_le_Suc) (intro disjI2 exI [of _ 0], simp)
  next
    case (Cons n out')
    show ?thesis
      unfolding Cons using 3 [OF Cons] by (simp add: all_le_Suc algebra_simps)
  qed
next
  case (4 out n cs)
  then show ?case by (simp add: all_le_Suc algebra_simps)
qed (simp_all add: all_le_Suc)

lemma normalize_Some_iff:
  "normalize_relative p \<noteq> None \<longleftrightarrow> RootDir \<notin> set p \<and> (\<forall>k \<le> length p. 0 \<le> depth (take k p))"
  unfolding normalize_relative_def normalize_step_Some_iff by simp

lemma normalize_step_length:
  "normalize_step out p = Some ns \<Longrightarrow> int (length ns) = int (length out) + depth p"
  by (induction out p rule: normalize_step.induct) (auto split: list.splits)

lemma normalize_step_names:
  "normalize_step out p = Some ns \<Longrightarrow> set ns \<subseteq> set out \<union> {n. Normal n \<in> set p}"
  by (induction out p rule: normalize_step.induct) (fastforce split: list.splits)+

text \<open>A path without traversal risk is normalised by dropping its \<open>.\<close> components.\<close>

lemma normalize_step_plain:
  "\<not> has_traversal_risk p \<Longrightarrow> normalize_step out p
     = Some (rev out @ List.map_filter (\<lambda>c. case c of Normal n \<Rightarrow> Some n | _ \<Rightarrow> None) p)"
  by (induction out p rule: normalize_step.induct)
    (auto simp: has_traversal_risk_def)

section \<open>Resolution\<close>

lemma climb_split:
  "climb ex rp tail = (anc, t) \<Longrightarrow> anc @ t = rev rp @ tail"
  by (induction ex rp tail rule: climb.induct) (auto split: if_splits)

lemma climb_deep:
  "climb ex rp tail = (anc, t) \<Longrightarrow> ex r \<Longrightarrow> prefix r (rev rp) \<Longrightarrow> prefix r anc"
proof (induction ex rp tail rule: climb.induct)
  case (2 ex n up tail)
  then show ?case by (auto split: if_splits simp: prefix_snoc)
qed auto

lemma deepest_split: "deepest_existing_ancestor ex p = (anc, t) \<Longrightarrow> anc @ t = p"
  using climb_split [of ex "rev p" "[]" anc t] by (simp add: deepest_existing_ancestor_def)

lemma deepest_deep:
  "deepest_existing_ancestor ex p = (anc, t) \<Longrightarrow> ex r \<Longrightarrow> prefix r p \<Longrightarrow> prefix r anc"
  using climb_deep [of ex "rev p" "[]" anc t r] by (simp add: deepest_existing_ancestor_def)

lemma resolve_contained:
  "resolve os root d rel = Inr p \<Longrightarrow> prefix (root_path root) p"
  by (auto simp: resolve_def Let_def split: if_splits option.splits sum.splits prod.splits)

text \<open>A workspace without symbolic links: what exists is its own canonical form.\<close>

definition plain_os :: "os \<Rightarrow> workspace_root \<Rightarrow> bool" where
  "plain_os os root \<longleftrightarrow> (\<forall>d. os_exists os d (root_path root)
     \<and> (\<forall>p. prefix (root_path root) p \<longrightarrow> os_canonicalize os d p = Inr p))"

lemma resolve_plain:
  assumes "plain_os os root"
  shows "resolve os root d rel =
    (if is_absolute rel then Inl (PathTraversal rel)
     else case normalize_relative rel of
       None \<Rightarrow> Inl (PathTraversal rel) | Some ns \<Rightarrow> Inr (root_path root @ ns))"
proof (cases "normalize_relative rel")
  case (Some ns)
  obtain anc t where a: "deepest_existing_ancestor (os_exists os d) (root_path root @ ns) = (anc, t)"
    by force
  have "prefix (root_path root) anc"
    using deepest_deep [OF a] assms by (auto simp: plain_os_def)
  with assms have "os_canonicalize os d anc = Inr anc" by (auto simp: plain_os_def)
  with Some a deepest_split [OF a] \<open>prefix (root_path root) anc\<close> show ?thesis
    by (simp add: resolve_def)
qed (simp add: resolve_def)

text \<open>Whatever the file system answers, a resolved path lies under the workspace root; a path
  is refused as a traversal exactly when it is absolute or some prefix of it climbs above its
  start; and in a workspace without symbolic links every other path resolves to the root followed
  by its normalised names.\<close>

theorem resolve_stays_inside:
  "(resolve os root d rel = Inr p \<longrightarrow> prefix (root_path root) p) \<and>
   (resolve os root d rel = Inl (PathTraversal rel) \<longleftrightarrow>
      RootDir \<in> set rel \<or> (\<exists>k \<le> length rel. depth (take k rel) < 0)) \<and>
   (plain_os os root \<longrightarrow> RootDir \<notin> set rel \<longrightarrow> (\<forall>k \<le> length rel. 0 \<le> depth (take k rel)) \<longrightarrow>
      (\<exists>ns. normalize_relative rel = Some ns \<and> int (length ns) = depth rel
        \<and> resolve os root d rel = Inr (root_path root @ ns)))"
proof (intro conjI impI)
  show "resolve os root d rel = Inr p \<Longrightarrow> prefix (root_path root) p"
    by (rule resolve_contained)
next
  have abs: "is_absolute rel \<Longrightarrow> RootDir \<in> set rel"
    by (auto simp: is_absolute_def split: list.splits component.splits)
  have "resolve os root d rel = Inl (PathTraversal rel) \<longleftrightarrow>
      is_absolute rel \<or> normalize_relative rel = None"
    by (auto simp: resolve_def Let_def split: if_splits option.splits sum.splits prod.splits)
  also have "\<dots> \<longleftrightarrow> RootDir \<in> set rel \<or> (\<exists>k \<le> length rel. depth (take k rel) < 0)"
    using normalize_Some_iff [of rel] abs by (auto simp: not_le)
  finally show "resolve os root d rel = Inl (PathTraversal rel) \<longleftrightarrow>
      RootDir \<in> set rel \<or> (\<exists>k \<le> length rel. depth (take k rel) < 0)" .
next
  assume p: "plain_os os root" and r: "RootDir \<notin> set rel" "\<forall>k \<le> length rel. 0 \<le> depth (take k rel)"
  then obtain ns where n: "normalize_relative rel = Some ns"
    using normalize_Some_iff [of rel] by auto
  have "int (length ns) = depth rel"
    using normalize_step_length [of "[]" rel ns] n by (simp add: normalize_relative_def)
  moreover have "\<not> is_absolute rel"
    using r(1) by (auto simp: is_absolute_def split: list.splits component.splits)
  ultimately show "\<exists>ns. normalize_relative rel = Some ns \<and> int (length ns) = depth rel
      \<and> resolve os root d rel = Inr (root_path root @ ns)"
    using n resolve_plain [OF p] by simp
qed

text \<open>A concrete operating system for the witnesses: no links, every path exists, nothing fails.\<close>

definition calm_os :: os where
  "calm_os = \<lparr>os_canonicalize = \<lambda>d p. Inr p, os_exists = \<lambda>d p. True, os_read_err = \<lambda>d p. None,
     os_write_err = \<lambda>d p b. None, os_remove_err = \<lambda>d p. None\<rparr>"

lemma calm_os_simps [simp]:
  "os_canonicalize calm_os d p = Inr p" "os_exists calm_os d p" "os_read_err calm_os d p = None"
  "os_write_err calm_os d p b = None" "os_remove_err calm_os d p = None"
  by (simp_all add: calm_os_def)

lemma plain_calm_os [simp]: "plain_os calm_os root"
  by (simp add: plain_os_def calm_os_def)

theorem resolve_stays_inside_witness:
  "resolve calm_os (WorkspaceRoot [''w'']) Map.empty (path_of ''src/./../lib.rs'')
     = Inr [''w'', ''lib.rs'']
   \<and> resolve calm_os (WorkspaceRoot [''w'']) Map.empty (path_of ''src/../../x'')
     = Inl (PathTraversal (path_of ''src/../../x''))"
proof
  have p: "path_of ''src/./../lib.rs'' = [Normal ''src'', ParentDir, Normal ''lib.rs'']"
    by code_simp
  have d: "\<forall>k \<le> length [Normal ''src'', ParentDir, Normal ''lib.rs''].
      0 \<le> depth (take k [Normal ''src'', ParentDir, Normal ''lib.rs''])"
    by (simp add: all_le_Suc)
  have n: "normalize_relative [Normal ''src'', ParentDir, Normal ''lib.rs''] = Some [''lib.rs'']"
    by code_simp
  show "resolve calm_os (WorkspaceRoot [''w'']) Map.empty (path_of ''src/./../lib.rs'')
      = Inr [''w'', ''lib.rs'']"
    using resolve_stays_inside [where os = calm_os and root = "WorkspaceRoot [''w'']"
      and d = Map.empty and rel = "[Normal ''src'', ParentDir, Normal ''lib.rs'']" and p = "[]"] d n
    by (simp add: p)
  have q: "path_of ''src/../../x'' = [Normal ''src'', ParentDir, ParentDir, Normal ''x'']"
    by code_simp
  have "depth (take 3 (path_of ''src/../../x'')) < 0" "3 \<le> length (path_of ''src/../../x'')"
    by (simp_all add: q)
  then show "resolve calm_os (WorkspaceRoot [''w'']) Map.empty (path_of ''src/../../x'')
      = Inl (PathTraversal (path_of ''src/../../x''))"
    using resolve_stays_inside [where os = calm_os and root = "WorkspaceRoot [''w'']"
      and d = Map.empty and rel = "path_of ''src/../../x''" and p = "[]"] by blast
qed

end
