(* ===== verification/Loop_Detect.thy ===== *)
theory Loop_Detect
  imports Content_Hash Vfs_Path
begin

text \<open>
  Loop and progress detection (\<open>crates/valyria-agent/src/loop_detect.rs\<close>): the signature of a step,
  the progress metric and the five detectors. The digest of bytes and serde's rendering of a JSON
  value are parameters; a \<open>BTreeSet<PathBuf>\<close> is its sorted list.
\<close>

section \<open>Signatures\<close>

record step_signature =
  sg_tool :: "string option"
  sg_patch :: "content_hash option"
  sg_error :: "string option"
  sg_file :: "content_hash option"
  sg_context :: "content_hash option"

definition default_signature :: step_signature where
  "default_signature = \<lparr>sg_tool = None, sg_patch = None, sg_error = None, sg_file = None, sg_context = None\<rparr>"

lemma size_json_list: "(k, v) \<in> set kvs \<Longrightarrow> size v < Suc (size_list (size_prod (\<lambda>_. 0) size) kvs)"
  by (induction kvs) (auto simp: less_Suc_eq_le intro: le_trans [OF _ le_add2])

text \<open>\<open>canon\<close>: objects sorted by key, recursively.\<close>

function canon :: "json \<Rightarrow> json" where
  "canon (JObject kvs) = JObject (map (\<lambda>(k, v). (k, canon v)) (sort_key fst kvs))"
| "canon (JArray xs) = JArray (map canon xs)"
| "canon JNull = JNull"
| "canon (JBool b) = JBool b"
| "canon (JInt n) = JInt n"
| "canon (JFloat f) = JFloat f"
| "canon (JString s) = JString s"
  by pat_completeness auto

termination
  by (relation "measure size")
    (auto simp: less_Suc_eq_le intro: size_list_estimation' dest!: size_json_list)

definition normalized_tool_call :: "(json \<Rightarrow> string) \<Rightarrow> string \<Rightarrow> json \<Rightarrow> string" where
  "normalized_tool_call show_json tool inp = tool @ ''('' @ show_json (canon inp) @ '')''"

definition with_tool_call :: "(json \<Rightarrow> string) \<Rightarrow> string \<Rightarrow> json \<Rightarrow> step_signature \<Rightarrow> step_signature" where
  "with_tool_call show_json tool inp s = s\<lparr>sg_tool := Some (normalized_tool_call show_json tool inp)\<rparr>"

definition with_patch :: "(bytes \<Rightarrow> content_hash) \<Rightarrow> bytes \<Rightarrow> step_signature \<Rightarrow> step_signature" where
  "with_patch digest content s = s\<lparr>sg_patch := Some (digest content)\<rparr>"

definition with_error :: "string \<Rightarrow> step_signature \<Rightarrow> step_signature" where
  "with_error fp s = s\<lparr>sg_error := Some fp\<rparr>"

definition with_file_state :: "content_hash \<Rightarrow> step_signature \<Rightarrow> step_signature" where
  "with_file_state h s = s\<lparr>sg_file := Some h\<rparr>"

definition with_context :: "content_hash \<Rightarrow> step_signature \<Rightarrow> step_signature" where
  "with_context h s = s\<lparr>sg_context := Some h\<rparr>"

definition or_dash :: "string option \<Rightarrow> string" where
  "or_dash x = (case x of None \<Rightarrow> ''-'' | Some s \<Rightarrow> s)"

definition or_empty :: "content_hash option \<Rightarrow> string" where
  "or_empty x = (case x of None \<Rightarrow> [] | Some h \<Rightarrow> to_hex h)"

definition signature_key :: "step_signature \<Rightarrow> string" where
  "signature_key s = or_dash (sg_tool s) @ ''|'' @ or_empty (sg_patch s) @ ''|''
     @ or_dash (sg_error s) @ ''|'' @ or_empty (sg_file s)"

section \<open>Progress and findings\<close>

record progress_metric =
  pm_frontier :: nat
  pm_failures :: nat
  pm_touched :: "path list"

definition advanced_since :: "progress_metric \<Rightarrow> progress_metric \<Rightarrow> bool" where
  "advanced_since m prev \<longleftrightarrow> pm_frontier prev < pm_frontier m \<or> pm_failures m < pm_failures prev
     \<or> length (pm_touched prev) < length (pm_touched m)"

datatype loop_finding =
    ExactRepeat string nat
  | Oscillation nat
  | RepeatedFailure string nat
  | NoChangeIteration nat
  | FrontierStalled nat

fun finding_code :: "loop_finding \<Rightarrow> string" where
  "finding_code (ExactRepeat _ _) = ''exact_repeat''"
| "finding_code (Oscillation _) = ''oscillation''"
| "finding_code (RepeatedFailure _ _) = ''repeated_failure''"
| "finding_code (NoChangeIteration _) = ''no_change_iteration''"
| "finding_code (FrontierStalled _) = ''frontier_stalled''"

section \<open>The detector\<close>

record detector_config =
  dc_exact :: nat
  dc_period :: nat
  dc_failure :: nat
  dc_stall :: nat

definition default_config :: detector_config where
  "default_config = \<lparr>dc_exact = 3, dc_period = 3, dc_failure = 3, dc_stall = 3\<rparr>"

record loop_detector =
  ld_config :: detector_config
  ld_steps :: "step_signature list"
  ld_failures :: "string list"
  ld_progress :: "progress_metric list"
  ld_no_change :: nat
  ld_stalled :: nat

definition new_detector :: "detector_config \<Rightarrow> loop_detector" where
  "new_detector c = \<lparr>ld_config = c, ld_steps = [], ld_failures = [], ld_progress = [],
     ld_no_change = 0, ld_stalled = 0\<rparr>"

definition detect_exact_repeat :: "loop_detector \<Rightarrow> loop_finding option" where
  "detect_exact_repeat d =
     (if ld_steps d = [] then None
      else let l = last (ld_steps d) in
        if sg_tool l = None \<and> sg_patch l = None \<and> sg_error l = None then None
        else let key = signature_key l; run = streak (\<lambda>s. signature_key s = key) (ld_steps d) in
          if dc_exact (ld_config d) \<le> run then Some (ExactRepeat key run) else None)"

text \<open>\<open>tail.chunks(p).all(|c| c == cycle)\<close> on a list of three chunks.\<close>

definition oscillates :: "nat \<Rightarrow> string list \<Rightarrow> bool" where
  "oscillates p keys \<longleftrightarrow> p * 3 \<le> length keys \<and>
     (let tail = drop (length keys - p * 3) keys; cycle = take p tail in
       \<not> (\<forall>k \<in> set cycle. k = hd cycle)
       \<and> take p (drop p tail) = cycle \<and> take p (drop (2 * p) tail) = cycle)"

definition detect_oscillation :: "loop_detector \<Rightarrow> loop_finding option" where
  "detect_oscillation d = map_option Oscillation
     (find (\<lambda>p. oscillates p (map signature_key (ld_steps d))) [1..<Suc (dc_period (ld_config d))])"

definition next_no_change :: "step_signature list \<Rightarrow> step_signature \<Rightarrow> nat \<Rightarrow> nat" where
  "next_no_change steps s n =
     (case ((if steps = [] then None else sg_file (last steps)), sg_file s) of
        (Some prev, Some cur) \<Rightarrow> (if prev = cur then Suc n else 0)
      | _ \<Rightarrow> 0)"

definition observe_step :: "step_signature \<Rightarrow> loop_detector \<Rightarrow> loop_finding option \<times> loop_detector" where
  "observe_step s d =
     (let n = next_no_change (ld_steps d) s (ld_no_change d);
          d = d\<lparr>ld_no_change := n, ld_steps := ld_steps d @ [s]\<rparr>
      in (if dc_stall (ld_config d) \<le> n + 1
             \<and> list_ex (\<lambda>s. sg_tool s \<noteq> None \<or> sg_patch s \<noteq> None) (take (n + 1) (rev (ld_steps d)))
          then Some (NoChangeIteration (n + 1))
          else case detect_exact_repeat d of
            Some f \<Rightarrow> Some f
          | None \<Rightarrow> detect_oscillation d, d))"

definition observe_failure :: "string option \<Rightarrow> loop_detector \<Rightarrow> loop_finding option \<times> loop_detector" where
  "observe_failure fp d = (case fp of
     None \<Rightarrow> (None, d\<lparr>ld_failures := []\<rparr>)
   | Some f \<Rightarrow>
       (let d = d\<lparr>ld_failures := ld_failures d @ [f]\<rparr>; n = streak (\<lambda>g. g = f) (ld_failures d)
        in (if dc_failure (ld_config d) \<le> n then Some (RepeatedFailure f n) else None, d)))"

definition observe_progress :: "progress_metric \<Rightarrow> loop_detector \<Rightarrow> loop_finding option \<times> loop_detector" where
  "observe_progress m d =
     (let n = (if ld_progress d = [] then ld_stalled d
               else if advanced_since m (last (ld_progress d)) then 0 else Suc (ld_stalled d));
          d = d\<lparr>ld_stalled := n, ld_progress := ld_progress d @ [m]\<rparr>
      in (if dc_stall (ld_config d) \<le> n then Some (FrontierStalled n) else None, d))"

definition step_count :: "loop_detector \<Rightarrow> nat" where
  "step_count d = length (ld_steps d)"

end
