(* ===== verification/Repair_Ledger.thy ===== *)
theory Repair_Ledger
  imports Loop_Detect
begin

text \<open>
  The repair loop's bookkeeping (\<open>crates/valyria-agent/src/repair.rs\<close>): the attempts made so far
  and the decision what to do next. Counters are 32-bit, as in the code.
\<close>

datatype repair_outcome = Fixed | Improved | NoChange | Regressed

record fix_attempt =
  fa_attempt :: u32
  fa_fingerprint :: string
  fa_summary :: string
  fa_outcome :: repair_outcome

datatype repair_decision =
    Continue
  | EscalateStrategy
  | SwitchRole
  | AskUser string
  | GiveUp string

record repair_ledger =
  rl_attempts :: "fix_attempt list"
  rl_max :: u32
  rl_escalated :: bool
  rl_switched :: bool

definition new_repair :: "u32 \<Rightarrow> repair_ledger" where
  "new_repair mx = \<lparr>rl_attempts = [], rl_max = mx, rl_escalated = False, rl_switched = False\<rparr>"

definition repair_count :: "repair_ledger \<Rightarrow> u32" where
  "repair_count l = of_nat (length (rl_attempts l))"

definition repair_count_for :: "string \<Rightarrow> repair_ledger \<Rightarrow> u32" where
  "repair_count_for fp l = of_nat (length (filter (\<lambda>a. fa_fingerprint a = fp) (rl_attempts l)))"

definition mark_escalated :: "repair_ledger \<Rightarrow> repair_ledger" where
  "mark_escalated l = l\<lparr>rl_escalated := True\<rparr>"

definition mark_switched_role :: "repair_ledger \<Rightarrow> repair_ledger" where
  "mark_switched_role l = l\<lparr>rl_switched := True\<rparr>"

definition record_attempt :: "fix_attempt \<Rightarrow> repair_ledger \<Rightarrow> repair_ledger" where
  "record_attempt a l = l\<lparr>rl_attempts := rl_attempts l @
     [a\<lparr>fa_attempt := of_nat (length (rl_attempts l)) + 1\<rparr>]\<rparr>"

definition escalate_or_ask :: "string \<Rightarrow> repair_ledger \<Rightarrow> repair_decision" where
  "escalate_or_ask reason l =
     (if \<not> rl_escalated l then EscalateStrategy
      else if \<not> rl_switched l then SwitchRole
      else AskUser reason)"

definition decide :: "string \<Rightarrow> loop_finding option \<Rightarrow> repair_ledger \<Rightarrow> repair_decision" where
  "decide fp finding l =
     (if rl_max l \<le> repair_count l
      then GiveUp (show_nat (unat (repair_count l)) @ '' repair attempts made without a fix'')
      else if rl_attempts l \<noteq> [] \<and> fa_outcome (last (rl_attempts l)) = Regressed
      then escalate_or_ask ''the last repair introduced new failures'' l
      else case finding of
        Some f \<Rightarrow> (case f of
            Oscillation _ \<Rightarrow> AskUser ''repair is oscillating between two states''
          | _ \<Rightarrow> escalate_or_ask (''loop detector: '' @ finding_code f) l)
      | None \<Rightarrow>
          (if repair_count_for fp l = 0 \<or> repair_count_for fp l = 1 then Continue
           else if repair_count_for fp l = 2
           then escalate_or_ask ''same diagnosis after two attempts'' l
           else escalate_or_ask ''same diagnosis after three attempts'' l))"

section \<open>Lemmas\<close>

lemma record_attempt_simps [simp]:
  "length (rl_attempts (record_attempt a l)) = Suc (length (rl_attempts l))"
  "rl_max (record_attempt a l) = rl_max l" "rl_escalated (record_attempt a l) = rl_escalated l"
  "rl_switched (record_attempt a l) = rl_switched l"
  by (simp_all add: record_attempt_def)

lemma mark_simps [simp]:
  "rl_attempts (mark_escalated l) = rl_attempts l" "rl_attempts (mark_switched_role l) = rl_attempts l"
  "rl_max (mark_escalated l) = rl_max l" "rl_max (mark_switched_role l) = rl_max l"
  "rl_escalated (mark_escalated l)" "rl_switched (mark_switched_role l)"
  "rl_switched (mark_escalated l) = rl_switched l" "rl_escalated (mark_switched_role l) = rl_escalated l"
  by (simp_all add: mark_escalated_def mark_switched_role_def)

lemma escalate_or_ask_cases:
  "escalate_or_ask r l = EscalateStrategy \<and> \<not> rl_escalated l \<or>
   escalate_or_ask r l = SwitchRole \<and> rl_escalated l \<and> \<not> rl_switched l \<or>
   escalate_or_ask r l = AskUser r \<and> rl_escalated l \<and> rl_switched l"
  by (simp add: escalate_or_ask_def)

text \<open>Below the cap the ledger never gives up; at the cap it always does.\<close>

lemma decide_gives_up:
  assumes "length (rl_attempts l) < 2 ^ 32"
  shows "(\<exists>r. decide fp f l = GiveUp r) \<longleftrightarrow> unat (rl_max l) \<le> length (rl_attempts l)"
proof -
  have "unat (repair_count l) = length (rl_attempts l)"
    using assms by (simp add: repair_count_def unsigned_of_nat take_bit_nat_eq_self)
  then have "rl_max l \<le> repair_count l \<longleftrightarrow> unat (rl_max l) \<le> length (rl_attempts l)"
    by (simp add: word_le_nat_alt)
  then show ?thesis
    by (auto simp: decide_def escalate_or_ask_def split: option.splits loop_finding.splits)
qed

text \<open>Each escalation is decided at most once: after it was marked, the decision is another one.\<close>

lemma decide_escalates_once:
  "decide fp f l = EscalateStrategy \<Longrightarrow> \<not> rl_escalated l"
  "decide fp f l = SwitchRole \<Longrightarrow> rl_escalated l \<and> \<not> rl_switched l"
  by (auto simp: decide_def escalate_or_ask_def split: if_splits option.splits loop_finding.splits)

end
