(* ===== verification/Blob_Store.thy ===== *)
theory Blob_Store
  imports Content_Hash
begin

text \<open>
  The content-addressed blob store (\<open>crates/valyria-store/src/blob.rs\<close>): files below a root,
  sharded by the first four hexadecimal characters of the \<open>blake3\<close> digest of their content. The
  digest and the failures of the file system are parameters.

  The locale \<open>content_store\<close> is what the change ledger relies on: what was put can be read back
  under its digest, whatever is read has the digest it was asked for, and nothing that was there
  changes. It is interpreted on \<open>blob_put\<close> below.
\<close>

section \<open>The contract\<close>

locale content_store =
  fixes digest :: "bytes \<Rightarrow> content_hash"
    and put :: "bytes \<Rightarrow> 's \<Rightarrow> 's"
    and look :: "'s \<Rightarrow> content_hash \<Rightarrow> bytes option"
    and ok :: "'s \<Rightarrow> bool"
  assumes ok_put: "ok s \<Longrightarrow> ok (put b s)"
    and put_present: "look (put b s) (digest b) \<noteq> None"
    and put_keeps: "look s h = Some c \<Longrightarrow> look (put b s) h = Some c"
    and look_sound: "ok s \<Longrightarrow> look s h = Some c \<Longrightarrow> digest c = h"
begin

lemma put_digest:
  assumes "ok s" shows "\<exists>c. look (put b s) (digest b) = Some c \<and> digest c = digest b"
proof -
  obtain c where "look (put b s) (digest b) = Some c" using put_present by fastforce
  then show ?thesis using look_sound [OF ok_put [OF assms]] by blast
qed

text \<open>When the digest has no collision on the contents in play, reading gives the content back.\<close>

lemma put_exact:
  assumes "ok s" and "\<And>c. digest c = digest b \<Longrightarrow> c = b"
  shows "look (put b s) (digest b) = Some b"
  using put_digest [OF assms(1), of b] assms(2) by blast

text \<open>A set of hashes that can be read stays readable, and putting more contents only adds to it.\<close>

lemma put_all_keeps: "look s h = Some c \<Longrightarrow> look (fold put bs s) h = Some c"
  by (induction bs arbitrary: s) (auto intro: put_keeps)

lemma ok_put_all: "ok s \<Longrightarrow> ok (fold put bs s)"
  by (induction bs arbitrary: s) (auto intro: ok_put)

lemma put_all_present: "b \<in> set bs \<Longrightarrow> look (fold put bs s) (digest b) \<noteq> None"
proof (induction bs arbitrary: s)
  case (Cons a bs)
  then show ?case
    using put_present [of a s] put_all_keeps [of "put a s"] by fastforce
qed simp

end

section \<open>The store\<close>

datatype store_error =
    StoreIo string
  | BlobNotFound string
  | StoreSqlite string
  | StoreMigration int string
  | ActorShutDown
  | BlobHashMismatch string string

fun store_error_code :: "store_error \<Rightarrow> string" where
  "store_error_code (StoreSqlite _) = ''store.sqlite''"
| "store_error_code (StoreIo _) = ''store.io''"
| "store_error_code (StoreMigration _ _) = ''store.migration''"
| "store_error_code ActorShutDown = ''store.actor_shutdown''"
| "store_error_code (BlobNotFound _) = ''store.blob_not_found''"
| "store_error_code (BlobHashMismatch _ _) = ''store.blob_hash_mismatch''"

text \<open>The files below the root, by the path relative to it; the failures of the file system.\<close>

type_synonym blob_files = "string list \<rightharpoonup> bytes"

record blob_io =
  blob_write_err :: "blob_files \<Rightarrow> string list \<Rightarrow> bytes \<Rightarrow> string option"
  blob_read_err :: "blob_files \<Rightarrow> string list \<Rightarrow> string option"
  blob_remove_err :: "blob_files \<Rightarrow> string list \<Rightarrow> string option"

definition path_for :: "content_hash \<Rightarrow> string list" where
  "path_for h = (let hex = to_hex h in [take 2 hex, take 2 (drop 2 hex), hex])"

definition blob_exists :: "blob_files \<Rightarrow> content_hash \<Rightarrow> bool" where
  "blob_exists fs h \<longleftrightarrow> fs (path_for h) \<noteq> None"

definition blob_put ::
  "(bytes \<Rightarrow> content_hash) \<Rightarrow> blob_io \<Rightarrow> bytes \<Rightarrow> blob_files
    \<Rightarrow> (store_error + content_hash) \<times> blob_files" where
  "blob_put digest io b fs =
     (let h = digest b in
      if blob_exists fs h then (Inr h, fs)
      else case blob_write_err io fs (path_for h) b of
        Some e \<Rightarrow> (Inl (StoreIo e), fs)
      | None \<Rightarrow> (Inr h, fs(path_for h \<mapsto> b)))"

definition blob_get :: "blob_io \<Rightarrow> blob_files \<Rightarrow> content_hash \<Rightarrow> store_error + bytes" where
  "blob_get io fs h =
     (case blob_read_err io fs (path_for h) of
        Some e \<Rightarrow> Inl (StoreIo e)
      | None \<Rightarrow> (case fs (path_for h) of
          None \<Rightarrow> Inl (BlobNotFound (to_hex h))
        | Some b \<Rightarrow> Inr b))"

definition blob_delete ::
  "blob_io \<Rightarrow> content_hash \<Rightarrow> blob_files \<Rightarrow> (store_error + unit) \<times> blob_files" where
  "blob_delete io h fs =
     (case blob_remove_err io fs (path_for h) of
        Some e \<Rightarrow> (Inl (StoreIo e), fs)
      | None \<Rightarrow> (Inr (), fs(path_for h := None)))"

definition blob_purge :: "blob_files" where
  "blob_purge = Map.empty"

section \<open>The contract holds\<close>

lemma path_for_inject [simp]: "path_for a = path_for b \<longleftrightarrow> a = b"
  by (auto simp: path_for_def to_hex_def Let_def)

text \<open>Every file of the store is named after the digest of its content.\<close>

definition blobs_ok :: "(bytes \<Rightarrow> content_hash) \<Rightarrow> blob_files \<Rightarrow> bool" where
  "blobs_ok digest fs \<longleftrightarrow> (\<forall>h b. fs (path_for h) = Some b \<longrightarrow> digest b = h)"

text \<open>The store after a \<open>put\<close> that does not fail.\<close>

definition put_ok :: "(bytes \<Rightarrow> content_hash) \<Rightarrow> bytes \<Rightarrow> blob_files \<Rightarrow> blob_files" where
  "put_ok digest b fs =
     (if blob_exists fs (digest b) then fs else fs(path_for (digest b) \<mapsto> b))"

lemma blob_put_cases:
  "blob_put digest io b fs = (Inr (digest b), put_ok digest b fs)
   \<or> (\<exists>e. blob_put digest io b fs = (Inl (StoreIo e), fs))"
  by (auto simp: blob_put_def put_ok_def Let_def split: option.splits)

lemma blob_put_Inr: "blob_put digest io b fs = (Inr h, fs') \<Longrightarrow> h = digest b \<and> fs' = put_ok digest b fs"
  using blob_put_cases [of digest io b fs] by auto

lemma blobs_ok_put [keeps]: "blobs_ok digest fs \<Longrightarrow> blobs_ok digest (put_ok digest b fs)"
  by (auto simp: blobs_ok_def put_ok_def)

interpretation bs: content_store digest "put_ok digest" "\<lambda>fs h. fs (path_for h)" "blobs_ok digest"
  for digest :: "bytes \<Rightarrow> content_hash"
  by unfold_locales (auto simp: blobs_ok_put, auto simp: put_ok_def blob_exists_def blobs_ok_def)

lemma blob_get_Inr: "blob_get io fs h = Inr b \<Longrightarrow> fs (path_for h) = Some b"
  by (auto simp: blob_get_def split: option.splits)

lemma blobs_ok_delete [keeps]:
  "blobs_ok digest fs \<Longrightarrow> blobs_ok digest (snd (blob_delete io h fs))"
  by (auto simp: blobs_ok_def blob_delete_def split: option.splits)

text \<open>A store whose file system does not fail, and the contents stored one after the other.\<close>

definition quiet_io :: "blob_io \<Rightarrow> bool" where
  "quiet_io io \<longleftrightarrow> (\<forall>fs p b. blob_write_err io fs p b = None) \<and> (\<forall>fs p. blob_read_err io fs p = None)"

definition put_all ::
  "(bytes \<Rightarrow> content_hash) \<Rightarrow> blob_io \<Rightarrow> bytes list \<Rightarrow> blob_files \<Rightarrow> blob_files" where
  "put_all digest io cs fs = fold (\<lambda>b fs. snd (blob_put digest io b fs)) cs fs"

lemma put_all_quiet: "quiet_io io \<Longrightarrow> put_all digest io cs fs = fold (put_ok digest) cs fs"
proof -
  assume "quiet_io io"
  then have "(\<lambda>b fs. snd (blob_put digest io b fs)) = put_ok digest"
    by (auto simp: fun_eq_iff blob_put_def put_ok_def quiet_io_def Let_def)
  then show ?thesis by (simp add: put_all_def)
qed

text \<open>After any number of puts that do not fail every one of the contents can be read back under
  its digest, what is read always has the digest it was asked for, nothing stored before changes,
  and with a collision-free digest the very content comes back.\<close>

theorem blobs_readable:
  assumes "blobs_ok digest fs" and "quiet_io io"
  shows "(\<forall>b \<in> set cs. \<exists>c. blob_get io (put_all digest io cs fs) (digest b) = Inr c
           \<and> digest c = digest b \<and> (inj digest \<longrightarrow> c = b))
    \<and> (\<forall>h b. blob_get io fs h = Inr b \<longrightarrow> blob_get io (put_all digest io cs fs) h = Inr b)"
  unfolding put_all_quiet [OF assms(2)]
proof (intro conjI ballI allI impI)
  fix b assume "b \<in> set cs"
  then obtain c where c: "fold (put_ok digest) cs fs (path_for (digest b)) = Some c"
    using bs.put_all_present [of b cs digest fs] by fastforce
  then have "digest c = digest b"
    using bs.look_sound [OF bs.ok_put_all [OF assms(1)]] by blast
  with c assms(2) show "\<exists>c. blob_get io (fold (put_ok digest) cs fs) (digest b) = Inr c
      \<and> digest c = digest b \<and> (inj digest \<longrightarrow> c = b)"
    by (auto simp: blob_get_def quiet_io_def dest: injD)
next
  fix h b assume "blob_get io fs h = Inr b"
  then have "fs (path_for h) = Some b" by (rule blob_get_Inr)
  then show "blob_get io (fold (put_ok digest) cs fs) h = Inr b"
    using bs.put_all_keeps [of fs h b digest cs] assms(2) by (simp add: blob_get_def quiet_io_def)
qed

definition calm_blobs :: blob_io where
  "calm_blobs = \<lparr>blob_write_err = \<lambda>fs p b. None, blob_read_err = \<lambda>fs p. None,
     blob_remove_err = \<lambda>fs p. None\<rparr>"

lemma calm_blobs_simps [simp]:
  "blob_write_err calm_blobs fs p b = None" "blob_read_err calm_blobs fs p = None"
  "blob_remove_err calm_blobs fs p = None"
  by (simp_all add: calm_blobs_def)

theorem blobs_readable_witness:
  "blob_get calm_blobs (put_all id calm_blobs [[1], [2, 3]] Map.empty) [2, 3] = Inr [2, 3]"
  using blobs_readable [where digest = id and fs = Map.empty and io = calm_blobs
    and cs = "[[1], [2, 3]]"]
  by (simp add: blobs_ok_def quiet_io_def)

end
