(* ===== verification/Ledger.thy ===== *)
theory Ledger
  imports Blob_Store Vfs_Path
begin

text \<open>
  The change ledger (\<open>crates/valyria-ledger/src/ledger.rs\<close>, \<open>types.rs\<close>): the baselines of the
  files a task touches, the append-only list of agent-authored changes, the blob store that retains
  what a change overwrote, the classification of an observed state and the roll-back of one entry.
  The ledger is in memory; its blobs and the workspace are files. Fresh entry ids and the clock's
  reading are arguments. \<open>env\<close> bundles what the ledger runs on: the digest, the file systems and the
  workspace root.
\<close>

section \<open>State\<close>

datatype agent_file_state = Untouched | Written content_hash | Deleted

datatype change_classification =
    AgentAuthored | PreExisting | ConcurrentUserModification | UnknownChange

record ledger_entry =
  le_id :: ledger_entry_id
  le_task :: task_id
  le_step :: step_id
  le_invocation :: "tool_invocation_id option"
  le_path :: path
  le_before :: "content_hash option"
  le_after :: "content_hash option"
  le_time :: timestamp
  le_retained :: bool
  le_reverts :: "ledger_entry_id option"

record file_baseline =
  fb_path :: path
  fb_start :: "content_hash option"
  fb_state :: agent_file_state

datatype ledger_error =
    UnknownEntry ledger_entry_id
  | RollbackConflict
  | ContentNotRetained
  | LedgerVfs vfs_error
  | LedgerStore store_error

fun ledger_error_code :: "ledger_error \<Rightarrow> string" where
  "ledger_error_code (UnknownEntry _) = ''ledger.unknown_entry''"
| "ledger_error_code RollbackConflict = ''ledger.rollback_conflict''"
| "ledger_error_code ContentNotRetained = ''ledger.content_not_retained''"
| "ledger_error_code (LedgerVfs _) = ''ledger.vfs''"
| "ledger_error_code (LedgerStore _) = ''ledger.store''"

record ledger =
  lg_baselines :: "path \<rightharpoonup> file_baseline"
  lg_entries :: "ledger_entry list"
  lg_blobs :: blob_files

record env =
  env_digest :: "bytes \<Rightarrow> content_hash"
  env_blob :: blob_io
  env_os :: os
  env_root :: workspace_root

definition new_ledger :: "blob_files \<Rightarrow> ledger" where
  "new_ledger fs = \<lparr>lg_baselines = Map.empty, lg_entries = [], lg_blobs = fs\<rparr>"

section \<open>Operations\<close>

definition untouched :: "path \<Rightarrow> content_hash option \<Rightarrow> file_baseline" where
  "untouched p h = \<lparr>fb_path = p, fb_start = h, fb_state = Untouched\<rparr>"

definition record_baseline :: "path \<Rightarrow> content_hash option \<Rightarrow> ledger \<Rightarrow> ledger" where
  "record_baseline p h l = (case lg_baselines l p of
     Some _ \<Rightarrow> l
   | None \<Rightarrow> l\<lparr>lg_baselines := (lg_baselines l)(p \<mapsto> untouched p h)\<rparr>)"

definition set_agent_state ::
  "path \<Rightarrow> content_hash option \<Rightarrow> agent_file_state \<Rightarrow> ledger \<Rightarrow> ledger" where
  "set_agent_state p h st l =
     (let b = (case lg_baselines l p of Some b \<Rightarrow> b | None \<Rightarrow> untouched p h)
      in l\<lparr>lg_baselines := (lg_baselines l)(p \<mapsto> b\<lparr>fb_state := st\<rparr>)\<rparr>)"

definition push_entry ::
  "env \<Rightarrow> task_id \<Rightarrow> step_id \<Rightarrow> tool_invocation_id option \<Rightarrow> path \<Rightarrow> content_hash option
    \<Rightarrow> bytes option \<Rightarrow> content_hash option \<Rightarrow> ledger_entry_id option \<Rightarrow> ledger_entry_id
    \<Rightarrow> timestamp \<Rightarrow> ledger \<Rightarrow> (ledger_error + ledger_entry_id) \<times> ledger" where
  "push_entry env tid sid call p before content after reverts fresh now l =
     then_do
       (case content of
          Some c \<Rightarrow> (case blob_put (env_digest env) (env_blob env) c (lg_blobs l) of
              (Inl e, fs) \<Rightarrow> (Inl (LedgerStore e), l\<lparr>lg_blobs := fs\<rparr>)
            | (Inr _, fs) \<Rightarrow> (Inr True, l\<lparr>lg_blobs := fs\<rparr>))
        | None \<Rightarrow> (Inr False, l))
       (\<lambda>retained l. (Inr fresh, l\<lparr>lg_entries := lg_entries l @
          [\<lparr>le_id = fresh, le_task = tid, le_step = sid, le_invocation = call, le_path = p,
            le_before = before, le_after = after, le_time = now, le_retained = retained,
            le_reverts = reverts\<rparr>]\<rparr>))"

definition record_write ::
  "env \<Rightarrow> task_id \<Rightarrow> step_id \<Rightarrow> tool_invocation_id option \<Rightarrow> path \<Rightarrow> content_hash option
    \<Rightarrow> bytes option \<Rightarrow> content_hash \<Rightarrow> ledger_entry_id \<Rightarrow> timestamp \<Rightarrow> ledger
    \<Rightarrow> (ledger_error + ledger_entry_id) \<times> ledger" where
  "record_write env tid sid call p before content after fresh now l =
     then_do (push_entry env tid sid call p before content (Some after) None fresh now l)
       (\<lambda>i l. (Inr i, set_agent_state p before (Written after) l))"

definition record_delete ::
  "env \<Rightarrow> task_id \<Rightarrow> step_id \<Rightarrow> tool_invocation_id option \<Rightarrow> path \<Rightarrow> content_hash
    \<Rightarrow> bytes option \<Rightarrow> ledger_entry_id \<Rightarrow> timestamp \<Rightarrow> ledger
    \<Rightarrow> (ledger_error + ledger_entry_id) \<times> ledger" where
  "record_delete env tid sid call p before content fresh now l =
     then_do (push_entry env tid sid call p (Some before) content None None fresh now l)
       (\<lambda>i l. (Inr i, set_agent_state p (Some before) Deleted l))"

definition push_rehydrated_entry ::
  "task_id \<Rightarrow> step_id \<Rightarrow> tool_invocation_id option \<Rightarrow> path \<Rightarrow> content_hash option
    \<Rightarrow> content_hash option \<Rightarrow> ledger_entry_id option \<Rightarrow> ledger_entry_id \<Rightarrow> timestamp
    \<Rightarrow> ledger \<Rightarrow> ledger" where
  "push_rehydrated_entry tid sid call p before after reverts fresh now l =
     l\<lparr>lg_entries := lg_entries l @
       [\<lparr>le_id = fresh, le_task = tid, le_step = sid, le_invocation = call, le_path = p,
         le_before = before, le_after = after, le_time = now,
         le_retained = (case before of Some h \<Rightarrow> blob_exists (lg_blobs l) h | None \<Rightarrow> False),
         le_reverts = reverts\<rparr>]\<rparr>"

definition rehydrate_write ::
  "task_id \<Rightarrow> step_id \<Rightarrow> tool_invocation_id option \<Rightarrow> path \<Rightarrow> content_hash option
    \<Rightarrow> content_hash \<Rightarrow> ledger_entry_id \<Rightarrow> timestamp \<Rightarrow> ledger \<Rightarrow> ledger" where
  "rehydrate_write tid sid call p before after fresh now l =
     set_agent_state p before (Written after)
       (push_rehydrated_entry tid sid call p before (Some after) None fresh now l)"

definition rehydrate_delete ::
  "task_id \<Rightarrow> step_id \<Rightarrow> tool_invocation_id option \<Rightarrow> path \<Rightarrow> content_hash
    \<Rightarrow> ledger_entry_id \<Rightarrow> timestamp \<Rightarrow> ledger \<Rightarrow> ledger" where
  "rehydrate_delete tid sid call p before fresh now l =
     set_agent_state p (Some before) Deleted
       (push_rehydrated_entry tid sid call p (Some before) None None fresh now l)"

definition classify :: "ledger \<Rightarrow> path \<Rightarrow> content_hash option \<Rightarrow> change_classification" where
  "classify l p obs = (case lg_baselines l p of
     None \<Rightarrow> UnknownChange
   | Some b \<Rightarrow> (case fb_state b of
       Written h \<Rightarrow> if Some h = obs then AgentAuthored else ConcurrentUserModification
     | Deleted \<Rightarrow> if obs = None then AgentAuthored else ConcurrentUserModification
     | Untouched \<Rightarrow> if fb_start b = obs then PreExisting else ConcurrentUserModification))"

definition entries_for_task :: "ledger \<Rightarrow> task_id \<Rightarrow> ledger_entry list" where
  "entries_for_task l tid = filter (\<lambda>e. le_task e = tid) (lg_entries l)"

definition entry_of :: "ledger \<Rightarrow> ledger_entry_id \<Rightarrow> ledger_entry option" where
  "entry_of l i = find (\<lambda>e. le_id e = i) (lg_entries l)"

section \<open>Roll-back of one entry\<close>

text \<open>The file system part of \<open>rollback_entry\<close>: restore the retained content, or remove the file.\<close>

definition restore_file ::
  "env \<Rightarrow> ledger \<Rightarrow> ledger_entry \<Rightarrow> real_path \<Rightarrow> disk \<Rightarrow> (ledger_error + unit) \<times> disk" where
  "restore_file env l e q d = (case le_before e of
     Some h \<Rightarrow>
       (if \<not> le_retained e then (Inl ContentNotRetained, d)
        else case blob_get (env_blob env) (lg_blobs l) h of
          Inl x \<Rightarrow> (Inl (LedgerStore x), d)
        | Inr content \<Rightarrow> (case write_atomic (env_os env) q content d of
            (Inl x, d') \<Rightarrow> (Inl (LedgerVfs x), d')
          | (Inr _, d') \<Rightarrow> (Inr (), d')))
   | None \<Rightarrow> (case fs_remove (env_os env) q d of
       (Inl (Some x), d') \<Rightarrow> (Inl (LedgerVfs (VfsIo q x)), d')
     | (Inl None, d') \<Rightarrow> (Inr (), d')
     | (Inr _, d') \<Rightarrow> (Inr (), d')))"

definition restored_state :: "ledger_entry \<Rightarrow> agent_file_state" where
  "restored_state e = (case le_before e of Some h \<Rightarrow> Written h | None \<Rightarrow> Deleted)"

definition modify_state :: "path \<Rightarrow> agent_file_state \<Rightarrow> ledger \<Rightarrow> ledger" where
  "modify_state p st l = l\<lparr>lg_baselines := (\<lambda>q.
     if q = p then map_option (\<lambda>b. b\<lparr>fb_state := st\<rparr>) (lg_baselines l q) else lg_baselines l q)\<rparr>"

definition rollback_entry ::
  "env \<Rightarrow> ledger_entry_id \<Rightarrow> content_hash option \<Rightarrow> task_id \<Rightarrow> step_id \<Rightarrow> ledger_entry_id
    \<Rightarrow> timestamp \<Rightarrow> ledger \<times> disk \<Rightarrow> (ledger_error + unit) \<times> (ledger \<times> disk)" where
  "rollback_entry env i current tid sid fresh now w =
     (let (l, d) = w in
      case entry_of l i of
        None \<Rightarrow> (Inl (UnknownEntry i), w)
      | Some e \<Rightarrow>
          if current \<noteq> le_after e then (Inl RollbackConflict, w)
          else case resolve (env_os env) (env_root env) d (le_path e) of
            Inl x \<Rightarrow> (Inl (LedgerVfs x), w)
          | Inr q \<Rightarrow>
              (case restore_file env l e q d of
                 (Inl x, d') \<Rightarrow> (Inl x, (l, d'))
               | (Inr _, d') \<Rightarrow>
                   (case push_entry env tid sid None (le_path e) (le_after e) None (le_before e)
                       (Some i) fresh now l of
                      (Inl x, l') \<Rightarrow> (Inl x, (l', d'))
                    | (Inr _, l') \<Rightarrow>
                        (Inr (), (modify_state (le_path e) (restored_state e) l', d')))))"

section \<open>The frame of the operations\<close>

lemma lg_baselines_set_agent_state:
  "lg_baselines (set_agent_state p h st l) = (lg_baselines l)(p \<mapsto>
     (case lg_baselines l p of Some b \<Rightarrow> b | None \<Rightarrow> untouched p h)\<lparr>fb_state := st\<rparr>)"
  by (simp add: set_agent_state_def)

lemma set_agent_state_frame [frame, simp]:
  "lg_entries (set_agent_state p h st l) = lg_entries l"
  "lg_blobs (set_agent_state p h st l) = lg_blobs l"
  by (simp_all add: set_agent_state_def)

lemma modify_state_frame [frame, simp]:
  "lg_entries (modify_state p st l) = lg_entries l"
  "lg_blobs (modify_state p st l) = lg_blobs l"
  by (simp_all add: modify_state_def)

lemma lg_baselines_modify_state:
  "lg_baselines (modify_state p st l) = (\<lambda>q. if q = p
     then map_option (\<lambda>b. b\<lparr>fb_state := st\<rparr>) (lg_baselines l q) else lg_baselines l q)"
  by (simp add: modify_state_def)

lemma record_baseline_frame [frame, simp]:
  "lg_entries (record_baseline p h l) = lg_entries l"
  "lg_blobs (record_baseline p h l) = lg_blobs l"
  by (simp_all add: record_baseline_def split: option.splits)

lemma rehydrated_frame [frame, simp]:
  "lg_baselines (push_rehydrated_entry tid sid call p b a rv i now l) = lg_baselines l"
  "lg_blobs (push_rehydrated_entry tid sid call p b a rv i now l) = lg_blobs l"
  by (simp_all add: push_rehydrated_entry_def)

text \<open>What \<open>push_entry\<close> does: it fails without effect, or appends one entry and stores the content.\<close>

definition new_entry ::
  "task_id \<Rightarrow> step_id \<Rightarrow> tool_invocation_id option \<Rightarrow> path \<Rightarrow> content_hash option
    \<Rightarrow> content_hash option \<Rightarrow> ledger_entry_id option \<Rightarrow> ledger_entry_id \<Rightarrow> timestamp \<Rightarrow> bool
    \<Rightarrow> ledger_entry" where
  "new_entry tid sid call p before after reverts fresh now retained =
     \<lparr>le_id = fresh, le_task = tid, le_step = sid, le_invocation = call, le_path = p,
       le_before = before, le_after = after, le_time = now, le_retained = retained,
       le_reverts = reverts\<rparr>"

lemma new_entry_simps [simp]:
  "le_id (new_entry t s c p b a rv i n rt) = i" "le_task (new_entry t s c p b a rv i n rt) = t"
  "le_path (new_entry t s c p b a rv i n rt) = p" "le_before (new_entry t s c p b a rv i n rt) = b"
  "le_after (new_entry t s c p b a rv i n rt) = a"
  "le_retained (new_entry t s c p b a rv i n rt) = rt"
  "le_reverts (new_entry t s c p b a rv i n rt) = rv"
  by (simp_all add: new_entry_def)

definition pushed :: "env \<Rightarrow> bytes option \<Rightarrow> ledger_entry \<Rightarrow> ledger \<Rightarrow> ledger" where
  "pushed env content e l = l\<lparr>lg_entries := lg_entries l @ [e],
     lg_blobs := (case content of None \<Rightarrow> lg_blobs l | Some c \<Rightarrow> put_ok (env_digest env) c (lg_blobs l))\<rparr>"

lemma pushed_simps [simp]:
  "lg_entries (pushed env content e l) = lg_entries l @ [e]"
  "lg_baselines (pushed env content e l) = lg_baselines l"
  "lg_blobs (pushed env content e l) =
     (case content of None \<Rightarrow> lg_blobs l | Some c \<Rightarrow> put_ok (env_digest env) c (lg_blobs l))"
  by (simp_all add: pushed_def)

lemma push_entry_cases:
  "push_entry env tid sid call p before content after rv i now l =
     (Inr i, pushed env content (new_entry tid sid call p before after rv i now (content \<noteq> None)) l)
   \<or> (content \<noteq> None \<and> (\<exists>x. push_entry env tid sid call p before content after rv i now l
        = (Inl (LedgerStore x), l)))"
proof (cases content)
  case None
  then show ?thesis by (simp add: push_entry_def pushed_def new_entry_def)
next
  case (Some c)
  show ?thesis
    using blob_put_cases [of "env_digest env" "env_blob env" c "lg_blobs l"]
    by (auto simp: Some push_entry_def pushed_def new_entry_def)
qed

lemma push_entry_None:
  "push_entry env tid sid call p before None after rv i now l =
     (Inr i, pushed env None (new_entry tid sid call p before after rv i now False) l)"
  using push_entry_cases [of env tid sid call p before None after rv i now l] by simp

lemma record_write_cases:
  "record_write env tid sid call p before content after i now l =
     (Inr i, set_agent_state p before (Written after) (pushed env content
        (new_entry tid sid call p before (Some after) None i now (content \<noteq> None)) l))
   \<or> (\<exists>x. record_write env tid sid call p before content after i now l = (Inl (LedgerStore x), l))"
  using push_entry_cases [of env tid sid call p before content "Some after" None i now l]
  by (auto simp: record_write_def)

lemma record_delete_cases:
  "record_delete env tid sid call p before content i now l =
     (Inr i, set_agent_state p (Some before) Deleted (pushed env content
        (new_entry tid sid call p (Some before) None None i now (content \<noteq> None)) l))
   \<or> (\<exists>x. record_delete env tid sid call p before content i now l = (Inl (LedgerStore x), l))"
  using push_entry_cases [of env tid sid call p "Some before" content None None i now l]
  by (auto simp: record_delete_def)

text \<open>What \<open>rollback_entry\<close> does: it fails and changes nothing, or restores the file and records it.\<close>

lemma restore_file_cases:
  "(\<exists>x. restore_file env l e q d = (Inl x, d)) \<or>
   (case le_before e of
      Some h \<Rightarrow> (\<exists>c. lg_blobs l (path_for h) = Some c \<and> le_retained e
        \<and> restore_file env l e q d = (Inr (), d(q \<mapsto> c)))
    | None \<Rightarrow> restore_file env l e q d = (Inr (), d(q := None)))"
  by (auto simp: restore_file_def write_atomic_def fs_remove_def dest: blob_get_Inr
      split: option.splits sum.splits)

definition revert_entry ::
  "ledger_entry \<Rightarrow> task_id \<Rightarrow> step_id \<Rightarrow> ledger_entry_id \<Rightarrow> timestamp \<Rightarrow> ledger_entry" where
  "revert_entry e tid sid fresh now =
     new_entry tid sid None (le_path e) (le_after e) (le_before e) (Some (le_id e)) fresh now False"

lemma entry_of_id: "entry_of l i = Some e \<Longrightarrow> le_id e = i \<and> e \<in> set (lg_entries l)"
  by (auto simp: entry_of_def dest: find_SomeD)

lemma rollback_entry_cases:
  obtains (err) x where "rollback_entry env i cur tid sid fresh now (l, d) = (Inl x, (l, d))"
  | (ok) e q d' where "entry_of l i = Some e" "cur = le_after e"
      "resolve (env_os env) (env_root env) d (le_path e) = Inr q"
      "restore_file env l e q d = (Inr (), d')"
      "rollback_entry env i cur tid sid fresh now (l, d) = (Inr (),
         (modify_state (le_path e) (restored_state e)
           (pushed env None (revert_entry e tid sid fresh now) l), d'))"
proof (cases "entry_of l i")
  case None
  then show ?thesis by (intro err) (simp add: rollback_entry_def)
next
  case e: (Some e)
  show ?thesis
  proof (cases "cur = le_after e")
    case False
    then show ?thesis using e by (intro err) (simp add: rollback_entry_def)
  next
    case cur: True
    show ?thesis
    proof (cases "resolve (env_os env) (env_root env) d (le_path e)")
      case (Inl x)
      then show ?thesis using e cur by (intro err) (simp add: rollback_entry_def)
    next
      case q: (Inr q)
      consider x where "restore_file env l e q d = (Inl x, d)"
        | d' where "restore_file env l e q d = (Inr (), d')"
        using restore_file_cases [of env l e q d] by (auto split: option.splits)
      then show ?thesis
      proof cases
        case 1
        then show ?thesis using e cur q by (intro err) (simp add: rollback_entry_def)
      next
        case (2 d')
        then show ?thesis using e cur q entry_of_id [OF e]
          by (intro ok [OF e cur q 2]) (simp add: rollback_entry_def push_entry_None revert_entry_def)
      qed
    qed
  qed
qed

section \<open>What the ledger believes is what its history says\<close>

definition last_for :: "path \<Rightarrow> ledger_entry list \<Rightarrow> ledger_entry option" where
  "last_for p es = find (\<lambda>e. le_path e = p) (rev es)"

lemma last_for_Nil [simp]: "last_for p [] = None"
  by (simp add: last_for_def)

lemma last_for_snoc [simp]:
  "last_for p (es @ [e]) = (if le_path e = p then Some e else last_for p es)"
  by (simp add: last_for_def)

definition state_of :: "content_hash option \<Rightarrow> agent_file_state" where
  "state_of a = (case a of Some h \<Rightarrow> Written h | None \<Rightarrow> Deleted)"

lemma state_of_simps [simp]: "state_of (Some h) = Written h" "state_of None = Deleted"
  by (simp_all add: state_of_def)

lemma restored_state_of: "restored_state e = state_of (le_before e)"
  by (simp add: restored_state_def state_of_def)

definition view_at :: "ledger \<Rightarrow> path \<Rightarrow> bool" where
  "view_at l p \<longleftrightarrow> (case last_for p (lg_entries l) of
     None \<Rightarrow> (\<forall>b. lg_baselines l p = Some b \<longrightarrow> fb_state b = Untouched)
   | Some e \<Rightarrow> (\<exists>b. lg_baselines l p = Some b \<and> fb_state b = state_of (le_after e)))"

definition view_ok :: "ledger \<Rightarrow> bool" where
  "view_ok l \<longleftrightarrow> (\<forall>p. view_at l p)"

lemma view_okI:
  assumes "view_ok l" and "\<And>q. view_at l q \<Longrightarrow> view_at l' q"
  shows "view_ok l'"
  using assms by (simp add: view_ok_def)

text \<open>The steps: every operation of the ledger, with any outcome, and any change of the disk.\<close>

inductive ledger_step :: "env \<Rightarrow> ledger \<times> disk \<Rightarrow> ledger \<times> disk \<Rightarrow> bool" for env where
  step_baseline: "ledger_step env (l, d) (record_baseline p h l, d)"
| step_write: "record_write env tid sid call p before content after i now l = (r, l')
    \<Longrightarrow> ledger_step env (l, d) (l', d)"
| step_delete: "record_delete env tid sid call p h content i now l = (r, l')
    \<Longrightarrow> ledger_step env (l, d) (l', d)"
| step_rehydrate_write:
    "ledger_step env (l, d) (rehydrate_write tid sid call p before after i now l, d)"
| step_rehydrate_delete:
    "ledger_step env (l, d) (rehydrate_delete tid sid call p h i now l, d)"
| step_rollback: "rollback_entry env i cur tid sid fresh now (l, d) = (r, w')
    \<Longrightarrow> ledger_step env (l, d) w'"
| step_disk: "ledger_step env (l, d) (l, d')"

inductive_cases ledger_stepE: "ledger_step env w w'"

lemma view_ok_new [simp]: "view_ok (new_ledger fs)"
  by (simp add: view_ok_def view_at_def new_ledger_def)

lemma view_ok_baseline [keeps]: "view_ok l \<Longrightarrow> view_ok (record_baseline p h l)"
  by (erule view_okI) (auto simp: view_at_def record_baseline_def untouched_def split: option.splits)

lemma view_ok_push:
  assumes "view_ok l" and "lg_entries l' = lg_entries l @ [e]"
    and "lg_baselines l' = lg_baselines l" and "le_path e = p" and "st = state_of (le_after e)"
  shows "view_ok (set_agent_state p h st l')"
  using assms(1)
  by (rule view_okI)
    (use assms(2-) in \<open>auto simp: view_at_def lg_baselines_set_agent_state split: option.splits\<close>)

lemma view_ok_write [keeps]:
  "view_ok l \<Longrightarrow> record_write env tid sid call p before content after i now l = (r, l') \<Longrightarrow> view_ok l'"
  using record_write_cases [of env tid sid call p before content after i now l]
  by (auto intro!: view_ok_push)

lemma view_ok_delete [keeps]:
  "view_ok l \<Longrightarrow> record_delete env tid sid call p h content i now l = (r, l') \<Longrightarrow> view_ok l'"
  using record_delete_cases [of env tid sid call p h content i now l]
  by (auto intro!: view_ok_push)

lemma rehydrated_entries:
  "lg_entries (push_rehydrated_entry tid sid call p b a rv i now l) = lg_entries l
     @ [new_entry tid sid call p b a rv i now
          (case b of Some h \<Rightarrow> blob_exists (lg_blobs l) h | None \<Rightarrow> False)]"
  by (simp add: push_rehydrated_entry_def new_entry_def)

lemma view_ok_rehydrate [keeps]:
  "view_ok l \<Longrightarrow> view_ok (rehydrate_write tid sid call p before after i now l)"
  "view_ok l \<Longrightarrow> view_ok (rehydrate_delete tid sid call p h i now l)"
  by (auto intro!: view_ok_push simp: rehydrate_write_def rehydrate_delete_def rehydrated_entries)

lemma last_for_member: "e \<in> set es \<Longrightarrow> \<exists>e'. last_for (le_path e) es = Some e' \<and> le_path e' = le_path e"
proof -
  assume "e \<in> set es"
  then have "last_for (le_path e) es \<noteq> None"
    by (auto simp: last_for_def find_None_iff_set simp del: not_None_eq)
  then show ?thesis by (auto simp: last_for_def dest: find_SomeD)
qed

lemma view_ok_revert:
  assumes v: "view_ok l" and e: "entry_of l i = Some e"
  shows "view_ok (modify_state (le_path e) (restored_state e)
      (pushed env None (revert_entry e tid sid fresh now) l))"
    and "\<exists>b. lg_baselines (modify_state (le_path e) (restored_state e)
      (pushed env None (revert_entry e tid sid fresh now) l)) (le_path e) = Some b
      \<and> fb_state b = state_of (le_before e)"
proof -
  have "e \<in> set (lg_entries l)" using entry_of_id [OF e] by simp
  then obtain e' where "last_for (le_path e) (lg_entries l) = Some e'"
    using last_for_member [of e "lg_entries l"] by blast
  moreover have "view_at l (le_path e)" using v by (simp add: view_ok_def)
  ultimately obtain b where b: "lg_baselines l (le_path e) = Some b"
    by (auto simp: view_at_def)
  then show "\<exists>b. lg_baselines (modify_state (le_path e) (restored_state e)
      (pushed env None (revert_entry e tid sid fresh now) l)) (le_path e) = Some b
      \<and> fb_state b = state_of (le_before e)"
    by (simp add: lg_baselines_modify_state restored_state_of)
  show "view_ok (modify_state (le_path e) (restored_state e)
      (pushed env None (revert_entry e tid sid fresh now) l))"
    using v
    by (rule view_okI)
      (use b in \<open>auto simp: view_at_def lg_baselines_modify_state restored_state_of revert_entry_def
        split: option.splits\<close>)
qed

lemma view_ok_rollback [keeps]:
  "view_ok l \<Longrightarrow> rollback_entry env i cur tid sid fresh now (l, d) = (r, (l', d')) \<Longrightarrow> view_ok l'"
  by (rule rollback_entry_cases [of env i cur tid sid fresh now l d]) (auto intro: view_ok_revert)

lemma view_ok_step: "ledger_step env w w' \<Longrightarrow> view_ok (fst w) \<Longrightarrow> view_ok (fst w')"
  by (induction rule: ledger_step.induct)
    (auto intro: view_ok_baseline view_ok_write view_ok_delete view_ok_rehydrate view_ok_rollback)

lemma view_ok_steps: "(ledger_step env)\<^sup>*\<^sup>* w w' \<Longrightarrow> view_ok (fst w) \<Longrightarrow> view_ok (fst w')"
  by (induction rule: rtranclp_induct) (auto dest: view_ok_step)

text \<open>The start hash of a baseline never changes.\<close>

definition keeps_start :: "ledger \<Rightarrow> ledger \<Rightarrow> bool" where
  "keeps_start l l' \<longleftrightarrow> (\<forall>p b. lg_baselines l p = Some b \<longrightarrow>
     (\<exists>b'. lg_baselines l' p = Some b' \<and> fb_start b' = fb_start b))"

lemma keeps_start_refl [simp]: "keeps_start l l"
  by (simp add: keeps_start_def)

lemma keeps_start_trans: "keeps_start a b \<Longrightarrow> keeps_start b c \<Longrightarrow> keeps_start a c"
  by (fastforce simp: keeps_start_def)

lemma keeps_start_set [simp]:
  "lg_baselines l' = lg_baselines l \<Longrightarrow> keeps_start l (set_agent_state p h st l')"
  by (auto simp: keeps_start_def lg_baselines_set_agent_state)

lemma keeps_start_step: "ledger_step env w w' \<Longrightarrow> keeps_start (fst w) (fst w')"
proof (induction rule: ledger_step.induct)
  case (step_baseline l d p h)
  then show ?case by (auto simp: keeps_start_def record_baseline_def split: option.splits)
next
  case (step_write tid sid call p before content after i now l r l' d)
  then show ?case
    using record_write_cases [of env tid sid call p before content after i now l] by auto
next
  case (step_delete tid sid call p h content i now l r l' d)
  then show ?case
    using record_delete_cases [of env tid sid call p h content i now l] by auto
next
  case (step_rollback i cur tid sid fresh now l d r w')
  show ?case
    by (rule rollback_entry_cases [of env i cur tid sid fresh now l d])
      (use step_rollback in \<open>auto simp: keeps_start_def lg_baselines_modify_state\<close>)
qed (simp_all add: rehydrate_write_def rehydrate_delete_def)

lemma keeps_start_steps: "(ledger_step env)\<^sup>*\<^sup>* w w' \<Longrightarrow> keeps_start (fst w) (fst w')"
  by (induction rule: rtranclp_induct) (auto intro: keeps_start_trans dest: keeps_start_step)

text \<open>What the history of a path says about an observed state.\<close>

definition history_verdict :: "ledger \<Rightarrow> path \<Rightarrow> content_hash option \<Rightarrow> change_classification" where
  "history_verdict l p obs = (case last_for p (lg_entries l) of
     Some e \<Rightarrow> (if le_after e = obs then AgentAuthored else ConcurrentUserModification)
   | None \<Rightarrow> (case lg_baselines l p of
       None \<Rightarrow> UnknownChange
     | Some b \<Rightarrow> (if fb_start b = obs then PreExisting else ConcurrentUserModification)))"

lemma classify_view: "view_ok l \<Longrightarrow> classify l p obs = history_verdict l p obs"
  unfolding view_ok_def
  by (drule spec [of _ p])
    (auto simp: view_at_def classify_def history_verdict_def state_of_def
      split: option.splits agent_file_state.splits)

text \<open>In every state the ledger can reach, an observed file is classified by its history: the
  agent's own work exactly when it equals the result of the last recorded change of that path
  (roll-backs included), a user's modification when it does not; a path without entries is
  pre-existing exactly when it equals its start hash. And the start hash of a path, once
  recorded, is never overwritten by any later operation.\<close>

theorem classify_matches_history:
  assumes "(ledger_step env)\<^sup>*\<^sup>* (new_ledger fs, d0) (l, d)"
  shows "classify l p obs = history_verdict l p obs
    \<and> (\<forall>l2 d2 b. (ledger_step env)\<^sup>*\<^sup>* (l, d) (l2, d2) \<and> lg_baselines l p = Some b
         \<longrightarrow> (\<exists>b2. lg_baselines l2 p = Some b2 \<and> fb_start b2 = fb_start b))"
  using classify_view view_ok_steps [OF assms] keeps_start_steps [of env "(l, d)"]
  by (fastforce simp: keeps_start_def)

section \<open>Rolling back one entry\<close>

lemma blobs_ok_push [keeps]:
  "blobs_ok (env_digest env) (lg_blobs l) \<Longrightarrow> blobs_ok (env_digest env) (lg_blobs (pushed env c e l))"
  by (auto simp: blobs_ok_put split: option.splits)

lemma blobs_ok_rollback [keeps]:
  "blobs_ok (env_digest env) (lg_blobs l)
    \<Longrightarrow> rollback_entry env i cur tid sid fresh now (l, d) = (r, (l', d'))
    \<Longrightarrow> blobs_ok (env_digest env) (lg_blobs l')"
  by (rule rollback_entry_cases [of env i cur tid sid fresh now l d]) auto

lemma blobs_ok_step:
  "ledger_step env w w' \<Longrightarrow> blobs_ok (env_digest env) (lg_blobs (fst w))
    \<Longrightarrow> blobs_ok (env_digest env) (lg_blobs (fst w'))"
proof (induction rule: ledger_step.induct)
  case (step_write tid sid call p before content after i now l r l' d)
  then show ?case
    using record_write_cases [of env tid sid call p before content after i now l]
    by (auto simp: blobs_ok_put split: option.splits)
next
  case (step_delete tid sid call p h content i now l r l' d)
  then show ?case
    using record_delete_cases [of env tid sid call p h content i now l]
    by (auto simp: blobs_ok_put split: option.splits)
next
  case (step_rollback i cur tid sid fresh now l d r w')
  then show ?case by (cases w') (auto intro: blobs_ok_rollback)
qed (simp_all add: rehydrate_write_def rehydrate_delete_def)

lemma blobs_ok_steps:
  "(ledger_step env)\<^sup>*\<^sup>* w w' \<Longrightarrow> blobs_ok (env_digest env) (lg_blobs (fst w))
    \<Longrightarrow> blobs_ok (env_digest env) (lg_blobs (fst w'))"
  by (induction rule: rtranclp_induct) (auto dest: blobs_ok_step)

text \<open>The hashes on disk, by real path.\<close>

definition disk_hashes :: "env \<Rightarrow> disk \<Rightarrow> real_path \<rightharpoonup> content_hash" where
  "disk_hashes env d q = map_option (env_digest env) (d q)"

lemma disk_hashes_upd [simp]:
  "disk_hashes env (d(q \<mapsto> c)) = (disk_hashes env d)(q \<mapsto> env_digest env c)"
  "disk_hashes env (d(q := None)) = (disk_hashes env d)(q := None)"
  by (auto simp: disk_hashes_def fun_eq_iff)

lemma restore_file_ok:
  assumes "blobs_ok (env_digest env) (lg_blobs l)" and "restore_file env l e q d = (Inr (), d')"
  shows "disk_hashes env d' = (disk_hashes env d)(q := le_before e)
    \<and> (\<forall>q'. q' \<noteq> q \<longrightarrow> d' q' = d q') \<and> (le_before e \<noteq> None \<longrightarrow> le_retained e)"
  using assms restore_file_cases [of env l e q d]
  by (auto simp: blobs_ok_def split: option.splits)

lemma classify_revert:
  assumes "view_ok l" and "entry_of l i = Some e"
  shows "classify (modify_state (le_path e) (restored_state e)
      (pushed env None (revert_entry e tid sid fresh now) l)) (le_path e) (le_before e) = AgentAuthored"
  using view_ok_revert(2) [OF assms, of env tid sid fresh now]
  by (auto simp: classify_def state_of_def split: option.splits agent_file_state.splits)

text \<open>Rolling back an entry is all or nothing. When it fails, neither the ledger nor the disk has
  changed. When it succeeds, the caller's observed hash was the entry's result, exactly one file
  was touched and it now has the hash it had before the entry (or is gone), the reversal is
  recorded as a new entry, and the restored state counts as the agent's own.\<close>

theorem rollback_entry_exact:
  assumes "(ledger_step env)\<^sup>*\<^sup>* (new_ledger fs, d0) (l, d)" and "blobs_ok (env_digest env) fs"
  shows "case rollback_entry env i cur tid sid fresh now (l, d) of
      (Inl x, w') \<Rightarrow> w' = (l, d)
    | (Inr _, (l', d')) \<Rightarrow> (\<exists>e q. entry_of l i = Some e \<and> cur = le_after e
        \<and> resolve (env_os env) (env_root env) d (le_path e) = Inr q
        \<and> prefix (root_path (env_root env)) q
        \<and> map_option (env_digest env) (d' q) = le_before e \<and> (\<forall>q'. q' \<noteq> q \<longrightarrow> d' q' = d q')
        \<and> lg_entries l' = lg_entries l @ [revert_entry e tid sid fresh now]
        \<and> classify l' (le_path e) (le_before e) = AgentAuthored)"
proof (rule rollback_entry_cases [of env i cur tid sid fresh now l d])
  fix x assume "rollback_entry env i cur tid sid fresh now (l, d) = (Inl x, (l, d))"
  then show ?thesis by simp
next
  fix e q d'
  assume *: "entry_of l i = Some e" "cur = le_after e"
    "resolve (env_os env) (env_root env) d (le_path e) = Inr q"
    "restore_file env l e q d = (Inr (), d')"
    "rollback_entry env i cur tid sid fresh now (l, d) = (Inr (),
       (modify_state (le_path e) (restored_state e)
         (pushed env None (revert_entry e tid sid fresh now) l), d'))"
  have v: "view_ok l" and b: "blobs_ok (env_digest env) (lg_blobs l)"
    using view_ok_steps [OF assms(1)] blobs_ok_steps [OF assms(1)] assms(2)
    by (simp_all add: new_ledger_def [of fs] view_ok_new [unfolded new_ledger_def])
  have "map_option (env_digest env) (d' q) = le_before e" "\<forall>q'. q' \<noteq> q \<longrightarrow> d' q' = d q'"
    using restore_file_ok [OF b *(4)] by (auto simp: disk_hashes_def fun_eq_iff split: if_splits)
  then show ?thesis
    unfolding *(5) using *(1-3) resolve_contained [OF *(3)] classify_revert [OF v *(1)] by auto
qed

section \<open>When a roll-back succeeds\<close>

text \<open>An environment without symbolic links in which no file operation fails.\<close>

definition smooth :: "env \<Rightarrow> bool" where
  "smooth env \<longleftrightarrow> plain_os (env_os env) (env_root env) \<and> root_path (env_root env) \<noteq> []
     \<and> (\<forall>fs p. blob_read_err (env_blob env) fs p = None)
     \<and> (\<forall>fs p b. blob_write_err (env_blob env) fs p b = None)
     \<and> (\<forall>d p. os_read_err (env_os env) d p = None) \<and> (\<forall>d p. os_remove_err (env_os env) d p = None)
     \<and> (\<forall>d p b. os_write_err (env_os env) d p b = None)"

definition readable :: "ledger \<Rightarrow> ledger_entry \<Rightarrow> bool" where
  "readable l e \<longleftrightarrow> (case le_before e of None \<Rightarrow> True
     | Some h \<Rightarrow> le_retained e \<and> lg_blobs l (path_for h) \<noteq> None)"

lemma resolve_smooth_not_Nil:
  "smooth env \<Longrightarrow> resolve (env_os env) (env_root env) d p = Inr q \<Longrightarrow> q \<noteq> []"
  using resolve_contained [of "env_os env" "env_root env" d p q] by (auto simp: smooth_def)

lemma restore_file_succeeds:
  assumes "smooth env" and "readable l e" and "q \<noteq> []"
  shows "\<exists>d'. restore_file env l e q d = (Inr (), d')"
  using assms
  by (auto simp: restore_file_def readable_def smooth_def blob_get_def write_atomic_def fs_remove_def
      split: option.splits)

lemma rollback_entry_succeeds:
  assumes "smooth env" and "entry_of l i = Some e" and "readable l e"
    and "resolve (env_os env) (env_root env) d (le_path e) = Inr q"
  shows "\<exists>d'. rollback_entry env i (le_after e) tid sid fresh now (l, d) = (Inr (),
      (modify_state (le_path e) (restored_state e)
        (pushed env None (revert_entry e tid sid fresh now) l), d'))
    \<and> restore_file env l e q d = (Inr (), d')"
proof -
  obtain d' where r: "restore_file env l e q d = (Inr (), d')"
    using restore_file_succeeds [OF assms(1,3) resolve_smooth_not_Nil [OF assms(1,4)]] by blast
  with assms(2,4) entry_of_id [OF assms(2)] show ?thesis
    by (auto simp: rollback_entry_def push_entry_None revert_entry_def)
qed

section \<open>A concrete ledger\<close>

definition demo_env :: env where
  "demo_env = \<lparr>env_digest = id, env_blob = calm_blobs, env_os = calm_os,
     env_root = WorkspaceRoot [''w'']\<rparr>"

lemma demo_env_simps [simp]:
  "env_digest demo_env = id" "env_blob demo_env = calm_blobs" "env_os demo_env = calm_os"
  "env_root demo_env = WorkspaceRoot [''w'']"
  by (simp_all add: demo_env_def)

lemma smooth_demo [simp]: "smooth demo_env"
  by (simp add: smooth_def)

text \<open>The agent has replaced the content \<open>[1]\<close> of the file \<open>a\<close> by \<open>[2]\<close>.\<close>

definition demo_ledger :: ledger where
  "demo_ledger = set_agent_state [Normal ''a''] (Some [1]) (Written [2]) (pushed demo_env (Some [1])
     (new_entry (TaskId 1) (StepId 1) None [Normal ''a''] (Some [1]) (Some [2]) None
       (LedgerEntryId 7) 0 True) (new_ledger Map.empty))"

definition demo_disk :: disk where
  "demo_disk = [[''w'', ''a''] \<mapsto> [2]]"

lemma push_entry_Some:
  assumes "smooth env"
  shows "push_entry env tid sid call p before (Some c) after rv i now l =
     (Inr i, pushed env (Some c) (new_entry tid sid call p before after rv i now True) l)"
  using assms by (simp add: push_entry_def pushed_def new_entry_def blob_put_def put_ok_def Let_def smooth_def)

lemma record_write_smooth:
  assumes "smooth env"
  shows "record_write env tid sid call p before content after i now l =
     (Inr i, set_agent_state p before (Written after) (pushed env content
        (new_entry tid sid call p before (Some after) None i now (content \<noteq> None)) l))"
  using push_entry_Some [OF assms] push_entry_None
  by (cases content) (simp_all add: record_write_def)

lemma record_delete_smooth:
  assumes "smooth env"
  shows "record_delete env tid sid call p before content i now l =
     (Inr i, set_agent_state p (Some before) Deleted (pushed env content
        (new_entry tid sid call p (Some before) None None i now (content \<noteq> None)) l))"
  using push_entry_Some [OF assms] push_entry_None
  by (cases content) (simp_all add: record_delete_def)

lemma demo_reachable: "(ledger_step demo_env)\<^sup>*\<^sup>* (new_ledger Map.empty, Map.empty) (demo_ledger, demo_disk)"
proof -
  have "record_write demo_env (TaskId 1) (StepId 1) None [Normal ''a''] (Some [1]) (Some [1]) [2]
      (LedgerEntryId 7) 0 (new_ledger Map.empty) = (Inr (LedgerEntryId 7), demo_ledger)"
    by (simp add: record_write_smooth demo_ledger_def)
  then have "ledger_step demo_env (new_ledger Map.empty, demo_disk) (demo_ledger, demo_disk)"
    by (rule step_write)
  moreover have "ledger_step demo_env (new_ledger Map.empty, Map.empty) (new_ledger Map.empty, demo_disk)"
    by (rule step_disk)
  ultimately show ?thesis by (meson rtranclp.rtrancl_into_rtrancl rtranclp.rtrancl_refl)
qed

lemma demo_ledger_entries:
  "lg_entries demo_ledger = [new_entry (TaskId 1) (StepId 1) None [Normal ''a''] (Some [1]) (Some [2])
     None (LedgerEntryId 7) 0 True]"
  "lg_blobs demo_ledger = put_ok id [1] Map.empty"
  by (simp_all add: demo_ledger_def new_ledger_def)

theorem classify_matches_history_witness:
  "classify demo_ledger [Normal ''a''] (Some [2]) = AgentAuthored
   \<and> classify demo_ledger [Normal ''a''] (Some [9]) = ConcurrentUserModification"
  using classify_matches_history [OF demo_reachable, of "[Normal ''a'']" "Some [2]"]
    classify_matches_history [OF demo_reachable, of "[Normal ''a'']" "Some [9]"]
  by (simp add: history_verdict_def demo_ledger_entries last_for_def)

lemma resolve_demo: "resolve calm_os (WorkspaceRoot [''w'']) d [Normal ''a''] = Inr [''w'', ''a'']"
  by (simp add: resolve_plain is_absolute_def normalize_relative_def)

lemma demo_rollback_ok:
  "fst (rollback_entry demo_env (LedgerEntryId 7) (Some [2]) (TaskId 1) (StepId 2)
     (LedgerEntryId 8) 1 (demo_ledger, demo_disk)) = Inr ()"
proof -
  let ?e = "new_entry (TaskId 1) (StepId 1) None [Normal ''a''] (Some [1]) (Some [2])
     None (LedgerEntryId 7) 0 True"
  have "entry_of demo_ledger (LedgerEntryId 7) = Some ?e"
    by (simp add: entry_of_def demo_ledger_entries)
  moreover have "readable demo_ledger ?e"
    by (simp add: readable_def demo_ledger_entries put_ok_def blob_exists_def)
  ultimately show ?thesis
    using rollback_entry_succeeds [of demo_env demo_ledger "LedgerEntryId 7" ?e demo_disk
        "[''w'', ''a'']" "TaskId 1" "StepId 2" "LedgerEntryId 8" 1]
    by (auto simp: resolve_demo)
qed

theorem rollback_entry_exact_witness:
  "\<exists>l' d'. rollback_entry demo_env (LedgerEntryId 7) (Some [2]) (TaskId 1) (StepId 2)
      (LedgerEntryId 8) 1 (demo_ledger, demo_disk) = (Inr (), (l', d'))
    \<and> classify l' [Normal ''a''] (Some [1]) = AgentAuthored"
  using rollback_entry_exact [OF demo_reachable, where i = "LedgerEntryId 7" and cur = "Some [2]"
      and tid = "TaskId 1" and sid = "StepId 2" and fresh = "LedgerEntryId 8" and now = 1]
    demo_rollback_ok
  by (auto simp: blobs_ok_def entry_of_def demo_ledger_entries split: prod.splits sum.splits)

end
