(* ===== verification/Text.thy ===== *)
theory Text
  imports Content_Hash
begin

text \<open>
  What the edit engine uses of \<open>str\<close>: a string is its UTF-8 bytes, one \<open>char\<close> each. Lines, whitespace,
  searches, slices at character boundaries and the validity check of \<open>read_to_string\<close>.
\<close>

section \<open>Bytes and characters\<close>

definition newline :: char where
  "newline = CHR 0x0A"

definition byte_val :: "char \<Rightarrow> nat" where
  "byte_val c = of_char c"

definition continuation :: "char \<Rightarrow> bool" where
  "continuation c \<longleftrightarrow> 128 \<le> byte_val c \<and> byte_val c < 192"

definition text_bytes :: "string \<Rightarrow> bytes" where
  "text_bytes s = map (\<lambda>c. of_nat (byte_val c)) s"

definition bytes_text :: "bytes \<Rightarrow> string" where
  "bytes_text b = map (\<lambda>x. char_of (unat x)) b"

text \<open>\<open>std::str::from_utf8\<close>: the length of the well-formed sequence at the head, 0 if there is none.\<close>

fun utf8_len :: "nat list \<Rightarrow> nat" where
  "utf8_len [] = 0"
| "utf8_len (a # r) =
     (let cont = (\<lambda>k lo hi. k < length r \<and> lo \<le> r ! k \<and> r ! k < hi) in
      if a < 128 then 1
      else if 194 \<le> a \<and> a < 224 then (if cont 0 128 192 then 2 else 0)
      else if 224 \<le> a \<and> a < 240 then
        (if cont 0 (if a = 224 then 160 else 128) (if a = 237 then 160 else 192) \<and> cont 1 128 192 then 3 else 0)
      else if 240 \<le> a \<and> a < 245 then
        (if cont 0 (if a = 240 then 144 else 128) (if a = 244 then 144 else 192)
            \<and> cont 1 128 192 \<and> cont 2 128 192 then 4 else 0)
      else 0)"

function utf8_valid :: "nat list \<Rightarrow> bool" where
  "utf8_valid xs \<longleftrightarrow> (if xs = [] then True else if utf8_len xs = 0 then False
     else utf8_valid (drop (utf8_len xs) xs))"
  by pat_completeness auto

termination utf8_valid
  by (relation "measure length") (simp_all del: utf8_len.simps)

declare utf8_valid.simps [simp del]

lemma utf8_valid_Nil [simp]: "utf8_valid []"
  by (simp add: utf8_valid.simps)

definition valid_text :: "bytes \<Rightarrow> bool" where
  "valid_text b \<longleftrightarrow> utf8_valid (map unat b)"

lemma text_bytes_inverse [simp]: "text_bytes (bytes_text b) = b"
proof -
  have "byte_val (char_of (unat x)) = unat x" for x :: u8
    using unsigned_less [of x, where 'a = nat] by (simp add: byte_val_def)
  then show ?thesis by (simp add: text_bytes_def bytes_text_def comp_def map_idI)
qed

lemma bytes_text_inverse [simp]: "bytes_text (text_bytes s) = s"
proof -
  have "char_of (unat (of_nat (byte_val c) :: u8)) = c" for c
  proof -
    have "byte_val c < 256" by (simp add: byte_val_def)
    then have "unat (of_nat (byte_val c) :: u8) = byte_val c"
      by (simp add: unsigned_of_nat take_bit_nat_eq_self)
    then show ?thesis by (simp add: byte_val_def)
  qed
  then show ?thesis by (simp add: text_bytes_def bytes_text_def comp_def map_idI)
qed

lemma text_bytes_inj [simp]: "text_bytes s = text_bytes t \<longleftrightarrow> s = t"
  by (metis bytes_text_inverse)

section \<open>Whitespace\<close>

text \<open>The length of the \<open>char::is_whitespace\<close> character at the head, 0 if there is none.\<close>

definition ws_len :: "string \<Rightarrow> nat" where
  "ws_len s = (case map byte_val (take 3 s) of
     [] \<Rightarrow> 0
   | a # r \<Rightarrow>
       if 9 \<le> a \<and> a \<le> 13 \<or> a = 32 then 1
       else if a = 194 then (case r of b # _ \<Rightarrow> if b = 133 \<or> b = 160 then 2 else 0 | _ \<Rightarrow> 0)
       else if a = 225 then (if r = [154, 128] then 3 else 0)
       else if a = 226 then (case r of
           [b, c] \<Rightarrow> if b = 128 \<and> (128 \<le> c \<and> c \<le> 138 \<or> c = 168 \<or> c = 169 \<or> c = 175) \<or> b = 129 \<and> c = 159
                    then 3 else 0
         | _ \<Rightarrow> 0)
       else if a = 227 then (if r = [128, 128] then 3 else 0)
       else 0)"

function take_ws :: "string \<Rightarrow> string" where
  "take_ws s = (if s = [] \<or> ws_len s = 0 then [] else take (ws_len s) s @ take_ws (drop (ws_len s) s))"
  by pat_completeness auto

termination take_ws
  by (relation "measure length") auto

declare take_ws.simps [simp del]

text \<open>\<open>s.trim().is_empty()\<close>\<close>

definition is_blank :: "string \<Rightarrow> bool" where
  "is_blank s \<longleftrightarrow> take_ws s = s"

section \<open>Lines\<close>

fun split_inclusive :: "char \<Rightarrow> string \<Rightarrow> string list" where
  "split_inclusive c [] = []"
| "split_inclusive c (x # xs) =
     (if x = c then [x] # split_inclusive c xs
      else (case split_inclusive c xs of [] \<Rightarrow> [[x]] | s # ss \<Rightarrow> (x # s) # ss))"

definition strip_line :: "string \<Rightarrow> string" where
  "strip_line s =
     (if s \<noteq> [] \<and> last s = newline
      then (let t = butlast s in if t \<noteq> [] \<and> last t = CHR 0x0D then butlast t else t)
      else s)"

definition text_lines :: "string \<Rightarrow> string list" where
  "text_lines s = map strip_line (split_inclusive newline s)"

section \<open>Searching\<close>

text \<open>The first occurrence: what is before and after it.\<close>

fun split_once :: "string \<Rightarrow> string \<Rightarrow> (string \<times> string) option" where
  "split_once pat [] = (if pat = [] then Some ([], []) else None)"
| "split_once pat (x # xs) =
     (if take (length pat) (x # xs) = pat then Some ([], drop (length pat) (x # xs))
      else map_option (\<lambda>(a, b). (x # a, b)) (split_once pat xs))"

lemma split_once_eq: "split_once pat s = Some (a, b) \<Longrightarrow> s = a @ pat @ b"
  by (induction pat s arbitrary: a b rule: split_once.induct)
    (auto split: if_splits, metis append_take_drop_id)

lemma split_once_len: "split_once pat s = Some (a, b) \<Longrightarrow> length b \<le> length s - length pat"
  by (drule split_once_eq) simp

text \<open>\<open>s.matches(pat).count()\<close>: occurrences that do not overlap; the empty pattern matches at every
  character boundary.\<close>

function count_matches :: "string \<Rightarrow> string \<Rightarrow> nat" where
  "count_matches pat s =
     (if pat = [] then Suc (length (filter (\<lambda>c. \<not> continuation c) s))
      else case split_once pat s of
        None \<Rightarrow> 0
      | Some (a, b) \<Rightarrow> Suc (count_matches pat b))"
  by pat_completeness auto

termination count_matches
proof (relation "measure (\<lambda>(pat, s). length s)")
  fix pat s ab a b
  assume "pat \<noteq> []" and "split_once pat s = Some ab" and "(a, b) = ab"
  then have "s = a @ pat @ b" using split_once_eq by metis
  then show "((pat, b), (pat, s)) \<in> measure (\<lambda>(pat, s). length s)" using \<open>pat \<noteq> []\<close> by simp
qed simp

declare count_matches.simps [simp del]

text \<open>\<open>s.replacen(pat, rep, 1)\<close>\<close>

definition replace_first :: "string \<Rightarrow> string \<Rightarrow> string \<Rightarrow> string" where
  "replace_first pat rep s = (case split_once pat s of None \<Rightarrow> s | Some (a, b) \<Rightarrow> a @ rep @ b)"

text \<open>\<open>split_once\<close> finds the first occurrence there is.\<close>

lemma split_once_first:
  assumes "split_once pat s = Some (a, b)" and "s = u @ pat @ v"
  shows "length a \<le> length u"
  using assms
proof (induction pat s arbitrary: a b u rule: split_once.induct)
  case (2 pat x xs)
  show ?case
  proof (cases u)
    case Nil
    with "2.prems"(2) have "take (length pat) (x # xs) = pat" by simp
    with "2.prems"(1) show ?thesis by simp
  next
    case (Cons y us)
    with 2 show ?thesis by (auto split: if_splits)
  qed
qed (auto split: if_splits)

lemma split_once_none: "split_once pat s = None \<Longrightarrow> s \<noteq> u @ pat @ v"
proof (induction pat s arbitrary: u rule: split_once.induct)
  case (2 pat x xs)
  then show ?case by (cases u) (auto split: if_splits)
qed (auto split: if_splits)

lemma count_zero: "pat \<noteq> [] \<Longrightarrow> count_matches pat s = 0 \<longleftrightarrow> split_once pat s = None"
  by (subst count_matches.simps) (simp split: option.split prod.split)

lemma count_one:
  assumes "pat \<noteq> []"
  shows "count_matches pat s = 1 \<longleftrightarrow> (\<exists>a b. split_once pat s = Some (a, b) \<and> split_once pat b = None)"
  using assms by (subst count_matches.simps) (auto simp: count_zero split: option.split prod.split)

section \<open>Boundaries and slices\<close>

fun floor_boundary :: "string \<Rightarrow> nat \<Rightarrow> nat" where
  "floor_boundary s 0 = 0"
| "floor_boundary s (Suc n) = (if is_char_boundary s (Suc n) then Suc n else floor_boundary s n)"

definition floor_char_boundary :: "string \<Rightarrow> nat \<Rightarrow> nat" where
  "floor_char_boundary s n = (if length s \<le> n then length s else floor_boundary s n)"

lemma boundary_iff: "is_char_boundary s i \<longleftrightarrow> i = 0 \<or> i = length s \<or> (i < length s \<and> \<not> continuation (s ! i))"
  by (simp add: is_char_boundary_def continuation_def byte_val_def)

lemma floor_boundary_id: "is_char_boundary s n \<Longrightarrow> floor_boundary s n = n"
  by (cases n) simp_all

lemma floor_id [simp]: "is_char_boundary s n \<Longrightarrow> floor_char_boundary s n = n"
  by (auto simp: floor_char_boundary_def floor_boundary_id boundary_iff)

text \<open>What follows the last line break of a string.\<close>

definition last_line :: "string \<Rightarrow> string" where
  "last_line s = rev (takeWhile (\<lambda>c. c \<noteq> newline) (rev s))"

text \<open>\<open>s.chars().take(n).collect()\<close>: a character is a byte and the continuation bytes after it.\<close>

fun chars_of :: "string \<Rightarrow> string list" where
  "chars_of [] = []"
| "chars_of (c # cs) = (case chars_of cs of
     [] \<Rightarrow> [[c]]
   | g # gs \<Rightarrow> if continuation (hd g) then (c # g) # gs else [c] # g # gs)"

definition take_chars :: "nat \<Rightarrow> string \<Rightarrow> string" where
  "take_chars n s = concat (take n (chars_of s))"

lemma concat_chars_of [simp]: "concat (chars_of s) = s"
  by (induction s) (auto split: list.splits)

lemma take_chars_prefix: "\<exists>r. s = take_chars n s @ r"
  by (metis append_take_drop_id concat_append concat_chars_of take_chars_def)

end
