(* ===== verification/Float64.thy ===== *)
theory Float64
  imports Prelude "HOL-Library.Log_Nat"
begin

text \<open>
  \<open>f64\<close> arithmetic on the positive normal range, as far as the program computes with it: a value is a
  rational, an operation is the exact one followed by rounding to 53 significant bits, to nearest and
  ties to even.
\<close>

section \<open>Rounding\<close>

definition round_even :: "rat \<Rightarrow> int" where
  "round_even q = (let n = floor q; f = q - of_int n in
     if f < 1 / 2 then n else if f > 1 / 2 then n + 1 else if even n then n else n + 1)"

text \<open>The binary exponent of a positive rational.\<close>

definition exponent2 :: "rat \<Rightarrow> int" where
  "exponent2 q = (let (n, d) = quotient_of q;
       e = int (floorlog 2 (nat n)) - int (floorlog 2 (nat d))
     in if (if 0 \<le> e then 2 ^ nat e else 1 / 2 ^ nat (- e)) \<le> q then e else e - 1)"

definition scale2 :: "int \<Rightarrow> rat \<Rightarrow> rat" where
  "scale2 k q = (if 0 \<le> k then q * 2 ^ nat k else q / 2 ^ nat (- k))"

definition f64 :: "rat \<Rightarrow> rat" where
  "f64 q = (if q \<le> 0 then 0
     else let k = 52 - exponent2 q in scale2 (- k) (of_int (round_even (scale2 k q))))"

text \<open>Rounding to \<open>b + 1\<close> bits; \<open>f32\<close> keeps 24 bits.\<close>

definition fround :: "int \<Rightarrow> rat \<Rightarrow> rat" where
  "fround b q = (if q \<le> 0 then 0
     else let k = b - exponent2 q in scale2 (- k) (of_int (round_even (scale2 k q))))"

definition f32 :: "rat \<Rightarrow> rat" where
  "f32 q = (if q \<le> 0 then 0
     else let k = 23 - exponent2 q in scale2 (- k) (of_int (round_even (scale2 k q))))"

text \<open>\<open>(((before - after) as f64 / before as f64) * 100.0) as u32\<close>\<close>

definition f64_percent :: "nat \<Rightarrow> nat \<Rightarrow> nat" where
  "f64_percent part whole = nat (floor (f64 (f64 (f64 (of_nat part) / f64 (of_nat whole)) * 100)))"

section \<open>Facts\<close>

lemma scale2_alt: "scale2 k q = q * 2 powi k"
  by (simp add: scale2_def power_int_def power_divide)

lemma scale2_inverse [simp]: "scale2 (- k) (scale2 k q) = q"
  by (simp add: scale2_alt power_int_minus)

lemma scale2_mono: "a \<le> b \<Longrightarrow> scale2 k a \<le> scale2 k b"
  by (simp add: scale2_alt mult_right_mono)

lemma scale2_diff: "scale2 k a - scale2 k b = (a - b) * 2 powi k"
  by (simp add: scale2_alt left_diff_distrib)

lemma floorlog_pow:
  assumes "0 < n"
  shows "2 ^ (floorlog 2 n - 1) \<le> n" "n < 2 ^ floorlog 2 n" "0 < floorlog 2 n"
  using floorlog_bounds [of n 2] assms by (auto simp: floorlog_def)

text \<open>The exponent brackets its argument.\<close>

lemma exponent2_bounds:
  assumes "0 < q"
  shows "2 powi exponent2 q \<le> q" and "q < 2 powi (exponent2 q + 1)"
proof -
  obtain n d where nd: "quotient_of q = (n, d)" by (cases "quotient_of q")
  have d: "0 < d" using quotient_of_denom_pos [OF nd] .
  have q: "q = of_int n / of_int d" using quotient_of_div [OF nd] .
  have n: "0 < n" using assms d q by (simp add: zero_less_divide_iff)
  define N D where "N = nat n" and "D = nat d"
  have N: "0 < N" "rat_of_int n = of_nat N" and D: "0 < D" "rat_of_int d = of_nat D"
    using n d by (simp_all add: N_def D_def)
  define a b where "a = floorlog 2 N" and "b = floorlog 2 D"
  have aN: "2 ^ (a - 1) \<le> N" "N < 2 ^ a" "0 < a" using floorlog_pow [OF N(1)] by (simp_all add: a_def)
  have bD: "2 ^ (b - 1) \<le> D" "D < 2 ^ b" "0 < b" using floorlog_pow [OF D(1)] by (simp_all add: b_def)
  have r: "(2 :: rat) ^ (a - 1) \<le> of_nat N" "of_nat N < (2 :: rat) ^ a"
      "(2 :: rat) ^ (b - 1) \<le> of_nat D" "of_nat D < (2 :: rat) ^ b"
    using aN(1,2) bD(1,2) by (metis of_nat_le_iff of_nat_less_iff of_nat_numeral of_nat_power)+
  have qq: "q = of_nat N / of_nat D" using q N D by simp
  let ?e = "int a - int b"
  have up: "q < 2 powi (?e + 1)"
  proof -
    have "q < 2 ^ a / of_nat D" unfolding qq using r D by (intro divide_strict_right_mono) simp_all
    also have "\<dots> \<le> 2 ^ a / 2 ^ (b - 1)" using r D by (intro divide_left_mono) simp_all
    also have "\<dots> = 2 powi (?e + 1)"
    proof -
      have e: "?e + 1 = int a - int (b - 1)" using bD(3) by simp
      show ?thesis unfolding e by (simp add: power_int_diff)
    qed
    finally show ?thesis .
  qed
  have low: "2 powi (?e - 1) \<le> q"
  proof -
    have "(2 :: rat) powi (?e - 1) = 2 ^ (a - 1) / 2 ^ b"
    proof -
      have e: "?e - 1 = int (a - 1) - int b" using aN(3) by simp
      show ?thesis unfolding e by (simp add: power_int_diff)
    qed
    also have "\<dots> \<le> 2 ^ (a - 1) / of_nat D" using r D by (intro divide_left_mono) simp_all
    also have "\<dots> \<le> q" unfolding qq using r D by (intro divide_right_mono) simp_all
    finally show ?thesis .
  qed
  have e: "exponent2 q = (if 2 powi ?e \<le> q then ?e else ?e - 1)"
    by (simp add: exponent2_def nd a_def b_def N_def D_def power_int_def power_divide Let_def)
  show "2 powi exponent2 q \<le> q" using low by (simp add: e)
  show "q < 2 powi (exponent2 q + 1)" using up by (simp add: e)
qed

lemma round_even_bounds: "of_int (round_even q) \<le> q + 1 / 2" "q - 1 / 2 \<le> of_int (round_even q)"
proof -
  have "of_int \<lfloor>q\<rfloor> \<le> q" "q < of_int \<lfloor>q\<rfloor> + 1" using floor_correct [of q] by simp_all
  then show "of_int (round_even q) \<le> q + 1 / 2" "q - 1 / 2 \<le> of_int (round_even q)"
    unfolding round_even_def Let_def by (simp_all add: field_simps) linarith+
qed

lemma round_even_ge:
  assumes "of_int m - 1 / 2 < q"
  shows "m \<le> round_even q"
proof -
  have "of_int m - 1 < rat_of_int (round_even q)" using assms round_even_bounds(2) [of q] by linarith
  then show ?thesis by linarith
qed

lemma round_even_int [simp]: "round_even (of_int n) = n"
  by (simp add: round_even_def)

text \<open>A value below \<open>2 ^ (e + 1)\<close> moves by at most half a unit in its last place.\<close>

lemma exponent2_le:
  assumes "0 < q" and "q < 2 powi (m + 1)"
  shows "exponent2 q \<le> m"
proof (rule ccontr)
  assume "\<not> exponent2 q \<le> m"
  then have "(2 :: rat) powi (m + 1) \<le> 2 powi exponent2 q" by (intro power_int_increasing) auto
  with exponent2_bounds(1) [OF assms(1)] assms(2) show False by linarith
qed

lemma fround_error:
  assumes "0 < q" and "q < 2 powi (m + 1)"
  shows "\<bar>fround b q - q\<bar> \<le> 2 powi (m - b - 1)"
proof -
  let ?k = "b - exponent2 q"
  let ?r = "of_int (round_even (scale2 ?k q)) :: rat"
  have "\<bar>?r - scale2 ?k q\<bar> \<le> 1 / 2" using round_even_bounds [of "scale2 ?k q"] by linarith
  then have "\<bar>?r - scale2 ?k q\<bar> * 2 powi (- ?k) \<le> 1 / 2 * 2 powi (- ?k)" by (intro mult_right_mono) simp_all
  moreover have "\<bar>fround b q - q\<bar> = \<bar>?r - scale2 ?k q\<bar> * 2 powi (- ?k)"
  proof -
    have "fround b q = scale2 (- ?k) ?r" using assms(1) by (simp add: fround_def Let_def)
    moreover have "q = scale2 (- ?k) (scale2 ?k q)" by (rule scale2_inverse [symmetric])
    ultimately have "fround b q - q = (?r - scale2 ?k q) * 2 powi (- ?k)"
      using scale2_diff [of "- ?k" ?r "scale2 ?k q"] by simp
    moreover have "0 \<le> (2 :: rat) powi (- ?k)" by simp
    ultimately show ?thesis by (simp only: abs_mult abs_of_nonneg)
  qed
  moreover have "1 / 2 * (2 :: rat) powi (- ?k) = 2 powi (exponent2 q - b - 1)"
    by (simp add: power_int_diff)
  moreover have "(2 :: rat) powi (exponent2 q - b - 1) \<le> 2 powi (m - b - 1)"
    using exponent2_le [OF assms] by (intro power_int_increasing) auto
  ultimately show ?thesis by linarith
qed

lemma f64_error:
  assumes "0 < q" and "q < 2 powi (m + 1)"
  shows "\<bar>f64 q - q\<bar> \<le> 2 powi (m - 53)"
  using fround_error [OF assms, of 52] assms(1) by (simp add: f64_def fround_def)

lemma f32_error:
  assumes "0 \<le> q" and "q < 2 powi (m + 1)"
  shows "\<bar>f32 q - q\<bar> \<le> 2 powi (m - 24)"
proof (cases "q = 0")
  case False
  then show ?thesis using fround_error [of q m 23] assms by (simp add: f32_def fround_def)
qed (simp add: f32_def)

lemma f64_pos: "0 < q \<Longrightarrow> f64 q = scale2 (exponent2 q - 52) (of_int (round_even (scale2 (52 - exponent2 q) q)))"
  by (simp add: f64_def)

lemma f64_nat:
  assumes "n < 2 ^ 53"
  shows "f64 (of_nat n) = of_nat n"
proof (cases "n = 0")
  case True
  then show ?thesis by (simp add: f64_def)
next
  case False
  have "(of_nat n :: rat) < 2 ^ 53" using assms by (metis of_nat_less_iff of_nat_numeral of_nat_power)
  then have e: "exponent2 (of_nat n) \<le> 52" using False by (intro exponent2_le) (simp_all add: power_int_def)
  let ?k = "52 - exponent2 (of_nat n)"
  have i: "scale2 ?k (of_nat n) = of_int (int n * 2 ^ nat ?k)" using e by (simp add: scale2_def)
  have "round_even (scale2 ?k (of_nat n)) = int n * 2 ^ nat ?k" unfolding i by (rule round_even_int)
  then have "of_int (round_even (scale2 ?k (of_nat n))) = scale2 ?k (of_nat n)" by (simp only: i)
  then have "f64 (of_nat n) = scale2 (- ?k) (scale2 ?k (of_nat n))"
    using False by (simp only: f64_def Let_def) simp
  then show ?thesis by (simp only: scale2_inverse)
qed

text \<open>A value that comes within half a unit of an integer from below is not rounded below it.\<close>

lemma f64_ge_int:
  assumes "64 < m" and "of_int m - 1 / 2 ^ 47 < q" and "q < 128"
  shows "of_int m \<le> f64 q"
proof -
  have q: "64 \<le> q"
  proof -
    have "(65 :: rat) \<le> of_int m" using assms(1) by simp
    moreover have "(1 :: rat) / 2 ^ 47 < 1" by simp
    ultimately show ?thesis using assms(2) by linarith
  qed
  have e: "exponent2 q = 6"
  proof (rule antisym)
    show "exponent2 q \<le> 6" using assms(3) q by (intro exponent2_le) (simp_all add: power_int_def)
    show "6 \<le> exponent2 q"
    proof (rule ccontr)
      assume "\<not> 6 \<le> exponent2 q"
      then have "(2 :: rat) powi (exponent2 q + 1) \<le> 2 powi 6" by (intro power_int_increasing) auto
      moreover have "q < 2 powi (exponent2 q + 1)" using q by (intro exponent2_bounds(2)) simp
      ultimately show False using q by (simp add: power_int_def)
    qed
  qed
  have "of_int (m * 2 ^ 46) - 1 / 2 < q * 2 ^ 46" using assms(2) by (simp add: field_simps)
  then have "m * 2 ^ 46 \<le> round_even (q * 2 ^ 46)" by (rule round_even_ge)
  then have "rat_of_int (m * 2 ^ 46) \<le> of_int (round_even (q * 2 ^ 46))" by (simp only: of_int_le_iff)
  then have "rat_of_int m \<le> of_int (round_even (q * 2 ^ 46)) / 2 ^ 46" by (simp add: field_simps)
  also have "\<dots> = f64 q" using q by (simp add: f64_def e scale2_def)
  finally show ?thesis .
qed

text \<open>Percentages are exact at an integer threshold above 64, for every size below \<open>2 ^ 46\<close>.\<close>

lemma f64_percent_ge:
  assumes "part \<le> whole" and "0 < whole" and "whole < 2 ^ 46" and "64 < t" and "t \<le> 100"
  shows "t \<le> f64_percent part whole \<longleftrightarrow> t * whole \<le> 100 * part"
proof (cases "part = 0")
  case True
  then show ?thesis using assms by (simp add: f64_percent_def f64_def)
next
  case False
  define q where "q = rat_of_nat part / of_nat whole"
  define r where "r = f64 q * 100"
  have q: "0 < q" "q \<le> 1" using False assms(1,2) by (simp_all add: q_def)
  have p: "f64_percent part whole = nat (floor (f64 r))"
    using assms by (simp add: f64_percent_def f64_nat q_def r_def)
  have err: "\<bar>f64 q - q\<bar> \<le> 1 / 2 ^ 54"
  proof (cases "q = 1")
    case True
    then show ?thesis using f64_nat [of 1] by simp
  next
    case False
    then have "\<bar>f64 q - q\<bar> \<le> 2 powi (- 1 - 53)" using q by (intro f64_error) (simp_all add: power_int_def)
    then show ?thesis by (simp add: power_int_def power_divide)
  qed
  have r: "r \<le> 100 * q + 100 / 2 ^ 54" "100 * q - 100 / 2 ^ 54 \<le> r" using err unfolding r_def by linarith+
  have tq: "rat_of_nat t \<le> 100 * q \<longleftrightarrow> t * whole \<le> 100 * part"
  proof -
    have "rat_of_nat t \<le> 100 * q \<longleftrightarrow> rat_of_nat (t * whole) \<le> of_nat (100 * part)"
      using assms(2) by (simp add: q_def field_simps)
    then show ?thesis by (simp only: of_nat_le_iff)
  qed
  have pt: "t \<le> f64_percent part whole \<longleftrightarrow> of_nat t \<le> f64 r"
  proof -
    have "t \<le> nat k \<longleftrightarrow> int t \<le> k" for k using assms(4) by linarith
    then show ?thesis unfolding p by (simp add: le_floor_iff)
  qed
  show ?thesis
  proof (cases "t * whole \<le> 100 * part")
    case True
    then have "rat_of_nat t \<le> 100 * q" using tq by simp
    then have "of_int (int t) - 1 / 2 ^ 47 < r" using r(2) by simp
    moreover have "r < 128" using r(1) q(2) by simp
    ultimately have "of_int (int t) \<le> f64 r" using assms(4) by (intro f64_ge_int) simp_all
    then show ?thesis using True pt by simp
  next
    case nt: False
    then have "rat_of_nat (100 * part + 1) \<le> of_nat (t * whole)" by (simp only: of_nat_le_iff)
    then have "100 * q \<le> of_nat t - 1 / of_nat whole" using assms(2) by (simp add: q_def field_simps)
    moreover have "2 / 2 ^ 47 < 1 / rat_of_nat whole"
    proof -
      have "rat_of_nat whole < 2 ^ 46" using assms(3) by (metis of_nat_less_iff of_nat_numeral of_nat_power)
      then show ?thesis using assms(2) by (simp add: field_simps)
    qed
    ultimately have rt: "r < of_nat t - 2 / 2 ^ 47 + 100 / 2 ^ 54" using r(1) by linarith
    have "f64 r < of_nat t"
    proof (cases "r \<le> 0")
      case True
      then show ?thesis using assms(4) by (simp add: f64_def)
    next
      case False
      have "r < 128" using r(1) q(2) by simp
      then have "\<bar>f64 r - r\<bar> \<le> 2 powi (6 - 53)" using False by (intro f64_error) (simp_all add: power_int_def)
      then have "\<bar>f64 r - r\<bar> \<le> 1 / 2 ^ 47" by (simp add: power_int_def power_divide)
      moreover have "(1 :: rat) / 2 ^ 47 + 100 / 2 ^ 54 < 2 / 2 ^ 47" by simp
      ultimately show ?thesis using rt by linarith
    qed
    then show ?thesis using nt pt by simp
  qed
qed

end
