(* ===== verification/Verify_Model.thy ===== *)
theory Verify_Model
  imports Text Float64 Vfs_Path Ids
begin

text \<open>
  The data of verification (\<open>crates/valyria-verify/src/command.rs\<close>, \<open>parse.rs\<close>, \<open>run.rs\<close>): commands and
  where they were discovered, failures and their fingerprints, and the runs. A location's file is given
  by its path components. Executing a process and parsing a tool's output are parameters.
\<close>

section \<open>Commands\<close>

datatype command_kind = BuildCommand | TypecheckCommand | LintCommand | FormatCommand | TestCommand

fun command_kind_str :: "command_kind \<Rightarrow> string" where
  "command_kind_str BuildCommand = ''build''"
| "command_kind_str TypecheckCommand = ''typecheck''"
| "command_kind_str LintCommand = ''lint''"
| "command_kind_str FormatCommand = ''format''"
| "command_kind_str TestCommand = ''test''"

datatype command_source =
    ManifestSource string
  | ScriptSource string string
  | CiWorkflow string
  | ConfigFileSource string
  | Convention

fun confidence :: "command_source \<Rightarrow> nat" where
  "confidence (CiWorkflow _) = 90"
| "confidence (ScriptSource _ _) = 80"
| "confidence Convention = 75"
| "confidence (ConfigFileSource _) = 60"
| "confidence (ManifestSource _) = 50"

record verify_command =
  vc_kind :: command_kind
  vc_program :: string
  vc_args :: "string list"
  vc_source :: command_source

definition command_display :: "verify_command \<Rightarrow> string" where
  "command_display c = (if vc_args c = [] then vc_program c
     else vc_program c @ '' '' @ join '' '' (vc_args c))"

definition command_identity :: "verify_command \<Rightarrow> string" where
  "command_identity c = vc_program c @ [CHR 0x00] @ join [CHR 0x00] (vc_args c)"

section \<open>Failures\<close>

record location =
  lo_file :: path
  lo_line :: "nat option"
  lo_column :: "nat option"

record assertion =
  as_expected :: "string option"
  as_actual :: "string option"
  as_detail :: "string option"

datatype failure_kind =
    CompileError | TestFailure | TestPanic | LintError | TypeError | FormatViolation | TimeoutFailure | UnknownFailure

fun debug_failure_kind :: "failure_kind \<Rightarrow> string" where
  "debug_failure_kind CompileError = ''CompileError''"
| "debug_failure_kind TestFailure = ''TestFailure''"
| "debug_failure_kind TestPanic = ''TestPanic''"
| "debug_failure_kind LintError = ''LintError''"
| "debug_failure_kind TypeError = ''TypeError''"
| "debug_failure_kind FormatViolation = ''FormatViolation''"
| "debug_failure_kind TimeoutFailure = ''Timeout''"
| "debug_failure_kind UnknownFailure = ''Unknown''"

text \<open>The name \<open>serde\<close> gives the kind.\<close>

fun failure_kind_str :: "failure_kind \<Rightarrow> string" where
  "failure_kind_str CompileError = ''compile_error''"
| "failure_kind_str TestFailure = ''test_failure''"
| "failure_kind_str TestPanic = ''test_panic''"
| "failure_kind_str LintError = ''lint_error''"
| "failure_kind_str TypeError = ''type_error''"
| "failure_kind_str FormatViolation = ''format_violation''"
| "failure_kind_str TimeoutFailure = ''timeout''"
| "failure_kind_str UnknownFailure = ''unknown''"

record failure =
  fl_kind :: failure_kind
  fl_message :: string
  fl_primary :: "location option"
  fl_secondary :: "location list"
  fl_assertion :: "assertion option"
  fl_test :: "string option"
  fl_suspects :: "path list"

definition new_failure :: "failure_kind \<Rightarrow> string \<Rightarrow> failure" where
  "new_failure k msg = \<lparr>fl_kind = k, fl_message = msg, fl_primary = None, fl_secondary = [],
     fl_assertion = None, fl_test = None, fl_suspects = []\<rparr>"

text \<open>\<open>split_whitespace\<close>: the maximal runs without whitespace.\<close>

function split_ws :: "string \<Rightarrow> string \<Rightarrow> string list" where
  "split_ws word s = (case s of
     [] \<Rightarrow> (if word = [] then [] else [word])
   | c # cs \<Rightarrow>
       if ws_len s = 0 then split_ws (word @ [c]) cs
       else (if word = [] then [] else [word]) @ split_ws [] (drop (ws_len s) s))"
  by pat_completeness auto

termination split_ws
  by (relation "measure (\<lambda>(w, s). length s)") auto

declare split_ws.simps [simp del]

definition message_head :: "string \<Rightarrow> string" where
  "message_head s = join '' '' (take 8 (split_ws [] s))"

definition failure_fingerprint :: "failure \<Rightarrow> string" where
  "failure_fingerprint f =
     debug_failure_kind (fl_kind f) @ ''|''
     @ (case fl_primary f of None \<Rightarrow> [] | Some l \<Rightarrow> show_path (lo_file l)) @ ''|''
     @ (case fl_test f of None \<Rightarrow> [] | Some t \<Rightarrow> t) @ ''|'' @ message_head (fl_message f)"

section \<open>Tiers\<close>

datatype tier = TierSyntax | TargetedTest | RelatedTests | TierStyle | TierFull

fun debug_tier :: "tier \<Rightarrow> string" where
  "debug_tier TierSyntax = ''Syntax''"
| "debug_tier TargetedTest = ''TargetedTest''"
| "debug_tier RelatedTests = ''RelatedTests''"
| "debug_tier TierStyle = ''Style''"
| "debug_tier TierFull = ''Full''"

section \<open>Runs\<close>

datatype verification_outcome = OutcomePassed | OutcomeFailed | OutcomeErrored | OutcomeTimedOut

fun debug_outcome :: "verification_outcome \<Rightarrow> string" where
  "debug_outcome OutcomePassed = ''Passed''"
| "debug_outcome OutcomeFailed = ''Failed''"
| "debug_outcome OutcomeErrored = ''Errored''"
| "debug_outcome OutcomeTimedOut = ''TimedOut''"

record verification_run =
  vr_id :: string
  vr_command :: verify_command
  vr_tier :: "tier option"
  vr_outcome :: verification_outcome
  vr_exit :: "int option"
  vr_duration :: nat
  vr_stdout :: string
  vr_stderr :: string
  vr_truncated :: bool
  vr_changeset :: "content_hash option"
  vr_captured :: timestamp
  vr_failures :: "failure list"

definition vr_passed :: "verification_run \<Rightarrow> bool" where
  "vr_passed r \<longleftrightarrow> vr_outcome r = OutcomePassed"

definition show_int :: "int \<Rightarrow> string" where
  "show_int n = (if n < 0 then CHR ''-'' # show_nat (nat (- n)) else show_nat (nat n))"

definition debug_exit :: "int option \<Rightarrow> string" where
  "debug_exit e = (case e of None \<Rightarrow> ''None'' | Some n \<Rightarrow> ''Some('' @ show_int n @ '')'')"

definition arrow :: string where
  "arrow = [CHR 0xE2, CHR 0x86, CHR 0x92]"

definition ellipsis :: string where
  "ellipsis = [CHR 0xE2, CHR 0x80, CHR 0xA6]"

definition show_location :: "location \<Rightarrow> string" where
  "show_location l = '' ['' @ show_path (lo_file l)
     @ (case lo_line l of None \<Rightarrow> [] | Some n \<Rightarrow> '':'' @ show_nat n) @ '']''"

definition run_digest :: "verification_run \<Rightarrow> nat \<Rightarrow> string" where
  "run_digest r n = command_display (vr_command r) @ '' '' @ arrow @ '' '' @ debug_outcome (vr_outcome r)
     @ '' (exit '' @ debug_exit (vr_exit r) @ '', '' @ show_nat (vr_duration r) @ '' ms)''
     @ concat (map (\<lambda>f. [newline] @ ''  - '' @ fl_message f
         @ (case fl_primary f of None \<Rightarrow> [] | Some l \<Rightarrow> show_location l)) (take n (vr_failures r)))
     @ (if n < length (vr_failures r)
        then [newline] @ ''  '' @ ellipsis @ '' '' @ show_nat (length (vr_failures r) - n) @ '' more''
        else [])"

text \<open>\<open>VerificationRunner::run\<close> after the process has ended.\<close>

datatype end_reason = Exited | TimedOut | IdleTimedOut | ProcessCancelled

record exec_result =
  ex_end :: end_reason
  ex_exit :: "int option"
  ex_stdout :: string
  ex_stderr :: string
  ex_truncated :: bool
  ex_duration :: nat

fun end_outcome :: "end_reason \<Rightarrow> int option \<Rightarrow> verification_outcome \<times> bool" where
  "end_outcome Exited e = (if e = Some 0 then (OutcomePassed, False) else (OutcomeFailed, False))"
| "end_outcome TimedOut e = (OutcomeTimedOut, True)"
| "end_outcome IdleTimedOut e = (OutcomeTimedOut, True)"
| "end_outcome ProcessCancelled e = (OutcomeErrored, False)"

record raw_output =
  ro_stdout :: string
  ro_stderr :: string
  ro_exit :: "int option"
  ro_timed_out :: bool

definition run_of ::
  "(verify_command \<Rightarrow> raw_output \<Rightarrow> failure list) \<Rightarrow> string \<Rightarrow> timestamp \<Rightarrow> verify_command \<Rightarrow> tier option
     \<Rightarrow> content_hash option \<Rightarrow> exec_result \<Rightarrow> verification_run" where
  "run_of parse i now c tr cs x = (let (out, timed) = end_outcome (ex_end x) (ex_exit x) in
     \<lparr>vr_id = i, vr_command = c, vr_tier = tr, vr_outcome = out, vr_exit = ex_exit x,
      vr_duration = ex_duration x, vr_stdout = ex_stdout x, vr_stderr = ex_stderr x,
      vr_truncated = ex_truncated x, vr_changeset = cs, vr_captured = now,
      vr_failures = (if out = OutcomePassed then [] else parse c \<lparr>ro_stdout = ex_stdout x,
        ro_stderr = ex_stderr x, ro_exit = ex_exit x, ro_timed_out = timed\<rparr>)\<rparr>)"

text \<open>\<open>run_from_captured\<close>\<close>

definition run_from_captured ::
  "(verify_command \<Rightarrow> raw_output \<Rightarrow> failure list) \<Rightarrow> string \<Rightarrow> timestamp \<Rightarrow> verify_command \<Rightarrow> tier option
     \<Rightarrow> string \<Rightarrow> string \<Rightarrow> int option \<Rightarrow> verification_run" where
  "run_from_captured parse i now c tr stdout stderr e = (let
     out = (case e of None \<Rightarrow> OutcomeErrored | Some n \<Rightarrow> if n = 0 then OutcomePassed else OutcomeFailed) in
     \<lparr>vr_id = i, vr_command = c, vr_tier = tr, vr_outcome = out, vr_exit = e, vr_duration = 0,
      vr_stdout = stdout, vr_stderr = stderr, vr_truncated = False, vr_changeset = None, vr_captured = now,
      vr_failures = (if out = OutcomePassed then [] else parse c \<lparr>ro_stdout = stdout,
        ro_stderr = stderr, ro_exit = e, ro_timed_out = False\<rparr>)\<rparr>)"

definition changeset_hash :: "(bytes \<Rightarrow> content_hash) \<Rightarrow> path list \<Rightarrow> content_hash" where
  "changeset_hash digest files = digest (text_bytes (join [newline] (sort (map show_path files))))"

lemma run_passed_iff: "vr_passed (run_of parse i now c tr cs x) \<longleftrightarrow> ex_end x = Exited \<and> ex_exit x = Some 0"
  by (cases "ex_end x") (auto simp: run_of_def vr_passed_def)

end
