(* ===== verification/Escalation.thy ===== *)
theory Escalation
  imports Verify_Model "HOL-Library.Product_Lexorder"
begin

text \<open>
  What to run next (\<open>crates/valyria-verify/src/strategy.rs\<close>): the plan of checks built from the confirmed
  tooling, how it is walked, and when the mandatory full run is done. Densities are \<open>f32\<close> values.
\<close>

section \<open>The plan\<close>

record change_set =
  chg_files :: "path list"
  chg_symbols :: "string list"

definition change_set_of :: "path list \<Rightarrow> change_set" where
  "change_set_of files = \<lparr>chg_files = files, chg_symbols = []\<rparr>"

record targeted_check =
  tg_command :: verify_command
  tg_covers :: "path list"
  tg_secs :: u32

fun regression_catch_prior :: "tier \<Rightarrow> rat" where
  "regression_catch_prior TierSyntax = f32 (9 / 10)"
| "regression_catch_prior TargetedTest = f32 (8 / 10)"
| "regression_catch_prior RelatedTests = f32 (6 / 10)"
| "regression_catch_prior TierStyle = f32 (2 / 10)"
| "regression_catch_prior TierFull = f32 (7 / 10)"

fun tier_rank :: "tier \<Rightarrow> nat" where
  "tier_rank TierSyntax = 0"
| "tier_rank TargetedTest = 1"
| "tier_rank RelatedTests = 2"
| "tier_rank TierStyle = 3"
| "tier_rank TierFull = 4"

record verification_step =
  vp_command :: verify_command
  vp_tier :: tier
  vp_rationale :: string
  vp_secs :: u32

definition value_density :: "verification_step \<Rightarrow> rat" where
  "value_density st =
     f32 (regression_catch_prior (vp_tier st) / f32 (of_nat (max (unat (vp_secs st)) 1)))"

definition next_after :: "verification_step list \<Rightarrow> nat \<Rightarrow> bool \<Rightarrow> verification_step option" where
  "next_after p executed last_passed =
     (if 0 < executed \<and> \<not> last_passed then None
      else if executed < length p then Some (p ! executed) else None)"

definition needs_broad_run :: "verification_step list \<Rightarrow> nat \<Rightarrow> bool" where
  "needs_broad_run p executed \<longleftrightarrow>
     (\<exists>(i, st) \<in> set (enumerate 0 p). executed \<le> i \<and> vp_tier st = TierFull) \<or>
     (\<exists>st \<in> set p. vp_tier st = TierFull) \<and> executed < length p"

definition broad_run_satisfied :: "verification_step list \<Rightarrow> nat \<Rightarrow> bool" where
  "broad_run_satisfied p executed \<longleftrightarrow>
     (\<forall>(i, st) \<in> set (filter (\<lambda>(i, st). vp_tier st = TierFull) (enumerate 0 p)). i < executed)"

record strategy_options =
  so_style :: bool
  so_full :: bool

definition default_options :: strategy_options where
  "default_options = \<lparr>so_style = True, so_full = True\<rparr>"

text \<open>The commands not yet used are made steps; \<open>used\<close> is the set of identities.\<close>

fun add_unused ::
  "('c \<Rightarrow> string) \<Rightarrow> ('c \<Rightarrow> verification_step) \<Rightarrow> 'c list \<Rightarrow> string set \<times> verification_step list
     \<Rightarrow> string set \<times> verification_step list" where
  "add_unused key mk [] acc = acc"
| "add_unused key mk (c # cs) (used, steps) =
     add_unused key mk cs
       (if key c \<in> used then (used, steps) else (insert (key c) used, steps @ [mk c]))"

definition syntax_step :: "verify_command \<Rightarrow> verification_step" where
  "syntax_step c = \<lparr>vp_command = c, vp_tier = TierSyntax,
     vp_rationale = ''compile/type check before running anything slower'', vp_secs = 20\<rparr>"

definition targeted_step :: "targeted_check \<Rightarrow> verification_step" where
  "targeted_step t = \<lparr>vp_command = tg_command t, vp_tier = TargetedTest,
     vp_rationale = (if tg_covers t = [] then ''test believed to cover the change''
       else ''covers '' @ join '', '' (map show_path (tg_covers t))), vp_secs = max (tg_secs t) 1\<rparr>"

definition related_step :: "verify_command \<Rightarrow> verification_step" where
  "related_step c = \<lparr>vp_command = c, vp_tier = RelatedTests,
     vp_rationale = ''broaden from the targeted tests'', vp_secs = 60\<rparr>"

definition style_step :: "verify_command \<Rightarrow> verification_step" where
  "style_step c = \<lparr>vp_command = c, vp_tier = TierStyle, vp_rationale = ''style gate'', vp_secs = 15\<rparr>"

definition full_step :: "change_set \<Rightarrow> verify_command \<Rightarrow> verification_step" where
  "full_step chg c = \<lparr>vp_command = c, vp_tier = TierFull,
     vp_rationale = (if chg_files chg = [] then ''full suite (no change set was provided)''
       else ''mandatory full run before completion''), vp_secs = 120\<rparr>"

text \<open>\<open>max_by_key\<close>: the last of the greatest.\<close>

fun max_by_key :: "('a \<Rightarrow> nat) \<Rightarrow> 'a list \<Rightarrow> 'a option" where
  "max_by_key f [] = None"
| "max_by_key f (x # xs) = (case max_by_key f xs of
     None \<Rightarrow> Some x | Some y \<Rightarrow> if f y < f x then Some x else Some y)"

definition step_key :: "verification_step \<Rightarrow> nat \<times> rat" where
  "step_key st = (tier_rank (vp_tier st), - value_density st)"

definition unsorted_plan ::
  "verify_command list \<Rightarrow> change_set \<Rightarrow> targeted_check list \<Rightarrow> strategy_options \<Rightarrow> verification_step list" where
  "unsorted_plan available chg targeted opts =
     (let acc = add_unused command_identity syntax_step
            (filter (\<lambda>c. vc_kind c \<in> {BuildCommand, TypecheckCommand}) available) ({}, []);
          acc = add_unused (\<lambda>t. command_identity (tg_command t)) targeted_step targeted acc;
          tests = filter (\<lambda>c. vc_kind c = TestCommand) available;
          acc = (if \<exists>st \<in> set (snd acc). vp_tier st = TargetedTest
                 then add_unused (\<lambda>c. ''related:'' @ command_identity c) related_step (take 1 tests) acc
                 else acc);
          acc = (if so_style opts
                 then add_unused command_identity style_step
                   (filter (\<lambda>c. vc_kind c \<in> {LintCommand, FormatCommand}) available) acc
                 else acc)
      in snd acc @ (if so_full opts
         then (case max_by_key (\<lambda>c. confidence (vc_source c)) tests of None \<Rightarrow> [] | Some c \<Rightarrow> [full_step chg c])
         else []))"

definition escalation_plan ::
  "verify_command list \<Rightarrow> change_set \<Rightarrow> targeted_check list \<Rightarrow> strategy_options \<Rightarrow> verification_step list" where
  "escalation_plan available chg targeted opts = sort_key step_key (unsorted_plan available chg targeted opts)"

section \<open>Facts\<close>

lemma add_unused_steps:
  "\<exists>xs. snd (add_unused key mk cs acc) = snd acc @ map mk xs \<and> set xs \<subseteq> set cs \<and> distinct (map key xs)
     \<and> fst (add_unused key mk cs acc) = fst acc \<union> key ` set cs \<and> key ` set xs = key ` set cs - fst acc"
proof (induction key mk cs acc rule: add_unused.induct)
  case (1 key mk acc)
  then show ?case by (intro exI [of _ "[]"]) simp
next
  case (2 key mk c cs used steps)
  show ?case
  proof (cases "key c \<in> used")
    case True
    with 2 show ?thesis by (auto 4 4)
  next
    case False
    with 2 obtain xs where xs:
      "snd (add_unused key mk (c # cs) (used, steps)) = steps @ mk c # map mk xs" "set xs \<subseteq> set cs"
      "distinct (map key xs)" "fst (add_unused key mk (c # cs) (used, steps)) = insert (key c) used \<union> key ` set cs"
      "key ` set xs = key ` set cs - insert (key c) used" by auto
    moreover from xs(5) have "key c \<notin> key ` set xs" by blast
    ultimately show ?thesis using False by (intro exI [of _ "c # xs"]) auto
  qed
qed

lemma add_unused_maybe:
  "\<exists>xs. snd (if b then add_unused key mk cs acc else acc) = snd acc @ map mk xs \<and> set xs \<subseteq> set cs
     \<and> (xs \<noteq> [] \<longrightarrow> b)"
proof (cases b)
  case True
  then show ?thesis using add_unused_steps [of key mk cs acc] by auto
qed (intro exI [of _ "[]"], simp)

lemma max_by_key_None [simp]: "max_by_key f xs = None \<longleftrightarrow> xs = []"
  by (cases xs) (auto split: option.split)

lemma max_by_key_Some:
  "max_by_key f xs = Some y \<Longrightarrow> y \<in> set xs \<and> (\<forall>x \<in> set xs. f x \<le> f y)"
proof (induction xs arbitrary: y)
  case (Cons x xs)
  then show ?case by (cases "max_by_key f xs") (fastforce split: if_splits)+
qed simp

text \<open>Where the steps of the plan come from.\<close>

lemma unsorted_plan_shape:
  "\<exists>bs ts rs ls fs. unsorted_plan available chg targeted opts =
     map syntax_step bs @ map targeted_step ts @ map related_step rs @ map style_step ls @ map (full_step chg) fs
   \<and> set bs \<subseteq> {c \<in> set available. vc_kind c \<in> {BuildCommand, TypecheckCommand}} \<and> set ts \<subseteq> set targeted
   \<and> set rs \<subseteq> {c \<in> set available. vc_kind c = TestCommand}
   \<and> set ls \<subseteq> {c \<in> set available. vc_kind c \<in> {LintCommand, FormatCommand}} \<and> (ls \<noteq> [] \<longrightarrow> so_style opts)
   \<and> fs = (if so_full opts then (case max_by_key (\<lambda>c. confidence (vc_source c))
        (filter (\<lambda>c. vc_kind c = TestCommand) available) of None \<Rightarrow> [] | Some c \<Rightarrow> [c]) else [])"
proof -
  let ?k = command_identity
  let ?b = "filter (\<lambda>c. vc_kind c \<in> {BuildCommand, TypecheckCommand}) available"
  let ?l = "filter (\<lambda>c. vc_kind c \<in> {LintCommand, FormatCommand}) available"
  let ?t = "filter (\<lambda>c. vc_kind c = TestCommand) available"
  define a1 where "a1 = add_unused ?k syntax_step ?b ({}, [])"
  obtain bs where bs: "snd a1 = map syntax_step bs" "set bs \<subseteq> set ?b"
    using add_unused_steps [of ?k syntax_step ?b "({}, [])"] by (auto simp: a1_def)
  define a2 where "a2 = add_unused (\<lambda>t. ?k (tg_command t)) targeted_step targeted a1"
  obtain ts where ts: "snd a2 = snd a1 @ map targeted_step ts" "set ts \<subseteq> set targeted"
    using add_unused_steps [of "\<lambda>t. ?k (tg_command t)" targeted_step targeted a1] by (auto simp: a2_def)
  define a3 where "a3 = (if \<exists>st \<in> set (snd a2). vp_tier st = TargetedTest
      then add_unused (\<lambda>c. ''related:'' @ ?k c) related_step (take 1 ?t) a2 else a2)"
  obtain rs where rs: "snd a3 = snd a2 @ map related_step rs" "set rs \<subseteq> set (take 1 ?t)"
    using add_unused_maybe [of "\<exists>st \<in> set (snd a2). vp_tier st = TargetedTest" "\<lambda>c. ''related:'' @ ?k c"
        related_step "take 1 ?t" a2] unfolding a3_def by metis
  define a4 where "a4 = (if so_style opts then add_unused ?k style_step ?l a3 else a3)"
  obtain ls where ls: "snd a4 = snd a3 @ map style_step ls" "set ls \<subseteq> set ?l" "ls \<noteq> [] \<longrightarrow> so_style opts"
    using add_unused_maybe [of "so_style opts" ?k style_step ?l a3] unfolding a4_def by metis
  define fs where "fs = (if so_full opts then (case max_by_key (\<lambda>c. confidence (vc_source c)) ?t of
      None \<Rightarrow> [] | Some c \<Rightarrow> [c]) else [])"
  have sub: "set (take 1 ?t) \<subseteq> set ?t" by (rule set_take_subset)
  have "unsorted_plan available chg targeted opts = snd a4 @ (if so_full opts
      then (case max_by_key (\<lambda>c. confidence (vc_source c)) ?t of None \<Rightarrow> [] | Some c \<Rightarrow> [full_step chg c]) else [])"
    by (simp add: unsorted_plan_def a1_def a2_def a3_def a4_def Let_def)
  also have "\<dots> = map syntax_step bs @ map targeted_step ts @ map related_step rs @ map style_step ls @ map (full_step chg) fs"
    by (simp add: bs ts rs ls fs_def split: option.split)
  finally have "unsorted_plan available chg targeted opts =
      map syntax_step bs @ map targeted_step ts @ map related_step rs @ map style_step ls @ map (full_step chg) fs" .
  moreover have "set bs \<subseteq> {c \<in> set available. vc_kind c \<in> {BuildCommand, TypecheckCommand}}"
    "set rs \<subseteq> {c \<in> set available. vc_kind c = TestCommand}"
    "set ls \<subseteq> {c \<in> set available. vc_kind c \<in> {LintCommand, FormatCommand}}"
    using bs(2) rs(2) sub ls(2) by auto
  ultimately show ?thesis using ts(2) ls(3) fs_def by blast
qed

lemma step_tiers [simp]:
  "vp_tier (syntax_step c) = TierSyntax" "vp_tier (targeted_step t) = TargetedTest"
  "vp_tier (related_step c) = RelatedTests" "vp_tier (style_step c) = TierStyle"
  "vp_tier (full_step chg c) = TierFull" "vp_command (full_step chg c) = c"
  "vp_command (syntax_step c) = c" "vp_command (targeted_step t) = tg_command t"
  "vp_command (related_step c) = c" "vp_command (style_step c) = c"
  by (simp_all add: syntax_step_def targeted_step_def related_step_def style_step_def full_step_def)

lemma no_full:
  "filter (\<lambda>st. vp_tier st = TierFull) (map syntax_step bs) = []"
  "filter (\<lambda>st. vp_tier st = TierFull) (map targeted_step ts) = []"
  "filter (\<lambda>st. vp_tier st = TierFull) (map related_step rs) = []"
  "filter (\<lambda>st. vp_tier st = TierFull) (map style_step ls) = []"
  "filter (\<lambda>st. vp_tier st = TierFull) (map (full_step chg) fs) = map (full_step chg) fs"
  by (auto simp: filter_empty_conv)

lemma full_steps_of_plan:
  "filter (\<lambda>st. vp_tier st = TierFull) (unsorted_plan available chg targeted opts) =
    (if so_full opts then (case max_by_key (\<lambda>c. confidence (vc_source c))
        (filter (\<lambda>c. vc_kind c = TestCommand) available) of None \<Rightarrow> [] | Some c \<Rightarrow> [full_step chg c]) else [])"
proof -
  obtain bs ts rs ls fs where "unsorted_plan available chg targeted opts = map syntax_step bs @
      map targeted_step ts @ map related_step rs @ map style_step ls @ map (full_step chg) fs"
    and fs: "fs = (if so_full opts then (case max_by_key (\<lambda>c. confidence (vc_source c))
        (filter (\<lambda>c. vc_kind c = TestCommand) available) of None \<Rightarrow> [] | Some c \<Rightarrow> [c]) else [])"
    using unsorted_plan_shape [of available chg targeted opts] by blast
  then have "filter (\<lambda>st. vp_tier st = TierFull) (unsorted_plan available chg targeted opts) = map (full_step chg) fs"
    by (simp only: filter_append no_full append_Nil)
  then show ?thesis by (simp add: fs split: option.split)
qed

text \<open>A list sorted by tier with one full step ends in it.\<close>

lemma tier_rank_4 [simp]: "4 \<le> tier_rank t \<longleftrightarrow> t = TierFull"
  by (cases t) simp_all

lemma sorted_tiers: "sorted (map (\<lambda>st. tier_rank (vp_tier st)) (escalation_plan available chg targeted opts))"
proof -
  have "sorted (map step_key (escalation_plan available chg targeted opts))"
    by (simp add: escalation_plan_def)
  then show ?thesis by (auto simp: sorted_iff_nth_mono step_key_def less_eq_prod_def) fastforce
qed

lemma full_is_last:
  assumes "sorted (map (\<lambda>st. tier_rank (vp_tier st)) p)" and "filter (\<lambda>st. vp_tier st = TierFull) p = [x]"
  shows "\<exists>q. p = q @ [x] \<and> (\<forall>st \<in> set q. vp_tier st \<noteq> TierFull)"
  using assms
proof (induction p)
  case (Cons y ys)
  show ?case
  proof (cases "vp_tier y = TierFull")
    case True
    then have "\<forall>st \<in> set ys. vp_tier st = TierFull" using Cons.prems(1) by auto
    then show ?thesis using Cons.prems(2) True by (cases ys) auto
  next
    case False
    then obtain q where "ys = q @ [x]" "\<forall>st \<in> set q. vp_tier st \<noteq> TierFull" using Cons by auto
    then show ?thesis using False by (intro exI [of _ "y # q"]) simp
  qed
qed simp

lemma plan_has_full:
  assumes "so_full opts" and "\<exists>c \<in> set available. vc_kind c = TestCommand"
  obtains q c where "escalation_plan available chg targeted opts = q @ [full_step chg c]"
    "\<forall>st \<in> set q. vp_tier st \<noteq> TierFull" "c \<in> set available" "vc_kind c = TestCommand"
    "\<forall>d \<in> set available. vc_kind d = TestCommand \<longrightarrow> confidence (vc_source d) \<le> confidence (vc_source c)"
proof -
  let ?t = "filter (\<lambda>c. vc_kind c = TestCommand) available"
  have "?t \<noteq> []" using assms(2) by (auto simp: filter_empty_conv)
  then obtain c where c: "max_by_key (\<lambda>c. confidence (vc_source c)) ?t = Some c"
    by (metis max_by_key_None not_None_eq)
  have "filter (\<lambda>st. vp_tier st = TierFull) (escalation_plan available chg targeted opts) = [full_step chg c]"
    using full_steps_of_plan [of available chg targeted opts] assms(1) c
    by (simp add: escalation_plan_def filter_sort)
  from full_is_last [OF sorted_tiers this] max_by_key_Some [OF c] that show ?thesis by auto
qed

text \<open>With no targeted checks, only confirmed commands are run.\<close>

lemma plan_commands: "vp_command ` set (escalation_plan available chg [] opts) \<subseteq> set available"
proof -
  obtain bs ts rs ls fs where sh: "unsorted_plan available chg [] opts = map syntax_step bs @
      map targeted_step ts @ map related_step rs @ map style_step ls @ map (full_step chg) fs"
    "set bs \<subseteq> {c \<in> set available. vc_kind c \<in> {BuildCommand, TypecheckCommand}}"
    "set ts \<subseteq> set []" "set rs \<subseteq> {c \<in> set available. vc_kind c = TestCommand}"
    "set ls \<subseteq> {c \<in> set available. vc_kind c \<in> {LintCommand, FormatCommand}}"
    and fs: "fs = (if so_full opts then (case max_by_key (\<lambda>c. confidence (vc_source c))
        (filter (\<lambda>c. vc_kind c = TestCommand) available) of None \<Rightarrow> [] | Some c \<Rightarrow> [c]) else [])"
    using unsorted_plan_shape [of available chg "[]" opts] by blast
  have "set fs \<subseteq> set available"
  proof (cases "max_by_key (\<lambda>c. confidence (vc_source c)) (filter (\<lambda>c. vc_kind c = TestCommand) available)")
    case (Some c)
    have "fs = (if so_full opts then [c] else [])" by (simp only: fs Some option.case)
    then show ?thesis using max_by_key_Some [OF Some] by (cases "so_full opts") simp_all
  next
    case None
    have "fs = (if so_full opts then [] else [])" by (simp only: fs None option.case)
    then show ?thesis by simp
  qed
  with sh show ?thesis by (auto simp: escalation_plan_def)
qed

text \<open>Without a full step there is none to wait for.\<close>

lemma plan_full_cases:
  obtains (full) q x where "escalation_plan available chg targeted opts = q @ [x]" "vp_tier x = TierFull"
    "\<forall>st \<in> set q. vp_tier st \<noteq> TierFull"
  | (none) "\<forall>st \<in> set (escalation_plan available chg targeted opts). vp_tier st \<noteq> TierFull"
proof -
  let ?p = "escalation_plan available chg targeted opts"
  have "filter (\<lambda>st. vp_tier st = TierFull) ?p = [] \<or> (\<exists>c. filter (\<lambda>st. vp_tier st = TierFull) ?p = [full_step chg c])"
    using full_steps_of_plan [of available chg targeted opts]
    by (auto simp: escalation_plan_def filter_sort split: option.splits)
  then show thesis
  proof
    assume "filter (\<lambda>st. vp_tier st = TierFull) ?p = []"
    then show thesis using none by (auto simp: filter_empty_conv)
  next
    assume "\<exists>c. filter (\<lambda>st. vp_tier st = TierFull) ?p = [full_step chg c]"
    then obtain c where "filter (\<lambda>st. vp_tier st = TierFull) ?p = [full_step chg c]" by blast
    from full_is_last [OF sorted_tiers this] show thesis using full by auto
  qed
qed

lemma broad_satisfied_nth:
  "broad_run_satisfied p k \<longleftrightarrow> (\<forall>i < length p. vp_tier (p ! i) = TierFull \<longrightarrow> i < k)"
  by (auto simp: broad_run_satisfied_def in_set_enumerate_eq)

lemma needs_broad_nth:
  "needs_broad_run p k \<longleftrightarrow> (\<exists>i < length p. k \<le> i \<and> vp_tier (p ! i) = TierFull) \<or>
     (\<exists>i < length p. vp_tier (p ! i) = TierFull) \<and> k < length p"
proof -
  have "(\<exists>(i, st) \<in> set (enumerate 0 p). k \<le> i \<and> vp_tier st = TierFull) \<longleftrightarrow>
      (\<exists>i < length p. k \<le> i \<and> vp_tier (p ! i) = TierFull)"
    by (auto simp: in_set_enumerate_eq)
  moreover have "(\<exists>st \<in> set p. vp_tier st = TierFull) \<longleftrightarrow> (\<exists>i < length p. vp_tier (p ! i) = TierFull)"
    by (metis in_set_conv_nth)
  ultimately show ?thesis by (simp only: needs_broad_run_def)
qed

text \<open>C31: the planner keeps its two rules. The checks are ordered by tier; every check is a confirmed command
  of the kind its tier asks for (or a targeted check handed in); and if the full suite is required and there
  is any test command, the plan ends in the one full run, of a test command no other is more trusted than.\<close>

theorem escalation_plan_sound:
  "sorted (map (\<lambda>st. tier_rank (vp_tier st)) (escalation_plan available chg targeted opts))
   \<and> (\<forall>st \<in> set (escalation_plan available chg targeted opts). (case vp_tier st of
        TierSyntax \<Rightarrow> vp_command st \<in> set available \<and> vc_kind (vp_command st) \<in> {BuildCommand, TypecheckCommand}
      | TargetedTest \<Rightarrow> vp_command st \<in> tg_command ` set targeted
      | RelatedTests \<Rightarrow> vp_command st \<in> set available \<and> vc_kind (vp_command st) = TestCommand
      | TierStyle \<Rightarrow> vp_command st \<in> set available \<and> so_style opts \<and>
          vc_kind (vp_command st) \<in> {LintCommand, FormatCommand}
      | TierFull \<Rightarrow> vp_command st \<in> set available \<and> so_full opts \<and> vc_kind (vp_command st) = TestCommand))
   \<and> (so_full opts \<and> (\<exists>c \<in> set available. vc_kind c = TestCommand) \<longrightarrow>
      (\<exists>q x. escalation_plan available chg targeted opts = q @ [x] \<and> vp_tier x = TierFull \<and>
        (\<forall>st \<in> set q. vp_tier st \<noteq> TierFull) \<and>
        (\<forall>d \<in> set available. vc_kind d = TestCommand \<longrightarrow>
           confidence (vc_source d) \<le> confidence (vc_source (vp_command x)))))"
proof (intro conjI impI)
  obtain bs ts rs ls fs where shape: "unsorted_plan available chg targeted opts = map syntax_step bs @
      map targeted_step ts @ map related_step rs @ map style_step ls @ map (full_step chg) fs"
    "set bs \<subseteq> {c \<in> set available. vc_kind c \<in> {BuildCommand, TypecheckCommand}}" "set ts \<subseteq> set targeted"
    "set rs \<subseteq> {c \<in> set available. vc_kind c = TestCommand}"
    "set ls \<subseteq> {c \<in> set available. vc_kind c \<in> {LintCommand, FormatCommand}}" "ls \<noteq> [] \<longrightarrow> so_style opts"
    and fs: "fs = (if so_full opts then (case max_by_key (\<lambda>c. confidence (vc_source c))
        (filter (\<lambda>c. vc_kind c = TestCommand) available) of None \<Rightarrow> [] | Some c \<Rightarrow> [c]) else [])"
    using unsorted_plan_shape [of available chg targeted opts] by blast
  have f: "c \<in> set available \<and> so_full opts \<and> vc_kind c = TestCommand" if "c \<in> set fs" for c
  proof -
    have o: "so_full opts" using that unfolding fs by (cases "so_full opts") simp_all
    then have "max_by_key (\<lambda>c. confidence (vc_source c)) (filter (\<lambda>c. vc_kind c = TestCommand) available) = Some c"
      using that unfolding fs by (simp split: option.splits)
    from max_by_key_Some [OF this] o show ?thesis by simp
  qed
  show "\<forall>st \<in> set (escalation_plan available chg targeted opts). (case vp_tier st of
        TierSyntax \<Rightarrow> vp_command st \<in> set available \<and> vc_kind (vp_command st) \<in> {BuildCommand, TypecheckCommand}
      | TargetedTest \<Rightarrow> vp_command st \<in> tg_command ` set targeted
      | RelatedTests \<Rightarrow> vp_command st \<in> set available \<and> vc_kind (vp_command st) = TestCommand
      | TierStyle \<Rightarrow> vp_command st \<in> set available \<and> so_style opts \<and>
          vc_kind (vp_command st) \<in> {LintCommand, FormatCommand}
      | TierFull \<Rightarrow> vp_command st \<in> set available \<and> so_full opts \<and> vc_kind (vp_command st) = TestCommand)"
    using shape(2-6) f by (auto simp: escalation_plan_def shape(1))
qed (use sorted_tiers plan_has_full in \<open>simp, metis step_tiers(5,6)\<close>)

text \<open>A walk of the plan that ends well has run the full suite. After \<open>k\<close> checks that all passed there is
  no next one only when every full run of the plan is done; \<open>needs_broad_run\<close> is exactly the negation of
  \<open>broad_run_satisfied\<close>, and both ask only whether the whole plan was run, if it has a full run at all.\<close>

theorem broad_run_before_completion:
  "let p = escalation_plan available chg targeted opts; full = (\<exists>st \<in> set p. vp_tier st = TierFull) in
   (needs_broad_run p k \<longleftrightarrow> \<not> broad_run_satisfied p k) \<and>
   (broad_run_satisfied p k \<longleftrightarrow> (full \<longrightarrow> next_after p k True = None)) \<and>
   (0 < k \<longrightarrow> next_after p k False = None)"
proof (cases rule: plan_full_cases [of available chg targeted opts])
  case (full q x)
  have f: "vp_tier ((q @ [x]) ! i) = TierFull \<longleftrightarrow> i = length q" if "i < Suc (length q)" for i
    using that full(2,3) nth_mem [of i q] by (cases "i = length q") (simp_all add: nth_append)
  have b: "broad_run_satisfied (q @ [x]) k \<longleftrightarrow> length q < k"
    unfolding broad_satisfied_nth using f by (metis length_append_singleton lessI)
  have n: "needs_broad_run (q @ [x]) k \<longleftrightarrow> k \<le> length q"
    unfolding needs_broad_nth using f by (metis length_append_singleton lessI less_Suc_eq_le)
  show ?thesis using full(2) b n by (simp add: full(1) Let_def next_after_def not_le not_less)
next
  case none
  then have "\<forall>i < length (escalation_plan available chg targeted opts).
      vp_tier (escalation_plan available chg targeted opts ! i) \<noteq> TierFull" by simp
  with none show ?thesis by (auto simp: broad_satisfied_nth needs_broad_nth next_after_def Let_def)
qed

section \<open>The plan the driver asks for\<close>

text \<open>With no targeted checks, which the driver never has, the plan is the confirmed commands by tier, each
  tier in the order of discovery, and the full run.\<close>

lemma same_density: "vp_tier a = vp_tier b \<Longrightarrow> vp_secs a = vp_secs b \<Longrightarrow> step_key a = step_key b"
  by (simp add: step_key_def value_density_def)

lemma fixed_keys:
  "step_key (syntax_step c) = (0, - value_density (syntax_step d))"
  "step_key (style_step c) = (3, - value_density (style_step d))"
  "step_key (full_step chg c) = (4, - value_density (full_step chg d))"
  by (simp_all add: step_key_def value_density_def syntax_step_def style_step_def full_step_def)

lemma sorted_const: "(\<And>x. f x = c) \<Longrightarrow> sorted (map f xs)"
  by (induction xs) (auto simp del: less_eq_prod_simp)

lemma sorted_by_tier:
  "sorted (map step_key (map syntax_step bs @ map style_step ls))"
  "sorted (map step_key (map syntax_step bs @ map style_step ls @ [full_step chg c]))"
proof -
  define f g where "f = (\<lambda>c. step_key (syntax_step c))" and "g = (\<lambda>c. step_key (style_step c))"
  have f: "f x = (0, - value_density (syntax_step undefined))" for x
    unfolding f_def by (rule fixed_keys)
  have g: "g x = (3, - value_density (style_step undefined))" for x
    unfolding g_def by (rule fixed_keys)
  have "sorted (map f bs)" "sorted (map g ls)" using f g by (blast intro: sorted_const)+
  moreover have "f x \<le> g y" "f x \<le> step_key (full_step chg c)" "g y \<le> step_key (full_step chg c)" for x y
    by (simp_all add: f g fixed_keys(3) [of chg c c])
  ultimately show "sorted (map step_key (map syntax_step bs @ map style_step ls))"
    "sorted (map step_key (map syntax_step bs @ map style_step ls @ [full_step chg c]))"
    by (auto simp: sorted_append f_def g_def comp_def)
qed

lemma plan_by_tier:
  "\<exists>bs ls. escalation_plan available chg [] opts = map syntax_step bs @ map style_step ls @
     (if so_full opts then (case max_by_key (\<lambda>c. confidence (vc_source c))
        (filter (\<lambda>c. vc_kind c = TestCommand) available) of None \<Rightarrow> [] | Some c \<Rightarrow> [full_step chg c]) else [])
   \<and> (\<forall>c \<in> set available. vc_kind c \<in> {BuildCommand, TypecheckCommand} \<longrightarrow>
        command_identity c \<in> command_identity ` set bs)
   \<and> (so_style opts \<longrightarrow> (\<forall>c \<in> set available. vc_kind c \<in> {LintCommand, FormatCommand} \<longrightarrow>
        command_identity c \<in> command_identity ` set (bs @ ls)))
   \<and> distinct (map command_identity (bs @ ls))"
proof -
  let ?k = command_identity
  let ?b = "filter (\<lambda>c. vc_kind c \<in> {BuildCommand, TypecheckCommand}) available"
  let ?l = "filter (\<lambda>c. vc_kind c \<in> {LintCommand, FormatCommand}) available"
  let ?f = "if so_full opts then (case max_by_key (\<lambda>c. confidence (vc_source c))
        (filter (\<lambda>c. vc_kind c = TestCommand) available) of None \<Rightarrow> [] | Some c \<Rightarrow> [full_step chg c]) else []"
  define a1 where "a1 = add_unused ?k syntax_step ?b ({}, [])"
  obtain bs where bs: "snd a1 = map syntax_step bs" "fst a1 = ?k ` set ?b" "distinct (map ?k bs)"
      "?k ` set bs = ?k ` set ?b"
    using add_unused_steps [of ?k syntax_step ?b "({}, [])"] by (auto simp: a1_def)
  define a2 where "a2 = (if so_style opts then add_unused ?k style_step ?l a1 else a1)"
  have "\<exists>ls. snd a2 = snd a1 @ map style_step ls \<and> distinct (map ?k ls) \<and>
      ?k ` set ls = (if so_style opts then ?k ` set ?l - fst a1 else {})"
  proof (cases "so_style opts")
    case True
    then have a2: "a2 = add_unused ?k style_step ?l a1" by (simp add: a2_def)
    obtain xs where "snd a2 = snd a1 @ map style_step xs" "distinct (map ?k xs)"
        "?k ` set xs = ?k ` set ?l - fst a1"
      using add_unused_steps [of ?k style_step ?l a1] unfolding a2 by blast
    with True show ?thesis by (intro exI [of _ xs]) simp
  next
    case False
    then show ?thesis by (intro exI [of _ "[]"]) (simp add: a2_def)
  qed
  then obtain ls where ls: "snd a2 = snd a1 @ map style_step ls" "distinct (map ?k ls)"
      "?k ` set ls = (if so_style opts then ?k ` set ?l - fst a1 else {})" by blast
  have nt: "(\<exists>st \<in> set (snd a1). vp_tier st = TargetedTest) = False" using bs(1) by auto
  have "unsorted_plan available chg [] opts = snd a2 @ ?f"
    by (simp only: unsorted_plan_def Let_def add_unused.simps(1) a1_def [symmetric] nt if_False a2_def [symmetric])
  then have "unsorted_plan available chg [] opts = map syntax_step bs @ map style_step ls @ ?f"
    by (simp only: ls(1) bs(1) append_assoc)
  moreover have "sorted (map step_key (map syntax_step bs @ map style_step ls @ ?f))"
    using sorted_by_tier by (cases "max_by_key (\<lambda>c. confidence (vc_source c))
        (filter (\<lambda>c. vc_kind c = TestCommand) available)"; cases "so_full opts") (simp_all del: map_append)
  ultimately have "escalation_plan available chg [] opts = map syntax_step bs @ map style_step ls @ ?f"
    by (simp only: escalation_plan_def sort_key_id_if_sorted)
  moreover have "distinct (map ?k (bs @ ls))" using bs(2-4) ls(2,3) by auto
  moreover have "\<forall>c \<in> set available. vc_kind c \<in> {BuildCommand, TypecheckCommand} \<longrightarrow> ?k c \<in> ?k ` set bs"
    unfolding bs(4) by simp
  moreover have "so_style opts \<longrightarrow> (\<forall>c \<in> set available. vc_kind c \<in> {LintCommand, FormatCommand} \<longrightarrow>
      ?k c \<in> ?k ` set (bs @ ls))"
    using bs(2,4) ls(3) by (auto simp: image_Un simp del: bs(4))
  ultimately show ?thesis by blast
qed

section \<open>A concrete plan\<close>

definition cargo :: "command_kind \<Rightarrow> string \<Rightarrow> command_source \<Rightarrow> verify_command" where
  "cargo k arg src = \<lparr>vc_kind = k, vc_program = ''cargo'', vc_args = [arg], vc_source = src\<rparr>"

definition cargo_tools :: "verify_command list" where
  "cargo_tools = [cargo TestCommand ''test'' (ManifestSource ''Cargo.toml''),
     cargo LintCommand ''clippy'' (CiWorkflow ''ci.yml''), cargo BuildCommand ''build'' (ManifestSource ''Cargo.toml''),
     cargo TestCommand ''nextest'' (CiWorkflow ''ci.yml'')]"

theorem escalation_plan_sound_witness:
  "\<exists>q x. escalation_plan cargo_tools (change_set_of []) [] default_options = q @ [x] \<and> vp_tier x = TierFull \<and>
     90 \<le> confidence (vc_source (vp_command x))"
proof -
  have t: "\<exists>c \<in> set cargo_tools. vc_kind c = TestCommand" "so_full default_options"
    "cargo TestCommand ''nextest'' (CiWorkflow ''ci.yml'') \<in> set cargo_tools"
    by (simp_all add: cargo_tools_def cargo_def default_options_def)
  from escalation_plan_sound [where available = cargo_tools and chg = "change_set_of []" and targeted = "[]"
      and opts = default_options] t
  obtain q x where "escalation_plan cargo_tools (change_set_of []) [] default_options = q @ [x]" "vp_tier x = TierFull"
    "\<forall>d \<in> set cargo_tools. vc_kind d = TestCommand \<longrightarrow> confidence (vc_source d) \<le> confidence (vc_source (vp_command x))"
    by blast
  with t(3) show ?thesis by (auto simp: cargo_def)
qed

theorem broad_run_before_completion_witness:
  "needs_broad_run (escalation_plan cargo_tools (change_set_of []) [] default_options) 0 \<and>
   \<not> broad_run_satisfied (escalation_plan cargo_tools (change_set_of []) [] default_options) 0 \<and>
   next_after (escalation_plan cargo_tools (change_set_of []) [] default_options) 0 True \<noteq> None"
proof -
  have t: "so_full default_options" "\<exists>c \<in> set cargo_tools. vc_kind c = TestCommand"
    by (simp_all add: cargo_tools_def cargo_def default_options_def)
  obtain q c where p: "escalation_plan cargo_tools (change_set_of []) [] default_options = q @ [full_step (change_set_of []) c]"
    by (rule plan_has_full [OF t])
  then have "needs_broad_run (escalation_plan cargo_tools (change_set_of []) [] default_options) 0"
    unfolding needs_broad_nth p by (intro disjI1 exI [of _ "length q"]) (simp add: full_step_def)
  with broad_run_before_completion [where available = cargo_tools and chg = "change_set_of []" and targeted = "[]"
      and opts = default_options and k = 0]
  show ?thesis by (simp add: Let_def p)
qed

end
