(* ===== verification/Diagnose.thy ===== *)
theory Diagnose
  imports Verify_Model "HOL-Library.Product_Lexorder" "HOL-Library.Multiset"
begin

text \<open>
  Diagnosis (\<open>crates/valyria-verify/src/diagnose.rs\<close>): from parsed failures, the files the task changed and
  the graph neighbourhood to a ranked list of suspect files. Scores are \<open>f32\<close> sums. A path is its
  components, so \<open>./x\<close> loses its leading component \<open>.\<close>.
\<close>

section \<open>Suspects\<close>

datatype suspect_reason = FailureLocation | RecentlyChanged | GraphNeighbor | FailingTestFile

fun suspect_weight :: "suspect_reason \<Rightarrow> rat" where
  "suspect_weight FailureLocation = 1"
| "suspect_weight RecentlyChanged = f32 (8 / 10)"
| "suspect_weight GraphNeighbor = f32 (5 / 10)"
| "suspect_weight FailingTestFile = f32 (2 / 10)"

record suspect =
  sp_path :: path
  sp_reasons :: "suspect_reason list"
  sp_score :: rat

record diagnosis =
  dg_failures :: "failure list"
  dg_suspects :: "suspect list"
  dg_summary :: string

definition drop_current :: "path \<Rightarrow> path" where
  "drop_current p = (case p of CurDir # c # q \<Rightarrow> c # q | _ \<Rightarrow> p)"

definition ends_with :: "string \<Rightarrow> string \<Rightarrow> bool" where
  "ends_with s suf \<longleftrightarrow> starts_with (rev suf) (rev s)"

definition is_test_path :: "path \<Rightarrow> bool" where
  "is_test_path p \<longleftrightarrow> (let s = show_path p in
     contains_str ''/tests/'' s \<or> starts_with ''tests/'' s \<or> contains_str ''test_'' s
     \<or> ends_with s ''_test.go'' \<or> ends_with s ''.test.js'' \<or> ends_with s ''.test.ts''
     \<or> ends_with s ''_test.py'' \<or> contains_str ''spec'' s)"

text \<open>The calls of \<open>add\<close> for one failure, in their order.\<close>

definition failure_files :: "failure \<Rightarrow> path list" where
  "failure_files f = map lo_file ((case fl_primary f of None \<Rightarrow> [] | Some l \<Rightarrow> [l]) @ fl_secondary f)"

definition location_marks :: "(path \<times> path) list \<Rightarrow> path \<Rightarrow> (path \<times> suspect_reason) list" where
  "location_marks neighbors file = (let loc = drop_current file in
     (if is_test_path loc then [] else [(loc, FailureLocation)])
     @ map (\<lambda>(changed_file, n). (drop_current (drop_current changed_file), GraphNeighbor))
         (filter (\<lambda>(changed_file, n). drop_current n = loc) neighbors))"

definition test_marks :: "failure \<Rightarrow> (path \<times> suspect_reason) list" where
  "test_marks f =
     (if fl_kind f = TestFailure \<or> fl_kind f = TestPanic
      then (case fl_primary f of None \<Rightarrow> [] | Some l \<Rightarrow>
        if is_test_path (lo_file l) then [(drop_current (lo_file l), FailingTestFile)] else [])
      else [])"

definition failure_marks :: "(path \<times> path) list \<Rightarrow> failure \<Rightarrow> (path \<times> suspect_reason) list" where
  "failure_marks neighbors f = test_marks f @ concat (map (location_marks neighbors) (failure_files f))"

definition suspect_marks ::
  "failure list \<Rightarrow> path list \<Rightarrow> (path \<times> path) list \<Rightarrow> (path \<times> suspect_reason) list" where
  "suspect_marks failures changed neighbors =
     concat (map (failure_marks neighbors) failures) @ map (\<lambda>p. (drop_current p, RecentlyChanged)) changed"

definition add_mark ::
  "path \<times> suspect_reason \<Rightarrow> (path \<times> suspect_reason list) list \<Rightarrow> (path \<times> suspect_reason list) list" where
  "add_mark m acc = (case m of (p, r) \<Rightarrow>
     let rs = (case map_of acc p of None \<Rightarrow> [] | Some rs \<Rightarrow> rs)
     in btree_insert p (if r \<in> set rs then rs else rs @ [r]) acc)"

definition suspect_score :: "suspect_reason list \<Rightarrow> rat" where
  "suspect_score rs = (let s = foldl (\<lambda>a r. f32 (a + suspect_weight r)) 0 rs in
     if FailureLocation \<in> set rs \<and> RecentlyChanged \<in> set rs then f32 (s + 1) else s)"

definition make_suspect :: "path \<times> suspect_reason list \<Rightarrow> suspect" where
  "make_suspect x = (case x of (p, rs) \<Rightarrow> \<lparr>sp_path = p, sp_reasons = rs, sp_score = suspect_score rs\<rparr>)"

definition rank_suspects :: "suspect list \<Rightarrow> suspect list" where
  "rank_suspects ss = sort_key (\<lambda>s. (- sp_score s, sp_path s)) ss"

definition failure_kinds :: "failure list \<Rightarrow> string list" where
  "failure_kinds fs = foldl (\<lambda>seen f. if debug_failure_kind (fl_kind f) \<in> set seen then seen
     else seen @ [debug_failure_kind (fl_kind f)]) [] fs"

definition build_summary :: "failure list \<Rightarrow> suspect list \<Rightarrow> string" where
  "build_summary failures suspects =
     (if failures = [] then ''no failures parsed from the run''
      else show_nat (length failures) @ '' failure(s) ['' @ join '', '' (failure_kinds failures) @ '']''
        @ (case suspects of [] \<Rightarrow> [] | s # _ \<Rightarrow> ''; most likely in '' @ show_path (sp_path s)))"

definition diagnose :: "failure list \<Rightarrow> path list \<Rightarrow> (path \<times> path) list \<Rightarrow> diagnosis" where
  "diagnose failures changed neighbors =
     (let suspects = rank_suspects (map make_suspect (fold add_mark (suspect_marks failures changed neighbors) []))
      in \<lparr>dg_failures = failures, dg_suspects = suspects, dg_summary = build_summary failures suspects\<rparr>)"

section \<open>What a diagnosis says\<close>

text \<open>Sorted and without repetition.\<close>

definition dg_fingerprint :: "diagnosis \<Rightarrow> string" where
  "dg_fingerprint d = join '';;'' (remdups_adj (sort (map failure_fingerprint (dg_failures d))))"

definition narrowest_failing_test :: "diagnosis \<Rightarrow> string option" where
  "narrowest_failing_test d = find_map fl_test (dg_failures d)"

definition bullet :: string where
  "bullet = [CHR 0xE2, CHR 0x80, CHR 0xA2]"

definition failure_line :: "failure \<Rightarrow> string" where
  "failure_line f = [newline] @ bullet @ '' '' @ fl_message f
     @ (case fl_primary f of None \<Rightarrow> [] | Some l \<Rightarrow> show_location l)
     @ (case fl_assertion f of None \<Rightarrow> [] | Some a \<Rightarrow>
         (case (as_expected a, as_actual a) of
            (Some e, Some x) \<Rightarrow> '' (expected '' @ e @ '', got '' @ x @ '')''
          | _ \<Rightarrow> []))"

definition context_digest :: "diagnosis \<Rightarrow> nat \<Rightarrow> nat \<Rightarrow> string" where
  "context_digest d max_failures max_suspects =
     dg_summary d @ concat (map failure_line (take max_failures (dg_failures d)))
     @ (if dg_suspects d = [] then []
        else [newline] @ ''suspect files: ''
          @ join '', '' (map (\<lambda>s. show_path (sp_path s)) (take max_suspects (dg_suspects d))))"

section \<open>The marks collected\<close>

definition marks_ok :: "(path \<times> suspect_reason) list \<Rightarrow> (path \<times> suspect_reason list) list \<Rightarrow> bool" where
  "marks_ok ms acc \<longleftrightarrow> sorted_wrt (<) (map fst acc) \<and>
     (\<forall>p. case map_of acc p of None \<Rightarrow> p \<notin> fst ` set ms
        | Some rs \<Rightarrow> distinct rs \<and> rs \<noteq> [] \<and> set rs = {r. (p, r) \<in> set ms})"

lemma marks_ok_add:
  assumes "marks_ok ms acc"
  shows "marks_ok (ms @ [m]) (add_mark m acc)"
proof -
  obtain p r where m: "m = (p, r)" by (cases m)
  define rs where "rs = (case map_of acc p of None \<Rightarrow> [] | Some rs \<Rightarrow> rs)"
  have rs: "distinct rs" "set rs = {r. (p, r) \<in> set ms}"
    using assms [unfolded marks_ok_def, THEN conjunct2, rule_format, of p]
    by (auto simp: rs_def image_iff split: option.splits)
  let ?new = "if r \<in> set rs then rs else rs @ [r]"
  have am: "add_mark m acc = btree_insert p ?new acc" by (simp only: add_mark_def m prod.case Let_def rs_def)
  have new: "distinct ?new" "?new \<noteq> []" "set ?new = {x. (p, x) \<in> set (ms @ [m])}"
    using rs by (auto simp: m)
  have "case map_of (add_mark m acc) q of None \<Rightarrow> q \<notin> fst ` set (ms @ [m])
      | Some xs \<Rightarrow> distinct xs \<and> xs \<noteq> [] \<and> set xs = {x. (q, x) \<in> set (ms @ [m])}" for q
  proof (cases "q = p")
    case True
    then show ?thesis using new by (simp add: am)
  next
    case False
    then show ?thesis
      using assms [unfolded marks_ok_def, THEN conjunct2, rule_format, of q]
      unfolding am by (auto simp: m split: option.splits)
  qed
  moreover have "sorted_wrt (<) (map fst (add_mark m acc))"
    using assms unfolding am marks_ok_def by (blast intro: btree_insert_sorted)
  ultimately show ?thesis by (simp add: marks_ok_def)
qed

lemma marks_ok_fold: "marks_ok ms (fold add_mark ms [])"
proof (induction ms rule: rev_induct)
  case Nil
  then show ?case by (simp add: marks_ok_def)
next
  case (snoc m ms)
  then show ?case using marks_ok_add by simp
qed

section \<open>Scores\<close>

fun ideal_weight :: "suspect_reason \<Rightarrow> rat" where
  "ideal_weight FailureLocation = 1"
| "ideal_weight RecentlyChanged = 8 / 10"
| "ideal_weight GraphNeighbor = 5 / 10"
| "ideal_weight FailingTestFile = 2 / 10"

lemma ideal_range: "0 < ideal_weight r" "ideal_weight r \<le> 1"
  by (cases r; simp)+

lemma weight_error: "\<bar>suspect_weight r - ideal_weight r\<bar> \<le> 1 / 10000"
  using f32_error [of "ideal_weight r" 0] ideal_range [of r]
  by (cases r) (simp_all add: power_int_def power_divide)

lemma f32_nonneg: "0 \<le> f32 q"
proof (cases "0 < q")
  case True
  have "0 \<le> scale2 k q" for k using True by (simp add: scale2_alt)
  then have "0 \<le> round_even (scale2 k q)" for k
    using round_even_ge [of 0 "scale2 k q"] by (metis add_strict_increasing diff_0 half_gt_zero_iff
        less_eq_rat_def neg_less_0_iff_less of_int_0 order_less_le_trans zero_less_one)
  then show ?thesis using True by (simp add: f32_def Let_def scale2_alt)
qed (simp add: f32_def)

lemma ideal_sum: "0 \<le> sum_list (map ideal_weight rs)" "sum_list (map ideal_weight rs) \<le> of_nat (length rs)"
proof (induction rs)
  case (Cons r rs)
  { case 1 then show ?case using Cons ideal_range [of r] by simp }
  { case 2 then show ?case using Cons ideal_range [of r] by simp }
qed simp_all

definition raw_score :: "suspect_reason list \<Rightarrow> rat" where
  "raw_score rs = foldl (\<lambda>a r. f32 (a + suspect_weight r)) 0 rs"

lemma raw_score_error:
  "length rs \<le> 4 \<Longrightarrow> \<bar>raw_score rs - sum_list (map ideal_weight rs)\<bar> \<le> of_nat (length rs) / 1000 \<and> 0 \<le> raw_score rs"
proof (induction rs rule: rev_induct)
  case (snoc r rs)
  let ?i = "sum_list (map ideal_weight rs)" and ?q = "raw_score rs + suspect_weight r"
  have IH: "\<bar>raw_score rs - ?i\<bar> \<le> of_nat (length rs) / 1000" "0 \<le> raw_score rs" using snoc by simp_all
  have n: "(of_nat (length rs) :: rat) \<le> 3" using snoc.prems by simp
  have w: "0 \<le> suspect_weight r" by (cases r) (simp_all add: f32_nonneg)
  have n3: "(of_nat (length rs) :: rat) / 1000 \<le> 3 / 1000" using n by (intro divide_right_mono) simp_all
  have q: "?q < 8"
    using IH(1) ideal_sum(2) [of rs] n n3 weight_error [of r] ideal_range(2) [of r] by linarith
  have "\<bar>f32 ?q - ?q\<bar> \<le> 1 / 10000"
    using f32_error [of ?q 2] q IH(2) w by (simp add: power_int_def power_divide)
  then have "\<bar>f32 ?q - (?i + ideal_weight r)\<bar> \<le> of_nat (length rs) / 1000 + 1 / 10000 + 1 / 10000"
    using IH(1) weight_error [of r] by linarith
  moreover have "of_nat (length rs) / 1000 + 1 / 10000 + 1 / 10000 \<le> (of_nat (length (rs @ [r])) / 1000 :: rat)"
    by (simp add: add_divide_distrib)
  moreover have "raw_score (rs @ [r]) = f32 ?q" by (simp add: raw_score_def)
  ultimately show ?case by (simp add: f32_nonneg)
qed (simp add: raw_score_def)

lemma all_reasons: "UNIV = {FailureLocation, RecentlyChanged, GraphNeighbor, FailingTestFile}"
  using suspect_reason.exhaust by auto

instance suspect_reason :: finite
  by standard (simp add: all_reasons)

lemma raw_score_close:
  assumes "distinct rs"
  shows "\<bar>raw_score rs - sum ideal_weight (set rs)\<bar> \<le> 1 / 250"
proof -
  have "length rs = card (set rs)" using assms by (simp add: distinct_card)
  also have "\<dots> \<le> card (UNIV :: suspect_reason set)" by (rule card_mono) simp_all
  also have "\<dots> = 4" by (simp add: all_reasons)
  finally have "length rs \<le> 4" .
  then have "\<bar>raw_score rs - sum_list (map ideal_weight rs)\<bar> \<le> of_nat (length rs) / 1000"
    "(of_nat (length rs) :: rat) / 1000 \<le> 4 / 1000"
    using raw_score_error by (auto intro: divide_right_mono)
  then show ?thesis using assms by (simp add: sum_list_distinct_conv_sum_set)
qed

abbreviation failed_and_changed :: "suspect_reason list \<Rightarrow> bool" where
  "failed_and_changed rs \<equiv> FailureLocation \<in> set rs \<and> RecentlyChanged \<in> set rs"

text \<open>The two classes of scores do not meet.\<close>

lemma suspect_score_high:
  assumes "distinct rs" and "failed_and_changed rs"
  shows "2 < suspect_score rs"
proof -
  have "sum ideal_weight {FailureLocation, RecentlyChanged} \<le> sum ideal_weight (set rs)"
    using assms(2) ideal_range(1) by (intro sum_mono2) (auto intro: less_imp_le)
  then have "9 / 5 \<le> sum ideal_weight (set rs)" by simp
  then have low: "9 / 5 - 1 / 250 \<le> raw_score rs" using raw_score_close [OF assms(1)] by linarith
  have "sum ideal_weight (set rs) \<le> sum ideal_weight UNIV"
    using ideal_range(1) by (intro sum_mono2) (auto intro: less_imp_le)
  then have "sum ideal_weight (set rs) \<le> 5 / 2" by (simp add: all_reasons)
  then have "raw_score rs \<le> 5 / 2 + 1 / 250" using raw_score_close [OF assms(1)] by linarith
  then have "\<bar>f32 (raw_score rs + 1) - (raw_score rs + 1)\<bar> \<le> 1 / 10000"
    using low f32_error [of "raw_score rs + 1" 2] by (simp add: power_int_def power_divide)
  then have "2 < f32 (raw_score rs + 1)" using low by linarith
  then show ?thesis using assms(2) by (simp add: suspect_score_def raw_score_def [symmetric] Let_def)
qed

lemma suspect_score_low:
  assumes "distinct rs" and "\<not> failed_and_changed rs"
  shows "suspect_score rs < 2"
proof -
  have "sum ideal_weight (set rs) \<le> 17 / 10"
  proof (cases "FailureLocation \<in> set rs")
    case True
    with assms(2) have "set rs \<subseteq> {FailureLocation, GraphNeighbor, FailingTestFile}"
      using suspect_reason.exhaust by blast
    then have "sum ideal_weight (set rs) \<le> sum ideal_weight {FailureLocation, GraphNeighbor, FailingTestFile}"
      using ideal_range(1) by (intro sum_mono2) (auto intro: less_imp_le)
    then show ?thesis by simp
  next
    case False
    then have "set rs \<subseteq> {RecentlyChanged, GraphNeighbor, FailingTestFile}"
      using suspect_reason.exhaust by blast
    then have "sum ideal_weight (set rs) \<le> sum ideal_weight {RecentlyChanged, GraphNeighbor, FailingTestFile}"
      using ideal_range(1) by (intro sum_mono2) (auto intro: less_imp_le)
    then show ?thesis by simp
  qed
  then have "raw_score rs < 2" using raw_score_close [OF assms(1)] by linarith
  then show ?thesis using assms(2) by (auto simp: suspect_score_def raw_score_def [symmetric] Let_def)
qed

section \<open>The ranking\<close>

definition has_mark :: "failure list \<Rightarrow> path list \<Rightarrow> (path \<times> path) list \<Rightarrow> path \<Rightarrow> suspect_reason \<Rightarrow> bool" where
  "has_mark failures changed neighbors p r \<longleftrightarrow> (p, r) \<in> set (suspect_marks failures changed neighbors)"

text \<open>What earns each mark.\<close>

lemma has_mark_iff:
  "has_mark fs ch nb p FailureLocation \<longleftrightarrow> \<not> is_test_path p \<and>
     (\<exists>f \<in> set fs. \<exists>q \<in> set (failure_files f). p = drop_current q)"
  "has_mark fs ch nb p RecentlyChanged \<longleftrightarrow> (\<exists>q \<in> set ch. p = drop_current q)"
  "has_mark fs ch nb p GraphNeighbor \<longleftrightarrow> (\<exists>f \<in> set fs. \<exists>q \<in> set (failure_files f).
     \<exists>(c, n) \<in> set nb. drop_current n = drop_current q \<and> p = drop_current (drop_current c))"
  "has_mark fs ch nb p FailingTestFile \<longleftrightarrow> (\<exists>f \<in> set fs. fl_kind f \<in> {TestFailure, TestPanic} \<and>
     (\<exists>l. fl_primary f = Some l \<and> is_test_path (lo_file l) \<and> p = drop_current (lo_file l)))"
proof -
  have loc: "(p, r) \<in> set (location_marks nb q) \<longleftrightarrow>
      r = FailureLocation \<and> \<not> is_test_path p \<and> p = drop_current q \<or>
      r = GraphNeighbor \<and> (\<exists>(c, n) \<in> set nb. drop_current n = drop_current q \<and> p = drop_current (drop_current c))"
    for r q by (auto simp: location_marks_def Let_def)
  have weak: "(p, r) \<in> set (test_marks f) \<longleftrightarrow> r = FailingTestFile \<and> fl_kind f \<in> {TestFailure, TestPanic} \<and>
      (\<exists>l. fl_primary f = Some l \<and> is_test_path (lo_file l) \<and> p = drop_current (lo_file l))" for r f
  proof (cases "fl_primary f")
    case None
    then have "test_marks f = []" by (simp add: test_marks_def)
    with None show ?thesis by simp
  next
    case (Some l)
    then have "test_marks f = (if fl_kind f \<in> {TestFailure, TestPanic} \<and> is_test_path (lo_file l)
        then [(drop_current (lo_file l), FailingTestFile)] else [])" by (simp add: test_marks_def)
    with Some show ?thesis by auto
  qed
  have fail: "(p, r) \<in> set (failure_marks nb f) \<longleftrightarrow> (p, r) \<in> set (test_marks f) \<or>
      (\<exists>q \<in> set (failure_files f). (p, r) \<in> set (location_marks nb q))" for r f
    by (simp add: failure_marks_def)
  have m: "has_mark fs ch nb p r \<longleftrightarrow> (\<exists>f \<in> set fs. (p, r) \<in> set (failure_marks nb f)) \<or>
      r = RecentlyChanged \<and> (\<exists>q \<in> set ch. p = drop_current q)" for r
    by (auto simp: has_mark_def suspect_marks_def)
  show "has_mark fs ch nb p FailureLocation \<longleftrightarrow> \<not> is_test_path p \<and>
     (\<exists>f \<in> set fs. \<exists>q \<in> set (failure_files f). p = drop_current q)"
    unfolding m fail weak loc by auto
  show "has_mark fs ch nb p RecentlyChanged \<longleftrightarrow> (\<exists>q \<in> set ch. p = drop_current q)"
    unfolding m fail weak loc by simp
  show "has_mark fs ch nb p GraphNeighbor \<longleftrightarrow> (\<exists>f \<in> set fs. \<exists>q \<in> set (failure_files f).
     \<exists>(c, n) \<in> set nb. drop_current n = drop_current q \<and> p = drop_current (drop_current c))"
    unfolding m fail weak loc by simp
  show "has_mark fs ch nb p FailingTestFile \<longleftrightarrow> (\<exists>f \<in> set fs. fl_kind f \<in> {TestFailure, TestPanic} \<and>
     (\<exists>l. fl_primary f = Some l \<and> is_test_path (lo_file l) \<and> p = drop_current (lo_file l)))"
    unfolding m fail weak loc by simp
qed

lemma collected:
  assumes acc_def: "acc = fold add_mark (suspect_marks fs ch nb) []"
  shows "distinct (map fst acc)" and "p \<in> fst ` set acc \<longleftrightarrow> (\<exists>r. has_mark fs ch nb p r)"
    and "(p, rs) \<in> set acc \<Longrightarrow> distinct rs \<and> set rs = {r. has_mark fs ch nb p r}"
proof -
  have ok: "marks_ok (suspect_marks fs ch nb) acc" by (simp add: acc_def marks_ok_fold)
  then have s: "sorted_wrt (<) (map fst acc)" by (simp add: marks_ok_def)
  then show d: "distinct (map fst acc)" by (simp add: strict_sorted_iff)
  have at: "case map_of acc p of None \<Rightarrow> p \<notin> fst ` set (suspect_marks fs ch nb)
      | Some rs \<Rightarrow> distinct rs \<and> rs \<noteq> [] \<and> set rs = {r. has_mark fs ch nb p r}" for p
    using ok [unfolded marks_ok_def, THEN conjunct2, rule_format, of p]
    by (simp add: has_mark_def split: option.splits)
  show "p \<in> fst ` set acc \<longleftrightarrow> (\<exists>r. has_mark fs ch nb p r)"
  proof (cases "map_of acc p")
    case None
    with at [of p] show ?thesis by (force simp: map_of_eq_None_iff has_mark_def)
  next
    case (Some rs)
    then have "p \<in> fst ` set acc" by (force dest: map_of_SomeD)
    moreover from Some at [of p] have "\<exists>r. r \<in> set rs" by (cases rs) auto
    ultimately show ?thesis using Some at [of p] by auto
  qed
  show "distinct rs \<and> set rs = {r. has_mark fs ch nb p r}" if "(p, rs) \<in> set acc"
    using at [of p] map_of_is_SomeI [OF d that] by simp
qed

lemma set_rank [simp]: "set (rank_suspects ss) = set ss"
  by (simp add: rank_suspects_def)

lemma make_suspect_simps [simp]:
  "sp_path (make_suspect x) = fst x" "sp_reasons (make_suspect x) = snd x"
  "sp_score (make_suspect x) = suspect_score (snd x)"
  by (simp_all add: make_suspect_def case_prod_beta)

lemma diagnosis_facts:
  "let ss = dg_suspects (diagnose failures changed neighbors) in
     distinct (map sp_path ss)
   \<and> (\<forall>p. p \<in> sp_path ` set ss \<longleftrightarrow> (\<exists>r. has_mark failures changed neighbors p r))
   \<and> (\<forall>s \<in> set ss. distinct (sp_reasons s) \<and>
        set (sp_reasons s) = {r. has_mark failures changed neighbors (sp_path s) r})
   \<and> sorted_wrt (\<lambda>a b. sp_score b \<le> sp_score a) ss
   \<and> (\<exists>xs ys. ss = xs @ ys \<and> (\<forall>s \<in> set xs. failed_and_changed (sp_reasons s)) \<and>
        (\<forall>s \<in> set ys. \<not> failed_and_changed (sp_reasons s)))"
proof -
  define acc where "acc = fold add_mark (suspect_marks failures changed neighbors) []"
  note c = collected [OF acc_def]
  let ?ss = "dg_suspects (diagnose failures changed neighbors)"
  have ss: "?ss = rank_suspects (map make_suspect acc)" by (simp add: diagnose_def acc_def Let_def)
  have set: "set ?ss = make_suspect ` set acc" by (simp add: ss)
  have "mset ?ss = mset (map make_suspect acc)" by (simp add: ss rank_suspects_def)
  then have "mset (map sp_path ?ss) = mset (map sp_path (map make_suspect acc))" by (simp only: mset_map)
  then have "mset (map sp_path ?ss) = mset (map fst acc)" by (simp add: comp_def)
  then have d: "distinct (map sp_path ?ss)" using c(1) by (metis mset_eq_imp_distinct_iff)
  have r: "\<forall>s \<in> set ?ss. distinct (sp_reasons s) \<and>
      set (sp_reasons s) = {r. has_mark failures changed neighbors (sp_path s) r}"
    using c(3) by (auto simp: set)
  have sc: "\<forall>s \<in> set ?ss. sp_score s = suspect_score (sp_reasons s)" by (auto simp: set)
  have "sorted (map (\<lambda>s. (- sp_score s, sp_path s)) ?ss)" by (simp add: ss rank_suspects_def)
  then have so: "sorted_wrt (\<lambda>a b. sp_score b \<le> sp_score a) ?ss"
    by (auto simp: sorted_map less_eq_prod_def elim!: sorted_wrt_mono_rel [rotated])
  have "\<exists>xs ys. ss = xs @ ys \<and> (\<forall>s \<in> set xs. failed_and_changed (sp_reasons s)) \<and>
      (\<forall>s \<in> set ys. \<not> failed_and_changed (sp_reasons s))"
    if "sorted_wrt (\<lambda>a b. sp_score b \<le> sp_score a) ss" "set ss \<subseteq> set ?ss" for ss
    using that
  proof (induction ss)
    case (Cons s ss)
    then obtain xs ys where e: "ss = xs @ ys" "\<forall>s \<in> set xs. failed_and_changed (sp_reasons s)"
      "\<forall>s \<in> set ys. \<not> failed_and_changed (sp_reasons s)" by auto
    show ?case
    proof (cases "failed_and_changed (sp_reasons s)")
      case True
      with e show ?thesis by (intro exI [of _ "s # xs"] exI [of _ ys]) auto
    next
      case False
      have "sp_score s < 2" using False Cons.prems(2) r sc suspect_score_low by simp
      moreover have "2 < sp_score x" if "x \<in> set xs" for x
      proof -
        have x: "x \<in> set ?ss" "failed_and_changed (sp_reasons x)" using that e(1,2) Cons.prems(2) by auto
        have "distinct (sp_reasons x)" "sp_score x = suspect_score (sp_reasons x)" using r sc x(1) by blast+
        with suspect_score_high x(2) show ?thesis by simp
      qed
      moreover have "sp_score x \<le> sp_score s" if "x \<in> set xs" for x using that e(1) Cons.prems(1) by simp
      ultimately have "x \<notin> set xs" for x by (meson leD less_trans not_le)
      then have "xs = []" by (metis list.set_intros(1) neq_Nil_conv)
      with e False show ?thesis by (intro exI [of _ "[]"] exI [of _ "s # ss"]) simp
    qed
  qed simp
  from this [OF so] have "\<exists>xs ys. ?ss = xs @ ys \<and> (\<forall>s \<in> set xs. failed_and_changed (sp_reasons s)) \<and>
      (\<forall>s \<in> set ys. \<not> failed_and_changed (sp_reasons s))" by blast
  moreover have "p \<in> sp_path ` set ?ss \<longleftrightarrow> (\<exists>r. has_mark failures changed neighbors p r)" for p
    using c(2) [of p] by (auto simp: set image_iff)
  ultimately show ?thesis using d r so by (simp add: Let_def)
qed

text \<open>C32: the suspects of a diagnosis are exactly the files with a mark, each once with exactly its marks,
  and the ranking keeps its promise: the files that both hold a failure and were changed by the task come
  before all others, whatever else speaks for them; scores never increase along the list.\<close>

theorem diagnosis_ranked:
  "let ss = dg_suspects (diagnose failures changed neighbors) in
     distinct (map sp_path ss)
   \<and> (\<forall>p. p \<in> sp_path ` set ss \<longleftrightarrow> (\<exists>r. has_mark failures changed neighbors p r))
   \<and> (\<forall>s \<in> set ss. distinct (sp_reasons s) \<and>
        set (sp_reasons s) = {r. has_mark failures changed neighbors (sp_path s) r})
   \<and> sorted_wrt (\<lambda>a b. sp_score b \<le> sp_score a) ss
   \<and> (\<exists>xs ys. ss = xs @ ys \<and> (\<forall>s \<in> set xs. failed_and_changed (sp_reasons s)) \<and>
        (\<forall>s \<in> set ys. \<not> failed_and_changed (sp_reasons s)))"
  by (rule diagnosis_facts)

section \<open>Fingerprints\<close>

lemma distinct_remdups_adj: "sorted xs \<Longrightarrow> distinct (remdups_adj xs)"
  by (induction xs rule: remdups_adj.induct) auto

lemma sorted_remdups_adj_unique:
  "set xs = set ys \<Longrightarrow> remdups_adj (sort xs) = remdups_adj (sort (ys :: string list))"
proof -
  have s: "sorted_wrt (<) (remdups_adj (sort zs))" for zs :: "string list"
    by (simp add: strict_sorted_iff distinct_remdups_adj)
  assume "set xs = set ys"
  then show ?thesis by (intro strict_sorted_equal) (simp_all add: s)
qed

text \<open>The identity of a diagnosis, which loop detection and the repair ledger count, is a function of the
  set of failures seen by kind, file, test and the first eight words: neither order, repetition, lines and
  columns, secondary locations, assertions nor the change set matter.\<close>

theorem fingerprint_stable:
  assumes "failure_fingerprint ` set fs = failure_fingerprint ` set gs"
  shows "dg_fingerprint (diagnose fs ch nb) = dg_fingerprint (diagnose gs ch' nb') \<and>
    dg_fingerprint (diagnose (map (\<lambda>f. f\<lparr>fl_secondary := ls, fl_assertion := a, fl_suspects := sp,
      fl_primary := map_option (\<lambda>l. l\<lparr>lo_line := n, lo_column := m\<rparr>) (fl_primary f)\<rparr>) fs) ch nb)
      = dg_fingerprint (diagnose fs ch nb)"
proof -
  have fp: "dg_fingerprint (diagnose fs ch nb) = join '';;'' (remdups_adj (sort (map failure_fingerprint fs)))"
    for fs ch nb by (simp add: dg_fingerprint_def diagnose_def Let_def)
  have 1: "dg_fingerprint (diagnose fs ch nb) = dg_fingerprint (diagnose gs ch' nb')"
    unfolding fp using assms by (intro arg_cong [where f = "join '';;''"] sorted_remdups_adj_unique) simp
  have "failure_fingerprint (f\<lparr>fl_secondary := ls, fl_assertion := a, fl_suspects := sp,
      fl_primary := map_option (\<lambda>l. l\<lparr>lo_line := n, lo_column := m\<rparr>) (fl_primary f)\<rparr>) = failure_fingerprint f" for f
    by (cases "fl_primary f") (simp_all add: failure_fingerprint_def)
  then show ?thesis using 1 unfolding fp by (simp add: comp_def)
qed

section \<open>A name hides a file\<close>


section \<open>Concrete diagnoses\<close>

definition failure_at :: "string \<Rightarrow> failure" where
  "failure_at file = (new_failure CompileError ''mismatched types'')\<lparr>fl_primary :=
     Some \<lparr>lo_file = path_of file, lo_line = Some 3, lo_column = None\<rparr>\<rparr>"

lemma inspect_path [simp]: "path_of ''src/inspect.rs'' = [Normal ''src'', Normal ''inspect.rs'']"
  "path_of ''./src/a.rs'' = [CurDir, Normal ''src'', Normal ''a.rs'']"
  by code_simp+


theorem diagnosis_ranked_witness:
  "\<exists>ss. dg_suspects (diagnose [failure_at ''./src/a.rs''] [[Normal ''src'', Normal ''a.rs'']] []) = ss \<and>
     [Normal ''src'', Normal ''a.rs''] \<in> sp_path ` set ss \<and> distinct (map sp_path ss)"
proof -
  have "has_mark [failure_at ''./src/a.rs''] [[Normal ''src'', Normal ''a.rs'']] [] [Normal ''src'', Normal ''a.rs''] RecentlyChanged"
    by (simp add: has_mark_iff drop_current_def)
  with diagnosis_ranked [where failures = "[failure_at ''./src/a.rs'']" and changed = "[[Normal ''src'', Normal ''a.rs'']]"
      and neighbors = "[]"]
  show ?thesis by (auto simp: Let_def)
qed

theorem fingerprint_stable_witness:
  "dg_fingerprint (diagnose [failure_at ''./src/a.rs'', failure_at ''./src/a.rs''] [] [])
     = dg_fingerprint (diagnose [failure_at ''./src/a.rs''] [[CurDir]] [])"
  using fingerprint_stable [of "[failure_at ''./src/a.rs'', failure_at ''./src/a.rs'']" "[failure_at ''./src/a.rs'']"]
  by simp

end
