(* ===== verification/Driver_Model.thy ===== *)
theory Driver_Model
  imports Repair_Ledger Tool_Runtime Task_Manager Ledger Escalation Diagnose
begin

text \<open>
  The agent driver's state and plumbing (\<open>crates/valyria-agent/src/driver.rs\<close>, \<open>action.rs\<close>,
  \<open>error.rs\<close>): the per-task verify state, the conversation rebuilt from the journal, issuing a tool
  call and observing its result, and the reconstruction of the loop detector and the repair ledger
  from the journal.

  The driver composes the task manager, the permission engine, the tool runtime and the change
  ledger, which are the definitions of their theories. What lies behind other crates is the record
  \<open>services\<close>: the context engine, the model router, the discovery and execution of verification
  commands, the graph neighbourhood of files, the repository memory, and the two plan-driven handlers of
  \<open>plan_exec.rs\<close>. What to check next and the diagnosis of a failed check are those of their theories. They act on the \<open>world\<close>, whose ledger and disk the driver reads. Ids and times are
  drawn from the task store's streams.
\<close>

section \<open>Actions, errors, messages\<close>

datatype finish_reason = FinStop | FinToolCalls | FinLength | FinCancelled | FinAsk

fun debug_finish :: "finish_reason \<Rightarrow> string" where
  "debug_finish FinStop = ''Stop''"
| "debug_finish FinToolCalls = ''ToolCalls''"
| "debug_finish FinLength = ''Length''"
| "debug_finish FinCancelled = ''Cancelled''"
| "debug_finish FinAsk = ''Ask''"

record completion =
  cm_text :: string
  cm_calls :: "(string \<times> json) list"
  cm_finish :: finish_reason

datatype agent_error =
    AgTask task_error
  | AgOrchestrator string
  | AgContext string
  | AgInstructions string
  | MalformedCompletion string
  | AgUnknownTool string
  | NotWaitingForPermission task_id
  | NotWaitingForUser task_id
  | NoPendingToolCall task_id
  | ApprovalSuperseded string string
  | AgPlan string
  | AgRollback string

fun agent_error_code :: "agent_error \<Rightarrow> string" where
  "agent_error_code (AgTask _) = ''agent.task''"
| "agent_error_code (AgOrchestrator _) = ''agent.orchestrator''"
| "agent_error_code (AgContext _) = ''agent.context''"
| "agent_error_code (AgInstructions _) = ''agent.instructions''"
| "agent_error_code (MalformedCompletion _) = ''agent.malformed_completion''"
| "agent_error_code (AgUnknownTool _) = ''agent.unknown_tool''"
| "agent_error_code (NotWaitingForPermission _) = ''agent.not_waiting_for_permission''"
| "agent_error_code (NotWaitingForUser _) = ''agent.not_waiting_for_user''"
| "agent_error_code (NoPendingToolCall _) = ''agent.no_pending_tool_call''"
| "agent_error_code (ApprovalSuperseded _ _) = ''approval.superseded''"
| "agent_error_code (AgPlan _) = ''agent.plan''"
| "agent_error_code (AgRollback _) = ''agent.rollback''"

datatype action_request = ToolCall string json | Finish string | AskQuestion string

definition from_completion :: "completion \<Rightarrow> agent_error + action_request" where
  "from_completion c = (case cm_finish c of
     FinToolCalls \<Rightarrow> (case cm_calls c of
         [(name, args)] \<Rightarrow> Inr (ToolCall name args)
       | _ \<Rightarrow> Inl (MalformedCompletion (''expected exactly one tool call, got ''
            @ show_nat (length (cm_calls c)))))
   | FinStop \<Rightarrow> Inr (Finish (cm_text c))
   | FinAsk \<Rightarrow> Inr (AskQuestion (cm_text c))
   | _ \<Rightarrow> Inl (MalformedCompletion (''unsupported finish_reason for an agent turn: ''
        @ debug_finish (cm_finish c))))"

datatype msg_role = SystemRole | UserRole | AssistantRole | ToolRole

record message =
  mg_role :: msg_role
  mg_content :: string
  mg_call :: "string option"

definition user_message :: "string \<Rightarrow> message" where
  "user_message t = \<lparr>mg_role = UserRole, mg_content = t, mg_call = None\<rparr>"

definition assistant_message :: "string \<Rightarrow> message" where
  "assistant_message t = \<lparr>mg_role = AssistantRole, mg_content = t, mg_call = None\<rparr>"

definition tool_message :: "string \<Rightarrow> string \<Rightarrow> message" where
  "tool_message i t = \<lparr>mg_role = ToolRole, mg_content = t, mg_call = Some i\<rparr>"

section \<open>The verify state\<close>

record verify_state =
  vs_detector :: loop_detector
  vs_repair :: repair_ledger
  vs_plan :: "verification_step list option"
  vs_executed :: nat
  vs_last_passed :: bool
  vs_last_run :: "verification_run option"
  vs_pending :: "diagnosis option"
  vs_broaden :: bool
  vs_role_primary :: bool
  vs_touched :: "path list"  \<comment> \<open>a \<open>BTreeSet\<close>: sorted, without repetition\<close>

definition max_repair_attempts :: u32 where
  "max_repair_attempts = 4"

definition default_verify_state :: verify_state where
  "default_verify_state = \<lparr>vs_detector = new_detector default_config, vs_repair = new_repair 4,
     vs_plan = None, vs_executed = 0, vs_last_passed = False, vs_last_run = None, vs_pending = None,
     vs_broaden = False, vs_role_primary = False, vs_touched = []\<rparr>"

section \<open>The driver and its services\<close>

datatype model_role = PrimaryCoder | FastCoder | PlannerRole | ReviewerRole | Embedder | Reranker
  | Autocomplete | Summarizer

fun model_role_str :: "model_role \<Rightarrow> string" where
  "model_role_str PrimaryCoder = ''primary_coder''"
| "model_role_str FastCoder = ''fast_coder''"
| "model_role_str PlannerRole = ''planner''"
| "model_role_str ReviewerRole = ''reviewer''"
| "model_role_str Embedder = ''embedder''"
| "model_role_str Reranker = ''reranker''"
| "model_role_str Autocomplete = ''autocomplete''"
| "model_role_str Summarizer = ''summarizer''"

datatype planning_mode = Passthrough | ModelAuthored

datatype approval_decision = ApproveOnce | ApproveTask | DenyCall

datatype flow = FlowContinue | FlowReturn

record 'x world =
  wd_ledger :: ledger
  wd_disk :: disk
  wd_rest :: 'x

record 'x driver =
  dv_tasks :: task_store
  dv_engine :: permission_engine
  dv_verify :: "task_id \<rightharpoonup> verify_state"
  dv_world :: "'x world"

record 'x services =
  sv_env :: env
  sv_hash :: "json \<Rightarrow> content_hash"
  sv_redact :: "string \<Rightarrow> string"
  sv_show_json :: "json \<Rightarrow> string"
  sv_registry :: "'x world registry"
  sv_hash_file :: "'x world \<Rightarrow> real_path \<Rightarrow> content_hash option"
  sv_cancelled :: "'x world \<Rightarrow> bool"
  sv_planning :: planning_mode
  sv_assemble :: "task_id \<Rightarrow> 'x world \<Rightarrow> agent_error + json"
  sv_prompt :: "string \<Rightarrow> 'x world \<Rightarrow> agent_error + (message list \<times> json)"
  sv_is_bound :: "model_role \<Rightarrow> bool"
  sv_generate :: "model_role \<Rightarrow> message list \<Rightarrow> nat \<Rightarrow> 'x world
    \<Rightarrow> (agent_error + (completion \<times> string)) \<times> 'x world"
  sv_scan :: "'x world \<Rightarrow> string list"
  sv_validate :: "string list \<Rightarrow> 'x world \<Rightarrow> verify_command list \<times> 'x world"
  sv_run_check :: "verification_step \<Rightarrow> path list \<Rightarrow> 'x world
    \<Rightarrow> (string + verification_run) \<times> 'x world"
  sv_log_run :: "task_id \<Rightarrow> verification_run \<Rightarrow> 'x world \<Rightarrow> (string + unit) \<times> 'x world"
  sv_neighbors :: "path list \<Rightarrow> 'x world \<Rightarrow> (path \<times> path) list"
  sv_memory :: "task_id \<Rightarrow> 'x world \<Rightarrow> 'x world"
  sv_has_plan :: "task_id \<Rightarrow> 'x world \<Rightarrow> agent_error + bool"
  sv_step_planning :: "task_id \<Rightarrow> model_role option \<Rightarrow> 'x driver \<Rightarrow> (agent_error + flow) \<times> 'x driver"
  sv_step_plan :: "task_id \<Rightarrow> model_role option \<Rightarrow> 'x driver \<Rightarrow> (agent_error + flow) \<times> 'x driver"

section \<open>Access to the task manager\<close>

definition on_tasks ::
  "(task_store \<Rightarrow> (task_error + 'a) \<times> task_store) \<Rightarrow> 'x driver \<Rightarrow> (agent_error + 'a) \<times> 'x driver" where
  "on_tasks f s = (case f (dv_tasks s) of
     (Inl e, t) \<Rightarrow> (Inl (AgTask e), s\<lparr>dv_tasks := t\<rparr>)
   | (Inr a, t) \<Rightarrow> (Inr a, s\<lparr>dv_tasks := t\<rparr>))"

definition move_to :: "task_id \<Rightarrow> agent_state \<Rightarrow> 'x driver \<Rightarrow> (agent_error + unit) \<times> 'x driver" where
  "move_to i st s = on_tasks (transition i st) s"

definition log_entry :: "task_id \<Rightarrow> journal_kind \<Rightarrow> 'x driver \<Rightarrow> 'x driver" where
  "log_entry i k s = s\<lparr>dv_tasks := snd (append_journal i k (dv_tasks s))\<rparr>"

definition draw :: "'x driver \<Rightarrow> nat \<times> 'x driver" where
  "draw s = (let (u, t) = draw_ulid (dv_tasks s) in (u, s\<lparr>dv_tasks := t\<rparr>))"

definition read_clock :: "'x driver \<Rightarrow> timestamp \<times> 'x driver" where
  "read_clock s = (let (n, t) = clock_now (dv_tasks s) in (n, s\<lparr>dv_tasks := t\<rparr>))"

text \<open>An effect completed under fresh effect and step ids.\<close>

definition log_fresh :: "task_id \<Rightarrow> string \<Rightarrow> json \<Rightarrow> 'x driver \<Rightarrow> 'x driver" where
  "log_fresh i outcome payload s =
     (let (u, s1) = draw s; (v, s2) = draw s1
      in log_entry i (EffectCompleted (EffectId u) (StepId v) outcome payload) s2)"

definition get_state :: "task_id \<Rightarrow> 'x driver \<Rightarrow> agent_error + task" where
  "get_state i s = (case get_task i (dv_tasks s) of Inl e \<Rightarrow> Inl (AgTask e) | Inr t \<Rightarrow> Inr t)"

definition effect_text :: "'x driver \<Rightarrow> effect_id \<Rightarrow> string" where
  "effect_text s e = (case e of EffectId u \<Rightarrow> show_id (ulid_text (dv_tasks s)) EffectKind u)"

definition payload_str :: "string \<Rightarrow> json \<Rightarrow> string option" where
  "payload_str k p = Option.bind (json_get k p) json_as_str"

definition str_or_empty :: "string \<Rightarrow> json \<Rightarrow> string" where
  "str_or_empty k p = (case payload_str k p of None \<Rightarrow> [] | Some t \<Rightarrow> t)"

section \<open>Changed files\<close>

text \<open>\<open>task_changed_files\<close>: the recursion over the children is bounded by the number of tasks, which no
  chain of parents exceeds.\<close>

fun changed_from :: "nat \<Rightarrow> task_id \<Rightarrow> 'x driver \<Rightarrow> path list" where
  "changed_from 0 i s = []"
| "changed_from (Suc n) i s = remdups_adj (sort
     (map le_path (entries_for_task (wd_ledger (dv_world s)) i)
      @ (case children_of i (dv_tasks s) of
           Inl _ \<Rightarrow> []
         | Inr cs \<Rightarrow> concat (map (\<lambda>c. changed_from n (tk_id c) s) cs))))"

definition task_changed_files :: "task_id \<Rightarrow> 'x driver \<Rightarrow> path list" where
  "task_changed_files i s = changed_from (Suc (length (tasks (dv_tasks s)))) i s"

definition bytes_of :: "string \<Rightarrow> bytes" where
  "bytes_of t = map (\<lambda>c. of_nat (of_char c)) t"

definition file_bytes :: "'x services \<Rightarrow> disk \<Rightarrow> path \<Rightarrow> bytes" where
  "file_bytes sv d p = (case resolve (env_os (sv_env sv)) (env_root (sv_env sv)) d p of
     Inl _ \<Rightarrow> []
   | Inr q \<Rightarrow> (case fs_read (env_os (sv_env sv)) d q of Inl _ \<Rightarrow> [] | Inr b \<Rightarrow> b))"

definition changed_files_state_hash :: "'x services \<Rightarrow> path list \<Rightarrow> 'x driver \<Rightarrow> content_hash" where
  "changed_files_state_hash sv ps s = env_digest (sv_env sv) (concat (map (\<lambda>p.
     bytes_of (show_path p) @ [0] @ file_bytes sv (wd_disk (dv_world s)) p @ [0]) ps))"

section \<open>Reconstruction from the journal\<close>

fun repair_outcome_tag :: "repair_outcome \<Rightarrow> string" where
  "repair_outcome_tag Fixed = ''fixed''"
| "repair_outcome_tag Improved = ''improved''"
| "repair_outcome_tag Regressed = ''regressed''"
| "repair_outcome_tag NoChange = ''no_change''"

fun describe_decision :: "repair_decision \<Rightarrow> string" where
  "describe_decision Continue = ''continue''"
| "describe_decision EscalateStrategy = ''escalate_strategy''"
| "describe_decision SwitchRole = ''switch_role''"
| "describe_decision (AskUser reason) = ''ask_user: '' @ reason"
| "describe_decision (GiveUp reason) = ''give_up: '' @ reason"

text \<open>The UTF-8 bytes of the multiplication sign.\<close>

definition times_sign :: string where
  "times_sign = [CHR 0xC3, CHR 0x97]"

fun describe_finding :: "loop_finding \<Rightarrow> string" where
  "describe_finding (ExactRepeat _ n) = ''identical step '' @ times_sign @ show_nat n"
| "describe_finding (Oscillation p) = ''cycle of period '' @ show_nat p"
| "describe_finding (RepeatedFailure _ n) = ''same failure '' @ times_sign @ show_nat n"
| "describe_finding (NoChangeIteration n) = show_nat n @ '' steps, no file change''"
| "describe_finding (FrontierStalled n) = show_nat n @ '' cycles, no progress''"

text \<open>The three observations a diagnosis feeds the detector with; a later one is made only when the
  earlier ones found nothing.\<close>

definition observe_diagnosis ::
  "string \<Rightarrow> content_hash \<Rightarrow> progress_metric \<Rightarrow> loop_detector \<Rightarrow> loop_finding option \<times> loop_detector" where
  "observe_diagnosis fp fstate m d =
     (case observe_step (with_file_state fstate (with_error fp default_signature)) d of
        (Some f, d1) \<Rightarrow> (Some f, d1)
      | (None, d1) \<Rightarrow> (case observe_failure (Some fp) d1 of
          (Some f, d2) \<Rightarrow> (Some f, d2)
        | (None, d2) \<Rightarrow> observe_progress m d2))"

definition add_touched :: "path list \<Rightarrow> path list \<Rightarrow> path list" where
  "add_touched ps acc = foldl (\<lambda>acc p. insort_insert p acc) acc ps"

definition u64_or_zero :: "string \<Rightarrow> json \<Rightarrow> nat" where
  "u64_or_zero k p = (case Option.bind (json_get k p) json_as_u64 of None \<Rightarrow> 0 | Some n \<Rightarrow> n)"

definition hash_or_empty :: "(bytes \<Rightarrow> content_hash) \<Rightarrow> json \<Rightarrow> content_hash" where
  "hash_or_empty digest p =
     (case Option.bind (payload_str ''file_state_hash'' p)
         (\<lambda>t. case hash_from_str t of Inl _ \<Rightarrow> None | Inr h \<Rightarrow> Some h) of
        None \<Rightarrow> digest []
      | Some h \<Rightarrow> h)"

fun parse_outcome :: "string option \<Rightarrow> repair_outcome" where
  "parse_outcome None = NoChange"
| "parse_outcome (Some t) = (if t = ''fixed'' then Fixed else if t = ''improved'' then Improved
     else if t = ''regressed'' then Regressed else NoChange)"

text \<open>One journal entry of \<open>reconstruct_verify_state\<close>.\<close>

definition reconstruct_completed ::
  "(bytes \<Rightarrow> content_hash) \<Rightarrow> string \<Rightarrow> json \<Rightarrow> loop_detector \<times> repair_ledger \<times> path list
     \<Rightarrow> loop_detector \<times> repair_ledger \<times> path list" where
  "reconstruct_completed digest outcome p st = (case st of (d, r, touched) \<Rightarrow>
     if outcome = ''verify_result'' then
       ((if Option.bind (json_get ''passed'' p) json_as_bool = Some True
         then snd (observe_failure None d) else d), r, touched)
     else if outcome = ''diagnosis'' then
       (let touched = add_touched (case Option.bind (json_get ''files_touched'' p) json_as_array of
              None \<Rightarrow> [] | Some xs \<Rightarrow> map path_of (List.map_filter json_as_str xs)) touched
        in (snd (observe_diagnosis (str_or_empty ''fingerprint'' p) (hash_or_empty digest p)
              \<lparr>pm_frontier = u64_or_zero ''verification_frontier'' p,
               pm_failures = u64_or_zero ''failure_count'' p, pm_touched = touched\<rparr> d), r, touched))
     else if outcome = ''repair_attempt'' then
       (d, record_attempt \<lparr>fa_attempt = 0, fa_fingerprint = str_or_empty ''diagnosis_fingerprint'' p,
          fa_summary = str_or_empty ''edit_summary'' p,
          fa_outcome = parse_outcome (payload_str ''outcome'' p)\<rparr> r, touched)
     else if outcome = ''repair_decision'' then
       (d, (if payload_str ''decision'' p = Some ''escalate_strategy'' then mark_escalated r
            else if payload_str ''decision'' p = Some ''switch_role'' then mark_switched_role r
            else r), touched)
     else st)"

fun reconstruct_entry ::
  "(bytes \<Rightarrow> content_hash) \<Rightarrow> journal_kind \<Rightarrow> loop_detector \<times> repair_ledger \<times> path list
     \<Rightarrow> loop_detector \<times> repair_ledger \<times> path list" where
  "reconstruct_entry digest (EffectCompleted _ _ outcome p) st = reconstruct_completed digest outcome p st"
| "reconstruct_entry digest _ st = st"

definition reconstruct_verify_state ::
  "(bytes \<Rightarrow> content_hash) \<Rightarrow> journal_kind list \<Rightarrow> u32 \<Rightarrow> loop_detector \<times> repair_ledger" where
  "reconstruct_verify_state digest ks mx =
     (case fold (reconstruct_entry digest) ks (new_detector default_config, new_repair mx, []) of
        (d, r, _) \<Rightarrow> (d, r))"

section \<open>The verify state of a task\<close>

definition put_verify_state :: "task_id \<Rightarrow> verify_state \<Rightarrow> 'x driver \<Rightarrow> 'x driver" where
  "put_verify_state i vs s = s\<lparr>dv_verify := (dv_verify s)(i \<mapsto> vs)\<rparr>"

definition drop_verify_state :: "task_id \<Rightarrow> 'x driver \<Rightarrow> 'x driver" where
  "drop_verify_state i s = s\<lparr>dv_verify := (dv_verify s)(i := None)\<rparr>"

definition take_verify_state :: "'x services \<Rightarrow> task_id \<Rightarrow> 'x driver \<Rightarrow> verify_state \<times> 'x driver" where
  "take_verify_state sv i s = (case dv_verify s i of
     Some vs \<Rightarrow> (vs, s)
   | None \<Rightarrow>
       (let (d, r) = reconstruct_verify_state (env_digest (sv_env sv))
              (map je_kind (journal_since i 0 (dv_tasks s))) max_repair_attempts;
            vs = default_verify_state\<lparr>vs_detector := d, vs_repair := r\<rparr>
        in (vs, put_verify_state i vs s)))"

definition is_role_escalated :: "task_id \<Rightarrow> 'x driver \<Rightarrow> bool" where
  "is_role_escalated i s = (case dv_verify s i of None \<Rightarrow> False | Some vs \<Rightarrow> vs_role_primary vs)"

definition choose_model_role :: "'x services \<Rightarrow> bool \<Rightarrow> model_role" where
  "choose_model_role sv escalated =
     (if escalated \<or> \<not> sv_is_bound sv FastCoder then PrimaryCoder else FastCoder)"

section \<open>The conversation\<close>

record replay =
  rp_issued :: "effect_id \<rightharpoonup> string \<times> json"
  rp_question :: "string option"
  rp_turns :: "(nat \<times> message list) list"

definition tool_turn ::
  "'x services \<Rightarrow> 'x driver \<Rightarrow> nat \<Rightarrow> effect_id \<Rightarrow> string \<Rightarrow> replay \<Rightarrow> replay" where
  "tool_turn sv s seq e answer rp = (case rp_issued rp e of
     None \<Rightarrow> rp
   | Some (tool, inp) \<Rightarrow> rp\<lparr>rp_turns := rp_turns rp @
       [(seq, [assistant_message (''Calling '' @ ticked tool @ '' with '' @ sv_show_json sv inp),
               tool_message (effect_text s e) answer])]\<rparr>)"

fun replay_entry :: "'x services \<Rightarrow> 'x driver \<Rightarrow> nat \<times> journal_kind \<Rightarrow> replay \<Rightarrow> replay" where
  "replay_entry sv s (seq, EffectIssued e _ k p) rp =
     (if k = ''tool''
      then rp\<lparr>rp_issued := (rp_issued rp)(e \<mapsto> (str_or_empty ''tool'' p,
        (case json_get ''input'' p of None \<Rightarrow> JNull | Some v \<Rightarrow> v)))\<rparr>
      else rp)"
| "replay_entry sv s (seq, EffectCompleted e _ k p) rp =
     (if k = ''tool_result'' then tool_turn sv s seq e (str_or_empty ''rendered'' p) rp
      else if k = ''tool_denied'' then tool_turn sv s seq e (''Denied: '' @ str_or_empty ''reason'' p) rp
      else if k = ''model_completion'' then
        (if payload_str ''finish_reason'' p = Some ''Ask''
         then rp\<lparr>rp_question := payload_str ''text'' p\<rparr> else rp)
      else if k = ''user_response'' then
        rp\<lparr>rp_question := None, rp_turns := rp_turns rp @
          [(seq, (case rp_question rp of None \<Rightarrow> [] | Some q \<Rightarrow> [assistant_message q])
                 @ [user_message (str_or_empty ''answer'' p)])]\<rparr>
      else rp)"
| "replay_entry sv s _ rp = rp"

definition system_and_task_messages ::
  "'x services \<Rightarrow> task_id \<Rightarrow> 'x driver \<Rightarrow> (agent_error + message list) \<times> 'x driver" where
  "system_and_task_messages sv i s = (case get_state i s of
     Inl e \<Rightarrow> (Inl e, s)
   | Inr t \<Rightarrow> (case sv_prompt sv (tk_objective t) (dv_world s) of
       Inl e \<Rightarrow> (Inl e, s)
     | Inr (msgs, payload) \<Rightarrow> (Inr msgs, log_fresh i ''context_retrieved'' payload s)))"

definition build_conversation ::
  "'x services \<Rightarrow> task_id \<Rightarrow> 'x driver \<Rightarrow> (agent_error + message list) \<times> 'x driver" where
  "build_conversation sv i s =
     then_do (system_and_task_messages sv i s) (\<lambda>msgs s.
       let entries = map (\<lambda>e. (je_seq e, je_kind e)) (journal_since i 0 (dv_tasks s));
           rp = fold (replay_entry sv s) entries
             \<lparr>rp_issued = Map.empty, rp_question = None, rp_turns = []\<rparr>
       in (Inr (msgs @ concat (map snd (sort_key fst (rp_turns rp)))), s))"

section \<open>Tool calls\<close>

definition record_baseline_if_path :: "'x services \<Rightarrow> json \<Rightarrow> 'x driver \<Rightarrow> 'x driver" where
  "record_baseline_if_path sv inp s = (case payload_str ''path'' inp of
     None \<Rightarrow> s
   | Some raw \<Rightarrow>
       (let w = dv_world s;
            h = (case resolve (env_os (sv_env sv)) (env_root (sv_env sv)) (wd_disk w) (path_of raw) of
              Inl _ \<Rightarrow> None | Inr q \<Rightarrow> sv_hash_file sv w q)
        in s\<lparr>dv_world := w\<lparr>wd_ledger := record_baseline (path_of raw) h (wd_ledger w)\<rparr>\<rparr>))"

fun debug_risk :: "risk_level \<Rightarrow> string" where
  "debug_risk Safe = ''Safe''"
| "debug_risk Controlled = ''Controlled''"
| "debug_risk UnknownRisk = ''Unknown''"
| "debug_risk Destructive = ''Destructive''"

fun opt_json :: "('a \<Rightarrow> json) \<Rightarrow> 'a option \<Rightarrow> json" where
  "opt_json f None = JNull"
| "opt_json f (Some a) = f a"

definition invocation_text :: "'x driver \<Rightarrow> tool_invocation_id \<Rightarrow> string" where
  "invocation_text s i = (case i of
     ToolInvocationId u \<Rightarrow> show_id (ulid_text (dv_tasks s)) ToolInvocationKind u)"

definition tool_result_payload :: "'x driver \<Rightarrow> effect_id \<Rightarrow> tool_outcome \<Rightarrow> invocation_record \<Rightarrow> json" where
  "tool_result_payload s e out r =
     (let (success, rendered) = (case out of ToolSuccess _ t \<Rightarrow> (True, t) | ToolFailure _ _ t \<Rightarrow> (False, t))
      in JObject
        [(''duration_ms'', JInt (int (ir_end r - ir_start r))),
         (''exit_code'', opt_json JInt (ir_exit r)),
         (''rendered'', JString rendered),
         (''stderr'', opt_json JString (ir_stderr r)),
         (''stdout'', opt_json JString (ir_stdout r)),
         (''success'', JBool success),
         (''tool_invocation_id'', JString (effect_text s e)),
         (''tool_record_id'', JString (invocation_text s (ir_id r)))])"

definition observe_tool_result ::
  "task_id \<Rightarrow> step_id \<Rightarrow> effect_id \<Rightarrow> invocation_result \<Rightarrow> 'x driver \<Rightarrow> (agent_error + unit) \<times> 'x driver" where
  "observe_tool_result i sid e res s = (case res of
     Executed out r \<Rightarrow>
       (Inr (), log_entry i (EffectCompleted e sid ''tool_result'' (tool_result_payload s e out r)) s)
   | AskRequired prompt r \<Rightarrow>
       move_to i WaitingForPermission (log_entry i (EffectCompleted e sid ''permission_ask'' (JObject
         [(''category'', JString (show_category (rq_category r))), (''prompt'', JString prompt),
          (''request_id'', JString (effect_text s e)), (''risk'', JString (debug_risk (rq_risk r))),
          (''target'', JString (rq_target r)), (''tool'', JString (rq_tool r))])) s)
   | Denied reason \<Rightarrow>
       move_to i Failed (log_entry i (EffectCompleted e sid ''tool_denied''
         (JObject [(''reason'', JString reason)])) s)
   | UnknownTool name \<Rightarrow> (Inl (AgUnknownTool name), s))"

text \<open>What the tool runtime draws: an invocation id, the engine's time and the record's two times.\<close>

definition invoke_tool ::
  "'x services \<Rightarrow> tool_ctx \<Rightarrow> string \<Rightarrow> json \<Rightarrow> 'x driver \<Rightarrow> invocation_result \<times> 'x driver" where
  "invoke_tool sv ctx name inp s =
     (let (u, s1) = draw s; (now, s2) = read_clock s1; (t0, s3) = read_clock s2; (t1, s4) = read_clock s3;
          (res, e, w) = invoke (evaluate now) (sv_redact sv) (ToolInvocationId u) (t0, t1)
            (sv_registry sv) ctx name inp (dv_engine s4) (dv_world s4)
      in (res, s4\<lparr>dv_engine := e, dv_world := w\<rparr>))"

definition issue_and_execute_tool_call ::
  "'x services \<Rightarrow> task_id \<Rightarrow> step_id \<Rightarrow> string \<Rightarrow> json \<Rightarrow> 'x driver \<Rightarrow> (agent_error + unit) \<times> 'x driver" where
  "issue_and_execute_tool_call sv i sid name inp s =
     (let (u, s1) = draw s; e = EffectId u;
          s2 = log_entry i (EffectIssued e sid ''tool'' (JObject [(''input'', inp),
            (''tool'', JString name), (''tool_invocation_id'', JString (effect_text s1 e))])) s1;
          s3 = record_baseline_if_path sv inp s2;
          (res, s4) = invoke_tool sv \<lparr>tc_task = i, tc_step = sid\<rparr> name inp s3
      in observe_tool_result i sid e res s4)"

end
