(* ===== verification/Driver_Steps.thy ===== *)
theory Driver_Steps
  imports Driver_Model
begin

text \<open>
  The state handlers of the agent driver (\<open>crates/valyria-agent/src/driver.rs\<close>): one per
  \<open>AgentState\<close>, the resolution of a permission prompt and of a question, and the loop \<open>run_with_role\<close>
  that calls them. The loop's body is \<open>run_iteration\<close>; the loop takes fuel, and \<open>None\<close> is running out
  of it.
\<close>

section \<open>Reasoning\<close>

text \<open>Build the conversation, ask the model and journal its completion.\<close>

definition call_model ::
  "'x services \<Rightarrow> task_id \<Rightarrow> model_role \<Rightarrow> step_id \<Rightarrow> effect_id \<Rightarrow> message list \<Rightarrow> nat \<Rightarrow> 'x driver
     \<Rightarrow> (agent_error + completion) \<times> 'x driver" where
  "call_model sv i role sid e extra turn s =
     then_do (build_conversation sv i s) (\<lambda>msgs s.
       (case sv_generate sv role (msgs @ extra) turn (dv_world s) of
          (Inl x, w) \<Rightarrow> (Inl x, s\<lparr>dv_world := w\<rparr>)
        | (Inr (c, model), w) \<Rightarrow> (Inr c, log_entry i (EffectCompleted e sid ''model_completion'' (JObject
            [(''finish_reason'', JString (debug_finish (cm_finish c))), (''model_id'', JString model),
             (''role'', JString (model_role_str role)), (''text'', JString (cm_text c))]))
            (s\<lparr>dv_world := w\<rparr>))))"

section \<open>Implementing\<close>

text \<open>Select: what the completion asks for.\<close>

definition act_on :: "'x services \<Rightarrow> task_id \<Rightarrow> step_id \<Rightarrow> completion \<Rightarrow> 'x driver \<Rightarrow> (agent_error + unit) \<times> 'x driver" where
  "act_on sv i sid c s = (case from_completion c of
     Inl x \<Rightarrow> (Inl x, s)
   | Inr (Finish _) \<Rightarrow> move_to i Verifying s
   | Inr (AskQuestion _) \<Rightarrow> move_to i WaitingForUser s
   | Inr (ToolCall tool inp) \<Rightarrow> issue_and_execute_tool_call sv i sid tool inp s)"

definition step_implementing :: "'x services \<Rightarrow> task_id \<Rightarrow> 'x driver \<Rightarrow> (agent_error + unit) \<times> 'x driver" where
  "step_implementing sv i s = (case interrupted_tool_call i (dv_tasks s) of
     Some p \<Rightarrow> issue_and_execute_tool_call sv i (pc_step p) (pc_tool p) (pc_input p) s
   | None \<Rightarrow>
       (let turn = count_model_calls i (dv_tasks s);
            (u, s1) = draw s; (v, s2) = draw s1; sid = StepId u; e = EffectId v;
            s3 = log_entry i (EffectIssued e sid ''model_call''
              (JObject [(''turn_index'', JInt (int turn))])) s2;
            role = choose_model_role sv (is_role_escalated i s3)
        in then_do (call_model sv i role sid e [] turn s3) (act_on sv i sid)))"

section \<open>Verifying\<close>

text \<open>Building the verification plan on the first entry; \<open>None\<close> when nothing can be verified.\<close>

definition build_plan ::
  "'x services \<Rightarrow> path list \<Rightarrow> verify_state \<Rightarrow> 'x driver \<Rightarrow> verify_state option \<times> 'x driver" where
  "build_plan sv changed vs s = (case vs_plan vs of
     Some _ \<Rightarrow> (Some vs, s)
   | None \<Rightarrow>
       (let report = sv_scan sv (dv_world s) in
        if report = [] then (None, s)
        else let (validated, w) = sv_validate sv report (dv_world s); s = s\<lparr>dv_world := w\<rparr> in
          if validated = [] then (None, s)
          else let p = escalation_plan validated (change_set_of changed) []
              \<lparr>so_style = \<not> vs_broaden vs, so_full = True\<rparr> in
            if p = [] then (None, s)
            else (Some (vs\<lparr>vs_plan := Some p, vs_executed := 0, vs_last_passed := True\<rparr>), s)))"

definition location_json :: "location \<Rightarrow> json" where
  "location_json l = JObject [(''line'', opt_json (\<lambda>n. JInt (int n)) (lo_line l)),
     (''path'', JString (show_path (lo_file l)))]"

definition failure_payload :: "failure \<Rightarrow> json" where
  "failure_payload f = JObject [(''failing_test'', opt_json JString (fl_test f)),
     (''kind'', JString (failure_kind_str (fl_kind f))),
     (''location'', JArray (map location_json
        ((case fl_primary f of None \<Rightarrow> [] | Some l \<Rightarrow> [l]) @ fl_secondary f))),
     (''message'', JString (fl_message f))]"

definition verify_payload :: "verification_step \<Rightarrow> json" where
  "verify_payload st = JObject [(''command'', JString (command_display (vp_command st))),
     (''kind'', JString (command_kind_str (vc_kind (vp_command st)))),
     (''rationale'', JString (vp_rationale st)), (''tier'', JString (debug_tier (vp_tier st)))]"

definition verify_result_payload :: "verification_run \<Rightarrow> json" where
  "verify_result_payload r = JObject [(''command'', JString (command_display (vr_command r))),
     (''digest'', JString (run_digest r 3)), (''exit_code'', opt_json JInt (vr_exit r)),
     (''failure_count'', JInt (int (length (vr_failures r)))),
     (''failures'', JArray (map failure_payload (vr_failures r))),
     (''outcome'', JString (debug_outcome (vr_outcome r))), (''passed'', JBool (vr_passed r)),
     (''run_id'', JString (vr_id r))]"

text \<open>Run one check: journal it, execute it, persist the run, journal the result.\<close>

definition run_check ::
  "'x services \<Rightarrow> task_id \<Rightarrow> verification_step \<Rightarrow> path list \<Rightarrow> 'x driver
     \<Rightarrow> (agent_error + verification_run) \<times> 'x driver" where
  "run_check sv i st changed s =
     (let (u, s1) = draw s; (v, s2) = draw s1; sid = StepId u; e = EffectId v;
          s3 = log_entry i (EffectIssued e sid ''verify'' (verify_payload st)) s2
      in (case sv_run_check sv st changed (dv_world s3) of
            (Inl x, w) \<Rightarrow> (Inl (MalformedCompletion (''verification runner: '' @ x)), s3\<lparr>dv_world := w\<rparr>)
          | (Inr r, w) \<Rightarrow> (case sv_log_run sv i r w of
              (Inl x, w) \<Rightarrow> (Inl (MalformedCompletion (''verification log: '' @ x)), s3\<lparr>dv_world := w\<rparr>)
            | (Inr _, w) \<Rightarrow> (Inr r, log_entry i (EffectCompleted e sid ''verify_result''
                (verify_result_payload r)) (s3\<lparr>dv_world := w\<rparr>)))))"

definition and_return :: "flow \<Rightarrow> (agent_error + unit) \<times> 'x driver \<Rightarrow> (agent_error + flow) \<times> 'x driver" where
  "and_return f r = then_do r (\<lambda>_ s. (Inr f, s))"

text \<open>With a plan: the next check of it, the diagnosis of a failed one, or the end.\<close>

definition check_next ::
  "'x services \<Rightarrow> task_id \<Rightarrow> path list \<Rightarrow> verify_state \<Rightarrow> 'x driver \<Rightarrow> (agent_error + flow) \<times> 'x driver" where
  "check_next sv i changed vs s =
     (case next_after (the (vs_plan vs)) (vs_executed vs) (vs_last_passed vs) of
        None \<Rightarrow>
          if \<not> vs_last_passed vs
          then and_return FlowContinue (move_to i Diagnosing (put_verify_state i vs s))
          else and_return FlowReturn (move_to i Completed
            (put_verify_state i vs (s\<lparr>dv_world := sv_memory sv i (dv_world s)\<rparr>)))
      | Some st \<Rightarrow>
          then_do (run_check sv i st changed s) (\<lambda>r s.
            let vs = vs\<lparr>vs_executed := vs_executed vs + 1, vs_last_passed := vr_passed r,
                  vs_last_run := Some r\<rparr>
            in if vr_passed r
               then (Inr FlowContinue, put_verify_state i
                 (vs\<lparr>vs_detector := snd (observe_failure None (vs_detector vs))\<rparr>) s)
               else and_return FlowContinue (move_to i Diagnosing (put_verify_state i vs s))))"

definition step_verifying :: "'x services \<Rightarrow> task_id \<Rightarrow> 'x driver \<Rightarrow> (agent_error + flow) \<times> 'x driver" where
  "step_verifying sv i s =
     (let (vs, s) = take_verify_state sv i s;
          changed = task_changed_files i s
      in (case build_plan sv changed vs s of
            (None, s) \<Rightarrow> and_return FlowReturn (move_to i Completed (put_verify_state i vs s))
          | (Some vs, s) \<Rightarrow> check_next sv i changed vs s))"

section \<open>Diagnosing\<close>

definition diagnosis_payload :: "diagnosis \<Rightarrow> content_hash \<Rightarrow> nat \<Rightarrow> nat \<Rightarrow> path list \<Rightarrow> json" where
  "diagnosis_payload dg h executed failures touched = JObject
     [(''digest'', JString (context_digest dg 3 3)), (''failure_count'', JInt (int failures)),
      (''file_state_hash'', JString (to_hex h)),
      (''files_touched'', JArray (map (\<lambda>p. JString (show_path p)) touched)),
      (''fingerprint'', JString (dg_fingerprint dg)),
      (''suspects'', JArray (map (\<lambda>s. JString (show_path (sp_path s))) (take 5 (dg_suspects dg)))),
      (''summary'', JString (dg_summary dg)), (''verification_frontier'', JInt (int executed))]"

text \<open>What a decision does to the verify state and the task.\<close>

definition apply_decision ::
  "task_id \<Rightarrow> repair_decision \<Rightarrow> verify_state \<Rightarrow> 'x driver \<Rightarrow> (agent_error + unit) \<times> 'x driver" where
  "apply_decision i dec vs s = (case dec of
     Continue \<Rightarrow> move_to i Repairing (put_verify_state i vs s)
   | EscalateStrategy \<Rightarrow> move_to i Repairing (put_verify_state i
       (vs\<lparr>vs_repair := mark_escalated (vs_repair vs), vs_broaden := True, vs_plan := None\<rparr>) s)
   | SwitchRole \<Rightarrow> move_to i Repairing (put_verify_state i
       (vs\<lparr>vs_repair := mark_switched_role (vs_repair vs), vs_role_primary := True, vs_plan := None\<rparr>) s)
   | AskUser reason \<Rightarrow> move_to i WaitingForUser (put_verify_state i vs
       (log_entry i (RecoveryNote (''repair paused for the user: '' @ reason)) s))
   | GiveUp reason \<Rightarrow> move_to i Failed (drop_verify_state i
       (log_entry i (RecoveryNote (''repair gave up: '' @ reason)) s)))"

definition step_diagnosing :: "'x services \<Rightarrow> task_id \<Rightarrow> 'x driver \<Rightarrow> (agent_error + unit) \<times> 'x driver" where
  "step_diagnosing sv i s =
     (let (vs, s) = take_verify_state sv i s;
          changed = task_changed_files i s;
          failures = (case vs_last_run vs of None \<Rightarrow> [] | Some r \<Rightarrow> vr_failures r);
          dg = diagnose failures changed (sv_neighbors sv changed (dv_world s));
          fp = dg_fingerprint dg;
          vs = vs\<lparr>vs_touched := add_touched changed (vs_touched vs)\<rparr>;
          h = changed_files_state_hash sv changed s;
          s = log_fresh i ''diagnosis''
            (diagnosis_payload dg h (vs_executed vs) (length failures) (vs_touched vs)) s;
          (finding, d) = observe_diagnosis fp h \<lparr>pm_frontier = vs_executed vs,
            pm_failures = length failures, pm_touched = vs_touched vs\<rparr> (vs_detector vs);
          vs = vs\<lparr>vs_detector := d\<rparr>;
          s = (case finding of None \<Rightarrow> s | Some f \<Rightarrow> log_fresh i ''loop_detected''
            (JObject [(''class'', JString (finding_code f)), (''detail'', JString (describe_finding f))]) s);
          dec = decide fp finding (vs_repair vs);
          s = log_fresh i ''repair_decision'' (JObject [(''decision'', JString (describe_decision dec))]) s
      in apply_decision i dec (vs\<lparr>vs_pending := Some dg\<rparr>) s)"

section \<open>Repairing\<close>

definition attempt_payload :: "fix_attempt \<Rightarrow> json" where
  "attempt_payload a = JObject [(''diagnosis_fingerprint'', JString (fa_fingerprint a)),
     (''edit_summary'', JString (fa_summary a)), (''outcome'', JString (repair_outcome_tag (fa_outcome a)))]"

definition journal_repair_attempt :: "task_id \<Rightarrow> step_id \<Rightarrow> fix_attempt \<Rightarrow> 'x driver \<Rightarrow> 'x driver" where
  "journal_repair_attempt i sid a s =
     (let (u, s1) = draw s in log_entry i (EffectCompleted (EffectId u) sid ''repair_attempt'' (attempt_payload a)) s1)"

definition repair_prompt :: "string \<Rightarrow> message" where
  "repair_prompt digest = user_message (''A verification check just failed. Make the minimal edit that fixes it, then finish.''
     @ [CHR 0x0A, CHR 0x0A] @ digest)"

text \<open>After the model's action: record the attempt, reset the verification and go on.\<close>

definition finish_repair ::
  "'x services \<Rightarrow> task_id \<Rightarrow> step_id \<Rightarrow> fix_attempt \<Rightarrow> verify_state \<Rightarrow> 'x driver
     \<Rightarrow> (agent_error + flow) \<times> 'x driver" where
  "finish_repair sv i sid a vs s =
     (let s = journal_repair_attempt i sid a s;
          h = changed_files_state_hash sv (task_changed_files i s) s;
          vs = vs\<lparr>vs_repair := record_attempt a (vs_repair vs), vs_plan := None, vs_executed := 0,
            vs_last_passed := True,
            vs_detector := snd (observe_step (with_file_state h default_signature) (vs_detector vs))\<rparr>
      in (case get_state i s of
            Inl e \<Rightarrow> (Inl e, s)
          | Inr t \<Rightarrow>
              if tk_state t = Repairing
              then and_return FlowContinue (move_to i Verifying (put_verify_state i vs s))
              else if tk_state t = Failed then (Inr FlowReturn, drop_verify_state i s)
              else (Inr FlowReturn, put_verify_state i vs s)))"

text \<open>What the model's answer to the repair prompt leads to.\<close>

definition repair_action ::
  "'x services \<Rightarrow> task_id \<Rightarrow> step_id \<Rightarrow> verify_state \<Rightarrow> completion \<Rightarrow> 'x driver \<Rightarrow> (agent_error + flow) \<times> 'x driver" where
  "repair_action sv i sid vs c s =
     (let fp = (case vs_pending vs of None \<Rightarrow> [] | Some dg \<Rightarrow> dg_fingerprint dg);
          attempt = (\<lambda>summary outcome. \<lparr>fa_attempt = 0, fa_fingerprint = fp, fa_summary = summary,
            fa_outcome = outcome\<rparr>)
      in (case from_completion c of
            Inl x \<Rightarrow> (Inl x, s)
          | Inr (ToolCall tool inp) \<Rightarrow>
              then_do (issue_and_execute_tool_call sv i sid tool inp s) (\<lambda>_ s.
                finish_repair sv i sid (attempt (tool @ '' '' @ sv_show_json sv inp) Improved) vs s)
          | Inr (Finish _) \<Rightarrow> finish_repair sv i sid (attempt ''no edit (model finished)'' NoChange) vs s
          | Inr (AskQuestion _) \<Rightarrow>
              (let a = attempt ''model asked a question'' NoChange;
                   s = journal_repair_attempt i sid a s;
                   s = put_verify_state i (vs\<lparr>vs_repair := record_attempt a (vs_repair vs)\<rparr>) s
               in and_return FlowReturn (move_to i WaitingForUser s))))"

definition step_repairing :: "'x services \<Rightarrow> task_id \<Rightarrow> 'x driver \<Rightarrow> (agent_error + flow) \<times> 'x driver" where
  "step_repairing sv i s = (case interrupted_tool_call i (dv_tasks s) of
     Some p \<Rightarrow> then_do (issue_and_execute_tool_call sv i (pc_step p) (pc_tool p) (pc_input p) s) (\<lambda>_ s.
       (case get_state i s of
          Inl e \<Rightarrow> (Inl e, s)
        | Inr t \<Rightarrow> if tk_state t = Repairing then and_return FlowContinue (move_to i Verifying s)
            else (Inr FlowContinue, s)))
   | None \<Rightarrow>
       (let (vs, s) = take_verify_state sv i s;
            digest = (case vs_pending vs of None \<Rightarrow> ''a verification check failed''
              | Some dg \<Rightarrow> context_digest dg 4 4);
            role = choose_model_role sv (vs_role_primary vs);
            turn = count_model_calls i (dv_tasks s);
            (u, s1) = draw s; (v, s2) = draw s1; sid = StepId u; e = EffectId v;
            s3 = log_entry i (EffectIssued e sid ''model_call''
              (JObject [(''phase'', JString ''repair''), (''turn_index'', JInt (int turn))])) s2
        in then_do (call_model sv i role sid e [repair_prompt digest] turn s3) (repair_action sv i sid vs)))"

section \<open>Resolving a prompt or a question\<close>

definition resolve_permission_scoped ::
  "'x services \<Rightarrow> task_id \<Rightarrow> string option \<Rightarrow> approval_decision \<Rightarrow> 'x driver
     \<Rightarrow> (agent_error + unit) \<times> 'x driver" where
  "resolve_permission_scoped sv i request dec s = (case get_state i s of
     Inl e \<Rightarrow> (Inl e, s)
   | Inr t \<Rightarrow>
       if tk_state t \<noteq> WaitingForPermission then (Inl (NotWaitingForPermission i), s)
       else (case pending_tool_call i (dv_tasks s) of
         None \<Rightarrow> (Inl (NoPendingToolCall i), s)
       | Some p \<Rightarrow>
           (let e = pc_effect p; ctx = \<lparr>tc_task = i, tc_step = pc_step p\<rparr> in
            if request \<noteq> None \<and> request \<noteq> Some (effect_text s e)
            then (Inl (ApprovalSuperseded (the request) (effect_text s e)), s)
            else (case sv_registry sv (pc_tool p) of
              None \<Rightarrow> (Inl (AgUnknownTool (pc_tool p)), s)
            | Some tool \<Rightarrow>
                if dec = DenyCall
                then move_to i Failed (log_entry i (EffectCompleted e (pc_step p) ''tool_denied''
                  (JObject [(''reason'', JString ''denied by user'')])) s)
                else (case tl_preflight tool ctx (pc_input p) of
                  Inl x \<Rightarrow> (Inl (MalformedCompletion (show_tool_error x)), s)
                | Inr r \<Rightarrow>
                    (let (now, s1) = read_clock s;
                         (a, eng) = approve now r (if dec = ApproveTask then TaskScope i else OneShot) None (dv_engine s1);
                         (u, s2) = draw (s1\<lparr>dv_engine := eng\<rparr>); (t0, s3) = read_clock s2; (t1, s4) = read_clock s3;
                         (res, w) = invoke_with_authorization (sv_redact sv) (ToolInvocationId u) (t0, t1)
                           (sv_registry sv) ctx (pc_tool p) (pc_input p) a (dv_world s4);
                         s5 = s4\<lparr>dv_world := w\<rparr>
                     in (case res of
                           UnknownTool name \<Rightarrow> (Inl (AgUnknownTool name), s5)
                         | AskRequired _ _ \<Rightarrow> (Inl (MalformedCompletion ''unreachable''), s5)
                         | _ \<Rightarrow> then_do (observe_tool_result i (pc_step p) e res s5) (\<lambda>_ s.
                             (case get_state i s of
                                Inl e \<Rightarrow> (Inl e, s)
                              | Inr t \<Rightarrow>
                                  if tk_state t = WaitingForPermission
                                  then move_to i (if dv_verify s i \<noteq> None then Verifying else Implementing) s
                                  else (Inr (), s)))))))))) "

definition resolve_permission ::
  "'x services \<Rightarrow> task_id \<Rightarrow> bool \<Rightarrow> 'x driver \<Rightarrow> (agent_error + unit) \<times> 'x driver" where
  "resolve_permission sv i approved s =
     resolve_permission_scoped sv i None (if approved then ApproveOnce else DenyCall) s"

definition respond_to_user :: "task_id \<Rightarrow> string \<Rightarrow> 'x driver \<Rightarrow> (agent_error + unit) \<times> 'x driver" where
  "respond_to_user i answer s = (case get_state i s of
     Inl e \<Rightarrow> (Inl e, s)
   | Inr t \<Rightarrow>
       if tk_state t \<noteq> WaitingForUser then (Inl (NotWaitingForUser i), s)
       else move_to i Implementing
         (log_fresh i ''user_response'' (JObject [(''answer'', JString answer)]) s))"

section \<open>The loop\<close>

definition run_iteration ::
  "'x services \<Rightarrow> task_id \<Rightarrow> model_role option \<Rightarrow> 'x driver \<Rightarrow> (agent_error + flow) \<times> 'x driver" where
  "run_iteration sv i role s =
     (if sv_cancelled sv (dv_world s) then and_return FlowReturn (move_to i Cancelled s)
      else case get_state i s of
        Inl e \<Rightarrow> (Inl e, s)
      | Inr t \<Rightarrow> (case tk_signal t of
          Some CancelRequested \<Rightarrow> and_return FlowReturn (move_to i Cancelled s)
        | Some PauseRequested \<Rightarrow> and_return FlowReturn (move_to i Paused s)
        | None \<Rightarrow> (case tk_state t of
            Idle \<Rightarrow> and_return FlowContinue (move_to i Understanding s)
          | Understanding \<Rightarrow> and_return FlowContinue (move_to i Discovery s)
          | Discovery \<Rightarrow> (case sv_assemble sv i (dv_world s) of
              Inl e \<Rightarrow> (Inl e, s)
            | Inr payload \<Rightarrow> and_return FlowContinue (move_to i Planning
                (log_fresh i ''context_retrieved'' payload s)))
          | Planning \<Rightarrow> (case sv_planning sv of
              Passthrough \<Rightarrow> and_return FlowContinue (move_to i Implementing s)
            | ModelAuthored \<Rightarrow> sv_step_planning sv i role s)
          | Implementing \<Rightarrow> (case sv_has_plan sv i (dv_world s) of
              Inl e \<Rightarrow> (Inl e, s)
            | Inr True \<Rightarrow> sv_step_plan sv i role s
            | Inr False \<Rightarrow> and_return FlowContinue (step_implementing sv i s))
          | Verifying \<Rightarrow> step_verifying sv i s
          | Diagnosing \<Rightarrow> and_return FlowContinue (step_diagnosing sv i s)
          | Repairing \<Rightarrow> step_repairing sv i s
          | WaitingForPermission \<Rightarrow> (Inr FlowReturn, s)
          | WaitingForUser \<Rightarrow> (Inr FlowReturn, s)
          | Paused \<Rightarrow> (Inr FlowReturn, s)
          | _ \<Rightarrow> (Inr FlowReturn, drop_verify_state i s))))"

fun run_with_role ::
  "nat \<Rightarrow> 'x services \<Rightarrow> task_id \<Rightarrow> model_role option \<Rightarrow> 'x driver
     \<Rightarrow> ((agent_error + unit) \<times> 'x driver) option" where
  "run_with_role 0 sv i role s = None"
| "run_with_role (Suc n) sv i role s = (case run_iteration sv i role s of
     (Inl e, s) \<Rightarrow> Some (Inl e, s)
   | (Inr FlowReturn, s) \<Rightarrow> Some (Inr (), s)
   | (Inr FlowContinue, s) \<Rightarrow> run_with_role n sv i role s)"

end
