(* ===== verification/Driver_Frame.thy ===== *)
theory Driver_Frame
  imports Driver_Steps Task_Correct
begin

text \<open>
  What the driver's steps leave alone. A task is looked at through four projections: its cached verify
  state, the repair ledger its journal amounts to (\<open>repairs\<close>), the verification checks its journal
  records since the last tool call (\<open>checks\<close>), and its home state (\<open>home\<close>), which is its state or,
  while it is paused, the state it will resume to.
\<close>

section \<open>The projections\<close>

definition kinds :: "task_id \<Rightarrow> 'x driver \<Rightarrow> journal_kind list" where
  "kinds i s = journal_kinds i (dv_tasks s)"

definition repair_completed :: "string \<Rightarrow> json \<Rightarrow> repair_ledger \<Rightarrow> repair_ledger" where
  "repair_completed outcome p r = fst (snd (reconstruct_completed (\<lambda>_. []) outcome p
     (new_detector default_config, r, [])))"

fun repair_entry :: "journal_kind \<Rightarrow> repair_ledger \<Rightarrow> repair_ledger" where
  "repair_entry (EffectCompleted _ _ outcome p) r = repair_completed outcome p r"
| "repair_entry _ r = r"

definition repairs :: "task_id \<Rightarrow> 'x driver \<Rightarrow> repair_ledger" where
  "repairs i s = fold repair_entry (kinds i s) (new_repair max_repair_attempts)"

text \<open>The verification checks of a journal: what was issued, and whether it passed. A tool call makes
  what was checked before it stale.\<close>

fun check_entry ::
  "journal_kind \<Rightarrow> (effect_id \<rightharpoonup> json) \<times> (json \<times> bool) list \<Rightarrow> (effect_id \<rightharpoonup> json) \<times> (json \<times> bool) list" where
  "check_entry (EffectIssued e _ k p) (m, c) =
     (if k = ''verify'' then (m(e \<mapsto> p), c) else if k = ''tool'' then (m, []) else (m, c))"
| "check_entry (EffectCompleted e _ k p) (m, c) =
     (if k = ''verify_result'' then (m, case m e of None \<Rightarrow> c
        | Some q \<Rightarrow> c @ [(q, Option.bind (json_get ''passed'' p) json_as_bool = Some True)])
      else if k = ''tool_result'' then (m, []) else (m, c))"
| "check_entry _ x = x"

definition check_log :: "task_id \<Rightarrow> 'x driver \<Rightarrow> (effect_id \<rightharpoonup> json) \<times> (json \<times> bool) list" where
  "check_log i s = fold check_entry (kinds i s) (Map.empty, [])"

definition checks :: "task_id \<Rightarrow> 'x driver \<Rightarrow> (json \<times> bool) list" where
  "checks i s = snd (check_log i s)"

definition home_of :: "task \<Rightarrow> agent_state" where
  "home_of t = (if tk_state t = Paused
     then (case tk_paused_from t of None \<Rightarrow> Paused | Some p \<Rightarrow> p) else tk_state t)"

definition home :: "task_id \<Rightarrow> 'x driver \<Rightarrow> agent_state option" where
  "home i s = (case get_task i (dv_tasks s) of Inl _ \<Rightarrow> None | Inr t \<Rightarrow> Some (home_of t))"

definition in_state :: "task_id \<Rightarrow> agent_state \<Rightarrow> 'x driver \<Rightarrow> bool" where
  "in_state i st s \<longleftrightarrow> (\<exists>t. get_task i (dv_tasks s) = Inr t \<and> tk_state t = st)"

lemma in_state_home: "in_state i st s \<Longrightarrow> st \<noteq> Paused \<Longrightarrow> home i s = Some st"
  by (auto simp: in_state_def home_def home_of_def)

lemma in_state_unique: "in_state i st s \<Longrightarrow> in_state i st' s \<Longrightarrow> st = st'"
  by (auto simp: in_state_def)

lemma get_state_Inr: "get_state i s = Inr t \<Longrightarrow> in_state i (tk_state t) s"
  by (auto simp: get_state_def in_state_def split: sum.splits)

text \<open>The ledger that \<open>reconstruct_verify_state\<close> returns is this projection of the journal.\<close>

lemma reconstruct_completed_repair:
  "fst (snd (reconstruct_completed digest outcome p (d, r, tch))) = repair_completed outcome p r"
  by (auto simp: reconstruct_completed_def repair_completed_def Let_def)

lemma reconstruct_entry_repair:
  "fst (snd (reconstruct_entry digest k st)) = repair_entry k (fst (snd st))"
  by (cases k; cases st) (simp_all add: reconstruct_completed_repair)

lemma reconstruct_fold_repair:
  "fst (snd (fold (reconstruct_entry digest) ks st)) = fold repair_entry ks (fst (snd st))"
  by (induction ks arbitrary: st) (simp_all add: reconstruct_entry_repair)

lemma reconstruct_repair:
  "snd (reconstruct_verify_state digest ks mx) = fold repair_entry ks (new_repair mx)"
  using reconstruct_fold_repair [of digest ks "(new_detector default_config, new_repair mx, [])"]
  by (simp add: reconstruct_verify_state_def case_prod_beta)

section \<open>Entries the projections do not see\<close>

lemma repair_completed_simps:
  "repair_completed ''repair_attempt'' p r = record_attempt \<lparr>fa_attempt = 0,
     fa_fingerprint = str_or_empty ''diagnosis_fingerprint'' p, fa_summary = str_or_empty ''edit_summary'' p,
     fa_outcome = parse_outcome (payload_str ''outcome'' p)\<rparr> r"
  "repair_completed ''repair_decision'' p r =
     (if payload_str ''decision'' p = Some ''escalate_strategy'' then mark_escalated r
      else if payload_str ''decision'' p = Some ''switch_role'' then mark_switched_role r else r)"
  "k \<noteq> ''repair_attempt'' \<Longrightarrow> k \<noteq> ''repair_decision'' \<Longrightarrow> repair_completed k p r = r"
  by (simp_all add: repair_completed_def reconstruct_completed_def Let_def)

fun quiet_entry :: "journal_kind \<Rightarrow> bool" where
  "quiet_entry (EffectIssued _ _ k _) = (k \<noteq> ''verify'' \<and> k \<noteq> ''tool'')"
| "quiet_entry (EffectCompleted _ _ k _) = (k \<notin> {''repair_attempt'', ''repair_decision'',
     ''verify_result'', ''tool_result''})"
| "quiet_entry _ = True"

lemma repair_entry_quiet: "quiet_entry k \<Longrightarrow> repair_entry k r = r"
  by (cases k) (simp_all add: repair_completed_simps)

lemma check_entry_quiet: "quiet_entry k \<Longrightarrow> check_entry k x = x"
  by (cases k; cases x) simp_all

section \<open>Frames of the plumbing\<close>

lemma view_cong:
  assumes "dv_tasks s' = dv_tasks s"
  shows "repairs i s' = repairs i s" "check_log i s' = check_log i s" "home i s' = home i s"
    "in_state i st s' = in_state i st s" "kinds i s' = kinds i s"
  using assms by (simp_all add: repairs_def check_log_def home_def in_state_def kinds_def)

lemma view_world [simp]:
  "repairs i (s\<lparr>dv_world := w\<rparr>) = repairs i s" "check_log i (s\<lparr>dv_world := w\<rparr>) = check_log i s"
  "home i (s\<lparr>dv_world := w\<rparr>) = home i s" "in_state i st (s\<lparr>dv_world := w\<rparr>) = in_state i st s"
  "kinds i (s\<lparr>dv_world := w\<rparr>) = kinds i s"
  by (rule view_cong; simp)+

lemma view_engine [simp]:
  "repairs i (s\<lparr>dv_engine := e\<rparr>) = repairs i s" "check_log i (s\<lparr>dv_engine := e\<rparr>) = check_log i s"
  "home i (s\<lparr>dv_engine := e\<rparr>) = home i s" "in_state i st (s\<lparr>dv_engine := e\<rparr>) = in_state i st s"
  "kinds i (s\<lparr>dv_engine := e\<rparr>) = kinds i s"
  by (rule view_cong; simp)+

lemma view_put [simp]:
  "repairs i (put_verify_state j vs s) = repairs i s"
  "check_log i (put_verify_state j vs s) = check_log i s"
  "home i (put_verify_state j vs s) = home i s"
  "in_state i st (put_verify_state j vs s) = in_state i st s"
  "kinds i (put_verify_state j vs s) = kinds i s"
  "dv_verify (put_verify_state j vs s) = (dv_verify s)(j \<mapsto> vs)"
  "dv_world (put_verify_state j vs s) = dv_world s" "dv_tasks (put_verify_state j vs s) = dv_tasks s"
  by (rule view_cong | simp add: put_verify_state_def)+

lemma view_drop [simp]:
  "repairs i (drop_verify_state j s) = repairs i s"
  "check_log i (drop_verify_state j s) = check_log i s"
  "home i (drop_verify_state j s) = home i s"
  "in_state i st (drop_verify_state j s) = in_state i st s"
  "kinds i (drop_verify_state j s) = kinds i s"
  "dv_verify (drop_verify_state j s) = (dv_verify s)(j := None)"
  "dv_world (drop_verify_state j s) = dv_world s" "dv_tasks (drop_verify_state j s) = dv_tasks s"
  by (rule view_cong | simp add: drop_verify_state_def)+

lemma journal_kinds_quiet [simp]:
  "journal_kinds i (snd (clock_now t)) = journal_kinds i t"
  "journal_kinds i (snd (draw_ulid t)) = journal_kinds i t"
  "journal_kinds i (update_row j f t) = journal_kinds i t"
  by (simp_all add: journal_kinds_def journal_since_def)

lemma get_task_quiet [simp]:
  "get_task i (snd (clock_now t)) = get_task i t" "get_task i (snd (draw_ulid t)) = get_task i t"
  by (rule get_task_cong; simp)+

lemma snd_draw: "snd (draw s) = s\<lparr>dv_tasks := snd (draw_ulid (dv_tasks s))\<rparr>"
  by (simp add: draw_def case_prod_beta)

lemma view_draw [simp]:
  "repairs i (snd (draw s)) = repairs i s" "check_log i (snd (draw s)) = check_log i s"
  "home i (snd (draw s)) = home i s" "in_state i st (snd (draw s)) = in_state i st s"
  "kinds i (snd (draw s)) = kinds i s"
  "dv_verify (snd (draw s)) = dv_verify s" "dv_world (snd (draw s)) = dv_world s"
  "dv_engine (snd (draw s)) = dv_engine s"
  by (simp_all add: snd_draw repairs_def check_log_def kinds_def home_def in_state_def)

lemma snd_read_clock: "snd (read_clock s) = s\<lparr>dv_tasks := snd (clock_now (dv_tasks s))\<rparr>"
  by (simp add: read_clock_def case_prod_beta)

lemma view_clock [simp]:
  "repairs i (snd (read_clock s)) = repairs i s" "check_log i (snd (read_clock s)) = check_log i s"
  "home i (snd (read_clock s)) = home i s" "in_state i st (snd (read_clock s)) = in_state i st s"
  "kinds i (snd (read_clock s)) = kinds i s"
  "dv_verify (snd (read_clock s)) = dv_verify s" "dv_world (snd (read_clock s)) = dv_world s"
  "dv_engine (snd (read_clock s)) = dv_engine s"
  by (simp_all add: snd_read_clock repairs_def check_log_def kinds_def home_def in_state_def)

lemma view_log [simp]:
  "kinds i (log_entry j k s) = kinds i s @ (if i = j then [k] else [])"
  "repairs i (log_entry j k s) = (if i = j then repair_entry k (repairs i s) else repairs i s)"
  "check_log i (log_entry j k s) = (if i = j then check_entry k (check_log i s) else check_log i s)"
  "home i (log_entry j k s) = home i s" "in_state i st (log_entry j k s) = in_state i st s"
  "dv_verify (log_entry j k s) = dv_verify s" "dv_world (log_entry j k s) = dv_world s"
  "dv_engine (log_entry j k s) = dv_engine s"
  by (simp_all add: log_entry_def repairs_def check_log_def kinds_def home_def in_state_def)

lemma log_fresh_unfold:
  "log_fresh i k p s = log_entry i (EffectCompleted (EffectId (fst (draw s)))
     (StepId (fst (draw (snd (draw s))))) k p) (snd (draw (snd (draw s))))"
  by (simp add: log_fresh_def case_prod_beta)

lemma check_completed_other:
  "k \<noteq> ''verify_result'' \<Longrightarrow> k \<noteq> ''tool_result'' \<Longrightarrow> check_entry (EffectCompleted e st k p) x = x"
  by (cases x) simp

lemma view_fresh [simp]:
  "repairs i (log_fresh j k p s) = (if i = j then repair_completed k p (repairs i s) else repairs i s)"
  "home i (log_fresh j k p s) = home i s" "in_state i st (log_fresh j k p s) = in_state i st s"
  "dv_verify (log_fresh j k p s) = dv_verify s" "dv_world (log_fresh j k p s) = dv_world s"
  "dv_engine (log_fresh j k p s) = dv_engine s"
  unfolding log_fresh_unfold by simp_all

lemma check_log_fresh [simp]:
  assumes "k \<noteq> ''verify_result''" and "k \<noteq> ''tool_result''"
  shows "check_log i (log_fresh j k p s) = check_log i s"
  unfolding log_fresh_unfold by (simp only: view_log check_completed_other [OF assms] view_draw if_cancel)

section \<open>Moving a task\<close>

lemma journal_kinds_parent_entry:
  "\<exists>ks. journal_kinds i (parent_entry p k v t) = journal_kinds i t @ ks \<and>
     (\<forall>x \<in> set ks. \<exists>e st. x = EffectCompleted e st k v)"
  by (cases p) (auto simp: parent_entry_def case_prod_beta)

lemma journal_kinds_transition:
  "\<exists>ks. journal_kinds j (snd (transition i to t)) = journal_kinds j t @ ks \<and> list_all quiet_entry ks"
proof -
  have sub: "\<exists>ks. journal_kinds j (parent_entry p ''subtask_completed'' v u) = journal_kinds j u @ ks \<and>
      list_all quiet_entry ks" for p v u
    using journal_kinds_parent_entry [of j p "''subtask_completed''" v u]
    by (fastforce simp: list_all_iff)
  have mid: "journal_kinds j (mid_transition i x to t) = journal_kinds j t @
      (if j = i then [StateChanged (tk_state x) to] else [])" for x
    by (simp add: mid_transition_def)
  show ?thesis
  proof (cases "get_task i t")
    case (Inr x)
    show ?thesis
    proof (cases "transition_check x to")
      case None
      obtain ks where "journal_kinds j (parent_entry (tk_parent x) ''subtask_completed''
          (JObject [(''child_task_id'', JString (id_text t i)), (''final_state'', JString (show_state to))])
          (mid_transition i x to t)) = journal_kinds j (mid_transition i x to t) @ ks"
        "list_all quiet_entry ks" using sub by blast
      then show ?thesis
        using Inr None by (auto simp: transition_unfold mid)
    qed (simp add: transition_unfold Inr)
  qed (simp add: transition_unfold)
qed

lemma fold_quiet:
  assumes "list_all quiet_entry ks"
  shows "fold repair_entry ks r = r" "fold check_entry ks x = x"
  using assms by (induction ks) (simp_all add: repair_entry_quiet check_entry_quiet)

lemma snd_move_to: "snd (move_to i to s) = s\<lparr>dv_tasks := snd (transition i to (dv_tasks s))\<rparr>"
  by (simp add: move_to_def on_tasks_def case_prod_beta split: sum.splits prod.splits)

lemma fst_move_to: "fst (move_to i to s) = (case fst (transition i to (dv_tasks s)) of
    Inl e \<Rightarrow> Inl (AgTask e) | Inr _ \<Rightarrow> Inr ())"
  by (simp add: move_to_def on_tasks_def split: sum.splits prod.splits)

lemma view_move [simp]:
  "repairs j (snd (move_to i to s)) = repairs j s"
  "check_log j (snd (move_to i to s)) = check_log j s"
  "dv_verify (snd (move_to i to s)) = dv_verify s" "dv_world (snd (move_to i to s)) = dv_world s"
  "dv_engine (snd (move_to i to s)) = dv_engine s"
proof -
  obtain ks where "kinds j (snd (move_to i to s)) = kinds j s @ ks" "list_all quiet_entry ks"
    using journal_kinds_transition [of j i to "dv_tasks s"] by (auto simp: kinds_def snd_move_to)
  then show "repairs j (snd (move_to i to s)) = repairs j s"
    "check_log j (snd (move_to i to s)) = check_log j s"
    by (simp_all add: repairs_def check_log_def fold_quiet)
qed (simp_all add: snd_move_to)

text \<open>Where a move leads: a legal one to the new state, an illegal one nowhere; a pause and a resume
  keep the home state.\<close>

lemma get_task_transition:
  assumes "get_task i t = Inr x" and "transition_check x to = None"
  shows "\<exists>t' y. transition i to t = (Inr (), t') \<and> get_task i t' = Inr y \<and> tk_state y = to \<and>
    tk_paused_from y = (if to = Paused then Some (tk_state x) else None) \<and> tk_signal y = None \<and>
    (\<forall>j. j \<noteq> i \<longrightarrow> get_task j t' = get_task j t)"
  using assms by (simp add: transition_unfold get_task_mid_transition [OF assms(1)])

lemma move_to_refused:
  assumes "get_task i (dv_tasks s) = Inr x" and "transition_check x to = Some e"
  shows "move_to i to s = (Inl (AgTask e), s)"
  using assms by (simp add: move_to_def on_tasks_def transition_unfold)

lemma move_to_missing:
  assumes "get_task i (dv_tasks s) = Inl e"
  shows "move_to i to s = (Inl (AgTask e), s)"
  using assms by (simp add: move_to_def on_tasks_def transition_unfold)

lemma move_to_done:
  assumes "get_task i (dv_tasks s) = Inr x" and "transition_check x to = None"
  shows "\<exists>s' y. move_to i to s = (Inr (), s') \<and> get_task i (dv_tasks s') = Inr y \<and> tk_state y = to \<and>
    tk_paused_from y = (if to = Paused then Some (tk_state x) else None) \<and> tk_signal y = None \<and>
    (\<forall>j. j \<noteq> i \<longrightarrow> get_task j (dv_tasks s') = get_task j (dv_tasks s))"
  using get_task_transition [OF assms] by (auto simp: move_to_def on_tasks_def)

lemma move_to_cases:
  obtains (missing) e where "get_task i (dv_tasks s) = Inl e" and "move_to i to s = (Inl (AgTask e), s)"
  | (refused) x e where "get_task i (dv_tasks s) = Inr x" and "transition_check x to = Some e"
      and "move_to i to s = (Inl (AgTask e), s)"
  | (moved) x s' y where "get_task i (dv_tasks s) = Inr x" and "transition_check x to = None"
      and "move_to i to s = (Inr (), s')" and "get_task i (dv_tasks s') = Inr y" and "tk_state y = to"
      and "tk_paused_from y = (if to = Paused then Some (tk_state x) else None)"
      and "\<And>j. j \<noteq> i \<Longrightarrow> get_task j (dv_tasks s') = get_task j (dv_tasks s)"
proof (cases "get_task i (dv_tasks s)")
  case (Inl e)
  then show ?thesis by (intro missing move_to_missing)
next
  case (Inr x)
  show ?thesis
  proof (cases "transition_check x to")
    case None
    with move_to_done [OF Inr None] moved [OF Inr None] show ?thesis by blast
  next
    case (Some e)
    with Inr show ?thesis by (intro refused move_to_refused)
  qed
qed

lemma transition_check_from:
  assumes "tk_state t \<noteq> Paused"
  shows "transition_check t to = (if can_transition_to (tk_state t) to then None
    else Some (IllegalTransition (tk_id t) (tk_state t) to))"
  using assms by (simp add: transition_check_def)

lemma move_to_legal:
  assumes "in_state i st s" and "st \<noteq> Paused" and "can_transition_to st to"
  shows "fst (move_to i to s) = Inr () \<and> in_state i to (snd (move_to i to s))"
proof -
  from assms obtain t where t: "get_task i (dv_tasks s) = Inr t" "tk_state t = st"
    by (auto simp: in_state_def)
  with assms have "transition_check t to = None" by (simp add: transition_check_from)
  from move_to_done [OF t(1) this] show ?thesis by (auto simp: in_state_def)
qed

lemma move_to_illegal:
  assumes "in_state i st s" and "st \<noteq> Paused" and "\<not> can_transition_to st to"
  shows "\<exists>e. move_to i to s = (Inl (AgTask e), s)"
proof -
  from assms obtain t where t: "get_task i (dv_tasks s) = Inr t" "tk_state t = st"
    by (auto simp: in_state_def)
  with assms have "transition_check t to = Some (IllegalTransition (tk_id t) st to)"
    by (simp add: transition_check_from)
  with t(1) show ?thesis by (blast intro: move_to_refused)
qed

lemma home_move:
  "home j (snd (move_to i to s)) = (if j \<noteq> i then home j s
     else if is_ok (fst (move_to i to s)) \<and> to \<noteq> Paused then Some to else home i s)"
proof (cases rule: move_to_cases [of i s to])
  case (moved x s' y)
  have "tk_state x \<noteq> Paused \<or> to \<noteq> Paused"
    using moved(2) by (auto simp: transition_check_def no_self_edge split: if_splits)
  with moved show ?thesis
    by (auto simp: home_def home_of_def split: sum.splits)
qed simp_all

lemma home_move_other [simp]: "j \<noteq> i \<Longrightarrow> home j (snd (move_to i to s)) = home j s"
  by (simp add: home_move)

lemma home_move_in: "home i (snd (move_to i to s)) \<in> {home i s, Some to}"
  by (simp add: home_move)

lemma in_state_move:
  "in_state i st s \<Longrightarrow> in_state i st (snd (move_to i to s)) \<or>
     fst (move_to i to s) = Inr () \<and> in_state i to (snd (move_to i to s))"
  by (cases rule: move_to_cases [of i s to]) (auto simp: in_state_def)

section \<open>Frames of the larger operations\<close>

definition same_view :: "'x driver \<Rightarrow> 'x driver \<Rightarrow> bool" where
  "same_view s s' \<longleftrightarrow> dv_verify s' = dv_verify s \<and> (\<forall>j. repairs j s' = repairs j s \<and>
     check_log j s' = check_log j s \<and> home j s' = home j s \<and> (\<forall>st. in_state j st s' = in_state j st s))"

lemma same_viewD [dest]:
  assumes "same_view s s'"
  shows "dv_verify s' = dv_verify s" "repairs j s' = repairs j s" "check_log j s' = check_log j s"
    "home j s' = home j s" "in_state j st s' = in_state j st s"
  using assms by (simp_all add: same_view_def)

lemma same_view_refl [simp]: "same_view s s"
  by (simp add: same_view_def)

lemma same_view_trans: "same_view s t \<Longrightarrow> same_view t u \<Longrightarrow> same_view s u"
  by (simp add: same_view_def)

lemma same_view_world [simp]: "same_view s (t\<lparr>dv_world := w\<rparr>) \<longleftrightarrow> same_view s t"
  by (simp add: same_view_def)

lemma same_view_engine [simp]: "same_view s (t\<lparr>dv_engine := e\<rparr>) \<longleftrightarrow> same_view s t"
  by (simp add: same_view_def)

lemma same_view_draw [simp]: "same_view s (snd (draw t)) \<longleftrightarrow> same_view s t"
  by (simp add: same_view_def)

lemma same_view_clock [simp]: "same_view s (snd (read_clock t)) \<longleftrightarrow> same_view s t"
  by (simp add: same_view_def)

lemma same_view_log [simp]: "quiet_entry k \<Longrightarrow> same_view s (log_entry j k t) \<longleftrightarrow> same_view s t"
  by (auto simp: same_view_def repair_entry_quiet check_entry_quiet)

lemma same_view_fresh [simp]:
  "quiet_entry (EffectCompleted (EffectId 0) (StepId 0) k p) \<Longrightarrow> same_view s (log_fresh j k p t) \<longleftrightarrow> same_view s t"
  by (simp add: log_fresh_unfold)

lemma same_view_then:
  "same_view s (snd x) \<Longrightarrow> (\<And>a t. x = (Inr a, t) \<Longrightarrow> same_view s t \<Longrightarrow> same_view s (snd (f a t))) \<Longrightarrow>
     same_view s (snd (then_do x f))"
  by (cases x; cases "fst x") auto

lemma same_view_conversation: "same_view s (snd (build_conversation sv i s))"
  unfolding build_conversation_def
  by (rule same_view_then) (auto simp: system_and_task_messages_def split: sum.splits)

lemma same_view_call: "same_view s (snd (call_model sv i role sid e extra turn s))"
  unfolding call_model_def
  by (rule same_view_then [OF same_view_conversation]) (auto split: sum.splits prod.splits)

lemma same_view_baseline [simp]: "same_view s (record_baseline_if_path sv inp t) \<longleftrightarrow> same_view s t"
  by (simp add: record_baseline_if_path_def Let_def split: option.splits)

lemma same_view_invoke [simp]: "same_view s (snd (invoke_tool sv ctx name inp t)) \<longleftrightarrow> same_view s t"
proof -
  let ?s4 = "snd (read_clock (snd (read_clock (snd (read_clock (snd (draw t)))))))"
  obtain e w where "snd (invoke_tool sv ctx name inp t) = ?s4\<lparr>dv_engine := e, dv_world := w\<rparr>"
    by (simp add: invoke_tool_def case_prod_beta)
  then show ?thesis by simp
qed

text \<open>Taking the verify state caches it; a task without one gets it from its journal.\<close>

lemma take_verify_cached: "dv_verify s i = Some vs \<Longrightarrow> take_verify_state sv i s = (vs, s)"
  by (simp add: take_verify_state_def)

lemma take_verify_fresh:
  assumes "dv_verify s i = None"
  obtains d where "take_verify_state sv i s =
    (default_verify_state\<lparr>vs_detector := d, vs_repair := repairs i s\<rparr>,
     put_verify_state i (default_verify_state\<lparr>vs_detector := d, vs_repair := repairs i s\<rparr>) s)"
proof
  show "take_verify_state sv i s =
    (default_verify_state\<lparr>vs_detector := fst (reconstruct_verify_state (env_digest (sv_env sv))
       (map je_kind (journal_since i 0 (dv_tasks s))) max_repair_attempts), vs_repair := repairs i s\<rparr>,
     put_verify_state i (default_verify_state\<lparr>vs_detector := fst (reconstruct_verify_state (env_digest (sv_env sv))
       (map je_kind (journal_since i 0 (dv_tasks s))) max_repair_attempts), vs_repair := repairs i s\<rparr>) s)"
    using assms reconstruct_repair [of "env_digest (sv_env sv)" "kinds i s" max_repair_attempts]
    by (simp add: take_verify_state_def case_prod_beta Let_def repairs_def kinds_def journal_kinds_def)
qed

lemma view_take [simp]:
  "repairs j (snd (take_verify_state sv i s)) = repairs j s"
  "check_log j (snd (take_verify_state sv i s)) = check_log j s"
  "home j (snd (take_verify_state sv i s)) = home j s"
  "in_state j st (snd (take_verify_state sv i s)) = in_state j st s"
  "dv_world (snd (take_verify_state sv i s)) = dv_world s"
  "dv_tasks (snd (take_verify_state sv i s)) = dv_tasks s"
  "dv_verify (snd (take_verify_state sv i s)) = (dv_verify s)(i \<mapsto> fst (take_verify_state sv i s))"
  by (auto simp: take_verify_state_def case_prod_beta Let_def split: option.splits)

text \<open>Issuing a tool call: checks are stale from here on, and the task ends in its state, waiting for
  permission or failed.\<close>

definition tool_view :: "task_id \<Rightarrow> 'x driver \<Rightarrow> 'x driver \<Rightarrow> bool" where
  "tool_view i s s' \<longleftrightarrow> dv_verify s' = dv_verify s \<and> (\<forall>j. repairs j s' = repairs j s) \<and>
     (\<forall>j. j \<noteq> i \<longrightarrow> check_log j s' = check_log j s \<and> home j s' = home j s) \<and>
     (\<forall>st. in_state i st s \<longrightarrow> in_state i st s' \<or> in_state i WaitingForPermission s' \<and> (st \<noteq> Paused \<longrightarrow>
        can_transition_to st WaitingForPermission) \<or> in_state i Failed s')"

lemma tool_view_observe: "tool_view i s (snd (observe_tool_result i sid e res s))"
proof -
  have mv: "tool_view i s (snd (move_to i to (log_entry i (EffectCompleted e sid k p) s)))"
    if "k \<noteq> ''repair_attempt''" "k \<noteq> ''repair_decision''" "to = WaitingForPermission \<or> to = Failed" for k p to
  proof -
    let ?s = "log_entry i (EffectCompleted e sid k p) s"
    have "in_state i st ?s \<Longrightarrow> in_state i st (snd (move_to i to ?s)) \<or> in_state i to (snd (move_to i to ?s)) \<and>
        (st \<noteq> Paused \<longrightarrow> can_transition_to st to)" for st
      using in_state_move [of i st ?s to] move_to_illegal [of i st ?s to] by force
    with that show ?thesis by (auto simp: tool_view_def repair_completed_simps)
  qed
  show ?thesis
  proof (cases res)
    case (Executed out r)
    then show ?thesis by (simp add: observe_tool_result_def tool_view_def repair_completed_simps)
  qed (simp_all add: observe_tool_result_def mv, simp add: tool_view_def)
qed

lemma tool_view_before: "tool_view i t u \<Longrightarrow> dv_verify t = dv_verify s \<Longrightarrow> (\<And>j. repairs j t = repairs j s) \<Longrightarrow>
    (\<And>j. j \<noteq> i \<Longrightarrow> check_log j t = check_log j s) \<Longrightarrow> (\<And>j. home j t = home j s) \<Longrightarrow>
    (\<And>st. in_state i st t = in_state i st s) \<Longrightarrow> tool_view i s u"
  by (simp add: tool_view_def)

lemma tool_view_issue: "tool_view i s (snd (issue_and_execute_tool_call sv i sid name inp s))"
proof -
  obtain e p where i: "issue_and_execute_tool_call sv i sid name inp s =
    (let s2 = log_entry i (EffectIssued (EffectId e) sid ''tool'' p) (snd (draw s));
         r = invoke_tool sv \<lparr>tc_task = i, tc_step = sid\<rparr> name inp (record_baseline_if_path sv inp s2)
     in observe_tool_result i sid (EffectId e) (fst r) (snd r))"
    by (simp add: issue_and_execute_tool_call_def case_prod_beta Let_def)
  let ?s2 = "log_entry i (EffectIssued (EffectId e) sid ''tool'' p) (snd (draw s))"
  let ?r = "invoke_tool sv \<lparr>tc_task = i, tc_step = sid\<rparr> name inp (record_baseline_if_path sv inp ?s2)"
  have v: "same_view ?s2 (snd ?r)" by simp
  show ?thesis
    unfolding i Let_def
    by (rule tool_view_before [OF tool_view_observe]) (simp_all add: same_viewD [OF v])
qed

end
