(* ===== verification/Driver_Invariant.thy ===== *)
theory Driver_Invariant
  imports Driver_Frame
begin

text \<open>
  The invariant of the driver, kept by every operation of it: the cached repair ledger is the one
  the journal amounts to, the repair attempts stay within their budget, and a verification plan of
  which checks have passed belongs to a task that is still verifying and is a record of checks the
  journal holds, in order and with no tool call in between.
\<close>

section \<open>The invariant\<close>

text \<open>No check of the current plan has passed, or the last one failed.\<close>

definition settled :: "verify_state \<Rightarrow> bool" where
  "settled vs \<longleftrightarrow> vs_plan vs = None \<or> \<not> vs_last_passed vs \<or> vs_executed vs = 0"

text \<open>The checks \<open>cs\<close> end with the first \<open>n\<close> steps of \<open>p\<close>, all passed.\<close>

definition green :: "verification_step list \<Rightarrow> nat \<Rightarrow> (json \<times> bool) list \<Rightarrow> bool" where
  "green p n cs \<longleftrightarrow> (\<exists>zs. cs = zs @ map (\<lambda>st. (verify_payload st, True)) (take n p))"

definition closing :: "agent_state option \<Rightarrow> bool" where
  "closing h \<longleftrightarrow> h \<in> {Some Verifying, Some Completed, Some Cancelled, Some Failed}"

text \<open>\<open>p\<close> is the escalation plan of the commands \<open>v\<close> that validation confirmed in some world.\<close>

definition confirmed :: "'x services \<Rightarrow> verify_command list \<Rightarrow> bool" where
  "confirmed sv v \<longleftrightarrow> (\<exists>w. v = fst (sv_validate sv (sv_scan sv w) w))"

definition made_plan :: "'x services \<Rightarrow> verification_step list \<Rightarrow> bool" where
  "made_plan sv p \<longleftrightarrow> p \<noteq> [] \<and> (\<exists>v ch style. confirmed sv v \<and>
     p = escalation_plan v (change_set_of ch) [] \<lparr>so_style = style, so_full = True\<rparr>)"

definition plan_fine :: "'x services \<Rightarrow> verification_step list option \<Rightarrow> bool" where
  "plan_fine sv opt \<longleftrightarrow> (\<forall>p. opt = Some p \<longrightarrow> made_plan sv p)"

lemma plan_fine_simps [simp]: "plan_fine sv None" "plan_fine sv (Some p) \<longleftrightarrow> made_plan sv p"
  "\<not> made_plan sv []"
  by (simp_all add: plan_fine_def made_plan_def)

definition vs_good ::
  "'x services \<Rightarrow> verify_state \<Rightarrow> repair_ledger \<Rightarrow> (json \<times> bool) list \<Rightarrow> agent_state option \<Rightarrow> bool" where
  "vs_good sv vs r cs h \<longleftrightarrow> vs_repair vs = r \<and> plan_fine sv (vs_plan vs) \<and>
     (settled vs \<or> closing h \<and>
       (\<exists>p. vs_plan vs = Some p \<and> vs_executed vs \<le> length p \<and> green p (vs_executed vs) cs))"

definition budget_left :: "repair_ledger \<Rightarrow> agent_state option \<Rightarrow> bool" where
  "budget_left r h \<longleftrightarrow> length (rl_attempts r) \<le> (if h = Some Repairing then 3 else 4)"

definition task_good :: "'x services \<Rightarrow> task_id \<Rightarrow> 'x driver \<Rightarrow> bool" where
  "task_good sv i s \<longleftrightarrow> budget_left (repairs i s) (home i s) \<and>
     (\<forall>vs. dv_verify s i = Some vs \<longrightarrow> vs_good sv vs (repairs i s) (checks i s) (home i s))"

definition all_settled :: "task_id \<Rightarrow> 'x driver \<Rightarrow> bool" where
  "all_settled i s \<longleftrightarrow> (\<forall>vs. dv_verify s i = Some vs \<longrightarrow> settled vs)"

text \<open>Other tasks than \<open>i\<close> look the same.\<close>

definition others :: "task_id \<Rightarrow> 'x driver \<Rightarrow> 'x driver \<Rightarrow> bool" where
  "others i s s' \<longleftrightarrow> (\<forall>j. j \<noteq> i \<longrightarrow> dv_verify s' j = dv_verify s j \<and> repairs j s' = repairs j s \<and>
     checks j s' = checks j s \<and> home j s' = home j s)"

lemma others_refl [simp]: "others i s s"
  by (simp add: others_def)

lemma others_trans [trans]: "others i s t \<Longrightarrow> others i t u \<Longrightarrow> others i s u"
  by (simp add: others_def)

lemma others_good: "others i s s' \<Longrightarrow> j \<noteq> i \<Longrightarrow> task_good sv j s \<Longrightarrow> task_good sv j s'"
  by (simp add: others_def task_good_def)

lemma others_same: "same_view s s' \<Longrightarrow> others i s s'"
  by (auto simp: others_def checks_def same_viewD)

lemma others_tool: "tool_view i s s' \<Longrightarrow> others i s s'"
  by (auto simp: others_def tool_view_def checks_def)

lemma others_move [simp]: "others i s (snd (move_to i to t)) \<longleftrightarrow> others i s t"
  by (auto simp: others_def checks_def)

lemma others_put [simp]: "others i s (put_verify_state i vs t) \<longleftrightarrow> others i s t"
  by (auto simp: others_def checks_def)

lemma others_drop [simp]: "others i s (drop_verify_state i t) \<longleftrightarrow> others i s t"
  by (auto simp: others_def checks_def)

lemma others_log [simp]: "others i s (log_entry i k t) \<longleftrightarrow> others i s t"
  by (auto simp: others_def checks_def)

lemma others_fresh [simp]: "others i s (log_fresh i k p t) \<longleftrightarrow> others i s t"
  by (auto simp: others_def checks_def log_fresh_unfold)

lemma others_draw [simp]: "others i s (snd (draw t)) \<longleftrightarrow> others i s t"
  by (auto simp: others_def checks_def)

lemma others_clock [simp]: "others i s (snd (read_clock t)) \<longleftrightarrow> others i s t"
  by (auto simp: others_def checks_def)

lemma others_world [simp]: "others i s (t\<lparr>dv_world := w\<rparr>) \<longleftrightarrow> others i s t"
  by (auto simp: others_def checks_def)

lemma others_engine [simp]: "others i s (t\<lparr>dv_engine := e\<rparr>) \<longleftrightarrow> others i s t"
  by (auto simp: others_def checks_def)

lemma others_take [simp]: "others i s (snd (take_verify_state sv i t)) \<longleftrightarrow> others i s t"
  by (auto simp: others_def checks_def)

section \<open>How the operations keep it\<close>

lemma rl_max_repair_completed [simp]: "rl_max (repair_completed k p r) = rl_max r"
  by (cases "k = ''repair_attempt''"; cases "k = ''repair_decision''") (simp_all add: repair_completed_simps)

lemma rl_max_repair_entry [simp]: "rl_max (repair_entry k r) = rl_max r"
  by (cases k) simp_all

lemma rl_max_repairs [simp]: "rl_max (repairs i s) = 4"
proof -
  have "rl_max (fold repair_entry ks r) = rl_max r" for ks r
    by (induction ks arbitrary: r) simp_all
  then show ?thesis by (simp add: repairs_def new_repair_def max_repair_attempts_def)
qed

lemma good_same: "same_view s s' \<Longrightarrow> task_good sv i s' \<longleftrightarrow> task_good sv i s"
  by (auto simp: task_good_def checks_def same_viewD)

lemma settled_of_good:
  assumes "task_good sv i s" and "in_state i st s" and "st \<in> {Implementing, Repairing, WaitingForPermission,
    WaitingForUser, Diagnosing, Planning, Discovery, Understanding, Idle}"
  shows "all_settled i s"
proof -
  have "home i s = Some st" by (rule in_state_home) (use assms in auto)
  with assms show ?thesis by (auto simp: all_settled_def task_good_def vs_good_def closing_def)
qed

lemma vs_good_settled: "settled vs \<Longrightarrow> vs_good sv vs r cs h \<longleftrightarrow> vs_repair vs = r \<and> plan_fine sv (vs_plan vs)"
  by (auto simp: vs_good_def)

lemma good_move:
  assumes g: "task_good sv i s" and r: "to = Repairing \<Longrightarrow> length (rl_attempts (repairs i s)) \<le> 3"
    and st: "all_settled i s \<or> closing (Some to) \<or> to = Paused"
  shows "task_good sv i (snd (move_to i to s))"
proof -
  have h: "home i (snd (move_to i to s)) = home i s \<or>
      home i (snd (move_to i to s)) = Some to \<and> to \<noteq> Paused"
    by (simp add: home_move)
  have "budget_left (repairs i s) (home i (snd (move_to i to s)))"
    using h g r by (auto simp: task_good_def budget_left_def split: if_splits)
  moreover have "vs_good sv vs (repairs i s) (checks i s) (home i (snd (move_to i to s)))"
    if "dv_verify s i = Some vs" for vs
    using that h g st by (auto simp: task_good_def all_settled_def vs_good_def)
  ultimately show ?thesis by (simp add: task_good_def checks_def)
qed

lemma good_put:
  "budget_left (repairs i s) (home i s) \<Longrightarrow> vs_good sv vs (repairs i s) (checks i s) (home i s) \<Longrightarrow>
     task_good sv i (put_verify_state i vs s)"
  by (simp add: task_good_def checks_def)

lemma good_drop: "budget_left (repairs i s) (home i s) \<Longrightarrow> task_good sv i (drop_verify_state i s)"
  by (simp add: task_good_def checks_def)

lemma good_budget: "task_good sv i s \<Longrightarrow> budget_left (repairs i s) (home i s)"
  by (simp add: task_good_def)

lemma take_good:
  assumes "task_good sv i s"
  shows "vs_good sv (fst (take_verify_state sv i s)) (repairs i s) (checks i s) (home i s)"
    and "task_good sv i (snd (take_verify_state sv i s))"
proof -
  show v: "vs_good sv (fst (take_verify_state sv i s)) (repairs i s) (checks i s) (home i s)"
  proof (cases "dv_verify s i")
    case None
    then obtain d where "take_verify_state sv i s =
      (default_verify_state\<lparr>vs_detector := d, vs_repair := repairs i s\<rparr>,
       put_verify_state i (default_verify_state\<lparr>vs_detector := d, vs_repair := repairs i s\<rparr>) s)"
      by (rule take_verify_fresh)
    then show ?thesis by (simp add: vs_good_def settled_def default_verify_state_def)
  next
    case (Some vs)
    with assms show ?thesis by (simp add: take_verify_cached task_good_def)
  qed
  with assms show "task_good sv i (snd (take_verify_state sv i s))"
    by (simp add: task_good_def checks_def)
qed

lemma good_tool:
  assumes g: "task_good sv i s" and st: "in_state i st s" "st \<in> {Implementing, Repairing, WaitingForPermission}"
    and tv: "tool_view i s s'"
  shows "task_good sv i s'" and "all_settled i s'"
    and "in_state i st s' \<or> in_state i WaitingForPermission s' \<or> in_state i Failed s'"
proof -
  show in': "in_state i st s' \<or> in_state i WaitingForPermission s' \<or> in_state i Failed s'"
    using tv st(1) by (auto simp: tool_view_def)
  have h: "home i s = Some st" by (rule in_state_home) (use st in auto)
  have h': "home i s' = Some Repairing \<Longrightarrow> st = Repairing"
    using in' st(2) by (auto dest!: in_state_home)
  have s: "all_settled i s" using settled_of_good [OF g st(1)] st(2) by auto
  with tv show s': "all_settled i s'" by (simp add: all_settled_def tool_view_def)
  have "budget_left (repairs i s') (home i s')"
    using g tv h h' by (auto simp: task_good_def tool_view_def budget_left_def split: if_splits)
  with g tv s show "task_good sv i s'"
    by (auto simp: task_good_def tool_view_def all_settled_def vs_good_settled)
qed

section \<open>Implementing\<close>

lemma then_do_keeps:
  assumes "P (snd x)" and "\<And>a t. x = (Inr a, t) \<Longrightarrow> P t \<Longrightarrow> P (snd (f a t))"
  shows "P (snd (then_do x f))"
  using assms by (cases x; cases "fst x") auto

lemma implementing_good:
  assumes g: "task_good sv i s" and st: "in_state i Implementing s"
  shows "task_good sv i (snd (step_implementing sv i s)) \<and> others i s (snd (step_implementing sv i s))"
proof (cases "interrupted_tool_call i (dv_tasks s)")
  case (Some p)
  let ?s' = "snd (issue_and_execute_tool_call sv i (pc_step p) (pc_tool p) (pc_input p) s)"
  have tv: "tool_view i s ?s'" by (rule tool_view_issue)
  have "task_good sv i ?s'" by (rule good_tool(1) [OF g st _ tv]) simp
  with Some others_tool [OF tv] show ?thesis by (simp add: step_implementing_def)
next
  case None
  obtain role sid e turn k where e: "step_implementing sv i s =
      then_do (call_model sv i role sid e [] turn (log_entry i k (snd (draw (snd (draw s)))))) (act_on sv i sid)"
    and k: "quiet_entry k"
    by (simp add: step_implementing_def None case_prod_beta Let_def)
  let ?s = "log_entry i k (snd (draw (snd (draw s))))"
  have v: "same_view s (snd (call_model sv i role sid e [] turn ?s))"
    by (rule same_view_trans [OF _ same_view_call]) (use k in simp)
  have act: "task_good sv i (snd (act_on sv i sid c t)) \<and> others i s (snd (act_on sv i sid c t))"
    if t: "same_view s t" for c t
  proof -
    have gt: "task_good sv i t" and st': "in_state i Implementing t" and ot: "others i s t"
      using g st good_same [OF t] others_same [OF t] same_viewD(5) [OF t] by simp_all
    have settled: "all_settled i t" by (rule settled_of_good [OF gt st']) simp
    show ?thesis
    proof (cases "from_completion c")
      case (Inr a)
      show ?thesis
      proof (cases a)
        case (ToolCall tool inp)
        have tv: "tool_view i t (snd (issue_and_execute_tool_call sv i sid tool inp t))"
          by (rule tool_view_issue)
        have "task_good sv i (snd (issue_and_execute_tool_call sv i sid tool inp t))"
          by (rule good_tool(1) [OF gt st' _ tv]) simp
        with Inr ToolCall others_trans [OF ot others_tool [OF tv]] show ?thesis by (simp add: act_on_def)
      qed (use Inr gt ot settled in \<open>auto simp: act_on_def intro!: good_move\<close>)
    qed (use gt ot in \<open>simp add: act_on_def\<close>)
  qed
  show ?thesis
    unfolding e
    by (rule then_do_keeps) (use v act g good_same [OF v] others_same [OF v] in \<open>auto\<close>)
qed

section \<open>Verifying\<close>

definition same_state :: "'x driver \<Rightarrow> 'x driver \<Rightarrow> bool" where
  "same_state s s' \<longleftrightarrow> dv_verify s' = dv_verify s \<and> (\<forall>j. repairs j s' = repairs j s \<and> home j s' = home j s
     \<and> (\<forall>st. in_state j st s' = in_state j st s))"

abbreviation planned :: "verify_command list \<Rightarrow> path list \<Rightarrow> verify_state \<Rightarrow> verification_step list" where
  "planned v ch vs \<equiv> escalation_plan v (change_set_of ch) [] \<lparr>so_style = \<not> vs_broaden vs, so_full = True\<rparr>"

lemma build_plan_cases:
  obtains (unplanned) w where "build_plan sv ch vs s = (None, s\<lparr>dv_world := w\<rparr>)" and "vs_plan vs = None"
  | (kept) "build_plan sv ch vs s = (Some vs, s)" and "vs_plan vs \<noteq> None"
  | (built) w p where "build_plan sv ch vs s =
       (Some (vs\<lparr>vs_plan := Some p, vs_executed := 0, vs_last_passed := True\<rparr>), s\<lparr>dv_world := w\<rparr>)"
      and "made_plan sv p"
proof (cases "vs_plan vs")
  case None
  show ?thesis
  proof (cases "sv_scan sv (dv_world s) = []")
    case True
    have "build_plan sv ch vs s = (None, s\<lparr>dv_world := dv_world s\<rparr>)"
      using None True by (simp add: build_plan_def)
    then show ?thesis using None by (rule unplanned)
  next
    case False
    obtain v w where v: "sv_validate sv (sv_scan sv (dv_world s)) (dv_world s) = (v, w)" by fastforce
    show ?thesis
    proof (cases "v = [] \<or> planned v ch vs = []")
      case True
      then have "build_plan sv ch vs s = (None, s\<lparr>dv_world := w\<rparr>)"
        using None False v by (auto simp: build_plan_def Let_def)
      then show ?thesis using None by (rule unplanned)
    next
      case nonempty: False
      then have "build_plan sv ch vs s = (Some (vs\<lparr>vs_plan := Some (planned v ch vs),
          vs_executed := 0, vs_last_passed := True\<rparr>), s\<lparr>dv_world := w\<rparr>)"
        using None False v by (simp add: build_plan_def Let_def)
      moreover have "confirmed sv v" using v by (auto simp: confirmed_def intro: exI [of _ "dv_world s"])
      then have "made_plan sv (planned v ch vs)" using nonempty by (auto simp: made_plan_def)
      ultimately show ?thesis by (rule built)
    qed
  qed
qed (simp add: build_plan_def kept)

lemma run_check_view:
  shows "same_state s (snd (run_check sv i st ch s))" and "others i s (snd (run_check sv i st ch s))"
    and "checks i (snd (run_check sv i st ch s)) = (case fst (run_check sv i st ch s) of
      Inl _ \<Rightarrow> checks i s | Inr r \<Rightarrow> checks i s @ [(verify_payload st, vr_passed r)])"
proof -
  obtain e sid where r: "run_check sv i st ch s =
     (let s3 = log_entry i (EffectIssued e sid ''verify'' (verify_payload st)) (snd (draw (snd (draw s))))
      in case sv_run_check sv st ch (dv_world s3) of
            (Inl x, w) \<Rightarrow> (Inl (MalformedCompletion (''verification runner: '' @ x)), s3\<lparr>dv_world := w\<rparr>)
          | (Inr r, w) \<Rightarrow> (case sv_log_run sv i r w of
              (Inl x, w) \<Rightarrow> (Inl (MalformedCompletion (''verification log: '' @ x)), s3\<lparr>dv_world := w\<rparr>)
            | (Inr _, w) \<Rightarrow> (Inr r, log_entry i (EffectCompleted e sid ''verify_result''
                (verify_result_payload r)) (s3\<lparr>dv_world := w\<rparr>))))"
    by (simp add: run_check_def case_prod_beta Let_def)
  have passed: "Option.bind (json_get ''passed'' (verify_result_payload r)) json_as_bool = Some (vr_passed r)" for r
    by (simp add: verify_result_payload_def json_get_def)
  obtain m c where mc: "check_log i s = (m, c)" by fastforce
  show "same_state s (snd (run_check sv i st ch s))"
    by (auto simp: r Let_def same_state_def repair_completed_simps split: sum.splits prod.splits)
  show "others i s (snd (run_check sv i st ch s))"
    by (auto simp: r Let_def split: sum.splits prod.splits)
  show "checks i (snd (run_check sv i st ch s)) = (case fst (run_check sv i st ch s) of
      Inl _ \<Rightarrow> checks i s | Inr r \<Rightarrow> checks i s @ [(verify_payload st, vr_passed r)])"
    by (auto simp: r Let_def checks_def mc passed split: sum.splits prod.splits)
qed

text \<open>The plan a verify state carries is described by \<open>s\<close>, the state of the task in which its next check
  is due.\<close>

definition kept :: "'x services \<Rightarrow> task_id \<Rightarrow> 'x driver \<Rightarrow> 'x driver \<Rightarrow> bool" where
  "kept sv i s s' \<longleftrightarrow> task_good sv i s' \<and> others i s s'"

lemma kept_refl: "task_good sv i s \<Longrightarrow> kept sv i s s"
  by (simp add: kept_def)

lemma kept_trans: "kept sv i s t \<Longrightarrow> kept sv i t u \<Longrightarrow> kept sv i s u"
  by (auto simp: kept_def intro: others_trans)

lemma kept_same: "task_good sv i s \<Longrightarrow> same_view s s' \<Longrightarrow> kept sv i s s'"
  by (simp add: kept_def good_same others_same)

lemma snd_and_return [simp]: "snd (and_return f x) = snd x"
  by (cases x; cases "fst x") (auto simp: and_return_def)

lemma fst_and_return [simp]: "fst (and_return f x) = (case fst x of Inl e \<Rightarrow> Inl e | Inr _ \<Rightarrow> Inr f)"
  by (cases x; cases "fst x") (auto simp: and_return_def)

lemma next_after_Some:
  "next_after p n lp = Some st \<longleftrightarrow> (n = 0 \<or> lp) \<and> n < length p \<and> st = p ! n"
  by (auto simp: next_after_def)

lemma next_after_None: "next_after p n lp = None \<longleftrightarrow> 0 < n \<and> \<not> lp \<or> length p \<le> n"
  by (auto simp: next_after_def)

lemma green_0 [simp]: "green p 0 cs"
  by (simp add: green_def)

lemma green_Suc: "green p n cs \<Longrightarrow> n < length p \<Longrightarrow> green p (Suc n) (cs @ [(verify_payload (p ! n), True)])"
  by (auto simp: green_def take_Suc_conv_app_nth)

lemma same_state_good:
  assumes "same_state s s'" and "task_good sv i s" and "all_settled i s"
  shows "task_good sv i s'" and "all_settled i s'"
  using assms by (auto simp: same_state_def task_good_def all_settled_def vs_good_settled)

text \<open>\<open>good_with vs\<close>: the task is verifying and \<open>vs\<close> is its verify state.\<close>

definition good_with :: "'x services \<Rightarrow> task_id \<Rightarrow> verify_state \<Rightarrow> 'x driver \<Rightarrow> bool" where
  "good_with sv i vs s \<longleftrightarrow> budget_left (repairs i s) (home i s) \<and> vs_good sv vs (repairs i s) (checks i s) (home i s)"

lemma good_with_put: "good_with sv i vs s \<Longrightarrow> task_good sv i (put_verify_state i vs s)"
  by (simp add: good_with_def good_put)

lemma good_with_world [simp]: "good_with sv i vs (s\<lparr>dv_world := w\<rparr>) = good_with sv i vs s"
  by (simp add: good_with_def checks_def)

lemma not_completed_move:
  assumes "in_state i st s" and "st \<noteq> Completed" and "to \<noteq> Completed"
  shows "\<not> in_state i Completed (snd (move_to i to s))"
  using in_state_move [OF assms(1), of to] assms(2,3) by (auto dest: in_state_unique)

lemma same_stateD:
  assumes "same_state s s'"
  shows "dv_verify s' = dv_verify s" "repairs j s' = repairs j s" "home j s' = home j s"
    "in_state j st s' = in_state j st s"
  using assms by (simp_all add: same_state_def)

lemma checked_good:
  assumes g: "good_with sv i vs s" and h: "home i s = Some Verifying" and p: "vs_plan vs = Some p"
    and n: "next_after p (vs_executed vs) (vs_last_passed vs) = Some st"
    and s': "same_state s s'" "checks i s' = checks i s @ [(verify_payload st, vr_passed r)]"
  shows "good_with sv i (vs\<lparr>vs_executed := vs_executed vs + 1, vs_last_passed := vr_passed r,
    vs_last_run := Some r, vs_detector := d\<rparr>) s'"
proof -
  from n have st: "st = p ! vs_executed vs" "vs_executed vs < length p"
      "vs_executed vs = 0 \<or> vs_last_passed vs"
    by (simp_all add: next_after_Some)
  have "green p (vs_executed vs) (checks i s)"
    using g p st(3) by (cases "vs_executed vs") (auto simp: good_with_def vs_good_def settled_def)
  then have "vr_passed r \<Longrightarrow> green p (Suc (vs_executed vs)) (checks i s')"
    using st s'(2) green_Suc by simp
  then show ?thesis
    using g h p st(2) same_stateD [OF s'(1)]
    by (auto simp: good_with_def vs_good_def settled_def closing_def)
qed

lemma check_next_good:
  assumes g: "good_with sv i vs s" and v: "in_state i Verifying s" and p: "vs_plan vs = Some p"
    and t: "task_good sv i s"
  shows "kept sv i s (snd (check_next sv i ch vs s))"
    and "in_state i Completed (snd (check_next sv i ch vs s)) \<Longrightarrow> \<exists>vs'. dv_verify (snd (check_next sv i ch vs s)) i =
      Some vs' \<and> vs_plan vs' = Some p \<and> green p (length p) (checks i (snd (check_next sv i ch vs s)))"
proof -
  let ?s' = "snd (check_next sv i ch vs s)"
  have h: "home i s = Some Verifying" by (rule in_state_home [OF v]) simp
  have "kept sv i s ?s' \<and> (in_state i Completed ?s' \<longrightarrow> (\<exists>vs'. dv_verify ?s' i =
      Some vs' \<and> vs_plan vs' = Some p \<and> green p (length p) (checks i ?s')))"
  proof (cases "next_after p (vs_executed vs) (vs_last_passed vs)")
    case None
    have gp: "task_good sv i (put_verify_state i vs (s\<lparr>dv_world := w\<rparr>))" for w
      using g by (intro good_with_put) simp
    have "\<not> vs_last_passed vs \<Longrightarrow> all_settled i (put_verify_state i vs s)"
      by (simp add: all_settled_def settled_def)
    then have "kept sv i s ?s'"
      using gp [of "dv_world s"] gp [of "sv_memory sv i (dv_world s)"] None p
      by (auto simp: check_next_def kept_def closing_def intro!: good_move)
    moreover have "green p (length p) (checks i s)" if "vs_last_passed vs"
    proof -
      have "length p \<le> vs_executed vs" "p \<noteq> []"
        using None that g p by (auto simp: next_after_None good_with_def vs_good_def)
      then have "\<not> settled vs" using that p by (cases p) (auto simp: settled_def)
      with g p \<open>length p \<le> vs_executed vs\<close> show ?thesis by (auto simp: good_with_def vs_good_def green_def)
    qed
    ultimately show ?thesis
      using None p not_completed_move [of i Verifying "put_verify_state i vs s" Diagnosing] v
      by (auto simp: check_next_def checks_def)
  next
    case (Some st)
    let ?c = "run_check sv i st ch s"
    note view = run_check_view [where sv = sv and i = i and st = st and ch = ch and s = s]
    have v': "in_state i Verifying (snd ?c)" using v same_stateD [OF view(1)] by simp
    show ?thesis
    proof (cases "fst ?c")
      case (Inl e)
      have "check_next sv i ch vs s = (Inl e, snd ?c)"
        using p Some Inl by (cases ?c) (simp add: check_next_def)
      moreover have "task_good sv i (snd ?c)"
        using t Inl view(3) same_stateD [OF view(1)] by (simp add: task_good_def)
      ultimately show ?thesis using v' view(2) by (auto simp: kept_def dest: in_state_unique)
    next
      case (Inr r)
      let ?vs = "vs\<lparr>vs_executed := vs_executed vs + 1, vs_last_passed := vr_passed r, vs_last_run := Some r\<rparr>"
      have gd: "good_with sv i (?vs\<lparr>vs_detector := d\<rparr>) (snd ?c)" for d
        by (rule checked_good [OF g h p Some view(1)]) (use Inr view(3) in simp)
      have g1: "good_with sv i ?vs (snd ?c)" using gd [of "vs_detector vs"] by simp
      have st: "\<not> vr_passed r \<Longrightarrow> all_settled i (put_verify_state i ?vs (snd ?c))"
        by (simp add: all_settled_def settled_def)
      have "check_next sv i ch vs s = (if vr_passed r
          then (Inr FlowContinue, put_verify_state i (?vs\<lparr>vs_detector := snd (observe_failure None (vs_detector vs))\<rparr>) (snd ?c))
          else and_return FlowContinue (move_to i Diagnosing (put_verify_state i ?vs (snd ?c))))"
        using p Some Inr by (cases ?c) (simp add: check_next_def)
      then show ?thesis
        using good_with_put [OF gd] good_with_put [OF g1] st view(2) v'
          not_completed_move [of i Verifying "put_verify_state i ?vs (snd ?c)" Diagnosing]
        by (auto simp: kept_def intro!: good_move dest: in_state_unique)
    qed
  qed
  then show "kept sv i s ?s'" and "in_state i Completed ?s' \<Longrightarrow> \<exists>vs'. dv_verify ?s' i =
      Some vs' \<and> vs_plan vs' = Some p \<and> green p (length p) (checks i ?s')"
    by blast+
qed

lemma take_with:
  assumes "task_good sv i s"
  shows "good_with sv i (fst (take_verify_state sv i s)) (snd (take_verify_state sv i s))"
  using take_good [OF assms] assms by (simp add: good_with_def checks_def task_good_def)

definition verified_green :: "'x services \<Rightarrow> task_id \<Rightarrow> 'x driver \<Rightarrow> bool" where
  "verified_green sv i s \<longleftrightarrow> (\<exists>vs p. dv_verify s i = Some vs \<and> vs_plan vs = Some p \<and> made_plan sv p \<and>
     green p (length p) (checks i s))"

lemma step_verifying_unfold:
  "step_verifying sv i s =
    (let t = take_verify_state sv i s; ch = task_changed_files i (snd t); b = build_plan sv ch (fst t) (snd t)
     in case fst b of None \<Rightarrow> and_return FlowReturn (move_to i Completed (put_verify_state i (fst t) (snd b)))
        | Some vs \<Rightarrow> check_next sv i ch vs (snd b))"
  by (simp add: step_verifying_def case_prod_beta Let_def)

lemma verifying_good:
  assumes g: "task_good sv i s" and v: "in_state i Verifying s"
  shows "kept sv i s (snd (step_verifying sv i s))"
    and "in_state i Completed (snd (step_verifying sv i s)) \<Longrightarrow>
      fst (build_plan sv (task_changed_files i s) (fst (take_verify_state sv i s)) s) = None \<or>
      verified_green sv i (snd (step_verifying sv i s))"
proof -
  let ?vs = "fst (take_verify_state sv i s)" and ?s = "snd (take_verify_state sv i s)"
  let ?ch = "task_changed_files i ?s" and ?s' = "snd (step_verifying sv i s)"
  have ch: "task_changed_files i t = task_changed_files i s" if "dv_tasks t = dv_tasks s"
      "dv_world t = dv_world s" for t :: "'a driver"
  proof -
    have "changed_from n j t = changed_from n j s" for n j
      by (induction n arbitrary: j) (simp_all add: that split: sum.split)
    then show ?thesis by (simp add: task_changed_files_def that)
  qed
  have fb: "fst (build_plan sv ch vs ?s) = fst (build_plan sv ch vs s)" for ch vs
    by (simp add: build_plan_def Let_def split: option.splits prod.splits)
  have w: "good_with sv i ?vs ?s" using g by (rule take_with)
  have gs: "task_good sv i ?s" using g by (rule take_good)
  have vs: "in_state i Verifying ?s" using v by simp
  have o: "others i s ?s" by simp
  have "kept sv i s ?s' \<and> (in_state i Completed ?s' \<longrightarrow> fst (build_plan sv ?ch ?vs ?s) = None \<or> verified_green sv i ?s')"
  proof (cases rule: build_plan_cases [of sv ?ch ?vs ?s])
    case (unplanned x)
    let ?t = "put_verify_state i ?vs (?s\<lparr>dv_world := x\<rparr>)"
    have e: "?s' = snd (move_to i Completed ?t)" unfolding step_verifying_unfold Let_def unplanned(1) by simp
    have "task_good sv i ?t" using w by (intro good_with_put) simp
    then have "kept sv i s ?s'" using o unfolding e by (auto simp: kept_def closing_def intro!: good_move)
    with unplanned show ?thesis by simp
  next
    case kept
    then obtain p where p: "vs_plan ?vs = Some p" by auto
    have e: "?s' = snd (check_next sv i ?ch ?vs ?s)" unfolding step_verifying_unfold Let_def kept(1) by simp
    have "made_plan sv p" using w p by (auto simp: good_with_def vs_good_def)
    moreover have "Driver_Invariant.kept sv i s ?s"
      using o gs by (simp add: Driver_Invariant.kept_def)
    ultimately show ?thesis
      using check_next_good [OF w vs p gs, of ?ch] kept_trans unfolding e verified_green_def by blast
  next
    case (built x p)
    let ?vs' = "?vs\<lparr>vs_plan := Some p, vs_executed := 0, vs_last_passed := True\<rparr>"
    let ?t = "?s\<lparr>dv_world := x\<rparr>"
    have e: "?s' = snd (check_next sv i ?ch ?vs' ?t)" unfolding step_verifying_unfold Let_def built(1) by simp
    have w': "good_with sv i ?vs' ?t"
      using w built(2) by (simp add: good_with_def vs_good_def settled_def)
    have gs': "task_good sv i ?t" using gs by (simp add: task_good_def checks_def)
    have "Driver_Invariant.kept sv i s ?t" using o gs' by (simp add: Driver_Invariant.kept_def)
    moreover have "in_state i Verifying ?t" using vs by simp
    ultimately show ?thesis
      using check_next_good [OF w' _ _ gs', of p ?ch] built(2) kept_trans
      unfolding e verified_green_def by fastforce
  qed
  then show "kept sv i s ?s'" and "in_state i Completed ?s' \<Longrightarrow>
      fst (build_plan sv (task_changed_files i s) ?vs s) = None \<or> verified_green sv i ?s'"
    using ch [of ?s] fb by auto
qed

section \<open>Diagnosing\<close>

definition marked :: "repair_decision \<Rightarrow> repair_ledger \<Rightarrow> repair_ledger" where
  "marked dec r = (case dec of EscalateStrategy \<Rightarrow> mark_escalated r | SwitchRole \<Rightarrow> mark_switched_role r | _ \<Rightarrow> r)"

lemma repair_completed_decision:
  "repair_completed ''repair_decision'' (JObject [(''decision'', JString (describe_decision dec))]) r = marked dec r"
  by (cases dec) (simp_all add: repair_completed_simps payload_str_def json_get_def marked_def)

lemma marked_attempts [simp]: "rl_attempts (marked dec r) = rl_attempts r"
  by (cases dec) (simp_all add: marked_def)

lemma apply_decision_good:
  assumes vs: "vs_repair vs = r" "settled vs" "plan_fine sv (vs_plan vs)"
    and s: "repairs i s = marked dec r" "home i s = Some Diagnosing" "length (rl_attempts r) \<le> 4"
    and dec: "(\<forall>x. dec \<noteq> GiveUp x) \<Longrightarrow> length (rl_attempts r) \<le> 3"
  shows "kept sv i s (snd (apply_decision i dec vs s))"
proof -
  have b: "budget_left (repairs i s) (home i s)" using s by (simp add: budget_left_def)
  have put: "task_good sv i (put_verify_state i v t)" "all_settled i (put_verify_state i v t)"
    if "vs_repair v = repairs i t" "settled v" "plan_fine sv (vs_plan v)" "budget_left (repairs i t) (home i t)"
    for v and t :: "'a driver"
    using that by (auto simp: all_settled_def vs_good_settled intro: good_put)
  show ?thesis
  proof (cases dec)
    case Continue
    with put [of vs s] vs s b dec show ?thesis
      by (auto simp: apply_decision_def kept_def marked_def intro!: good_move)
  next
    case EscalateStrategy
    with put [of "vs\<lparr>vs_repair := mark_escalated r, vs_broaden := True, vs_plan := None\<rparr>" s] vs s b dec show ?thesis
      by (auto simp: apply_decision_def kept_def marked_def settled_def intro!: good_move)
  next
    case SwitchRole
    with put [of "vs\<lparr>vs_repair := mark_switched_role r, vs_role_primary := True, vs_plan := None\<rparr>" s] vs s b dec
    show ?thesis
      by (auto simp: apply_decision_def kept_def marked_def settled_def intro!: good_move)
  next
    case (AskUser x)
    with put [of vs "log_entry i (RecoveryNote (''repair paused for the user: '' @ x)) s"] vs s b show ?thesis
      by (auto simp: apply_decision_def kept_def marked_def intro!: good_move)
  next
    case (GiveUp x)
    with s b show ?thesis
      by (auto simp: apply_decision_def kept_def marked_def closing_def intro!: good_move good_drop)
  qed
qed

lemma step_diagnosing_form:
  obtains dg p1 tch dec finding fp d where "step_diagnosing sv i s =
      (let s2 = log_fresh i ''diagnosis'' p1 (snd (take_verify_state sv i s));
           s3 = (case finding of None \<Rightarrow> s2 | Some f \<Rightarrow> log_fresh i ''loop_detected''
             (JObject [(''class'', JString (finding_code f)), (''detail'', JString (describe_finding f))]) s2);
           s4 = log_fresh i ''repair_decision'' (JObject [(''decision'', JString (describe_decision dec))]) s3
       in apply_decision i dec (fst (take_verify_state sv i s)\<lparr>vs_touched := tch, vs_detector := d, vs_pending := Some dg\<rparr>) s4)"
    and "dec = decide fp finding (vs_repair (fst (take_verify_state sv i s)))"
  by (simp add: step_diagnosing_def case_prod_beta Let_def)

lemma diagnosing_good:
  assumes g: "task_good sv i s" and d: "in_state i Diagnosing s"
  shows "kept sv i s (snd (step_diagnosing sv i s))"
proof -
  let ?vs = "fst (take_verify_state sv i s)" and ?s = "snd (take_verify_state sv i s)"
  have w: "good_with sv i ?vs ?s" using g by (rule take_with)
  have h: "home i ?s = Some Diagnosing" using in_state_home [OF d] by simp
  obtain dg p1 tch dec finding fp d' where e: "step_diagnosing sv i s =
      (let s2 = log_fresh i ''diagnosis'' p1 ?s;
           s3 = (case finding of None \<Rightarrow> s2 | Some f \<Rightarrow> log_fresh i ''loop_detected''
             (JObject [(''class'', JString (finding_code f)), (''detail'', JString (describe_finding f))]) s2);
           s4 = log_fresh i ''repair_decision'' (JObject [(''decision'', JString (describe_decision dec))]) s3
       in apply_decision i dec (?vs\<lparr>vs_touched := tch, vs_detector := d', vs_pending := Some dg\<rparr>) s4)"
    and dec: "dec = decide fp finding (vs_repair ?vs)"
    by (rule step_diagnosing_form)
  let ?s2 = "log_fresh i ''diagnosis'' p1 ?s"
  let ?s3 = "case finding of None \<Rightarrow> ?s2 | Some f \<Rightarrow> log_fresh i ''loop_detected''
             (JObject [(''class'', JString (finding_code f)), (''detail'', JString (describe_finding f))]) ?s2"
  let ?s4 = "log_fresh i ''repair_decision'' (JObject [(''decision'', JString (describe_decision dec))]) ?s3"
  have r: "vs_repair ?vs = repairs i s" "settled ?vs" "plan_fine sv (vs_plan ?vs)"
      "length (rl_attempts (repairs i s)) \<le> 4"
    using w h g by (auto simp: good_with_def vs_good_def closing_def budget_left_def task_good_def split: if_splits)
  have four: "unat (rl_max (repairs i s)) = 4" by simp
  have "\<exists>x. dec = GiveUp x" if "\<not> length (rl_attempts (repairs i s)) \<le> 3"
    using decide_gives_up [of "repairs i s" fp finding] r(1,4) four that dec by auto
  then have room: "(\<forall>x. dec \<noteq> GiveUp x) \<Longrightarrow> length (rl_attempts (repairs i s)) \<le> 3" by blast
  have "repairs i ?s3 = repairs i s"
    by (simp add: repair_completed_simps split: option.split)
  then have rep: "repairs i ?s4 = marked dec (repairs i s)"
    by (simp add: repair_completed_decision)
  have "home i ?s4 = Some Diagnosing" using h by (simp split: option.split)
  with rep r room have "kept sv i ?s4 (snd (apply_decision i dec (?vs\<lparr>vs_touched := tch, vs_detector := d', vs_pending := Some dg\<rparr>) ?s4))"
    by (intro apply_decision_good) (simp_all add: settled_def)
  moreover have "others i s ?s4" by (simp split: option.split)
  ultimately show ?thesis unfolding e Let_def kept_def using others_trans by blast
qed

section \<open>Repairing\<close>

lemma repair_completed_attempt:
  assumes "fa_attempt a = 0"
  shows "repair_completed ''repair_attempt'' (attempt_payload a) r = record_attempt a r"
proof -
  have "parse_outcome (Some (repair_outcome_tag x)) = x" for x by (cases x) simp_all
  with assms show ?thesis
    by (cases a) (simp add: repair_completed_simps attempt_payload_def str_or_empty_def payload_str_def
        json_get_def)
qed

lemma journal_attempt_unfold:
  "journal_repair_attempt i sid a s =
     log_entry i (EffectCompleted (EffectId (fst (draw s))) sid ''repair_attempt'' (attempt_payload a)) (snd (draw s))"
  by (simp add: journal_repair_attempt_def case_prod_beta)

lemma view_attempt [simp]:
  "fa_attempt a = 0 \<Longrightarrow> repairs j (journal_repair_attempt i sid a s) =
     (if j = i then record_attempt a (repairs i s) else repairs j s)"
  "check_log j (journal_repair_attempt i sid a s) = check_log j s"
  "home j (journal_repair_attempt i sid a s) = home j s"
  "in_state j st (journal_repair_attempt i sid a s) = in_state j st s"
  "dv_verify (journal_repair_attempt i sid a s) = dv_verify s"
  "others i t (journal_repair_attempt i sid a s) = others i t s"
  by (simp_all add: journal_attempt_unfold repair_completed_attempt check_completed_other)

lemma get_state_in: "get_state i s = Inr t \<Longrightarrow> in_state i st s \<Longrightarrow> tk_state t = st"
  by (auto simp: get_state_def in_state_def)

lemma get_state_exists: "in_state i st s \<Longrightarrow> \<exists>t. get_state i s = Inr t \<and> tk_state t = st"
  by (auto simp: get_state_def in_state_def)

text \<open>The end of a repair turn: the attempt is journaled and counted, and the task is no longer
  repairing.\<close>

lemma finish_repair_good:
  assumes a: "fa_attempt a = 0" and vs: "vs_repair vs = repairs i s"
    and n: "length (rl_attempts (repairs i s)) \<le> 3"
    and st: "in_state i Repairing s \<or> in_state i WaitingForPermission s \<or> in_state i Failed s"
  shows "kept sv i s (snd (finish_repair sv i sid a vs s))"
    and "\<not> in_state i Repairing (snd (finish_repair sv i sid a vs s))"
proof -
  let ?s = "journal_repair_attempt i sid a s"
  obtain h where "finish_repair sv i sid a vs s =
      (let vs = vs\<lparr>vs_repair := record_attempt a (vs_repair vs), vs_plan := None, vs_executed := 0,
            vs_last_passed := True, vs_detector := h\<rparr>
       in case get_state i ?s of
            Inl e \<Rightarrow> (Inl e, ?s)
          | Inr t \<Rightarrow>
              if tk_state t = Repairing
              then and_return FlowContinue (move_to i Verifying (put_verify_state i vs ?s))
              else if tk_state t = Failed then (Inr FlowReturn, drop_verify_state i ?s)
              else (Inr FlowReturn, put_verify_state i vs ?s))"
    by (simp add: finish_repair_def Let_def)
  note e = this
  let ?vs = "vs\<lparr>vs_repair := record_attempt a (vs_repair vs), vs_plan := None, vs_executed := 0,
            vs_last_passed := True, vs_detector := h\<rparr>"
  let ?t = "put_verify_state i ?vs ?s"
  have good: "vs_good sv ?vs (repairs i ?s) c x" for c x
    using vs a by (simp add: vs_good_def settled_def)
  have settled: "all_settled i ?t" by (simp add: all_settled_def settled_def)
  have four: "length (rl_attempts (repairs i ?s)) \<le> 4" using a n by simp
  have o: "others i s ?s" by simp
  show "kept sv i s (snd (finish_repair sv i sid a vs s))"
  proof -
    from st consider "in_state i Repairing ?s" | "in_state i WaitingForPermission ?s" | "in_state i Failed ?s"
      by auto
    then show ?thesis
    proof cases
      case 1
      then obtain t where t: "get_state i ?s = Inr t" "tk_state t = Repairing"
        using get_state_exists by blast
      have m: "fst (move_to i Verifying ?t) = Inr () \<and> in_state i Verifying (snd (move_to i Verifying ?t))"
        by (rule move_to_legal [of i Repairing]) (use 1 in \<open>simp_all add: can_transition_to_def\<close>)
      then have h': "home i (snd (move_to i Verifying ?t)) = Some Verifying" by (auto intro: in_state_home)
      have "task_good sv i (snd (move_to i Verifying ?t))"
        using h' four good by (simp add: task_good_def budget_left_def)
      with o t show ?thesis by (simp add: e kept_def)
    next
      case 2
      then obtain t where t: "get_state i ?s = Inr t" "tk_state t = WaitingForPermission"
        using get_state_exists by blast
      have "home i ?s = Some WaitingForPermission" by (rule in_state_home [OF 2]) simp
      with four good have "task_good sv i ?t" by (auto simp: budget_left_def intro: good_put)
      with o t show ?thesis by (simp add: e kept_def)
    next
      case 3
      then obtain t where t: "get_state i ?s = Inr t" "tk_state t = Failed"
        using get_state_exists by blast
      have "home i ?s = Some Failed" by (rule in_state_home [OF 3]) simp
      with four have "task_good sv i (drop_verify_state i ?s)" by (auto simp: budget_left_def intro: good_drop)
      with o t show ?thesis by (simp add: e kept_def)
    qed
  qed
  show "\<not> in_state i Repairing (snd (finish_repair sv i sid a vs s))"
  proof (cases "get_state i ?s")
    case (Inl x)
    with st get_state_exists [of i _ ?s] show ?thesis by (auto simp: e)
  next
    case (Inr t)
    have "in_state i Repairing ?s \<Longrightarrow> in_state i Verifying (snd (move_to i Verifying ?t))"
      using move_to_legal [of i Repairing ?t Verifying] by (simp add: can_transition_to_def)
    with Inr get_state_Inr [OF Inr] show ?thesis
      by (auto simp: e Let_def dest: in_state_unique split: if_splits)
  qed
qed

lemma repairing_room:
  "task_good sv i s \<Longrightarrow> in_state i Repairing s \<Longrightarrow> length (rl_attempts (repairs i s)) \<le> 3"
  using in_state_home [of i Repairing s] by (simp add: task_good_def budget_left_def)

lemma repair_action_good:
  assumes g: "task_good sv i s" and st: "in_state i Repairing s" and vs: "vs_repair vs = repairs i s"
    "settled vs" "plan_fine sv (vs_plan vs)"
  shows "kept sv i s (snd (repair_action sv i sid vs c s))"
proof -
  have n: "length (rl_attempts (repairs i s)) \<le> 3" using g st by (rule repairing_room)
  show ?thesis
  proof (cases "from_completion c")
    case (Inl x)
    with g show ?thesis by (simp add: repair_action_def Let_def kept_refl)
  next
    case (Inr a)
    show ?thesis
    proof (cases a)
      case (ToolCall tool inp)
      let ?x = "issue_and_execute_tool_call sv i sid tool inp s"
      have tv: "tool_view i s (snd ?x)" by (rule tool_view_issue)
      have t: "task_good sv i (snd ?x)"
          "in_state i Repairing (snd ?x) \<or> in_state i WaitingForPermission (snd ?x) \<or> in_state i Failed (snd ?x)"
        using good_tool [OF g st _ tv] by auto
      have rep: "repairs i (snd ?x) = repairs i s" using tv by (simp add: tool_view_def)
      have k: "kept sv i s (snd ?x)" using t(1) others_tool [OF tv] by (simp add: kept_def)
      have f: "kept sv i (snd ?x) (snd (finish_repair sv i sid b vs (snd ?x)))" if "fa_attempt b = 0" for b
        by (rule finish_repair_good(1)) (use that vs n rep t(2) in simp_all)
      have e: "snd (repair_action sv i sid vs c s) = (case fst ?x of Inl _ \<Rightarrow> snd ?x
          | Inr _ \<Rightarrow> snd (finish_repair sv i sid \<lparr>fa_attempt = 0, fa_fingerprint =
              (case vs_pending vs of None \<Rightarrow> [] | Some dg \<Rightarrow> dg_fingerprint dg),
              fa_summary = tool @ '' '' @ sv_show_json sv inp, fa_outcome = Improved\<rparr> vs (snd ?x)))"
        by (cases ?x; cases "fst ?x") (simp_all add: repair_action_def Inr ToolCall Let_def)
      show ?thesis
        unfolding e using k kept_trans [OF k f] by (simp split: sum.split)
    next
      case (Finish x)
      have "kept sv i s (snd (finish_repair sv i sid b vs s))" if "fa_attempt b = 0" for b
        by (rule finish_repair_good(1)) (use that vs n st in simp_all)
      then show ?thesis by (simp add: repair_action_def Inr Finish Let_def)
    next
      case (AskQuestion x)
      have ask: "kept sv i s (snd (move_to i WaitingForUser (put_verify_state i
          (vs\<lparr>vs_repair := record_attempt b (vs_repair vs)\<rparr>) (journal_repair_attempt i sid b s))))"
        if b: "fa_attempt b = 0" for b
      proof -
        let ?t = "put_verify_state i (vs\<lparr>vs_repair := record_attempt b (vs_repair vs)\<rparr>) (journal_repair_attempt i sid b s)"
        have "in_state i WaitingForUser (snd (move_to i WaitingForUser ?t))"
          using move_to_legal [of i Repairing ?t WaitingForUser] st by (simp add: can_transition_to_def)
        then have "home i (snd (move_to i WaitingForUser ?t)) = Some WaitingForUser"
          by (rule in_state_home) simp
        with b vs n show ?thesis
          by (auto simp: kept_def task_good_def budget_left_def vs_good_settled settled_def)
      qed
      then show ?thesis by (simp add: repair_action_def Inr AskQuestion Let_def)
    qed
  qed
qed

lemma repairing_good:
  assumes g: "task_good sv i s" and st: "in_state i Repairing s"
  shows "kept sv i s (snd (step_repairing sv i s))"
proof (cases "interrupted_tool_call i (dv_tasks s)")
  case (Some p)
  let ?x = "issue_and_execute_tool_call sv i (pc_step p) (pc_tool p) (pc_input p) s"
  have tv: "tool_view i s (snd ?x)" by (rule tool_view_issue)
  have t: "task_good sv i (snd ?x)" "all_settled i (snd ?x)" using good_tool [OF g st _ tv] by auto
  have k: "kept sv i s (snd ?x)" using t(1) others_tool [OF tv] by (simp add: kept_def)
  have m: "kept sv i s (snd (move_to i Verifying (snd ?x)))"
    using k t by (auto simp: kept_def intro!: good_move)
  have "snd (step_repairing sv i s) \<in> {snd ?x, snd (move_to i Verifying (snd ?x))}"
    by (cases ?x; cases "fst ?x") (auto simp: step_repairing_def Some split: sum.splits)
  with k m show ?thesis by auto
next
  case None
  let ?vs = "fst (take_verify_state sv i s)" and ?s = "snd (take_verify_state sv i s)"
  obtain role sid e msgs turn k where e: "step_repairing sv i s =
      then_do (call_model sv i role sid e msgs turn (log_entry i k (snd (draw (snd (draw ?s))))))
        (repair_action sv i sid ?vs)" and k: "quiet_entry k"
    by (simp add: step_repairing_def None case_prod_beta Let_def)
  let ?s2 = "log_entry i k (snd (draw (snd (draw ?s))))"
  have gs: "task_good sv i ?s" using g by (rule take_good)
  have w: "good_with sv i ?vs ?s" using g by (rule take_with)
  have hs: "home i ?s = Some Repairing" using in_state_home [OF st] by simp
  have v: "same_view ?s (snd (call_model sv i role sid e msgs turn ?s2))"
    by (rule same_view_trans [OF _ same_view_call]) (use k in simp)
  have "kept sv i s (snd (then_do (call_model sv i role sid e msgs turn ?s2) (repair_action sv i sid ?vs)))"
  proof (rule then_do_keeps)
    have "kept sv i s ?s" using gs by (simp add: kept_def)
    then show "kept sv i s (snd (call_model sv i role sid e msgs turn ?s2))"
      using kept_trans kept_same [OF gs v] by blast
    fix c t assume c: "call_model sv i role sid e msgs turn ?s2 = (Inr c, t)" and kt: "kept sv i s t"
    have v': "same_view ?s t" using v c by simp
    have "kept sv i t (snd (repair_action sv i sid ?vs c t))"
    proof (rule repair_action_good)
      show "task_good sv i t" using kt by (simp add: kept_def)
      show "in_state i Repairing t" using st same_viewD(5) [OF v'] by simp
      show "vs_repair ?vs = repairs i t" using w same_viewD(2) [OF v'] by (simp add: good_with_def vs_good_def)
      show "settled ?vs" "plan_fine sv (vs_plan ?vs)"
        using w hs by (auto simp: good_with_def vs_good_def closing_def)
    qed
    with kt show "kept sv i s (snd (repair_action sv i sid ?vs c t))" by (rule kept_trans)
  qed
  then show ?thesis unfolding e .
qed

section \<open>Prompts, questions and the loop\<close>

lemma kept_move:
  assumes "kept sv i s t" and "to = Repairing \<Longrightarrow> length (rl_attempts (repairs i t)) \<le> 3"
    and "all_settled i t \<or> closing (Some to) \<or> to = Paused"
  shows "kept sv i s (snd (move_to i to t))"
  using assms by (auto simp: kept_def intro!: good_move)

lemma resume_good:
  assumes g: "task_good sv i s" and st: "in_state i WaitingForPermission s" and o: "others i t s"
  shows "kept sv i t (snd (then_do (observe_tool_result i sid e res s) (\<lambda>_ s.
     case get_state i s of
       Inl e \<Rightarrow> (Inl e, s)
     | Inr x \<Rightarrow> if tk_state x = WaitingForPermission
         then move_to i (if dv_verify s i \<noteq> None then Verifying else Implementing) s
         else (Inr (), s))))"
proof (rule then_do_keeps)
  let ?x = "observe_tool_result i sid e res s"
  have tv: "tool_view i s (snd ?x)" by (rule tool_view_observe)
  have t: "task_good sv i (snd ?x)" "all_settled i (snd ?x)" using good_tool [OF g st _ tv] by auto
  have k: "kept sv i t (snd ?x)" using t(1) others_trans [OF o others_tool [OF tv]] by (simp add: kept_def)
  then show "kept sv i t (snd ?x)" .
  fix a u assume "?x = (Inr a, u)" and ku: "kept sv i t u"
  then have "all_settled i u" using t(2) by simp
  with ku show "kept sv i t (snd (case get_state i u of
       Inl e \<Rightarrow> (Inl e, u)
     | Inr x \<Rightarrow> if tk_state x = WaitingForPermission
         then move_to i (if dv_verify u i \<noteq> None then Verifying else Implementing) u
         else (Inr (), u)))"
    by (auto split: sum.split intro!: kept_move)
qed

lemma permission_good:
  assumes g: "task_good sv i s"
  shows "kept sv i s (snd (resolve_permission_scoped sv i req dec s))"
proof (cases "get_state i s")
  case (Inl e)
  with g show ?thesis by (simp add: resolve_permission_scoped_def kept_refl)
next
  case (Inr t)
  show ?thesis
  proof (cases "tk_state t = WaitingForPermission")
    case False
    with Inr g show ?thesis by (simp add: resolve_permission_scoped_def kept_refl)
  next
    case w: True
    have st: "in_state i WaitingForPermission s" using get_state_Inr [OF Inr] w by simp
    have settled: "all_settled i s" by (rule settled_of_good [OF g st]) simp
    have deny: "kept sv i s (snd (move_to i Failed (log_entry i (EffectCompleted e sid ''tool_denied'' q) s)))" for e sid q
    proof (rule kept_move)
      show "kept sv i s (log_entry i (EffectCompleted e sid ''tool_denied'' q) s)"
        by (rule kept_same [OF g]) simp
    qed (simp_all add: closing_def)
    have run: "kept sv i s (snd (then_do (observe_tool_result i sid e res u) (\<lambda>_ s.
       case get_state i s of Inl e \<Rightarrow> (Inl e, s)
       | Inr x \<Rightarrow> if tk_state x = WaitingForPermission
           then move_to i (if dv_verify s i \<noteq> None then Verifying else Implementing) s else (Inr (), s))))"
      if v: "same_view s u" for sid e res u
      using g st good_same [OF v] others_same [OF v] same_viewD(5) [OF v] by (intro resume_good) simp_all
    show ?thesis
    proof (cases "pending_tool_call i (dv_tasks s)")
      case None
      with Inr w g show ?thesis by (simp add: resolve_permission_scoped_def kept_refl)
    next
      case (Some p)
      show ?thesis
      proof (cases "sv_registry sv (pc_tool p)")
        case None
        with Inr w g Some show ?thesis by (simp add: resolve_permission_scoped_def Let_def kept_refl)
      next
        case tool: (Some tool)
        let ?ctx = "\<lparr>tc_task = i, tc_step = pc_step p\<rparr>"
        show ?thesis
        proof (cases "tl_preflight tool ?ctx (pc_input p)")
          case (Inl x)
          with Inr w g Some tool deny show ?thesis
            by (auto simp: resolve_permission_scoped_def Let_def kept_refl)
        next
          case pre: (Inr r)
          have same: "kept sv i s u" if "same_view s u" for u using g that by (rule kept_same)
          show ?thesis
            using Inr w Some tool pre deny g
            by (auto simp: resolve_permission_scoped_def Let_def kept_refl case_prod_beta
                intro!: same run split: invocation_result.split)
        qed
      qed
    qed
  qed
qed

lemma answer_good:
  assumes g: "task_good sv i s"
  shows "kept sv i s (snd (respond_to_user i answer s))"
proof (cases "get_state i s")
  case (Inl e)
  with g show ?thesis by (simp add: respond_to_user_def kept_refl)
next
  case (Inr t)
  show ?thesis
  proof (cases "tk_state t = WaitingForUser")
    case True
    have "in_state i WaitingForUser s" using get_state_Inr [OF Inr] True by simp
    then have "all_settled i s" by (rule settled_of_good [OF g]) simp
    moreover have "kept sv i s (log_fresh i ''user_response'' q s)" for q by (rule kept_same [OF g]) simp
    ultimately show ?thesis
      using Inr True by (auto simp: respond_to_user_def all_settled_def intro!: kept_move)
  qed (use Inr g in \<open>simp add: respond_to_user_def kept_refl\<close>)
qed

text \<open>The default configuration: no plan store in play, so the two handlers of \<open>plan_exec.rs\<close> are never
  called.\<close>

definition reactive :: "'x services \<Rightarrow> bool" where
  "reactive sv \<longleftrightarrow> sv_planning sv = Passthrough \<and> (\<forall>i w. sv_has_plan sv i w = Inr False)"

lemma iteration_good:
  assumes g: "task_good sv i s" and rx: "reactive sv"
  shows "kept sv i s (snd (run_iteration sv i role s))"
proof (cases "sv_cancelled sv (dv_world s)")
  case True
  with g show ?thesis by (auto simp: run_iteration_def kept_refl closing_def intro!: kept_move)
next
  case False
  show ?thesis
  proof (cases "get_state i s")
    case (Inl e)
    with False g show ?thesis by (simp add: run_iteration_def kept_refl)
  next
    case (Inr t)
    note st = get_state_Inr [OF Inr]
    show ?thesis
    proof (cases "tk_signal t")
      case (Some c)
      with False Inr g show ?thesis
        by (cases c) (auto simp: run_iteration_def kept_refl closing_def intro!: kept_move)
    next
      case None
      have settled: "tk_state t \<in> {Implementing, Repairing, WaitingForPermission, WaitingForUser, Diagnosing,
          Planning, Discovery, Understanding, Idle} \<Longrightarrow> all_settled i s"
        by (rule settled_of_good [OF g st])
      have drop: "kept sv i s (drop_verify_state i s)"
        using g by (simp add: kept_def good_drop good_budget)
      have disc: "kept sv i s (log_fresh i ''context_retrieved'' q s)" for q by (rule kept_same [OF g]) simp
      note unfold = run_iteration_def False Inr None
      show ?thesis
      proof (cases "tk_state t")
        case Implementing
        then show ?thesis
          using implementing_good [OF g] st rx by (simp add: unfold reactive_def kept_def)
      next
        case Verifying
        then show ?thesis using verifying_good(1) [OF g] st by (simp add: unfold)
      next
        case Diagnosing
        then show ?thesis using diagnosing_good [OF g] st by (simp add: unfold)
      next
        case Repairing
        then show ?thesis using repairing_good [OF g] st by (simp add: unfold)
      next
        case Discovery
        then show ?thesis
          using settled disc g by (auto simp: unfold kept_refl all_settled_def intro!: kept_move split: sum.split)
      qed (use g settled drop rx in \<open>auto simp: unfold kept_refl reactive_def intro!: kept_move\<close>)
    qed
  qed
qed

end
