(* ===== verification/Driver_Reach.thy ===== *)
theory Driver_Reach
  imports Driver_Invariant
begin

text \<open>
  The states the driver can reach: it is created without verify states on an empty task store, then
  anything may happen in any order. An iteration of the loop for any task under any role, an approval
  or denial, an answer, task creation, control signals, recovery, resuming a paused task, changes of
  the engine (modes, grants) and of the world (the user edits files), and a crash, which loses the
  cached verify states. The invariant of \<open>Driver_Invariant\<close> holds in all of them.
\<close>

section \<open>What the task manager does beside the driver\<close>

inductive outside_step :: "task_store \<Rightarrow> task_store \<Rightarrow> bool" where
  out_create: "outside_step t (snd (create_task w obj bud t))"
| out_child: "outside_step t (snd (create_child p obj bud t))"
| out_signal: "request_signal n c i t = Some (r, t') \<Longrightarrow> outside_step t t'"
| out_recover: "outside_step t (snd (recover_task_if_active i t))"
| out_recover_all: "outside_step t (snd (recover_incomplete_tasks t))"

definition store_home :: "task_id \<Rightarrow> task_store \<Rightarrow> agent_state option" where
  "store_home i t = (case get_task i t of Inl _ \<Rightarrow> None | Inr x \<Rightarrow> Some (home_of x))"

lemma home_store: "home i s = store_home i (dv_tasks s)"
  by (simp add: home_def store_home_def)

definition quiet_step :: "task_store \<Rightarrow> task_store \<Rightarrow> bool" where
  "quiet_step t t' \<longleftrightarrow> (\<forall>i. (\<exists>ks. journal_kinds i t' = journal_kinds i t @ ks \<and> list_all quiet_entry ks) \<and>
     (store_home i t' = store_home i t \<or> store_home i t = None \<and> store_home i t' = Some Idle))"

lemma quiet_refl [simp]: "quiet_step t t"
  by (simp add: quiet_step_def)

lemma quiet_trans:
  assumes "quiet_step t u" and "quiet_step u v"
  shows "quiet_step t v"
  unfolding quiet_step_def
proof (intro allI conjI)
  fix i
  from assms obtain ks ls where "journal_kinds i u = journal_kinds i t @ ks" "list_all quiet_entry ks"
      "journal_kinds i v = journal_kinds i u @ ls" "list_all quiet_entry ls"
    unfolding quiet_step_def by meson
  then show "\<exists>ks. journal_kinds i v = journal_kinds i t @ ks \<and> list_all quiet_entry ks"
    by (intro exI [of _ "ks @ ls"]) simp
  show "store_home i v = store_home i t \<or> store_home i t = None \<and> store_home i v = Some Idle"
    using assms unfolding quiet_step_def by (metis option.distinct(1))
qed

lemma quiet_then:
  "quiet_step t (snd x) \<Longrightarrow> (\<And>a u. x = (Inr a, u) \<Longrightarrow> quiet_step t u \<Longrightarrow> quiet_step t (snd (f a u))) \<Longrightarrow>
     quiet_step t (snd (then_do x f))"
  by (rule then_do_keeps)

lemma store_home_cong: "tasks t = tasks u \<Longrightarrow> store_home i t = store_home i u"
  by (simp add: store_home_def get_task_cong [of t u])

lemma quiet_append: "quiet_entry k \<Longrightarrow> quiet_step t (snd (append_journal i k t))"
  by (auto simp: quiet_step_def store_home_def)

lemma quiet_draws: "quiet_step t (snd (draw_ulid t))" "quiet_step t (snd (clock_now t))"
  by (simp_all add: quiet_step_def store_home_def)

lemma quiet_parent:
  assumes "k \<notin> {''repair_attempt'', ''repair_decision'', ''verify_result'', ''tool_result''}"
  shows "quiet_step t (parent_entry p k v t)"
  unfolding quiet_step_def
proof (intro allI conjI)
  fix i
  show "\<exists>ks. journal_kinds i (parent_entry p k v t) = journal_kinds i t @ ks \<and> list_all quiet_entry ks"
    using journal_kinds_parent_entry [of i p k v t] assms by (fastforce simp: list_all_iff)
  show "store_home i (parent_entry p k v t) = store_home i t \<or>
      store_home i t = None \<and> store_home i (parent_entry p k v t) = Some Idle"
    by (simp add: store_home_def)
qed

lemma quiet_set_signal [simp]: "quiet_step t (snd (set_pending_signal i c t))"
proof -
  have "store_home j (update_row i (\<lambda>r. r\<lparr>tr_signal := Some (signal_to_text c)\<rparr>) t) = store_home j t" for j
    by (auto simp: store_home_def get_task_set_signal home_of_def split: sum.split)
  then show ?thesis by (simp add: set_pending_signal_def quiet_step_def split: sum.split)
qed

lemma quiet_set_note: "quiet_step t (update_row i (\<lambda>r. r\<lparr>tr_note := Some n\<rparr>) t)"
  by (auto simp: quiet_step_def store_home_def get_task_set_note home_of_def split: sum.split)

lemma quiet_pause: "quiet_step t (snd (transition i Paused t))"
  unfolding quiet_step_def
proof (intro allI conjI)
  fix j
  show "\<exists>ks. journal_kinds j (snd (transition i Paused t)) = journal_kinds j t @ ks \<and> list_all quiet_entry ks"
    by (rule journal_kinds_transition)
  have "store_home j (snd (transition i Paused t)) = store_home j t"
  proof (cases "get_task i t")
    case (Inr x)
    show ?thesis
    proof (cases "transition_check x Paused")
      case None
      then have "tk_state x \<noteq> Paused" by (auto simp: transition_check_def no_self_edge split: if_splits)
      with get_task_transition [OF Inr None] Inr show ?thesis
        by (cases "j = i") (auto simp: store_home_def home_of_def)
    qed (simp add: transition_unfold Inr)
  qed (simp add: transition_unfold)
  then show "store_home j (snd (transition i Paused t)) = store_home j t \<or>
      store_home j t = None \<and> store_home j (snd (transition i Paused t)) = Some Idle" by simp
qed

lemma quiet_recover: "quiet_step t (snd (recover_task i note t))"
proof (cases "get_task i t")
  case (Inr x)
  let ?u = "snd (append_journal i (RecoveryNote note) (update_row i (\<lambda>r. r\<lparr>tr_note := Some note\<rparr>) t))"
  have u: "quiet_step t ?u" by (rule quiet_trans [OF quiet_set_note quiet_append]) simp
  have "quiet_step t (snd (then_do (transition i Paused ?u) (\<lambda>_ s3.
      case tk_signal x of None \<Rightarrow> (Inr (), s3) | Some c \<Rightarrow> set_pending_signal i c s3)))"
    by (rule quiet_then) (auto intro: quiet_trans u quiet_pause quiet_set_signal split: option.split)
  with Inr show ?thesis by (simp add: recover_task_def Let_def)
qed (simp add: recover_task_def)

lemma quiet_recover_active: "quiet_step t (snd (recover_task_if_active i t))"
  by (auto simp: recover_task_if_active_def intro: quiet_then quiet_recover split: sum.split)

lemma quiet_recover_each: "quiet_step t (snd (recover_each xs t))"
proof (induction xs arbitrary: t)
  case (Cons x xs)
  obtain i tx where x: "x = (i, tx)" by (cases x)
  have "quiet_step t (snd (then_do (recover_task i n t)
      (\<lambda>_ s1. then_do (recover_each xs s1) (\<lambda>is s2. (Inr (i # is), s2)))))" for n
    by (rule quiet_then [OF quiet_recover], rule quiet_then) (auto intro: quiet_trans Cons.IH)
  with x Cons.IH show ?case by (auto split: option.split)
qed simp

lemma quiet_cascade:
  "cascade_signal_to_children n i c t = Some (r, t') \<Longrightarrow> quiet_step t t'"
  "cascade_each n ts c t = Some (r, t') \<Longrightarrow> quiet_step t t'"
proof (induction n i c t and n ts c t arbitrary: r t' and r t'
    rule: cascade_signal_to_children_cascade_each.induct)
  case (4 n x ts c t)
  show ?case
  proof (cases "if is_terminal (tk_state x) then (Inr (), t) else set_pending_signal (tk_id x) c t")
    case (Pair a u)
    then have "quiet_step t u"
      using quiet_set_signal [of t "tk_id x" c] by (auto simp del: quiet_set_signal split: if_splits)
    with Pair 4 show ?thesis
      by (cases a) (auto intro: quiet_trans split: option.splits prod.splits sum.splits, metis quiet_trans)
  qed
qed (auto split: sum.splits)

lemma quiet_signal: "request_signal n c i t = Some (r, t') \<Longrightarrow> quiet_step t t'"
proof -
  assume r: "request_signal n c i t = Some (r, t')"
  obtain a u where u: "set_pending_signal i c t = (a, u)" by fastforce
  with quiet_set_signal [of t i c] have "quiet_step t u" by simp
  with r u show ?thesis
    by (cases a) (auto simp: request_signal_def intro: quiet_trans quiet_cascade(1))
qed

lemma quiet_insert:
  assumes r: "tr_state r = state_to_text Idle" "tr_paused_from r = None"
  shows "quiet_step t (snd (insert_task r t))"
proof (cases "\<exists>q \<in> set (tasks t). tr_id q = tr_id r")
  case False
  let ?u = "t\<lparr>tasks := tasks t @ [r]\<rparr>"
  have new: "row_of (tr_id r) t = None" using False by (auto simp: row_of_None task_ids_def)
  have rows: "row_of j ?u = (if j = tr_id r then Some r else row_of j t)" for j
    using new by (auto simp: row_of_def find_append split: option.split)
  have "store_home j ?u = (if j = tr_id r then Some Idle else store_home j t)" for j
    using r by (auto simp: store_home_def get_task_def rows row_to_task_def home_of_def)
  moreover have "store_home (tr_id r) t = None" using new by (simp add: store_home_def get_task_def)
  moreover have "journal_kinds j ?u = journal_kinds j t" for j
    by (simp add: journal_kinds_def journal_since_def)
  ultimately have "quiet_step t ?u" by (simp add: quiet_step_def)
  with False show ?thesis by (simp add: insert_task_def)
qed (simp add: insert_task_def)

lemma quiet_create: "quiet_step t (snd (create_with_parent w p obj bud t))"
proof -
  have start: "quiet_step t (snd (clock_now (snd (draw_ulid t))))"
    by (rule quiet_trans [OF quiet_draws(1) quiet_draws(2)])
  have ins: "quiet_step t (snd (insert_task r (snd (clock_now (snd (draw_ulid t))))))"
    if "tr_state r = state_to_text Idle" "tr_paused_from r = None" for r
    using start quiet_insert [OF that] by (rule quiet_trans)
  have log: "quiet_step t (parent_entry p ''subtask_started'' v (snd (append_journal i TaskCreated u)))"
    if "quiet_step t u" for v i u
    by (rule quiet_trans [OF quiet_trans [OF that quiet_append] quiet_parent]) simp_all
  show ?thesis
    unfolding create_with_parent_def Let_def case_prod_beta
    by (rule quiet_then [OF ins]) (simp_all add: log)
qed

lemma outside_quiet: "outside_step t t' \<Longrightarrow> quiet_step t t'"
  by (induction rule: outside_step.induct)
    (auto simp: create_task_def create_child_def recover_incomplete_tasks_def quiet_create quiet_recover_active
      quiet_recover_each split: sum.split intro: quiet_signal)

lemma quiet_good:
  assumes q: "quiet_step (dv_tasks s) t'" and g: "task_good sv i s"
  shows "task_good sv i (s\<lparr>dv_tasks := t'\<rparr>)"
proof -
  let ?s = "s\<lparr>dv_tasks := t'\<rparr>"
  from q obtain ks where ks: "journal_kinds i t' = journal_kinds i (dv_tasks s) @ ks" "list_all quiet_entry ks"
    unfolding quiet_step_def by meson
  from q have h: "home i ?s = home i s \<or> home i s = None \<and> home i ?s = Some Idle"
    unfolding quiet_step_def home_store by simp
  have "repairs i ?s = repairs i s" "checks i ?s = checks i s"
    using ks by (simp_all add: repairs_def checks_def check_log_def kinds_def fold_quiet)
  with g h show ?thesis
    by (auto simp: task_good_def budget_left_def vs_good_def closing_def split: if_splits)
qed

section \<open>The driver as a transition system\<close>

inductive driver_step :: "'x services \<Rightarrow> 'x driver \<Rightarrow> 'x driver \<Rightarrow> bool" for sv where
  ds_iterate: "driver_step sv s (snd (run_iteration sv i role s))"
| ds_permission: "driver_step sv s (snd (resolve_permission_scoped sv i req dec s))"
| ds_answer: "driver_step sv s (snd (respond_to_user i answer s))"
| ds_resume: "in_state i Paused s \<Longrightarrow> driver_step sv s (snd (move_to i to s))"
| ds_outside: "outside_step (dv_tasks s) t' \<Longrightarrow> driver_step sv s (s\<lparr>dv_tasks := t'\<rparr>)"
| ds_world: "driver_step sv s (s\<lparr>dv_world := w\<rparr>)"
| ds_engine: "driver_step sv s (s\<lparr>dv_engine := e\<rparr>)"
| ds_crash: "driver_step sv s (s\<lparr>dv_verify := Map.empty\<rparr>)"

inductive_cases driver_stepE: "driver_step sv s s'"

definition fresh_driver :: "'x driver \<Rightarrow> bool" where
  "fresh_driver s \<longleftrightarrow> dv_verify s = Map.empty \<and> (\<exists>ck ul ut. dv_tasks s = empty_store ck ul ut)"

definition reachable_driver :: "'x services \<Rightarrow> 'x driver \<Rightarrow> bool" where
  "reachable_driver sv s \<longleftrightarrow> (\<exists>s0. fresh_driver s0 \<and> (driver_step sv)\<^sup>*\<^sup>* s0 s)"

lemma fresh_good: "fresh_driver s \<Longrightarrow> task_good sv i s"
  by (auto simp: fresh_driver_def task_good_def budget_left_def repairs_def kinds_def journal_kinds_def
      journal_since_def empty_store_def rows_after_def empty_table_def new_repair_def)

lemma resume_home:
  assumes "in_state i Paused s" and "get_task i (dv_tasks s) = Inr x" and "transition_check x to = None"
  shows "home i s = Some to"
  using assms by (auto simp: in_state_def home_def home_of_def transition_check_def split: if_splits)

lemma resume_keeps:
  assumes "in_state i Paused s" and g: "task_good sv j s"
  shows "task_good sv j (snd (move_to i to s))"
proof (cases rule: move_to_cases [of i s to])
  case (moved x s' y)
  have "tk_state x = Paused" using assms(1) moved(1) by (simp add: in_state_def)
  with moved(2) have "to \<noteq> Paused" by (auto simp: transition_check_def no_self_edge split: if_splits)
  then have "home j (snd (move_to i to s)) = home j s"
    using resume_home [OF assms(1) moved(1,2)] moved(3) by (subst home_move) simp
  then show ?thesis using g by (simp add: task_good_def checks_def)
qed (use g in simp_all)

lemma step_good:
  assumes "driver_step sv s s'" and rx: "reactive sv" and g: "\<And>i. task_good sv i s"
  shows "task_good sv j s'"
  using assms(1)
proof cases
  case (ds_iterate i role)
  then show ?thesis
    using iteration_good [OF g rx, of i role] g [of j] by (cases "j = i") (auto simp: kept_def others_good)
next
  case (ds_permission i req dec)
  then show ?thesis
    using permission_good [OF g, of i req dec] g [of j] by (cases "j = i") (auto simp: kept_def others_good)
next
  case (ds_answer i answer)
  then show ?thesis
    using answer_good [OF g, of i answer] g [of j] by (cases "j = i") (auto simp: kept_def others_good)
next
  case (ds_resume i to)
  then show ?thesis using resume_keeps [OF _ g] by simp
next
  case (ds_outside t')
  then show ?thesis using quiet_good [OF outside_quiet g] by simp
next
  case (ds_world w)
  then show ?thesis using g [of j] by (simp add: task_good_def checks_def)
next
  case (ds_engine e)
  then show ?thesis using g [of j] by (simp add: task_good_def checks_def)
next
  case ds_crash
  have "repairs j s' = repairs j s" "home j s' = home j s"
    using ds_crash view_cong [of s' s] by simp_all
  then show ?thesis using g [of j] ds_crash by (simp add: task_good_def)
qed

lemma reachable_good:
  assumes "reachable_driver sv s" and "reactive sv"
  shows "task_good sv i s"
proof -
  from assms(1) obtain s0 where s0: "fresh_driver s0" and st: "(driver_step sv)\<^sup>*\<^sup>* s0 s"
    by (auto simp: reachable_driver_def)
  from st have "\<forall>i. task_good sv i s"
  proof (induction rule: rtranclp_induct)
    case base
    then show ?case using fresh_good [OF s0] by simp
  next
    case (step t u)
    then show ?case using step_good [OF _ assms(2)] by blast
  qed
  then show ?thesis ..
qed

end
