(* ===== verification/Driver_Correct.thy ===== *)
theory Driver_Correct
  imports Driver_Reach
begin

text \<open>
  What the agent driver guarantees in every state it can reach, and where it does not do what it
  means to. The properties rest on the invariant of \<open>Driver_Invariant\<close>.
\<close>

section \<open>The repair loop is bounded and survives a crash\<close>


fun is_attempt :: "journal_kind \<Rightarrow> bool" where
  "is_attempt (EffectCompleted _ _ k _) = (k = ''repair_attempt'')"
| "is_attempt _ = False"

lemma attempts_repair_entry:
  "length (rl_attempts (repair_entry k r)) = length (rl_attempts r) + (if is_attempt k then 1 else 0)"
proof (cases k)
  case (EffectCompleted e st outcome p)
  then show ?thesis
    by (cases "outcome = ''repair_attempt''"; cases "outcome = ''repair_decision''")
      (simp_all add: repair_completed_simps)
qed simp_all

lemma attempts_counted:
  "length (rl_attempts (repairs i s)) = length (filter is_attempt (kinds i s))"
proof -
  have "length (rl_attempts (fold repair_entry ks r)) = length (rl_attempts r) + length (filter is_attempt ks)" for ks r
    by (induction ks arbitrary: r) (simp_all add: attempts_repair_entry)
  then show ?thesis by (simp add: repairs_def new_repair_def)
qed


section \<open>Completed means verified\<close>

lemma no_completed_move:
  assumes "\<not> in_state i Completed s" and "to \<noteq> Completed"
  shows "\<not> in_state i Completed (snd (move_to i to s))"
  using assms by (cases rule: move_to_cases [of i s to]) (auto simp: in_state_def)

lemma in_state_call [simp]: "in_state j st (snd (call_model sv i role sid e x turn s)) = in_state j st s"
  by (rule same_viewD(5) [OF same_view_call])

lemma in_state_invoke [simp]: "in_state j st (snd (invoke_tool sv ctx name inp s)) = in_state j st s"
  by (rule same_viewD(5)) simp

lemma in_state_baseline [simp]: "in_state j st (record_baseline_if_path sv inp s) = in_state j st s"
  by (rule same_viewD(5)) simp

lemma no_completed_observe:
  "\<not> in_state i Completed s \<Longrightarrow> \<not> in_state i Completed (snd (observe_tool_result i sid e res s))"
  by (cases res) (simp_all add: observe_tool_result_def no_completed_move)

lemma no_completed_issue:
  assumes "\<not> in_state i Completed s"
  shows "\<not> in_state i Completed (snd (issue_and_execute_tool_call sv i sid name inp s))"
  using assms by (simp add: issue_and_execute_tool_call_def case_prod_beta Let_def no_completed_observe)

lemma no_completed_implementing:
  assumes "\<not> in_state i Completed s"
  shows "\<not> in_state i Completed (snd (step_implementing sv i s))"
proof (cases "interrupted_tool_call i (dv_tasks s)")
  case (Some p)
  with assms show ?thesis by (simp add: step_implementing_def no_completed_issue)
next
  case None
  have act: "\<not> in_state i Completed (snd (act_on sv i sid c t))" if "\<not> in_state i Completed t" for sid c t
    using that by (auto simp: act_on_def no_completed_move no_completed_issue split: sum.split action_request.split)
  have call: "\<not> in_state i Completed (snd (call_model sv i role sid e [] turn (log_entry i k (snd (draw (snd (draw s)))))))"
    for role sid e turn k
    using assms by simp
  show ?thesis
    unfolding step_implementing_def None
    by (simp add: case_prod_beta Let_def, rule then_do_keeps) (auto simp: call act assms)
qed

lemma no_completed_diagnosing:
  assumes "\<not> in_state i Completed s"
  shows "\<not> in_state i Completed (snd (step_diagnosing sv i s))"
proof -
  have app: "\<not> in_state i Completed (snd (apply_decision i dec vs t))" if "\<not> in_state i Completed t"
    for dec vs and t :: "'a driver"
    using that by (cases dec) (simp_all add: apply_decision_def no_completed_move)
  show ?thesis
    by (rule step_diagnosing_form [of sv i s])
      (use assms in \<open>simp add: Let_def app split: option.split\<close>)
qed

lemma no_completed_finish:
  "\<not> in_state i Completed s \<Longrightarrow> \<not> in_state i Completed (snd (finish_repair sv i sid a vs s))"
  by (auto simp: finish_repair_def Let_def no_completed_move split: sum.split)

lemma no_completed_repairing:
  assumes "\<not> in_state i Completed s"
  shows "\<not> in_state i Completed (snd (step_repairing sv i s))"
proof (cases "interrupted_tool_call i (dv_tasks s)")
  case (Some p)
  show ?thesis
    unfolding step_repairing_def Some option.case
    by (rule then_do_keeps) (auto simp: no_completed_issue assms no_completed_move split: sum.split)
next
  case None
  have act: "\<not> in_state i Completed (snd (repair_action sv i sid vs c t))" if "\<not> in_state i Completed t" for sid vs c t
  proof -
    have "\<not> in_state i Completed (snd (then_do (issue_and_execute_tool_call sv i sid tool inp t)
        (\<lambda>_. finish_repair sv i sid a vs)))" for tool inp a
      by (rule then_do_keeps) (auto simp: no_completed_issue that no_completed_finish)
    with that show ?thesis
      by (auto simp: repair_action_def Let_def no_completed_finish no_completed_move
          split: sum.split action_request.split)
  qed
  have call: "\<not> in_state i Completed (snd (call_model sv i role sid e x turn (log_entry i k (snd (draw (snd (draw
      (snd (take_verify_state sv i s)))))))))" for role sid e turn k x
    using assms by simp
  show ?thesis
    unfolding step_repairing_def None
    by (simp add: case_prod_beta Let_def, rule then_do_keeps) (auto simp: call act assms)
qed

lemma completed_by_verifying:
  assumes rx: "reactive sv" and n: "\<not> in_state i Completed s"
    and c: "in_state i Completed (snd (run_iteration sv i role s))"
  shows "in_state i Verifying s \<and> snd (run_iteration sv i role s) = snd (step_verifying sv i s)"
proof (cases "sv_cancelled sv (dv_world s)")
  case True
  with n c show ?thesis by (simp add: run_iteration_def no_completed_move)
next
  case False
  show ?thesis
  proof (cases "get_state i s")
    case (Inl e)
    with False n c show ?thesis by (simp add: run_iteration_def)
  next
    case (Inr t)
    note unfold = run_iteration_def False Inr
    show ?thesis
    proof (cases "tk_signal t")
      case (Some x)
      with n c show ?thesis by (cases x) (simp_all add: unfold no_completed_move)
    next
      case None
      with n c rx get_state_Inr [OF Inr] show ?thesis
        by (cases "tk_state t") (simp_all add: unfold reactive_def no_completed_move no_completed_implementing
            no_completed_diagnosing no_completed_repairing split: sum.splits)
    qed
  qed
qed

text \<open>What holds of a plan the driver has made.\<close>

lemma made_plan_facts:
  assumes "made_plan sv p"
  shows "\<exists>v. p \<noteq> [] \<and> (\<exists>w. v = fst (sv_validate sv (sv_scan sv w) w)) \<and> vp_command ` set p \<subseteq> set v \<and>
    ((\<exists>c \<in> set v. vc_kind c = TestCommand) \<longrightarrow> vp_tier (last p) = TierFull \<and>
       vc_kind (vp_command (last p)) = TestCommand \<and> (\<forall>d \<in> set v. vc_kind d = TestCommand \<longrightarrow>
         confidence (vc_source d) \<le> confidence (vc_source (vp_command (last p)))))"
proof -
  obtain v ch b where v: "confirmed sv v" "p \<noteq> []"
      "p = escalation_plan v (change_set_of ch) [] \<lparr>so_style = b, so_full = True\<rparr>"
    using assms by (auto simp: made_plan_def)
  have "vp_command ` set p \<subseteq> set v" unfolding v(3) by (rule plan_commands)
  moreover have "vp_tier (last p) = TierFull \<and> vc_kind (vp_command (last p)) = TestCommand \<and>
     (\<forall>d \<in> set v. vc_kind d = TestCommand \<longrightarrow>
       confidence (vc_source d) \<le> confidence (vc_source (vp_command (last p))))"
    if t: "\<exists>c \<in> set v. vc_kind c = TestCommand"
  proof -
    obtain q c where "escalation_plan v (change_set_of ch) [] \<lparr>so_style = b, so_full = True\<rparr> =
        q @ [full_step (change_set_of ch) c]" "vc_kind c = TestCommand"
        "\<forall>d \<in> set v. vc_kind d = TestCommand \<longrightarrow> confidence (vc_source d) \<le> confidence (vc_source c)"
      by (rule plan_has_full [of "\<lparr>so_style = b, so_full = True\<rparr>" v "change_set_of ch" "[]"]) (simp, rule t, blast)
    then show ?thesis by (simp add: v(3))
  qed
  ultimately show ?thesis using v(1,2) unfolding confirmed_def by blast
qed


section \<open>Approvals\<close>

lemma get_state_at: "in_state i st s \<Longrightarrow> \<exists>t. get_state i s = Inr t \<and> tk_state t = st"
  by (rule get_state_exists)

text \<open>An approval that does not get as far as running the tool.\<close>

lemma resolve_refused:
  assumes "resolve_permission_scoped sv i req dec s = (r, s')"
  shows "\<not> in_state i WaitingForPermission s \<Longrightarrow> s' = s \<and> \<not> is_ok r"
    and "pending_tool_call i (dv_tasks s) = None \<Longrightarrow> s' = s \<and> \<not> is_ok r"
    and "pending_tool_call i (dv_tasks s) = Some p \<Longrightarrow> req = Some x \<Longrightarrow> x \<noteq> effect_text s (pc_effect p) \<Longrightarrow>
      s' = s \<and> \<not> is_ok r"
  using assms get_state_Inr [of i s]
  by (auto simp: resolve_permission_scoped_def Let_def split: sum.splits if_splits option.splits)

text \<open>What is in flight, by the journal of the task.\<close>

lemma pending_by_status:
  "pending_tool_call i (dv_tasks s) = (case call_status (kinds i s) of
     Some (pc, c) \<Rightarrow> if c = Some ''permission_ask'' then Some pc else None | None \<Rightarrow> None)"
  "interrupted_tool_call i (dv_tasks s) = (case call_status (kinds i s) of
     Some (pc, c) \<Rightarrow> if c = None then Some pc else None | None \<Rightarrow> None)"
  by (simp_all add: pending_tool_call_def interrupted_tool_call_def last_unresolved_status kinds_def)

lemma status_pending:
  "pending_tool_call i (dv_tasks s) = Some p \<longleftrightarrow> call_status (kinds i s) = Some (p, Some ''permission_ask'')"
  by (auto simp: pending_by_status split: option.split if_splits)

lemma kinds_move:
  assumes "\<not> is_terminal to"
  shows "\<exists>ks. kinds j (snd (move_to i to s)) = kinds j s @ ks \<and> (\<forall>k \<in> set ks. \<exists>a. k = StateChanged a to)"
proof (cases "get_task i (dv_tasks s)")
  case (Inr x)
  then show ?thesis
    using assms by (cases "transition_check x to")
      (auto simp: kinds_def snd_move_to transition_unfold mid_transition_def)
qed (simp add: kinds_def snd_move_to transition_unfold)

lemma status_changes: "\<forall>k \<in> set ks. \<exists>a. k = StateChanged a to \<Longrightarrow> call_status (es @ ks) = call_status es"
proof (induction ks arbitrary: es)
  case (Cons k ks)
  then obtain a where "k = StateChanged a to" by auto
  moreover have "map_option (\<lambda>(pc, c). (pc, c)) x = x" for x :: "(pending_call \<times> string option) option"
    by (cases x) auto
  ultimately have "call_status (es @ [k]) = call_status es" by (simp add: call_status_snoc)
  with Cons.IH [of "es @ [k]"] Cons.prems show ?case by simp
qed simp

lemma status_move:
  "\<not> is_terminal to \<Longrightarrow> call_status (kinds j (snd (move_to i to s))) = call_status (kinds j s)"
  using kinds_move [of to j i s] status_changes by auto

text \<open>An approval mints one authorization for the pending call, runs its tool on its input exactly
  once, and journals the result.\<close>

definition scope_of :: "task_id \<Rightarrow> approval_decision \<Rightarrow> grant_scope" where
  "scope_of i dec = (if dec = ApproveTask then TaskScope i else OneShot)"

definition prompt_current :: "'x driver \<Rightarrow> pending_call \<Rightarrow> string option \<Rightarrow> bool" where
  "prompt_current s p req \<longleftrightarrow> req = None \<or> req = Some (effect_text s (pc_effect p))"

lemma approve_runs:
  assumes w: "in_state i WaitingForPermission s" and p: "pending_tool_call i (dv_tasks s) = Some p"
    and req: "prompt_current s p req" and tool: "sv_registry sv (pc_tool p) = Some tool"
    and dec: "dec \<noteq> DenyCall"
    and pre: "tl_preflight tool \<lparr>tc_task = i, tc_step = pc_step p\<rparr> (pc_input p) = Inr r"
  obtains u q where "resolve_permission_scoped sv i req dec s =
      move_to i (if dv_verify s i \<noteq> None then Verifying else Implementing) u"
    and "dv_verify u = dv_verify s" and "in_state i WaitingForPermission u"
    and "kinds i u = kinds i s @ [EffectCompleted (pc_effect p) (pc_step p) ''tool_result'' q]"
    and "dv_engine u = snd (approve (fst (read_clock s)) r (scope_of i dec) None (dv_engine s))"
    and "dv_world u = snd (tl_execute tool \<lparr>tc_task = i, tc_step = pc_step p\<rparr>
      (fst (approve (fst (read_clock s)) r (scope_of i dec) None (dv_engine s))) (pc_input p) (dv_world s))"
proof -
  let ?ctx = "\<lparr>tc_task = i, tc_step = pc_step p\<rparr>" and ?now = "fst (read_clock s)"
  let ?a = "approve ?now r (scope_of i dec) None (dv_engine s)"
  let ?s1 = "(snd (read_clock s))\<lparr>dv_engine := snd ?a\<rparr>"
  let ?s4 = "snd (read_clock (snd (read_clock (snd (draw ?s1)))))"
  obtain res w' where run: "run_tool (sv_redact sv) (ToolInvocationId (fst (draw ?s1)))
      (fst (read_clock (snd (draw ?s1))), fst (read_clock (snd (read_clock (snd (draw ?s1)))))) ?ctx tool
      (pc_input p) (fst ?a) (dv_world s) = (res, w')" by fastforce
  then obtain out rc where res: "res = Executed out rc"
    and w': "w' = snd (tl_execute tool ?ctx (fst ?a) (pc_input p) (dv_world s))"
    by (auto simp: run_tool_def Let_def split: prod.splits)
  let ?u = "log_entry i (EffectCompleted (pc_effect p) (pc_step p) ''tool_result''
      (tool_result_payload (?s4\<lparr>dv_world := w'\<rparr>) (pc_effect p) out rc)) (?s4\<lparr>dv_world := w'\<rparr>)"
  from w obtain t where t: "get_state i s = Inr t" "tk_state t = WaitingForPermission"
    using get_state_at by blast
  have wu: "in_state i WaitingForPermission ?u" using w by simp
  then obtain t' where t': "get_state i ?u = Inr t'" "tk_state t' = WaitingForPermission"
    using get_state_at by blast
  have "resolve_permission_scoped sv i req dec s =
      move_to i (if dv_verify s i \<noteq> None then Verifying else Implementing) ?u"
    using t t' p req tool dec pre run res
    by (auto simp: resolve_permission_scoped_def prompt_current_def Let_def case_prod_beta
        invoke_with_authorization_def scope_of_def observe_tool_result_def)
  then show ?thesis
    by (rule that) (use wu w' in \<open>simp_all\<close>)
qed

lemma resolved_status:
  assumes "pending_tool_call i (dv_tasks s) = Some p"
    and "kinds i u = kinds i s @ [EffectCompleted (pc_effect p) st k q]"
  shows "call_status (kinds i u) = Some (p, Some k)"
  using assms by (simp add: status_pending call_status_snoc)

lemma deny_fails:
  assumes w: "in_state i WaitingForPermission s" and p: "pending_tool_call i (dv_tasks s) = Some p"
    and req: "prompt_current s p req" and tool: "sv_registry sv (pc_tool p) = Some tool"
  shows "\<exists>s'. resolve_permission_scoped sv i req DenyCall s = (Inr (), s') \<and> in_state i Failed s' \<and>
    dv_world s' = dv_world s \<and> dv_engine s' = dv_engine s"
proof -
  let ?u = "log_entry i (EffectCompleted (pc_effect p) (pc_step p) ''tool_denied''
      (JObject [(''reason'', JString ''denied by user'')])) s"
  from w obtain t where t: "get_state i s = Inr t" "tk_state t = WaitingForPermission"
    using get_state_at by blast
  have "resolve_permission_scoped sv i req DenyCall s = move_to i Failed ?u"
    using t p req tool by (auto simp: resolve_permission_scoped_def prompt_current_def Let_def)
  moreover have "fst (move_to i Failed ?u) = Inr () \<and> in_state i Failed (snd (move_to i Failed ?u))"
    by (rule move_to_legal [of i WaitingForPermission]) (use w in \<open>simp_all add: can_transition_to_def\<close>)
  ultimately show ?thesis
    by (intro exI [of _ "snd (move_to i Failed ?u)"]) (simp add: prod_eq_iff)
qed


text \<open>C23: an approval after a verification strands the task. When the task has a cached verify state
  (it has been through \<open>Verifying\<close>, and asked the user a question or is answering one), approving its
  pending call runs the tool and then tries to resume into \<open>Verifying\<close>, an edge \<open>WaitingForPermission\<close>
  does not have: the approval reports an error although the tool ran, the task keeps waiting for
  permission, and since its call is settled every further resolution is refused.\<close>

theorem approval_strands_verified_task:
  assumes "in_state i WaitingForPermission s" and "pending_tool_call i (dv_tasks s) = Some p"
    and "prompt_current s p req" and "sv_registry sv (pc_tool p) = Some tool" and "dec \<noteq> DenyCall"
    and "tl_preflight tool \<lparr>tc_task = i, tc_step = pc_step p\<rparr> (pc_input p) = Inr rq"
    and "dv_verify s i = Some vs"
  shows "\<exists>e s'. resolve_permission_scoped sv i req dec s = (Inl (AgTask e), s') \<and>
    in_state i WaitingForPermission s' \<and>
    dv_world s' = snd (tl_execute tool \<lparr>tc_task = i, tc_step = pc_step p\<rparr>
      (fst (approve (fst (read_clock s)) rq (scope_of i dec) None (dv_engine s))) (pc_input p) (dv_world s)) \<and>
    (\<forall>req' dec'. resolve_permission_scoped sv i req' dec' s' = (Inl (NoPendingToolCall i), s'))"
proof -
  obtain u q where u: "resolve_permission_scoped sv i req dec s = move_to i Verifying u"
      "in_state i WaitingForPermission u"
      "kinds i u = kinds i s @ [EffectCompleted (pc_effect p) (pc_step p) ''tool_result'' q]"
      "dv_world u = snd (tl_execute tool \<lparr>tc_task = i, tc_step = pc_step p\<rparr>
        (fst (approve (fst (read_clock s)) rq (scope_of i dec) None (dv_engine s))) (pc_input p) (dv_world s))"
    by (rule approve_runs [OF assms(1-6)]) (use assms(7) in auto)
  obtain e where e: "move_to i Verifying u = (Inl (AgTask e), u)"
    using move_to_illegal [OF u(2), of Verifying] by (auto simp: can_transition_to_def)
  have "pending_tool_call i (dv_tasks u) = None"
    using resolved_status [OF assms(2) u(3)] by (simp add: pending_by_status)
  moreover obtain t where "get_state i u = Inr t" "tk_state t = WaitingForPermission"
    using get_state_at [OF u(2)] by blast
  ultimately have "resolve_permission_scoped sv i req' dec' u = (Inl (NoPendingToolCall i), u)" for req' dec'
    by (simp add: resolve_permission_scoped_def)
  with u e show ?thesis by auto
qed

section \<open>A repair that needs permission\<close>

lemma asked_view:
  assumes "sv_registry sv name = Some tool"
    and "tl_preflight tool \<lparr>tc_task = i, tc_step = sid\<rparr> inp = Inr rq"
    and "\<And>now. \<exists>prompt. fst (evaluate now rq (dv_engine s)) = Ask prompt"
  obtains u e prompt where "issue_and_execute_tool_call sv i sid name inp s =
      observe_tool_result i sid e (AskRequired prompt rq) u"
    and "same_view (log_entry i (EffectIssued e sid ''tool'' (JObject [(''input'', inp), (''tool'', JString name),
      (''tool_invocation_id'', JString (effect_text s e))])) s) u"
    and "wd_disk (dv_world u) = wd_disk (dv_world s)" and "wd_rest (dv_world u) = wd_rest (dv_world s)"
    and "kinds i u = kinds i s @ [EffectIssued e sid ''tool'' (JObject [(''input'', inp), (''tool'', JString name),
      (''tool_invocation_id'', JString (effect_text s e))])]"
proof -
  let ?e = "EffectId (fst (draw s))" and ?ctx = "\<lparr>tc_task = i, tc_step = sid\<rparr>"
  let ?k = "EffectIssued ?e sid ''tool'' (JObject [(''input'', inp), (''tool'', JString name),
      (''tool_invocation_id'', JString (effect_text s ?e))])"
  let ?s2 = "log_entry i ?k (snd (draw s))"
  let ?s3 = "record_baseline_if_path sv inp ?s2"
  let ?r = "invoke_tool sv ?ctx name inp ?s3"
  have tx: "effect_text (snd (draw s)) ?e = effect_text s ?e"
    by (simp add: effect_text_def snd_draw)
  have eng: "dv_engine ?s3 = dv_engine s" "wd_disk (dv_world ?s3) = wd_disk (dv_world s)"
      "wd_rest (dv_world ?s3) = wd_rest (dv_world s)"
    by (simp_all add: record_baseline_if_path_def Let_def split: option.split)
  obtain prompt e' where ev: "evaluate (fst (read_clock (snd (draw ?s3)))) rq (dv_engine s) = (Ask prompt, e')"
    using assms(3) by (metis prod.collapse)
  let ?s4 = "snd (read_clock (snd (read_clock (snd (read_clock (snd (draw ?s3)))))))"
  have r: "?r = (AskRequired prompt rq, ?s4\<lparr>dv_engine := e', dv_world := dv_world ?s3\<rparr>)"
    using assms(1,2) ev by (simp add: invoke_tool_def case_prod_beta Let_def invoke_def eng)
  have kn: "kinds i ?s3 = kinds i ?s2"
    by (simp add: record_baseline_if_path_def Let_def split: option.split)
  have "issue_and_execute_tool_call sv i sid name inp s = observe_tool_result i sid ?e (fst ?r) (snd ?r)"
    by (simp add: issue_and_execute_tool_call_def case_prod_beta Let_def tx)
  moreover have "same_view ?s2 (snd ?r)" by simp
  then have "same_view (log_entry i ?k s) (snd ?r)" by (simp add: same_view_def)
  ultimately show ?thesis
    by (intro that [of ?e prompt "snd ?r"]) (simp_all add: r eng kn)
qed


section \<open>An answered question\<close>

lemma stale_failure:
  assumes "in_state i Verifying s" and "dv_verify s i = Some vs" and "vs_plan vs = Some p"
    and "0 < vs_executed vs" and "\<not> vs_last_passed vs"
  shows "\<exists>s'. step_verifying sv i s = (Inr FlowContinue, s') \<and> in_state i Diagnosing s' \<and>
    dv_world s' = dv_world s \<and> check_log i s' = check_log i s \<and> dv_verify s' i = Some vs"
proof -
  let ?u = "put_verify_state i vs s"
  have "step_verifying sv i s = and_return FlowContinue (move_to i Diagnosing ?u)"
    using assms(2-5) by (simp add: step_verifying_def take_verify_cached Let_def build_plan_def
        check_next_def next_after_def)
  moreover have "fst (move_to i Diagnosing ?u) = Inr () \<and> in_state i Diagnosing (snd (move_to i Diagnosing ?u))"
    by (rule move_to_legal [of i Verifying]) (use assms(1) in \<open>simp_all add: can_transition_to_def\<close>)
  ultimately show ?thesis
    by (intro exI [of _ "snd (move_to i Diagnosing ?u)"]) (simp add: prod_eq_iff)
qed

lemma implementing_keeps_verify: "dv_verify (snd (step_implementing sv i s)) = dv_verify s"
proof (cases "interrupted_tool_call i (dv_tasks s)")
  case (Some p)
  then show ?thesis using tool_view_issue [of i s] by (simp add: step_implementing_def tool_view_def)
next
  case None
  have issue: "dv_verify (snd (issue_and_execute_tool_call sv i sid tool inp t)) = dv_verify t"
    for sid tool inp t
    using tool_view_issue [of i t] by (simp add: tool_view_def)
  have act: "dv_verify (snd (act_on sv i sid c t)) = dv_verify t" for sid c t
    by (auto simp: act_on_def issue split: sum.split action_request.split)
  have call: "dv_verify (snd (call_model sv i role sid e [] turn t)) = dv_verify t" for role sid e turn t
    by (rule same_viewD(1) [OF same_view_call])
  show ?thesis
    unfolding step_implementing_def None
    by (simp add: case_prod_beta Let_def, rule then_do_keeps) (auto simp: call act)
qed

definition implementing_step :: "'x services \<Rightarrow> task_id \<Rightarrow> 'x driver \<Rightarrow> 'x driver \<Rightarrow> bool" where
  "implementing_step sv i s s' \<longleftrightarrow> in_state i Implementing s \<and> s' = snd (step_implementing sv i s)"


end
