(* ===== verification/App_Runtime.thy ===== *)
theory App_Runtime
  imports Driver_Correct
begin

text \<open>
  The task operations of the application runtime (\<open>crates/valyria-app/src/runtime.rs\<close>): creating and
  starting a task, resuming one, pausing, cancelling, resolving an approval, answering a question, and
  \<open>spawn_driver\<close>, the body of the task it spawns. Spawning is recorded in \<open>rt_spawned\<close>; running a
  spawned driver is \<open>drive\<close>, which takes the fuel of the driver's loop.
\<close>

section \<open>Operations\<close>

record 'x runtime =
  rt_driver :: "'x driver"
  rt_spawned :: "task_id list"
  rt_workspace :: workspace_id

datatype app_error = AppTask task_error | AppAgent agent_error | NotPaused task_id

definition default_budget :: budget where
  "default_budget = \<lparr>max_steps = None, max_wall_ms = None, max_tokens = None\<rparr>"

definition spawn_driver :: "task_id \<Rightarrow> 'x runtime \<Rightarrow> 'x runtime" where
  "spawn_driver i rt = rt\<lparr>rt_spawned := rt_spawned rt @ [i]\<rparr>"

text \<open>After a driver exits with an error: a task that is not terminal is noted and failed.\<close>

definition fail_on_error :: "task_id \<Rightarrow> string \<Rightarrow> 'x driver \<Rightarrow> 'x driver" where
  "fail_on_error i err s = (case get_task i (dv_tasks s) of
     Inl _ \<Rightarrow> s
   | Inr t \<Rightarrow> if is_terminal (tk_state t) then s
       else snd (move_to i Failed (log_entry i (RecoveryNote (''agent driver exited with an error: '' @ err)) s)))"

definition release_mode :: "task_id \<Rightarrow> 'x driver \<Rightarrow> 'x driver" where
  "release_mode i s = (case get_task i (dv_tasks s) of
     Inl _ \<Rightarrow> s
   | Inr t \<Rightarrow> if is_terminal (tk_state t) then s\<lparr>dv_engine := clear_task_mode i (dv_engine s)\<rparr> else s)"

text \<open>The spawned task of \<open>spawn_driver\<close>; \<open>show_error\<close> renders the error.\<close>

definition drive ::
  "nat \<Rightarrow> 'x services \<Rightarrow> (agent_error \<Rightarrow> string) \<Rightarrow> task_id \<Rightarrow> 'x driver \<Rightarrow> 'x driver option" where
  "drive n sv show_error i s = (case run_with_role n sv i None s of
     None \<Rightarrow> None
   | Some (r, s) \<Rightarrow> Some (release_mode i (case r of
       Inl e \<Rightarrow> fail_on_error i (show_error e) s
     | Inr _ \<Rightarrow> s)))"

definition create_and_start_task ::
  "string \<Rightarrow> permission_mode option \<Rightarrow> 'x runtime \<Rightarrow> (app_error + task_id) \<times> 'x runtime" where
  "create_and_start_task obj mode rt =
     (let s = rt_driver rt in
      case create_task (rt_workspace rt) obj default_budget (dv_tasks s) of
        (Inl e, t) \<Rightarrow> (Inl (AppTask e), rt\<lparr>rt_driver := s\<lparr>dv_tasks := t\<rparr>\<rparr>)
      | (Inr task, t) \<Rightarrow>
          (let s = s\<lparr>dv_tasks := t\<rparr>;
               s = (case mode of None \<Rightarrow> s
                 | Some m \<Rightarrow> s\<lparr>dv_engine := set_task_mode (tk_id task) m (dv_engine s)\<rparr>)
           in (Inr (tk_id task), spawn_driver (tk_id task) (rt\<lparr>rt_driver := s\<rparr>))))"

definition with_tasks ::
  "(task_store \<Rightarrow> (task_error + 'a) \<times> task_store) \<Rightarrow> 'x runtime \<Rightarrow> (app_error + 'a) \<times> 'x runtime" where
  "with_tasks f rt = (case f (dv_tasks (rt_driver rt)) of
     (Inl e, t) \<Rightarrow> (Inl (AppTask e), rt\<lparr>rt_driver := (rt_driver rt)\<lparr>dv_tasks := t\<rparr>\<rparr>)
   | (Inr a, t) \<Rightarrow> (Inr a, rt\<lparr>rt_driver := (rt_driver rt)\<lparr>dv_tasks := t\<rparr>\<rparr>))"

text \<open>\<open>request_cancel\<close> cascades over the descendants with the fuel \<open>n\<close>; running out of it is no
  behaviour of the code, and the operation is \<open>None\<close> then.\<close>

definition pause_task :: "nat \<Rightarrow> task_id \<Rightarrow> 'x runtime \<Rightarrow> ((app_error + unit) \<times> 'x runtime) option" where
  "pause_task n i rt = map_option (\<lambda>r. with_tasks (\<lambda>_. r) rt) (request_pause n i (dv_tasks (rt_driver rt)))"

definition cancel_task :: "nat \<Rightarrow> task_id \<Rightarrow> 'x runtime \<Rightarrow> ((app_error + unit) \<times> 'x runtime) option" where
  "cancel_task n i rt = map_option (\<lambda>r. with_tasks (\<lambda>_. r) rt) (request_cancel n i (dv_tasks (rt_driver rt)))"

definition task_status :: "task_id \<Rightarrow> 'x runtime \<Rightarrow> app_error + task" where
  "task_status i rt = (case get_task i (dv_tasks (rt_driver rt)) of Inl e \<Rightarrow> Inl (AppTask e) | Inr t \<Rightarrow> Inr t)"

definition spawn_if_live :: "(agent_state \<Rightarrow> bool) \<Rightarrow> task_id \<Rightarrow> 'x runtime \<Rightarrow> (app_error + unit) \<times> 'x runtime" where
  "spawn_if_live go i rt = (case task_status i rt of
     Inl e \<Rightarrow> (Inl e, rt)
   | Inr t \<Rightarrow> (Inr (), if go (tk_state t) then spawn_driver i rt else rt))"

definition resume_task :: "nat \<Rightarrow> task_id \<Rightarrow> 'x runtime \<Rightarrow> ((app_error + unit) \<times> 'x runtime) option" where
  "resume_task n i rt = (case with_tasks (recover_task_if_active i) rt of
     (Inl e, rt) \<Rightarrow> Some (Inl e, rt)
   | (Inr _, rt) \<Rightarrow> (case task_status i rt of
       Inl e \<Rightarrow> Some (Inl e, rt)
     | Inr t \<Rightarrow>
         (case (if tk_state t = Paused
                then (case tk_paused_from t of
                    None \<Rightarrow> (Inl (NotPaused i), rt)
                  | Some target \<Rightarrow> with_tasks (transition i target) rt)
                else (Inr (), rt)) of
            (Inl e, rt) \<Rightarrow> Some (Inl e, rt)
          | (Inr _, rt) \<Rightarrow>
              (case (if tk_signal t = Some CancelRequested then cancel_task n i rt else Some (Inr (), rt)) of
                 None \<Rightarrow> None
               | Some (Inl e, rt) \<Rightarrow> Some (Inl e, rt)
               | Some (Inr _, rt) \<Rightarrow> Some (spawn_if_live (\<lambda>st. \<not> is_terminal st) i rt)))))"

definition is_live :: "agent_state \<Rightarrow> bool" where
  "is_live st \<longleftrightarrow> \<not> is_terminal st \<and> st \<noteq> WaitingForPermission \<and> st \<noteq> WaitingForUser"

definition rt_resolve_permission ::
  "'x services \<Rightarrow> task_id \<Rightarrow> string option \<Rightarrow> approval_decision \<Rightarrow> 'x runtime \<Rightarrow> (app_error + unit) \<times> 'x runtime" where
  "rt_resolve_permission sv i req dec rt = (case resolve_permission_scoped sv i req dec (rt_driver rt) of
     (Inl e, s) \<Rightarrow> (Inl (AppAgent e), rt\<lparr>rt_driver := s\<rparr>)
   | (Inr _, s) \<Rightarrow> spawn_if_live is_live i (rt\<lparr>rt_driver := s\<rparr>))"

definition rt_respond_to_user :: "task_id \<Rightarrow> string \<Rightarrow> 'x runtime \<Rightarrow> (app_error + unit) \<times> 'x runtime" where
  "rt_respond_to_user i answer rt = (case respond_to_user i answer (rt_driver rt) of
     (Inl e, s) \<Rightarrow> (Inl (AppAgent e), rt\<lparr>rt_driver := s\<rparr>)
   | (Inr _, s) \<Rightarrow> spawn_if_live is_live i (rt\<lparr>rt_driver := s\<rparr>))"

section \<open>A driver never leaves a task active\<close>

definition at_rest :: "task_id \<Rightarrow> 'x driver \<Rightarrow> bool" where
  "at_rest i s \<longleftrightarrow> (\<exists>t. get_task i (dv_tasks s) = Inr t \<and> is_stable_without_a_driver (tk_state t))"

lemma at_rest_in: "in_state i st s \<Longrightarrow> is_stable_without_a_driver st \<Longrightarrow> at_rest i s"
  by (auto simp: in_state_def at_rest_def)

lemma move_rests:
  assumes "fst (move_to i to s) = Inr ()" and "is_stable_without_a_driver to"
  shows "at_rest i (snd (move_to i to s))"
  using assms by (cases rule: move_to_cases [of i s to]) (auto simp: at_rest_def)

lemma verifying_return:
  assumes "fst (step_verifying sv i s) = Inr FlowReturn"
  shows "at_rest i (snd (step_verifying sv i s))"
proof -
  have next': "at_rest i (snd (check_next sv i ch vs t))"
    if r: "fst (check_next sv i ch vs t) = Inr FlowReturn" for ch vs t
  proof (cases "next_after (the (vs_plan vs)) (vs_executed vs) (vs_last_passed vs)")
    case None
    with r show ?thesis
      by (auto simp: check_next_def is_stable_without_a_driver_def intro!: move_rests split: if_splits sum.splits)
  next
    case (Some st)
    obtain a b where "run_check sv i st ch t = (a, b)" by (cases "run_check sv i st ch t")
    with r Some show ?thesis
      by (cases a) (auto simp: check_next_def Let_def split: if_splits sum.splits)
  qed
  with assms show ?thesis
    by (auto simp: step_verifying_unfold Let_def is_stable_without_a_driver_def intro!: move_rests
        split: option.splits sum.splits)
qed

lemma finish_return:
  assumes st: "in_state i Repairing s \<or> in_state i WaitingForPermission s \<or> in_state i Failed s"
    and r: "fst (finish_repair sv i sid a vs s) = Inr FlowReturn"
  shows "at_rest i (snd (finish_repair sv i sid a vs s))"
proof -
  let ?s = "journal_repair_attempt i sid a s"
  have st': "in_state i Repairing ?s \<or> in_state i WaitingForPermission ?s \<or> in_state i Failed ?s" using st by simp
  then obtain t where t: "get_state i ?s = Inr t" using get_state_exists by blast
  note at = get_state_Inr [OF t]
  with st' have "tk_state t \<in> {Repairing, WaitingForPermission, Failed}" by (auto dest: in_state_unique)
  moreover have "at_rest i (put_verify_state i v ?s)" if "in_state i WaitingForPermission ?s" for v
    using that by (intro at_rest_in [of i WaitingForPermission]) (simp_all add: is_stable_without_a_driver_def)
  moreover have "at_rest i (drop_verify_state i ?s)" if "in_state i Failed ?s"
    using that by (intro at_rest_in [of i Failed]) (simp_all add: is_stable_without_a_driver_def)
  ultimately show ?thesis
    using r at by (auto simp: finish_repair_def Let_def t split: sum.splits if_splits)
qed

lemma repairing_return:
  assumes st: "in_state i Repairing s" and r: "fst (step_repairing sv i s) = Inr FlowReturn"
  shows "at_rest i (snd (step_repairing sv i s))"
proof (cases "interrupted_tool_call i (dv_tasks s)")
  case (Some p)
  let ?x = "issue_and_execute_tool_call sv i (pc_step p) (pc_tool p) (pc_input p) s"
  from r show ?thesis
    by (cases ?x; cases "fst ?x") (auto simp: step_repairing_def Some split: sum.splits if_splits)
next
  case None
  have act: "at_rest i (snd (repair_action sv i sid vs c t))"
    if t: "in_state i Repairing t" and ra: "fst (repair_action sv i sid vs c t) = Inr FlowReturn" for sid vs c t
  proof (cases "from_completion c")
    case (Inl x)
    with ra show ?thesis by (simp add: repair_action_def Let_def)
  next
    case (Inr a)
    show ?thesis
    proof (cases a)
      case (ToolCall tool inp)
      let ?x = "issue_and_execute_tool_call sv i sid tool inp t"
      have "in_state i Repairing (snd ?x) \<or> in_state i WaitingForPermission (snd ?x) \<or> in_state i Failed (snd ?x)"
        using tool_view_issue [of i t sv sid tool inp] t unfolding tool_view_def by blast
      from finish_return [OF this] ra show ?thesis
        by (cases ?x; cases "fst ?x") (simp_all add: repair_action_def Let_def Inr ToolCall)
    next
      case (Finish x)
      with finish_return [of i t] t ra show ?thesis by (simp add: repair_action_def Let_def Inr)
    next
      case (AskQuestion x)
      with ra show ?thesis
        by (auto simp: repair_action_def Let_def Inr is_stable_without_a_driver_def intro!: move_rests split: sum.splits)
    qed
  qed
  let ?s = "snd (take_verify_state sv i s)"
  obtain role sid e msgs turn k where e: "step_repairing sv i s =
      then_do (call_model sv i role sid e msgs turn (log_entry i k (snd (draw (snd (draw ?s))))))
        (repair_action sv i sid (fst (take_verify_state sv i s)))"
    by (simp add: step_repairing_def None case_prod_beta Let_def)
  let ?c = "call_model sv i role sid e msgs turn (log_entry i k (snd (draw (snd (draw ?s)))))"
  have "in_state i Repairing (snd ?c)" using st by simp
  with act r show ?thesis unfolding e by (cases ?c; cases "fst ?c") auto
qed

lemma iteration_return:
  assumes rx: "reactive sv" and r: "fst (run_iteration sv i role s) = Inr FlowReturn"
  shows "at_rest i (snd (run_iteration sv i role s))"
proof (cases "sv_cancelled sv (dv_world s)")
  case True
  with r show ?thesis
    by (auto simp: run_iteration_def is_stable_without_a_driver_def intro!: move_rests split: sum.splits)
next
  case False
  show ?thesis
  proof (cases "get_state i s")
    case (Inl e)
    with False r show ?thesis by (simp add: run_iteration_def)
  next
    case (Inr t)
    note unfold = run_iteration_def False Inr and at = get_state_Inr [OF Inr]
    show ?thesis
    proof (cases "tk_signal t")
      case (Some x)
      with r show ?thesis
        by (cases x) (auto simp: unfold is_stable_without_a_driver_def intro!: move_rests split: sum.splits)
    next
      case None
      have rest: "is_stable_without_a_driver (tk_state t) \<Longrightarrow> at_rest i s" using at by (rule at_rest_in)
      have drop: "is_stable_without_a_driver (tk_state t) \<Longrightarrow> at_rest i (drop_verify_state i s)"
        using at by (intro at_rest_in [of i "tk_state t"]) simp_all
      show ?thesis
        using r rx at rest drop verifying_return [of sv i s] repairing_return [of i s sv]
        by (cases "tk_state t") (auto simp: unfold None reactive_def is_stable_without_a_driver_def split: sum.splits)
    qed
  qed
qed

lemma run_rests:
  assumes "reactive sv" and "run_with_role n sv i role s = Some (Inr (), s')"
  shows "at_rest i s'"
  using assms(2)
proof (induction n arbitrary: s)
  case (Suc n)
  have "at_rest i (snd (run_iteration sv i role s))" if "fst (run_iteration sv i role s) = Inr FlowReturn"
    using assms(1) that by (rule iteration_return)
  with Suc show ?case by (auto split: prod.splits sum.splits flow.splits)
qed simp

lemma failed_rests:
  assumes "get_task i (dv_tasks s) = Inr t"
  shows "at_rest i (fail_on_error i err s)"
proof (cases "is_terminal (tk_state t)")
  case True
  then show ?thesis using assms by (simp add: fail_on_error_def at_rest_def is_stable_without_a_driver_def)
next
  case False
  let ?u = "log_entry i (RecoveryNote (''agent driver exited with an error: '' @ err)) s"
  have "in_state i (tk_state t) s" using assms by (simp add: in_state_def)
  then have u: "in_state i (tk_state t) ?u" by simp
  have f: "fail_on_error i err s = snd (move_to i Failed ?u)" using assms False by (simp add: fail_on_error_def)
  show ?thesis
  proof (cases "tk_state t = Paused")
    case True
    with in_state_move [OF u, of Failed] show ?thesis
      by (auto simp: f intro: at_rest_in simp: is_stable_without_a_driver_def)
  next
    case np: False
    have "fst (move_to i Failed ?u) = Inr () \<and> in_state i Failed (snd (move_to i Failed ?u))"
      by (rule move_to_legal [OF u np]) (use False np in \<open>simp add: edge_to_Failed\<close>)
    then show ?thesis by (auto simp: f is_stable_without_a_driver_def intro: at_rest_in)
  qed
qed

lemma release_rests: "at_rest i s \<Longrightarrow> at_rest i (release_mode i s)"
  by (auto simp: release_mode_def at_rest_def)


end
