(* ===== verification/Driver_Demo.thy ===== *)
theory Driver_Demo
  imports Driver_Correct
begin

text \<open>
  A run of the driver on a small configuration, at which the properties of \<open>Driver_Correct\<close> are
  instantiated: one task, one check that fails, a model whose next answer lies in the world. The run
  goes from a fresh driver through \<open>Verifying\<close>, \<open>Diagnosing\<close> and \<open>Repairing\<close> to a question, its answer
  and an approval.
\<close>

section \<open>What a step does on its main branch\<close>

definition ready :: "task_id \<Rightarrow> agent_state \<Rightarrow> 'x driver \<Rightarrow> bool" where
  "ready i st s \<longleftrightarrow> (\<exists>t. get_task i (dv_tasks s) = Inr t \<and> tk_state t = st \<and> tk_signal t = None)"

definition calm :: "task_id \<Rightarrow> 'x driver \<Rightarrow> bool" where
  "calm i s \<longleftrightarrow> call_status (kinds i s) = None"

lemma ready_in: "ready i st s \<Longrightarrow> in_state i st s"
  by (auto simp: ready_def in_state_def)

lemma calm_none: "calm i s \<Longrightarrow> interrupted_tool_call i (dv_tasks s) = None"
  by (simp add: calm_def pending_by_status)

lemma tasks_same:
  assumes "same_view s s'" and "\<And>i. get_task i (dv_tasks s') = get_task i (dv_tasks s)"
  shows "ready i st s' = ready i st s"
  using assms(2) by (simp add: ready_def)

lemma ready_frame [simp]:
  "ready i st (s\<lparr>dv_world := w\<rparr>) = ready i st s" "ready i st (s\<lparr>dv_engine := e\<rparr>) = ready i st s"
  "ready i st (put_verify_state j vs s) = ready i st s" "ready i st (snd (draw s)) = ready i st s"
  "ready i st (snd (read_clock s)) = ready i st s" "ready i st (log_entry j k s) = ready i st s"
  "ready i st (log_fresh j o' p s) = ready i st s"
  by (simp_all add: ready_def snd_draw snd_read_clock log_entry_def log_fresh_unfold)

lemma calm_log: "calm i (log_entry j k s) \<longleftrightarrow> (if i = j \<and> issued_tool_call k \<noteq> None then False else calm i s)"
  by (simp add: calm_def call_status_snoc split: option.split)

lemma calm_frame [simp]:
  "calm i (s\<lparr>dv_world := w\<rparr>) = calm i s" "calm i (s\<lparr>dv_engine := e\<rparr>) = calm i s"
  "calm i (put_verify_state j vs s) = calm i s" "calm i (snd (draw s)) = calm i s"
  "calm i (snd (read_clock s)) = calm i s" "calm i (log_fresh j o' p s) = calm i s"
  by (simp_all add: calm_def log_fresh_unfold call_status_snoc split: option.split)

lemma calm_move [simp]: "\<not> is_terminal to \<Longrightarrow> calm i (snd (move_to j to s)) = calm i s"
  by (simp add: calm_def status_move)

lemma move_ready:
  assumes "ready i st s" and "st \<noteq> Paused" and "can_transition_to st to"
  shows "fst (move_to i to s) = Inr () \<and> ready i to (snd (move_to i to s))"
proof -
  from assms obtain t where t: "get_task i (dv_tasks s) = Inr t" "tk_state t = st"
    by (auto simp: ready_def)
  with assms have "transition_check t to = None" by (simp add: transition_check_from)
  from move_to_done [OF t(1) this] show ?thesis by (auto simp: ready_def)
qed

text \<open>One round of the loop for a task without a pending signal.\<close>

lemma round_of:
  assumes "ready i st s" and "\<not> sv_cancelled sv (dv_world s)" and "reactive sv"
  shows "st = Idle \<Longrightarrow> snd (run_iteration sv i role s) = snd (move_to i Understanding s)"
    and "st = Understanding \<Longrightarrow> snd (run_iteration sv i role s) = snd (move_to i Discovery s)"
    and "st = Discovery \<Longrightarrow> sv_assemble sv i (dv_world s) = Inr pay \<Longrightarrow> snd (run_iteration sv i role s) =
      snd (move_to i Planning (log_fresh i ''context_retrieved'' pay s))"
    and "st = Planning \<Longrightarrow> snd (run_iteration sv i role s) = snd (move_to i Implementing s)"
    and "st = Implementing \<Longrightarrow> snd (run_iteration sv i role s) = snd (step_implementing sv i s)"
    and "st = Verifying \<Longrightarrow> snd (run_iteration sv i role s) = snd (step_verifying sv i s)"
    and "st = Diagnosing \<Longrightarrow> snd (run_iteration sv i role s) = snd (step_diagnosing sv i s)"
    and "st = Repairing \<Longrightarrow> snd (run_iteration sv i role s) = snd (step_repairing sv i s)"
  using assms by (auto simp: ready_def run_iteration_def get_state_def reactive_def)

section \<open>The configuration\<close>

definition demo_command :: verify_command where
  "demo_command = cargo TestCommand ''test'' (ManifestSource ''Cargo.toml'')"

definition demo_step :: "path list \<Rightarrow> verification_step" where
  "demo_step ch = full_step (change_set_of ch) demo_command"

lemma demo_plan: "escalation_plan [demo_command] (change_set_of ch) [] \<lparr>so_style = b, so_full = True\<rparr> = [demo_step ch]"
  by (simp add: escalation_plan_def unsorted_plan_def demo_command_def demo_step_def cargo_def Let_def)

definition demo_result :: "bool \<Rightarrow> verification_run" where
  "demo_result ok = run_of (\<lambda>_ _. []) ''r'' 0 demo_command (Some TierFull) None
     \<lparr>ex_end = Exited, ex_exit = Some (if ok then 0 else 1), ex_stdout = [], ex_stderr = [], ex_truncated = False,
      ex_duration = 5\<rparr>"

lemma demo_result_passed [simp]: "vr_passed (demo_result ok) = ok"
  by (simp add: demo_result_def run_passed_iff)

text \<open>A tool that always asks for the approval of a destructive command, and counts its runs.\<close>

definition demo_request :: "tool_ctx \<Rightarrow> permission_request" where
  "demo_request ctx = \<lparr>rq_task = tc_task ctx, rq_step = tc_step ctx, rq_tool = ''run'', rq_category = Shell,
     rq_action = ExecuteAction, rq_risk = Destructive, rq_hash = [], rq_target = ''rm'', rq_in_scope = True\<rparr>"

definition demo_tool :: "(completion \<times> nat) world tool" where
  "demo_tool = \<lparr>tl_name = ''run'', tl_preflight = (\<lambda>ctx _. Inr (demo_request ctx)),
     tl_execute = (\<lambda>_ _ _ w. (ToolSuccess (JObject []) [], w\<lparr>wd_rest := map_prod id Suc (wd_rest w)\<rparr>))\<rparr>"

definition demo_services :: "bool \<Rightarrow> (completion \<times> nat) services" where
  "demo_services ok = \<lparr>sv_env = demo_env, sv_hash = (\<lambda>_. []), sv_redact = id, sv_show_json = (\<lambda>_. []),
     sv_registry = [''run'' \<mapsto> demo_tool],
     sv_hash_file = (\<lambda>_ _. None), sv_cancelled = (\<lambda>_. False), sv_planning = Passthrough,
     sv_assemble = (\<lambda>_ _. Inr JNull), sv_prompt = (\<lambda>_ _. Inr ([], JNull)), sv_is_bound = (\<lambda>_. False),
     sv_generate = (\<lambda>_ _ _ w. (Inr (fst (wd_rest w), ''m''), w)),
     sv_scan = (\<lambda>_. [''cargo test'']), sv_validate = (\<lambda>r w. ([demo_command], w)),
     sv_run_check = (\<lambda>_ _ w. (Inr (demo_result ok), w)), sv_log_run = (\<lambda>_ _ w. (Inr (), w)),
     sv_neighbors = (\<lambda>_ _. []), sv_memory = (\<lambda>_ w. w), sv_has_plan = (\<lambda>_ _. Inr False),
     sv_step_planning = (\<lambda>_ _ s. (Inr FlowReturn, s)), sv_step_plan = (\<lambda>_ _ s. (Inr FlowReturn, s))\<rparr>"

lemma demo_services_simps [simp]:
  "sv_env (demo_services ok) = demo_env" "sv_cancelled (demo_services ok) w = False"
  "sv_assemble (demo_services ok) i w = Inr JNull" "sv_prompt (demo_services ok) t w = Inr ([], JNull)"
  "sv_generate (demo_services ok) ro m n w = (Inr (fst (wd_rest w), ''m''), w)"
  "sv_scan (demo_services ok) w = [''cargo test'']" "sv_validate (demo_services ok) rp w = ([demo_command], w)"
  "sv_run_check (demo_services ok) st ch w = (Inr (demo_result ok), w)"
  "sv_log_run (demo_services ok) i r w = (Inr (), w)"
  "sv_memory (demo_services ok) i w = w"
  "sv_registry (demo_services ok) ''run'' = Some demo_tool" "sv_redact (demo_services ok) = id"
  by (simp_all add: demo_services_def)

lemma demo_reactive [simp]: "reactive (demo_services ok)"
  by (simp add: reactive_def demo_services_def)

definition demo_store :: task_store where
  "demo_store = empty_store (\<lambda>n. of_nat n) (\<lambda>n. n) (\<lambda>_. [])"

definition answer_is :: "completion \<Rightarrow> (completion \<times> nat) driver \<Rightarrow> bool" where
  "answer_is c s \<longleftrightarrow> fst (wd_rest (dv_world s)) = c"

definition finish_c :: completion where
  "finish_c = \<lparr>cm_text = ''ok'', cm_calls = [], cm_finish = FinStop\<rparr>"

definition ask_c :: completion where
  "ask_c = \<lparr>cm_text = ''which?'', cm_calls = [], cm_finish = FinAsk\<rparr>"

definition run_c :: completion where
  "run_c = \<lparr>cm_text = [], cm_calls = [(''run'', JNull)], cm_finish = FinToolCalls\<rparr>"

lemma demo_completions [simp]:
  "from_completion finish_c = Inr (Finish ''ok'')" "from_completion ask_c = Inr (AskQuestion ''which?'')"
  "from_completion run_c = Inr (ToolCall ''run'' JNull)"
  by (simp_all add: from_completion_def finish_c_def ask_c_def run_c_def)

definition demo_driver :: "completion \<Rightarrow> (completion \<times> nat) driver" where
  "demo_driver c = \<lparr>dv_tasks = demo_store, dv_engine = new_engine Manual, dv_verify = Map.empty,
     dv_world = \<lparr>wd_ledger = new_ledger Map.empty, wd_disk = Map.empty, wd_rest = (c, 0)\<rparr>\<rparr>"

definition demo_created :: "(completion \<times> nat) driver" where
  "demo_created = demo_driver finish_c\<lparr>dv_tasks := snd (create_task (WorkspaceId 0) ''fix''
     \<lparr>max_steps = None, max_wall_ms = None, max_tokens = None\<rparr> demo_store)\<rparr>"

lemma demo_created_reachable: "reachable_driver sv demo_created"
proof -
  have "fresh_driver (demo_driver finish_c)"
    by (auto simp: fresh_driver_def demo_driver_def demo_store_def)
  moreover have "driver_step sv (demo_driver finish_c) demo_created"
    unfolding demo_created_def by (rule ds_outside) (simp add: demo_driver_def out_create)
  ultimately show ?thesis by (auto simp: reachable_driver_def)
qed

lemma no_entries: "rows (journal t) = [] \<Longrightarrow> journal_kinds i t = []" "call_status [] = None"
  "call_status [TaskCreated] = None"
  using call_status_snoc [of "[]" TaskCreated]
  by (simp_all add: journal_kinds_def journal_since_def rows_after_def call_status_def last_issued_def)

lemma demo_created_ready: "ready (TaskId 0) Idle demo_created" "calm (TaskId 0) demo_created"
  "dv_verify demo_created = Map.empty" "answer_is finish_c demo_created"
  "dv_engine demo_created = new_engine Manual" "kinds (TaskId 0) demo_created = [TaskCreated]"
  by (simp_all add: ready_def calm_def answer_is_def demo_created_def demo_driver_def create_task_def
      create_with_parent_def Let_def case_prod_beta insert_task_def demo_store_def empty_store_def
      parent_entry_def get_task_def row_of_def frame row_to_task_def kinds_def call_status_snoc draw_ulid_def
      clock_now_def empty_table_def no_entries)

text \<open>A journal in which nothing has been verified yet.\<close>

fun dull_entry :: "journal_kind \<Rightarrow> bool" where
  "dull_entry (EffectCompleted _ _ k _) = (k \<in> {''context_retrieved'', ''model_completion''})"
| "dull_entry _ = True"

definition dull :: "task_id \<Rightarrow> 'x driver \<Rightarrow> bool" where
  "dull i s \<longleftrightarrow> list_all dull_entry (kinds i s)"

lemma reconstruct_dull:
  assumes "list_all dull_entry ks"
  shows "fold (reconstruct_entry digest) ks st = st"
proof -
  have "dull_entry k \<Longrightarrow> reconstruct_entry digest k x = x" for k x
    by (cases k; cases x) (auto simp: reconstruct_completed_def)
  with assms show ?thesis by (induction ks) simp_all
qed

lemma take_dull:
  assumes "dull i s" and "dv_verify s i = None"
  shows "take_verify_state sv i s = (default_verify_state, put_verify_state i default_verify_state s)"
  using assms by (simp add: take_verify_state_def reconstruct_verify_state_def dull_def kinds_def
      journal_kinds_def reconstruct_dull default_verify_state_def max_repair_attempts_def Let_def)

lemma dull_frame [simp]:
  "dull i (s\<lparr>dv_world := w\<rparr>) = dull i s" "dull i (snd (draw s)) = dull i s"
  "dull i (log_entry j k s) \<longleftrightarrow> (i = j \<longrightarrow> dull_entry k) \<and> dull i s"
  by (auto simp: dull_def)

lemma dull_fresh [simp]: "dull i (log_fresh i k p s) \<longleftrightarrow> k \<in> {''context_retrieved'', ''model_completion''} \<and> dull i s"
  by (auto simp: log_fresh_unfold)

lemma dull_move: "dull i s \<Longrightarrow> \<not> is_terminal to \<Longrightarrow> dull i (snd (move_to j to s))"
  using kinds_move [of to i j s] by (force simp: dull_def list_all_iff)

section \<open>The run\<close>

definition demo_at :: "bool \<Rightarrow> agent_state \<Rightarrow> (completion \<times> nat) driver \<Rightarrow> bool" where
  "demo_at ok st s \<longleftrightarrow> reachable_driver (demo_services ok) s \<and> ready (TaskId 0) st s \<and> calm (TaskId 0) s \<and>
     dv_engine s = new_engine Manual"

lemma reach_step: "reachable_driver sv s \<Longrightarrow> driver_step sv s s' \<Longrightarrow> reachable_driver sv s'"
  by (auto simp: reachable_driver_def intro: rtranclp.rtrancl_into_rtrancl)

lemma demo_says: "demo_at ok st s \<Longrightarrow> \<exists>s'. demo_at ok st s' \<and> answer_is c s' \<and> dv_verify s' = dv_verify s"
  by (rule exI [of _ "s\<lparr>dv_world := (dv_world s)\<lparr>wd_rest := (c, 0)\<rparr>\<rparr>"])
    (auto simp: demo_at_def answer_is_def intro: reach_step ds_world)

lemma demo_round:
  assumes "demo_at ok st s" and "snd (run_iteration (demo_services ok) (TaskId 0) None s) = s'"
    and "ready (TaskId 0) to s'" and "calm (TaskId 0) s'" and "dv_engine s' = dv_engine s"
  shows "demo_at ok to s'"
  using assms reach_step [OF _ ds_iterate [of "demo_services ok" s "TaskId 0" None]] by (auto simp: demo_at_def)

lemma demo_move:
  assumes "demo_at ok st s" and "snd (run_iteration (demo_services ok) (TaskId 0) None s) = snd (move_to (TaskId 0) to u)"
    and "ready (TaskId 0) st u" and "calm (TaskId 0) u" and "dv_engine u = dv_engine s"
    and "st \<noteq> Paused" and "can_transition_to st to" and "\<not> is_terminal to"
  shows "demo_at ok to (snd (move_to (TaskId 0) to u))"
  by (rule demo_round [OF assms(1,2)]) (use move_ready [OF assms(3,6,7)] assms in simp_all)

lemma call_demo:
  assumes "get_task i (dv_tasks s) = Inr t"
  shows "\<exists>p. call_model (demo_services ok) i role sid e x turn s = (Inr (fst (wd_rest (dv_world s))),
     log_entry i (EffectCompleted e sid ''model_completion'' p) (log_fresh i ''context_retrieved'' JNull s))"
  by (rule exI [of _ "JObject [(''finish_reason'', JString (debug_finish (cm_finish (fst (wd_rest (dv_world s)))))),
      (''model_id'', JString ''m''), (''role'', JString (model_role_str role)),
      (''text'', JString (cm_text (fst (wd_rest (dv_world s)))))]"])
    (use assms in \<open>simp add: call_model_def build_conversation_def system_and_task_messages_def get_state_def Let_def\<close>)

lemma demo_finishes:
  assumes "demo_at ok Implementing s" and "answer_is finish_c s"
  shows "\<exists>s'. s' = snd (step_implementing (demo_services ok) (TaskId 0) s) \<and> demo_at ok Verifying s' \<and>
    dv_verify s' = dv_verify s \<and> (dull (TaskId 0) s \<longrightarrow> dull (TaskId 0) s')"
proof -
  let ?i = "TaskId 0" and ?sv = "demo_services ok"
  have r: "ready ?i Implementing s" "calm ?i s" using assms by (auto simp: demo_at_def)
  then obtain t where t: "get_task ?i (dv_tasks s) = Inr t" by (auto simp: ready_def)
  let ?s2 = "snd (draw (snd (draw s)))"
  obtain role sid e turn k where e: "step_implementing ?sv ?i s =
      then_do (call_model ?sv ?i role sid e [] turn (log_entry ?i k ?s2)) (act_on ?sv ?i sid)"
    and k: "issued_tool_call k = None" and k2: "dull_entry k"
    by (simp add: step_implementing_def calm_none [OF r(2)] case_prod_beta Let_def)
  have g: "get_task ?i (dv_tasks (log_entry ?i k ?s2)) = Inr t"
    using t by (simp add: log_entry_def snd_draw)
  obtain p where p: "call_model ?sv ?i role sid e [] turn (log_entry ?i k ?s2) = (Inr (fst (wd_rest (dv_world s))),
     log_entry ?i (EffectCompleted e sid ''model_completion'' p) (log_fresh ?i ''context_retrieved'' JNull (log_entry ?i k ?s2)))"
    using call_demo [OF g] by fastforce
  let ?u = "log_entry ?i (EffectCompleted e sid ''model_completion'' p) (log_fresh ?i ''context_retrieved'' JNull (log_entry ?i k ?s2))"
  have it: "snd (run_iteration ?sv ?i None s) = snd (move_to ?i Verifying ?u)"
    using round_of(5) [OF r(1), of ?sv] assms(2) by (simp add: e p act_on_def answer_is_def)
  have "demo_at ok Verifying (snd (move_to ?i Verifying ?u))"
    by (rule demo_move [OF assms(1) it]) (use r k in \<open>simp_all add: calm_log can_transition_to_def\<close>)
  moreover have "dull ?i s \<Longrightarrow> dull ?i (snd (move_to ?i Verifying ?u))"
    by (rule dull_move) (use k2 in simp_all)
  moreover have "snd (step_implementing ?sv ?i s) = snd (move_to ?i Verifying ?u)"
    using assms(2) by (simp add: e p act_on_def answer_is_def)
  ultimately show ?thesis by (intro exI [of _ "snd (move_to ?i Verifying ?u)"]) simp
qed

lemma demo_verifying:
  "\<exists>s. demo_at ok Verifying s \<and> dv_verify s = Map.empty \<and> dull (TaskId 0) s"
proof -
  let ?i = "TaskId 0" and ?sv = "demo_services ok"
  have 0: "demo_at ok Idle demo_created"
    using demo_created_reachable demo_created_ready by (simp add: demo_at_def)
  let ?s1 = "snd (move_to ?i Understanding demo_created)"
  have 1: "demo_at ok Understanding ?s1"
    by (rule demo_move [OF 0 round_of(1)])
      (use 0 in \<open>simp_all add: demo_at_def can_transition_to_def\<close>)
  let ?s2 = "snd (move_to ?i Discovery ?s1)"
  have 2: "demo_at ok Discovery ?s2"
    by (rule demo_move [OF 1 round_of(2)]) (use 1 in \<open>simp_all add: demo_at_def can_transition_to_def\<close>)
  let ?s3 = "snd (move_to ?i Planning (log_fresh ?i ''context_retrieved'' JNull ?s2))"
  have 3: "demo_at ok Planning ?s3"
    by (rule demo_move [OF 2 round_of(3)]) (use 2 in \<open>simp_all add: demo_at_def can_transition_to_def\<close>)
  let ?s4 = "snd (move_to ?i Implementing ?s3)"
  have 4: "demo_at ok Implementing ?s4"
    by (rule demo_move [OF 3 round_of(4)]) (use 3 in \<open>simp_all add: demo_at_def can_transition_to_def\<close>)
  have "answer_is finish_c ?s4" "dv_verify ?s4 = Map.empty"
    using demo_created_ready by (simp_all add: answer_is_def)
  moreover have "dull ?i ?s4"
  proof -
    have "dull ?i demo_created" by (simp add: dull_def demo_created_ready)
    then have "dull ?i ?s2" by (simp add: dull_move)
    then show ?thesis by (simp add: dull_move)
  qed
  ultimately show ?thesis using demo_finishes [OF 4] by metis
qed

lemma engine_put [simp]: "dv_engine (put_verify_state j vs s) = dv_engine s"
  by (simp add: put_verify_state_def)

text \<open>The verify state the run has after its first failed check.\<close>

definition failing :: "verify_state \<Rightarrow> bool" where
  "failing vs \<longleftrightarrow> (\<exists>ch. vs_plan vs = Some [demo_step ch]) \<and> vs_executed vs = 1 \<and> \<not> vs_last_passed vs"

lemma run_check_demo:
  "\<exists>e st' q. run_check (demo_services ok) i st ch s = (Inr (demo_result ok),
     log_entry i (EffectCompleted e st' ''verify_result'' q) (log_entry i (EffectIssued e st' ''verify''
       (verify_payload st)) (snd (draw (snd (draw s))))))"
  by (simp add: run_check_def case_prod_beta Let_def, blast)

lemma demo_checked:
  assumes at: "demo_at ok Verifying s" and v: "dv_verify s (TaskId 0) = None" and dl: "dull (TaskId 0) s"
  shows "\<exists>s' vs. demo_at ok (if ok then Verifying else Diagnosing) s' \<and> dv_verify s' (TaskId 0) = Some vs \<and>
    (\<exists>ch. vs_plan vs = Some [demo_step ch]) \<and> vs_executed vs = 1 \<and> vs_last_passed vs = ok \<and>
    vs_repair vs = new_repair 4 \<and> (\<not> ok \<longrightarrow> vs_detector vs = new_detector default_config)"
proof -
  let ?i = "TaskId 0" and ?sv = "demo_services ok" and ?vs = default_verify_state
  let ?s = "put_verify_state ?i ?vs s"
  let ?ch = "task_changed_files ?i ?s"
  let ?vs1 = "?vs\<lparr>vs_plan := Some [demo_step ?ch], vs_executed := 1, vs_last_passed := ok, vs_last_run := Some (demo_result ok)\<rparr>"
  let ?s2 = "?s\<lparr>dv_world := dv_world s\<rparr>"
  have t: "take_verify_state ?sv ?i s = (?vs, ?s)" using dl v by (rule take_dull)
  obtain e st' q where rc: "run_check ?sv ?i (demo_step ?ch) ?ch ?s2 = (Inr (demo_result ok),
     log_entry ?i (EffectCompleted e st' ''verify_result'' q) (log_entry ?i (EffectIssued e st' ''verify''
       (verify_payload (demo_step ?ch))) (snd (draw (snd (draw ?s2))))))"
    using run_check_demo by blast
  let ?u = "log_entry ?i (EffectCompleted e st' ''verify_result'' q) (log_entry ?i (EffectIssued e st' ''verify''
       (verify_payload (demo_step ?ch))) (snd (draw (snd (draw ?s2)))))"
  have bp: "build_plan ?sv ?ch ?vs ?s = (Some (?vs\<lparr>vs_plan := Some [demo_step ?ch], vs_executed := 0,
      vs_last_passed := True\<rparr>), ?s2)"
    by (simp add: build_plan_def default_verify_state_def Let_def demo_plan)
  have r: "ready ?i Verifying ?u" "calm ?i ?u" "dv_engine ?u = dv_engine s"
    using at by (simp_all add: demo_at_def calm_log)
  have "step_verifying ?sv ?i s = check_next ?sv ?i ?ch (?vs\<lparr>vs_plan := Some [demo_step ?ch], vs_executed := 0,
      vs_last_passed := True\<rparr>) ?s2"
    by (simp only: step_verifying_unfold t fst_conv snd_conv bp Let_def option.case)
  then have sv: "step_verifying ?sv ?i s = (if ok
      then (Inr FlowContinue, put_verify_state ?i (?vs1\<lparr>vs_detector := snd (observe_failure None (new_detector default_config))\<rparr>) ?u)
      else and_return FlowContinue (move_to ?i Diagnosing (put_verify_state ?i ?vs1 ?u)))"
    using rc by (simp add: check_next_def next_after_def default_verify_state_def)
  have round: "snd (run_iteration ?sv ?i None s) = snd (step_verifying ?sv ?i s)"
    using round_of(6) [of ?i Verifying s ?sv None] at by (simp add: demo_at_def)
  have d: "vs_repair ?vs = new_repair 4" "vs_detector ?vs = new_detector default_config"
    by (simp_all add: default_verify_state_def)
  show ?thesis
  proof (cases ok)
    case True
    let ?w = "put_verify_state ?i (?vs1\<lparr>vs_detector := snd (observe_failure None (new_detector default_config))\<rparr>) ?u"
    have it: "snd (run_iteration ?sv ?i None s) = ?w" using round sv True by simp
    have "demo_at ok Verifying ?w" by (rule demo_round [OF at it]) (use r in simp_all)
    then show ?thesis using True d by (intro exI [of _ ?w]) (simp, blast)
  next
    case False
    let ?w = "put_verify_state ?i ?vs1 ?u"
    have it: "snd (run_iteration ?sv ?i None s) = snd (move_to ?i Diagnosing ?w)" using round sv False by simp
    have "demo_at ok Diagnosing (snd (move_to ?i Diagnosing ?w))"
      by (rule demo_move [OF at it]) (use r in \<open>simp_all add: can_transition_to_def\<close>)
    then show ?thesis using False d by (intro exI [of _ "snd (move_to ?i Diagnosing ?w)"]) (simp, blast)
  qed
qed

lemma observe_fresh: "fst (observe_diagnosis fp h m (new_detector default_config)) = None"
proof -
  have "find (\<lambda>p. oscillates p [k]) [1..<4] = None" for k
    by (simp add: find_None_iff_set oscillates_def)
  then show ?thesis
    by (simp add: observe_diagnosis_def observe_step_def observe_failure_def observe_progress_def new_detector_def
        default_config_def next_no_change_def detect_exact_repeat_def detect_oscillation_def with_error_def
        with_file_state_def default_signature_def streak_def Let_def numeral_eq_Suc)
qed

lemma decide_fresh: "decide fp None (new_repair 4) = Continue"
  by (simp add: decide_def new_repair_def repair_count_def repair_count_for_def)

lemma demo_diagnosed:
  assumes at: "demo_at ok Diagnosing s" and v: "dv_verify s (TaskId 0) = Some vs"
    and f: "failing vs" "vs_repair vs = new_repair 4" "vs_detector vs = new_detector default_config"
  shows "\<exists>s' vs'. demo_at ok Repairing s' \<and> dv_verify s' (TaskId 0) = Some vs' \<and> failing vs' \<and>
    vs_repair vs' = new_repair 4"
proof -
  let ?i = "TaskId 0" and ?sv = "demo_services ok"
  obtain fp h p1 m tch dg where e: "step_diagnosing ?sv ?i s =
     (let s2 = log_fresh ?i ''diagnosis'' p1 s;
          od = observe_diagnosis fp h m (vs_detector vs);
          s3 = (case fst od of None \<Rightarrow> s2 | Some f \<Rightarrow> log_fresh ?i ''loop_detected''
             (JObject [(''class'', JString (finding_code f)), (''detail'', JString (describe_finding f))]) s2);
          dec = decide fp (fst od) (vs_repair vs);
          s4 = log_fresh ?i ''repair_decision'' (JObject [(''decision'', JString (describe_decision dec))]) s3
      in apply_decision ?i dec (vs\<lparr>vs_touched := tch, vs_detector := snd od, vs_pending := Some dg\<rparr>) s4)"
    by (simp add: step_diagnosing_def take_verify_cached [where vs = vs and s = s and i = ?i, OF v] case_prod_beta Let_def)
  let ?d = "snd (observe_diagnosis fp h m (new_detector default_config))"
  let ?vs = "vs\<lparr>vs_touched := tch, vs_detector := ?d, vs_pending := Some dg\<rparr>"
  let ?u = "log_fresh ?i ''repair_decision'' (JObject [(''decision'', JString (describe_decision Continue))])
      (log_fresh ?i ''diagnosis'' p1 s)"
  have "step_diagnosing ?sv ?i s = move_to ?i Repairing (put_verify_state ?i ?vs ?u)"
    using f(2,3) observe_fresh [of fp h m] by (simp add: e Let_def decide_fresh apply_decision_def)
  then have it: "snd (run_iteration ?sv ?i None s) = snd (move_to ?i Repairing (put_verify_state ?i ?vs ?u))"
    using round_of(7) [of ?i Diagnosing s ?sv None] at by (simp add: demo_at_def)
  have "demo_at ok Repairing (snd (move_to ?i Repairing (put_verify_state ?i ?vs ?u)))"
    by (rule demo_move [OF at it]) (use at in \<open>simp_all add: demo_at_def can_transition_to_def\<close>)
  then show ?thesis
    using f by (intro exI [of _ "snd (move_to ?i Repairing (put_verify_state ?i ?vs ?u))"] exI [of _ ?vs])
      (simp add: failing_def)
qed

lemma demo_repairing:
  "\<exists>s vs. demo_at False Repairing s \<and> dv_verify s (TaskId 0) = Some vs \<and> failing vs \<and> vs_repair vs = new_repair 4"
proof -
  obtain s where s: "demo_at False Verifying s" "dv_verify s = Map.empty" "dull (TaskId 0) s"
    using demo_verifying by blast
  then obtain s' vs where s': "demo_at False Diagnosing s'" "dv_verify s' (TaskId 0) = Some vs" "failing vs"
      "vs_repair vs = new_repair 4" "vs_detector vs = new_detector default_config"
    using demo_checked [OF s(1)] by (auto simp: failing_def)
  show ?thesis by (rule demo_diagnosed [OF s'])
qed

lemma demo_asks:
  "\<exists>s vs. demo_at False WaitingForUser s \<and> dv_verify s (TaskId 0) = Some vs \<and> failing vs \<and>
     length (rl_attempts (vs_repair vs)) = 1"
proof -
  let ?i = "TaskId 0" and ?sv = "demo_services False"
  obtain s0 vs where s0: "demo_at False Repairing s0" "dv_verify s0 ?i = Some vs" "failing vs"
      "vs_repair vs = new_repair 4"
    using demo_repairing by blast
  obtain s where at: "demo_at False Repairing s" and ans: "answer_is ask_c s" and v: "dv_verify s ?i = Some vs"
    using demo_says [OF s0(1), of ask_c] s0(2) by auto
  have r: "ready ?i Repairing s" "calm ?i s" using at by (auto simp: demo_at_def)
  then obtain t where t: "get_task ?i (dv_tasks s) = Inr t" by (auto simp: ready_def)
  let ?s2 = "snd (draw (snd (draw s)))"
  obtain role sid e turn k x where e: "step_repairing ?sv ?i s =
      then_do (call_model ?sv ?i role sid e x turn (log_entry ?i k ?s2)) (repair_action ?sv ?i sid vs)"
    and k: "issued_tool_call k = None"
    by (simp add: step_repairing_def calm_none [OF r(2)] take_verify_cached [where vs = vs and s = s and i = ?i, OF v] case_prod_beta Let_def)
  have g: "get_task ?i (dv_tasks (log_entry ?i k ?s2)) = Inr t"
    using t by (simp add: log_entry_def snd_draw)
  obtain p where p: "call_model ?sv ?i role sid e x turn (log_entry ?i k ?s2) = (Inr (fst (wd_rest (dv_world s))),
     log_entry ?i (EffectCompleted e sid ''model_completion'' p) (log_fresh ?i ''context_retrieved'' JNull (log_entry ?i k ?s2)))"
    using call_demo [OF g] by fastforce
  let ?w = "log_entry ?i (EffectCompleted e sid ''model_completion'' p) (log_fresh ?i ''context_retrieved'' JNull (log_entry ?i k ?s2))"
  obtain a where it: "snd (run_iteration ?sv ?i None s) = snd (move_to ?i WaitingForUser
      (put_verify_state ?i (vs\<lparr>vs_repair := record_attempt a (vs_repair vs)\<rparr>) (journal_repair_attempt ?i sid a ?w)))"
    using round_of(8) [OF r(1), of ?sv None] ans by (simp add: e p repair_action_def Let_def answer_is_def)
  let ?u = "put_verify_state ?i (vs\<lparr>vs_repair := record_attempt a (vs_repair vs)\<rparr>) (journal_repair_attempt ?i sid a ?w)"
  have "demo_at False WaitingForUser (snd (move_to ?i WaitingForUser ?u))"
    by (rule demo_move [OF at it]) (use r k in \<open>simp_all add: journal_attempt_unfold calm_log can_transition_to_def\<close>)
  then show ?thesis
    using s0(3,4) by (intro exI [of _ "snd (move_to ?i WaitingForUser ?u)"]) (simp add: failing_def new_repair_def)
qed

lemma demo_answers:
  assumes "demo_at ok WaitingForUser s"
  shows "demo_at ok Implementing (snd (respond_to_user (TaskId 0) a s))"
proof -
  let ?i = "TaskId 0"
  let ?u = "log_fresh ?i ''user_response'' (JObject [(''answer'', JString a)]) s"
  have r: "ready ?i WaitingForUser s" using assms by (simp add: demo_at_def)
  then have "snd (respond_to_user ?i a s) = snd (move_to ?i Implementing ?u)"
    by (auto simp: respond_to_user_def ready_def get_state_def)
  moreover have "ready ?i Implementing (snd (move_to ?i Implementing ?u))"
    using move_ready [of ?i WaitingForUser ?u Implementing] r by (simp add: can_transition_to_def)
  moreover have "reachable_driver (demo_services ok) (snd (respond_to_user ?i a s))"
    using assms reach_step [OF _ ds_answer] by (auto simp: demo_at_def)
  ultimately show ?thesis using assms by (simp add: demo_at_def)
qed

lemma demo_evaluate: "\<exists>prompt. fst (evaluate now (demo_request ctx) (new_engine m)) = Ask prompt"
  by (cases m) (simp_all add: evaluate_def find_covering_def new_engine_def effective_mode_def decide_default_def
      demo_request_def shell_decision_def)

lemma demo_pending:
  "\<exists>s vs p. reachable_driver (demo_services False) s \<and> in_state (TaskId 0) WaitingForPermission s \<and>
     dv_verify s (TaskId 0) = Some vs \<and> failing vs \<and> pending_tool_call (TaskId 0) (dv_tasks s) = Some p \<and>
     pc_tool p = ''run'' \<and> snd (wd_rest (dv_world s)) = 0"
proof -
  let ?i = "TaskId 0" and ?sv = "demo_services False"
  obtain s0 vs where s0: "demo_at False WaitingForUser s0" "dv_verify s0 ?i = Some vs" "failing vs"
    using demo_asks by blast
  obtain s1 where s1: "demo_at False WaitingForUser s1" "answer_is run_c s1" "dv_verify s1 ?i = Some vs"
    "snd (wd_rest (dv_world s1)) = 0"
  proof -
    let ?s = "s0\<lparr>dv_world := (dv_world s0)\<lparr>wd_rest := (run_c, 0)\<rparr>\<rparr>"
    show ?thesis
      by (rule that [of ?s]) (use s0 in \<open>auto simp: demo_at_def answer_is_def intro: reach_step ds_world\<close>)
  qed
  define s where "s = snd (respond_to_user ?i [] s1)"
  have at: "demo_at False Implementing s" unfolding s_def by (rule demo_answers [OF s1(1)])
  have w: "dv_world s = dv_world s1" "dv_verify s = dv_verify s1"
    by (simp_all add: s_def respond_to_user_def split: sum.split)
  have ans: "answer_is run_c s" "dv_verify s ?i = Some vs" "snd (wd_rest (dv_world s)) = 0"
    using s1 by (simp_all add: answer_is_def w)
  have r: "ready ?i Implementing s" "calm ?i s" "dv_engine s = new_engine Manual" using at by (auto simp: demo_at_def)
  then obtain t where t: "get_task ?i (dv_tasks s) = Inr t" by (auto simp: ready_def)
  let ?s2 = "snd (draw (snd (draw s)))"
  obtain role sid e turn k where e: "step_implementing ?sv ?i s =
      then_do (call_model ?sv ?i role sid e [] turn (log_entry ?i k ?s2)) (act_on ?sv ?i sid)"
    by (simp add: step_implementing_def calm_none [OF r(2)] case_prod_beta Let_def)
  have g: "get_task ?i (dv_tasks (log_entry ?i k ?s2)) = Inr t"
    using t by (simp add: log_entry_def snd_draw)
  obtain p where p: "call_model ?sv ?i role sid e [] turn (log_entry ?i k ?s2) = (Inr (fst (wd_rest (dv_world s))),
     log_entry ?i (EffectCompleted e sid ''model_completion'' p) (log_fresh ?i ''context_retrieved'' JNull (log_entry ?i k ?s2)))"
    using call_demo [OF g] by fastforce
  let ?w = "log_entry ?i (EffectCompleted e sid ''model_completion'' p) (log_fresh ?i ''context_retrieved'' JNull (log_entry ?i k ?s2))"
  have it: "snd (run_iteration ?sv ?i None s) = snd (issue_and_execute_tool_call ?sv ?i sid ''run'' JNull ?w)"
    using round_of(5) [OF r(1), of ?sv None] ans(1) by (simp add: e p act_on_def answer_is_def)
  let ?rq = "demo_request \<lparr>tc_task = ?i, tc_step = sid\<rparr>"
  have reg: "sv_registry ?sv ''run'' = Some demo_tool" by simp
  have pre: "tl_preflight demo_tool \<lparr>tc_task = ?i, tc_step = sid\<rparr> JNull = Inr ?rq" by (simp add: demo_tool_def)
  have ev: "\<And>now. \<exists>prompt. fst (evaluate now ?rq (dv_engine ?w)) = Ask prompt"
    using demo_evaluate by (simp add: r(3))
  obtain u eff prompt where u: "issue_and_execute_tool_call ?sv ?i sid ''run'' JNull ?w =
      observe_tool_result ?i sid eff (AskRequired prompt (demo_request \<lparr>tc_task = ?i, tc_step = sid\<rparr>)) u"
    and v: "same_view (log_entry ?i (EffectIssued eff sid ''tool'' (JObject [(''input'', JNull), (''tool'', JString ''run''),
      (''tool_invocation_id'', JString (effect_text ?w eff))])) ?w) u"
    and wr: "wd_rest (dv_world u) = wd_rest (dv_world ?w)"
    and ku: "kinds ?i u = kinds ?i ?w @ [EffectIssued eff sid ''tool'' (JObject [(''input'', JNull), (''tool'', JString ''run''),
      (''tool_invocation_id'', JString (effect_text ?w eff))])]"
    by (rule asked_view [OF reg pre ev])
  let ?pc = "\<lparr>pc_effect = eff, pc_step = sid, pc_tool = ''run'', pc_input = JNull\<rparr>"
  obtain q where o: "snd (run_iteration ?sv ?i None s) =
      snd (move_to ?i WaitingForPermission (log_entry ?i (EffectCompleted eff sid ''permission_ask'' q) u))"
    unfolding it u by (simp add: observe_tool_result_def)
  let ?t = "log_entry ?i (EffectCompleted eff sid ''permission_ask'' q) u"
  let ?s' = "snd (move_to ?i WaitingForPermission ?t)"
  have "in_state ?i Implementing ?t" using ready_in [OF r(1)] same_viewD(5) [OF v] by simp
  then have st: "in_state ?i WaitingForPermission ?s'"
    using move_to_legal [of ?i Implementing ?t WaitingForPermission] by (simp add: can_transition_to_def)
  have "call_status (kinds ?i u) = Some (?pc, None)"
    by (simp only: ku call_status_snoc) (simp add: json_get_def)
  then have "call_status (kinds ?i ?t) = Some (?pc, Some ''permission_ask'')"
    by (simp add: call_status_snoc)
  then have pend: "pending_tool_call ?i (dv_tasks ?s') = Some ?pc"
    by (simp add: status_pending status_move)
  have "reachable_driver ?sv ?s'"
    using at reach_step [OF _ ds_iterate [of ?sv s ?i None]] o by (simp add: demo_at_def)
  moreover have "dv_verify ?s' ?i = Some vs" using ans(2) same_viewD(1) [OF v] by simp
  moreover have "snd (wd_rest (dv_world ?s')) = 0" using ans(3) wr by simp
  ultimately show ?thesis using st pend s0(3) by (intro exI [of _ ?s'] exI [of _ vs] exI [of _ ?pc]) simp
qed

section \<open>The properties at this run\<close>





theorem approval_strands_verified_task_witness:
  "\<exists>s e s'. reachable_driver (demo_services False) s \<and>
     resolve_permission_scoped (demo_services False) (TaskId 0) None ApproveOnce s = (Inl (AgTask e), s') \<and>
     in_state (TaskId 0) WaitingForPermission s' \<and> snd (wd_rest (dv_world s)) = 0 \<and> snd (wd_rest (dv_world s')) = 1 \<and>
     (\<forall>req dec. resolve_permission_scoped (demo_services False) (TaskId 0) req dec s' =
        (Inl (NoPendingToolCall (TaskId 0)), s'))"
proof -
  let ?i = "TaskId 0" and ?sv = "demo_services False"
  obtain s vs p where s: "reachable_driver ?sv s" "in_state ?i WaitingForPermission s" "dv_verify s ?i = Some vs"
      "pending_tool_call ?i (dv_tasks s) = Some p" "pc_tool p = ''run''" "snd (wd_rest (dv_world s)) = 0"
    using demo_pending by blast
  have reg: "sv_registry ?sv (pc_tool p) = Some demo_tool" using s(5) by simp
  have pc: "prompt_current s p None" by (simp add: prompt_current_def)
  have pre: "tl_preflight demo_tool \<lparr>tc_task = ?i, tc_step = pc_step p\<rparr> (pc_input p) =
      Inr (demo_request \<lparr>tc_task = ?i, tc_step = pc_step p\<rparr>)" by (simp add: demo_tool_def)
  have ap: "ApproveOnce \<noteq> DenyCall" by simp
  from approval_strands_verified_task [OF s(2,4) pc reg ap pre s(3)] s(1,6) show ?thesis
    by (auto simp: demo_tool_def)
qed



end
