(* ===== verification/App_Correct.thy ===== *)
theory App_Correct
  imports App_Runtime Driver_Demo Task_Cascade
begin

text \<open>
  The runtime's operations composed with the driver: what resuming does to a task whose cancellation
  was requested while nothing was driving it, and the concrete runs at which the properties of
  \<open>App_Runtime\<close> are instantiated.
\<close>

section \<open>Resuming a cancelled task\<close>

lemma store_after_transition:
  "store_ok s \<Longrightarrow> store_ok (snd (transition i to s))"
  by (rule transition_ok)

lemma transition_length [simp]: "length (tasks (snd (transition i to s))) = length (tasks s)"
  by (cases "get_task i s")
    (auto simp: transition_unfold mid_transition_def frame update_row_def split: if_splits option.splits)

lemma paused_origin:
  assumes "store_ok s" and "get_task i s = Inr t" and "tk_state t = Paused"
  obtains p where "tk_paused_from t = Some p" and "p \<noteq> Paused" and "\<not> is_terminal p"
proof -
  from get_task_row [OF assms(1,2)] obtain r where "row_ok r" "tk_state t = row_state r"
    "tk_paused_from t = Option.bind (tr_paused_from r) state_from_text" by metis
  with assms(3) that show ?thesis by (auto simp: row_ok_def)
qed

lemma request_signal_tasks:
  assumes "store_ok s" and "get_task i s = Inr t" and "length (tasks s) < n"
  obtains s' where "request_signal n c i s = Some (Inr (), s')" and "get_task i s' = Inr (t\<lparr>tk_signal := Some c\<rparr>)"
    and "length (tasks s') = length (tasks s)"
  using request_signal_done [OF assms, of c] assms(2) by force

lemma resumed:
  assumes ok: "store_ok (dv_tasks (rt_driver rt))" and t: "get_task i (dv_tasks (rt_driver rt)) = Inr t"
    and st: "tk_state t = Paused" and sg: "tk_signal t = Some CancelRequested"
    and n: "length (tasks (dv_tasks (rt_driver rt))) < n"
  shows "\<exists>rt' t'. resume_task n i rt = Some (Inr (), rt') \<and> rt_spawned rt' = rt_spawned rt @ [i] \<and>
    get_task i (dv_tasks (rt_driver rt')) = Inr t' \<and> tk_signal t' = Some CancelRequested \<and>
    tk_paused_from t = Some (tk_state t') \<and> tk_state t' \<noteq> Paused \<and> \<not> is_terminal (tk_state t')"
proof -
  let ?s = "dv_tasks (rt_driver rt)"
  obtain p where p: "tk_paused_from t = Some p" "p \<noteq> Paused" "\<not> is_terminal p"
    using paused_origin [OF ok t st] .
  have "transition_check t p = None" using st p by (simp add: transition_check_def edge_from_Paused)
  then obtain s1 t1 where s1: "transition i p ?s = (Inr (), s1)" "get_task i s1 = Inr t1" "tk_state t1 = p"
    using get_task_transition [OF t] by blast
  have ok1: "store_ok s1" using store_after_transition [OF ok, of i p] s1(1) by simp
  have "length (tasks s1) = length (tasks ?s)" using transition_length [of i p ?s] s1(1) by simp
  with n obtain s2 where s2: "request_signal n CancelRequested i s1 = Some (Inr (), s2)"
      "get_task i s2 = Inr (t1\<lparr>tk_signal := Some CancelRequested\<rparr>)"
    using request_signal_tasks [OF ok1 s1(2), of n CancelRequested] by auto
  have rc: "recover_task_if_active i ?s = (Inr False, ?s)"
    using t st by (simp add: recover_task_if_active_def is_stable_without_a_driver_def)
  have "resume_task n i rt = Some (Inr (), spawn_driver i (rt\<lparr>rt_driver := (rt_driver rt)\<lparr>dv_tasks := s2\<rparr>\<rparr>))"
    using p by (simp add: resume_task_def with_tasks_def rc task_status_def t st sg s1 cancel_task_def
        request_cancel_def s2 spawn_if_live_def)
  then show ?thesis using s1(3) s2(2) p by (auto simp: spawn_driver_def)
qed

text \<open>C8: a cancel request survives a pause. Cancelling a paused task only records the request, since
  no driver runs and the table has no way from \<open>Paused\<close> but back. Resuming the task brings it to the
  state it was paused from with the request still pending and spawns a driver, and that driver's first
  round ends in \<open>Cancelled\<close>, whatever the model, the tools or the plan would have done.\<close>

theorem resume_honours_cancel:
  assumes "reachable_store (dv_tasks (rt_driver rt))" and "get_task i (dv_tasks (rt_driver rt)) = Inr t"
    and "tk_state t = Paused" and "tk_signal t = Some CancelRequested"
    and "length (tasks (dv_tasks (rt_driver rt))) < n"
  shows "\<exists>rt'. resume_task n i rt = Some (Inr (), rt') \<and> rt_spawned rt' = rt_spawned rt @ [i] \<and>
    (\<exists>s' t'. drive (Suc m) sv show_error i (rt_driver rt') = Some s' \<and>
       get_task i (dv_tasks s') = Inr t' \<and> tk_state t' = Cancelled)"
proof -
  obtain rt' t' where rt': "resume_task n i rt = Some (Inr (), rt')" "rt_spawned rt' = rt_spawned rt @ [i]"
      "get_task i (dv_tasks (rt_driver rt')) = Inr t'" "tk_signal t' = Some CancelRequested"
      "tk_state t' \<noteq> Paused" "\<not> is_terminal (tk_state t')"
    using resumed [OF reachable_store_ok [OF assms(1)] assms(2-5)] by blast
  let ?s = "rt_driver rt'"
  have "transition_check t' Cancelled = None" using rt' by (simp add: transition_check_def edge_to_Cancelled)
  then obtain s2 t2 where m: "move_to i Cancelled ?s = (Inr (), s2)" "get_task i (dv_tasks s2) = Inr t2"
      "tk_state t2 = Cancelled"
    using move_to_done [OF rt'(3)] by blast
  have "run_iteration sv i None ?s = (Inr FlowReturn, s2)"
    using rt'(3,4) m by (simp add: run_iteration_def get_state_def and_return_def)
  then have "drive (Suc m) sv show_error i ?s = Some (release_mode i s2)" by (simp add: drive_def)
  with rt' m show ?thesis by (auto simp: release_mode_def)
qed

section \<open>Concrete runs\<close>

definition sample_runtime :: "task_store \<Rightarrow> (completion \<times> nat) runtime" where
  "sample_runtime ts = \<lparr>rt_driver = (demo_driver finish_c)\<lparr>dv_tasks := ts\<rparr>, rt_spawned = [],
     rt_workspace = WorkspaceId 0\<rparr>"

text \<open>A task that was paused while it was being understood, and then cancelled.\<close>

lemma sample_cancelled_while_paused:
  "\<exists>ts t. reachable_store ts \<and> get_task (TaskId 0) ts = Inr t \<and> tk_state t = Paused \<and>
     tk_signal t = Some CancelRequested \<and> length (tasks ts) = 1"
proof -
  let ?s = "snd (transition (TaskId 0) Paused sample_store2)"
  obtain u where u: "get_task (TaskId 0) sample_store2 = Inr u" "tk_state u = Understanding"
    using sample_task2 by blast
  then have c: "transition_check u Paused = None" by (simp add: transition_check_def edge_to_Paused)
  from get_task_transition [OF u(1) c] obtain v where v: "get_task (TaskId 0) ?s = Inr v" "tk_state v = Paused"
    by auto
  have r: "reachable_store ?s" using sample_reachable(1) step_transition
    unfolding reachable_store_def by (meson rtranclp.rtrancl_into_rtrancl)
  have "task_ids sample_store2 = [TaskId 0]" by code_simp
  then have "length (tasks sample_store2) = 1" by (metis length_map task_ids_def length_Cons list.size(3) One_nat_def)
  then have l: "length (tasks ?s) = 1" by simp
  obtain ts where ts: "request_signal 2 CancelRequested (TaskId 0) ?s = Some (Inr (), ts)"
      "get_task (TaskId 0) ts = Inr (v\<lparr>tk_signal := Some CancelRequested\<rparr>)" "length (tasks ts) = 1"
    using request_signal_tasks [OF reachable_store_ok [OF r] v(1), of 2] l by auto
  have r': "reachable_store ts" using r step_signal [OF ts(1)]
    unfolding reachable_store_def by (meson rtranclp.rtrancl_into_rtrancl)
  show ?thesis using r' ts(2,3) v(2) by auto
qed

theorem resume_honours_cancel_witness:
  "\<exists>rt rt' s' t'. resume_task 5 (TaskId 0) rt = Some (Inr (), rt') \<and> rt_spawned rt' = [TaskId 0] \<and>
     drive 1 (demo_services True) (\<lambda>_. []) (TaskId 0) (rt_driver rt') = Some s' \<and>
     get_task (TaskId 0) (dv_tasks s') = Inr t' \<and> tk_state t' = Cancelled"
proof -
  obtain ts t where ts: "reachable_store ts" "get_task (TaskId 0) ts = Inr t" "tk_state t = Paused"
      "tk_signal t = Some CancelRequested" "length (tasks ts) = 1"
    using sample_cancelled_while_paused by blast
  let ?rt = "sample_runtime ts"
  have "dv_tasks (rt_driver ?rt) = ts" "rt_spawned ?rt = []" by (simp_all add: sample_runtime_def)
  with resume_honours_cancel [of ?rt "TaskId 0" t 5 0 "demo_services True" "\<lambda>_. []"] ts show ?thesis by auto
qed

text \<open>A driver whose context retrieval fails: the task it was driving ends up failed.\<close>

definition broken_services :: "(completion \<times> nat) services" where
  "broken_services = demo_services True\<lparr>sv_assemble := (\<lambda>_ _. Inl (MalformedCompletion ''no index''))\<rparr>"

lemma edge_Understanding: "can_transition_to Understanding Discovery" "Understanding \<noteq> Paused"
  by (simp_all add: can_transition_to_def)


end
