(* ===== verification/Ast_Edit.thy ===== *)
theory Ast_Edit
  imports Text Vfs_Path "HOL-Library.Multiset"
begin

text \<open>
  The syntax-directed edits of \<open>crates/valyria-edit/src/ast.rs\<close>. What the parser answers is the record
  \<open>language\<close>: whether a text parses without errors, the symbols it defines, the spans of an identifier
  and of a query's captures (\<open>valyria-lang\<close>, over tree-sitter). A result is \<open>None\<close> where the code
  panics, on a slice that does not lie at character boundaries.
\<close>

section \<open>Errors and the parser\<close>

datatype edit_error =
    EditVfs vfs_error
  | EditIo real_path string
  | PreconditionFailed "content_hash option" "content_hash option"
  | AnchorNotFound
  | AnchorAmbiguous nat
  | NoExistingContent
  | PatchParse string
  | PatchApply string
  | SizeGuardTripped nat
  | MissingReason
  | NotYetImplemented string string
  | EditLang string
  | LanguageUnavailable path
  | SymbolNotFound string "string list"
  | SymbolAmbiguous string nat
  | QueryInvalid string
  | QueryAmbiguous nat
  | NoMatch string
  | SyntaxRegression
  | VerificationFailed string

fun edit_error_code :: "edit_error \<Rightarrow> string" where
  "edit_error_code (EditVfs _) = ''edit.vfs''"
| "edit_error_code (EditIo _ _) = ''edit.io''"
| "edit_error_code (PreconditionFailed _ _) = ''edit.precondition_failed''"
| "edit_error_code AnchorNotFound = ''edit.anchor_not_found''"
| "edit_error_code (AnchorAmbiguous _) = ''edit.anchor_ambiguous''"
| "edit_error_code NoExistingContent = ''edit.no_existing_content''"
| "edit_error_code (PatchParse _) = ''edit.patch_parse''"
| "edit_error_code (PatchApply _) = ''edit.patch_apply''"
| "edit_error_code (SizeGuardTripped _) = ''edit.size_guard_tripped''"
| "edit_error_code MissingReason = ''edit.missing_reason''"
| "edit_error_code (NotYetImplemented _ _) = ''edit.not_yet_implemented''"
| "edit_error_code (EditLang _) = ''edit.lang''"
| "edit_error_code (LanguageUnavailable _) = ''edit.language_unavailable''"
| "edit_error_code (SymbolNotFound _ _) = ''edit.symbol_not_found''"
| "edit_error_code (SymbolAmbiguous _ _) = ''edit.symbol_ambiguous''"
| "edit_error_code (QueryInvalid _) = ''edit.query_invalid''"
| "edit_error_code (QueryAmbiguous _) = ''edit.query_ambiguous''"
| "edit_error_code (NoMatch _) = ''edit.no_match''"
| "edit_error_code SyntaxRegression = ''edit.syntax_regression''"
| "edit_error_code (VerificationFailed _) = ''edit.verification_failed''"

record span =
  sp_start :: nat
  sp_end :: nat
  sp_first_line :: u32
  sp_last_line :: u32

record language =
  ln_has_errors :: "string \<Rightarrow> string + bool"
  ln_symbols :: "string \<Rightarrow> string + (string \<times> span) list"
  ln_identifiers :: "string \<Rightarrow> string \<Rightarrow> string + span list"
  ln_query :: "string \<Rightarrow> string \<Rightarrow> string \<Rightarrow> string + span list"

section \<open>Splicing\<close>

definition splice :: "string \<Rightarrow> span \<Rightarrow> string \<Rightarrow> string" where
  "splice src sp r =
     (let a = floor_char_boundary src (sp_start sp); b = max (floor_char_boundary src (sp_end sp)) a
      in take a src @ r @ drop b src)"

text \<open>Back to front: the spans sorted by decreasing start, the sort being stable.\<close>

definition splice_many :: "string \<Rightarrow> span list \<Rightarrow> string \<Rightarrow> string" where
  "splice_many src sps r =
     foldl (\<lambda>out sp. splice out sp r) src (sort_key (\<lambda>sp. - int (sp_start sp)) sps)"

text \<open>\<open>expand_to_whole_lines\<close>: its two loops. \<open>byte_ws\<close> is \<open>u8::is_ascii_whitespace\<close>.\<close>

definition byte_ws :: "char \<Rightarrow> bool" where
  "byte_ws c \<longleftrightarrow> byte_val c \<in> {9, 10, 12, 13, 32}"

fun line_start :: "string \<Rightarrow> nat \<Rightarrow> nat \<Rightarrow> nat" where
  "line_start src orig 0 = 0"
| "line_start src orig (Suc n) =
     (if src ! n = newline then Suc n
      else if \<not> byte_ws (src ! n) then orig
      else line_start src orig n)"

text \<open>On what follows the span: \<open>n\<close> is the position of its first byte.\<close>

fun line_end :: "nat \<Rightarrow> string \<Rightarrow> nat \<Rightarrow> nat" where
  "line_end orig [] n = n"
| "line_end orig (c # cs) n =
     (if c = newline then n else if \<not> byte_ws c then orig else line_end orig cs (Suc n))"

definition expand_to_whole_lines :: "string \<Rightarrow> span \<Rightarrow> span" where
  "expand_to_whole_lines src sp =
     (let a = line_start src (sp_start sp) (min (sp_start sp) (length src));
          e = min (sp_end sp) (length src);
          b = line_end (sp_end sp) (drop e src) e;
          b = (if b < length src \<and> src ! b = newline then b + 1 else b)
      in sp\<lparr>sp_start := a, sp_end := b\<rparr>)"

section \<open>Indentation\<close>

text \<open>\<open>indentation_at\<close>: the slice from the start of the line to the byte, then its leading whitespace.\<close>

definition line_slice :: "string \<Rightarrow> nat \<Rightarrow> string option" where
  "line_slice src byte = (let n = min byte (length src); a = n - length (last_line (take n src))
     in str_get src a n)"

definition indentation_at :: "string \<Rightarrow> nat \<Rightarrow> string option" where
  "indentation_at src byte = map_option (\<lambda>l. takeWhile (\<lambda>c. c \<noteq> newline) (take_ws l)) (line_slice src byte)"

definition indent_block :: "string \<Rightarrow> string \<Rightarrow> string" where
  "indent_block t indent = (case text_lines t of
     [] \<Rightarrow> []
   | [l] \<Rightarrow> l
   | l # ls \<Rightarrow> l @ [newline] @ join [newline] (map (\<lambda>x. indent @ x) ls))"

section \<open>Transformations\<close>

datatype ast_transform =
    RenameIdentifier string string
  | DeleteSymbol string
  | InsertBeforeSymbol string string
  | InsertAfterSymbol string string
  | ReplaceQueryMatch string string string bool

definition resolve_symbol_span :: "language \<Rightarrow> string \<Rightarrow> string \<Rightarrow> edit_error + span" where
  "resolve_symbol_span lang src name = (case ln_symbols lang src of
     Inl e \<Rightarrow> Inl (EditLang e)
   | Inr facts \<Rightarrow> (case filter (\<lambda>(p, _). p = name) facts of
       [] \<Rightarrow> Inl (SymbolNotFound name (map fst facts))
     | [(_, sp)] \<Rightarrow> Inr sp
     | ms \<Rightarrow> Inl (SymbolAmbiguous name (length ms))))"

definition rename_identifier :: "language \<Rightarrow> string \<Rightarrow> string \<Rightarrow> string \<Rightarrow> edit_error + string" where
  "rename_identifier lang src frm to =
     (if frm = [] then Inl (NoMatch ''an empty identifier'')
      else case ln_identifiers lang src frm of
        Inl e \<Rightarrow> Inl (EditLang e)
      | Inr sps \<Rightarrow> if sps = [] then Inl (NoMatch (''no identifier named '' @ ticked frm))
          else Inr (splice_many src sps to))"

definition replace_query_match ::
  "language \<Rightarrow> string \<Rightarrow> string \<Rightarrow> string \<Rightarrow> string \<Rightarrow> bool \<Rightarrow> edit_error + string" where
  "replace_query_match lang src query capture r all = (case ln_query lang src query capture of
     Inl e \<Rightarrow> Inl (EditLang e)
   | Inr sps \<Rightarrow>
       if sps = [] then Inl (NoMatch (''query matched nothing for capture '' @ ticked (CHR ''@'' # capture)))
       else if 1 < length sps \<and> \<not> all then Inl (QueryAmbiguous (length sps))
       else Inr (splice_many src sps r))"

fun apply_transform :: "language \<Rightarrow> string \<Rightarrow> ast_transform \<Rightarrow> (edit_error + string) option" where
  "apply_transform lang src (RenameIdentifier frm to) = Some (rename_identifier lang src frm to)"
| "apply_transform lang src (DeleteSymbol name) = (case resolve_symbol_span lang src name of
     Inl e \<Rightarrow> Some (Inl e)
   | Inr sp \<Rightarrow> Some (Inr (splice src (expand_to_whole_lines src sp) [])))"
| "apply_transform lang src (InsertBeforeSymbol name t) = (case resolve_symbol_span lang src name of
     Inl e \<Rightarrow> Some (Inl e)
   | Inr sp \<Rightarrow> map_option (\<lambda>indent. Inr (splice src (sp\<lparr>sp_end := sp_start sp\<rparr>)
       (indent_block t indent @ [newline] @ indent))) (indentation_at src (sp_start sp)))"
| "apply_transform lang src (InsertAfterSymbol name t) = (case resolve_symbol_span lang src name of
     Inl e \<Rightarrow> Some (Inl e)
   | Inr sp \<Rightarrow> map_option (\<lambda>indent. Inr (splice src (sp\<lparr>sp_start := sp_end sp\<rparr>)
       ([newline] @ indent @ indent_block t indent))) (indentation_at src (sp_start sp)))"
| "apply_transform lang src (ReplaceQueryMatch query capture r all) =
     Some (replace_query_match lang src query capture r all)"

section \<open>Many splices are one substitution\<close>

text \<open>The reference: walk the text once, from the left, and put the replacement for each span.\<close>

fun substitute :: "nat \<Rightarrow> string \<Rightarrow> span list \<Rightarrow> string \<Rightarrow> string" where
  "substitute pos src [] r = drop pos src"
| "substitute pos src (sp # sps) r =
     take (sp_start sp - pos) (drop pos src) @ r @ substitute (sp_end sp) src sps r"

text \<open>Spans in reading order that do not overlap, at character boundaries.\<close>

fun apart :: "nat \<Rightarrow> string \<Rightarrow> span list \<Rightarrow> bool" where
  "apart pos src [] = (pos \<le> length src)"
| "apart pos src (sp # sps) \<longleftrightarrow> pos \<le> sp_start sp \<and> sp_start sp \<le> sp_end sp \<and>
     is_char_boundary src (sp_start sp) \<and> is_char_boundary src (sp_end sp) \<and>
     apart (sp_end sp) src sps \<and> (\<forall>q \<in> set sps. sp_start sp < sp_start q)"

definition starts_char :: "string \<Rightarrow> bool" where
  "starts_char t \<longleftrightarrow> t = [] \<or> \<not> continuation (hd t)"

lemma apart_le: "apart pos src sps \<Longrightarrow> pos \<le> length src"
  by (induction pos src sps rule: apart.induct) auto

lemma boundary_prefix:
  assumes "is_char_boundary src n" and "n \<le> k" and "starts_char t" and "k \<le> length src"
    and "k = n \<or> n < k"
  shows "is_char_boundary (take k src @ t) n"
  using assms by (cases "n = k") (auto simp: boundary_iff nth_append starts_char_def hd_conv_nth)

lemma starts_char_at:
  assumes "is_char_boundary src n" and "starts_char t" and "starts_char src"
  shows "starts_char (take m (drop n src) @ t)"
proof (cases "m = 0 \<or> length src \<le> n")
  case False
  then show ?thesis using assms(1,3) by (cases src; auto simp: starts_char_def boundary_iff hd_append hd_drop_conv_nth)
qed (use assms(2) in auto)

lemma splice_tail:
  assumes "sp_start sp \<le> sp_end sp" and "sp_end sp \<le> k" and "k \<le> length src" and "starts_char t"
    and "is_char_boundary src (sp_start sp)" and "is_char_boundary src (sp_end sp)"
  shows "splice (take k src @ t) sp r =
    take (sp_start sp) src @ r @ take (k - sp_end sp) (drop (sp_end sp) src) @ t"
proof -
  have "is_char_boundary (take k src @ t) (sp_start sp)" "is_char_boundary (take k src @ t) (sp_end sp)"
    using assms by (auto intro!: boundary_prefix)
  then show ?thesis using assms by (simp add: splice_def Let_def max_absorb1 drop_take)
qed

lemma foldl_rev_splice:
  assumes "apart pos src sps" and "starts_char r" and "starts_char src"
  shows "foldl (\<lambda>out sp. splice out sp r) src (rev sps) =
     take pos src @ substitute pos src sps r \<and> (is_char_boundary src pos \<longrightarrow> starts_char (substitute pos src sps r))"
  using assms(1)
proof (induction sps arbitrary: pos)
  case Nil
  then show ?case using starts_char_at [of src pos "[]" "length src"] assms(3) by (simp add: starts_char_def)
next
  case (Cons sp sps)
  then have ap: "pos \<le> sp_start sp" "sp_start sp \<le> sp_end sp" "is_char_boundary src (sp_start sp)"
    "is_char_boundary src (sp_end sp)" "apart (sp_end sp) src sps" by auto
  let ?t = "substitute (sp_end sp) src sps r"
  have le: "sp_end sp \<le> length src" using apart_le [OF ap(5)] .
  from Cons.IH [OF ap(5)] ap(4) have ih: "foldl (\<lambda>out sp. splice out sp r) src (rev sps) = take (sp_end sp) src @ ?t"
    "starts_char ?t" by auto
  have "splice (take (sp_end sp) src @ ?t) sp r = take (sp_start sp) src @ r @ ?t"
    using splice_tail [OF ap(2) order_refl le ih(2) ap(3,4)] by simp
  then have "foldl (\<lambda>out sp. splice out sp r) src (rev (sp # sps)) = take (sp_start sp) src @ r @ ?t"
    by (simp add: ih)
  also have "take (sp_start sp) src = take pos src @ take (sp_start sp - pos) (drop pos src)"
    using ap(1) by (metis le_add_diff_inverse take_add)
  finally have "foldl (\<lambda>out sp. splice out sp r) src (rev (sp # sps)) =
    take pos src @ substitute pos src (sp # sps) r" by simp
  moreover have "starts_char (substitute pos src (sp # sps) r)" if "is_char_boundary src pos"
  proof -
    have "starts_char (r @ ?t)" using assms(2) ih(2) by (cases r) (auto simp: starts_char_def)
    then show ?thesis using starts_char_at [OF that _ assms(3)] by simp
  qed
  ultimately show ?case by blast
qed

lemma sort_key_rev_apart:
  assumes "apart pos src sps" and "mset ss = mset sps"
  shows "sort_key (\<lambda>sp. - int (sp_start sp)) ss = rev sps"
proof (rule sort_key_inj_key_eq)
  show "mset ss = mset (rev sps)" using assms(2) by simp
  have ap: "sorted_wrt (\<lambda>a b. sp_start a < sp_start b) sps"
    using assms(1) by (induction pos src sps rule: apart.induct) auto
  then have "sorted_wrt (<) (map sp_start sps)" by (simp add: sorted_wrt_map)
  then have "inj_on sp_start (set sps)" by (simp add: strict_sorted_iff distinct_map)
  then have "inj_on (\<lambda>sp. - int (sp_start sp)) (set sps)" by (simp add: inj_on_def)
  then show "inj_on (\<lambda>sp. - int (sp_start sp)) (set ss)"
    using mset_eq_setD [OF assms(2)] by simp
  show "sorted (map (\<lambda>sp. - int (sp_start sp)) (rev sps))"
    using ap by (induction sps) (simp_all add: sorted_append less_imp_le)
qed

text \<open>Replacing several matches at once is right. For spans in any order that do not overlap, the
  back-to-front splicing of \<open>splice_many\<close> gives exactly the text in which each of them is replaced and
  everything between them is kept.\<close>

theorem splice_many_substitutes:
  assumes "apart 0 src sps" and "mset ss = mset sps" and "starts_char src" and "starts_char r"
  shows "splice_many src ss r = substitute 0 src sps r"
  unfolding splice_many_def sort_key_rev_apart [OF assms(1,2)]
  using foldl_rev_splice [OF assms(1,4,3)] by simp

definition sample_spans :: "span list" where
  "sample_spans = [\<lparr>sp_start = 4, sp_end = 5, sp_first_line = 1, sp_last_line = 1\<rparr>,
     \<lparr>sp_start = 0, sp_end = 1, sp_first_line = 1, sp_last_line = 1\<rparr>]"

theorem splice_many_substitutes_witness:
  "splice_many ''x + x'' sample_spans ''longer'' = ''longer + longer''"
proof -
  have a: "apart 0 ''x + x'' (rev sample_spans)"
    by (simp add: sample_spans_def boundary_iff continuation_def byte_val_def)
  have r: "starts_char ''longer''" "starts_char ''x + x''"
    by (simp_all add: starts_char_def continuation_def byte_val_def)
  have "splice_many ''x + x'' sample_spans ''longer'' = substitute 0 ''x + x'' (rev sample_spans) ''longer''"
    by (rule splice_many_substitutes [OF a _ r(2,1)]) simp
  then show ?thesis by (simp add: sample_spans_def)
qed

section \<open>Nested matches\<close>

definition single_bytes :: "string \<Rightarrow> bool" where
  "single_bytes s \<longleftrightarrow> (\<forall>c \<in> set s. \<not> continuation c)"

lemma single_boundary: "single_bytes s \<Longrightarrow> is_char_boundary s i \<longleftrightarrow> i \<le> length s"
  by (auto simp: boundary_iff single_bytes_def)

lemma single_floor: "single_bytes s \<Longrightarrow> floor_char_boundary s i = min i (length s)"
  by (cases "i \<le> length s") (simp_all add: single_boundary, simp add: floor_char_boundary_def)

lemma single_bytes_simps [simp]:
  "single_bytes (s @ t) \<longleftrightarrow> single_bytes s \<and> single_bytes t"
  "single_bytes s \<Longrightarrow> single_bytes (take n s)" "single_bytes s \<Longrightarrow> single_bytes (drop n s)"
  by (auto simp: single_bytes_def dest: in_set_takeD in_set_dropD)

lemma drop_max_min: "b \<le> e \<Longrightarrow> b \<le> length t \<Longrightarrow> drop (max (min e (length t)) b) t = drop e t"
  by (cases "e \<le> length t") (simp_all add: max_def min_def)

text \<open>Replacing every match of a query is wrong when the query matches inside its own matches. If one
  captured span lies inside another, the outer one is replaced with its old end in the already changed
  text: a replacement that is shorter than the inner match then also deletes that many characters after
  the outer match, which no match covers. The spans are those the query returns, and \<open>all\<close> is set.\<close>

theorem nested_matches_eat_text:
  assumes "ln_query lang src query capture = Inr [x, y]" and "single_bytes src" and "single_bytes r"
    and "sp_start x < sp_start y" and "sp_start y \<le> sp_end y" and "sp_end y \<le> sp_end x"
    and "sp_end x \<le> length src" and "length r \<le> sp_end y - sp_start y"
  shows "apply_transform lang src (ReplaceQueryMatch query capture r True) =
    Some (Inr (take (sp_start x) src @ r @ drop (sp_end x + (sp_end y - sp_start y - length r)) src))"
proof -
  define out where "out = take (sp_start y) src @ r @ drop (sp_end y) src"
  have sort: "sort_key (\<lambda>sp. - int (sp_start sp)) [x, y] = [y, x]" using assms(4) by simp
  have inner: "splice src y r = out"
    using assms by (simp add: splice_def Let_def single_floor max_absorb1 out_def)
  have len: "sp_start x \<le> length out" using assms by (simp add: out_def)
  have "single_bytes out" using assms(2,3) by (simp add: out_def)
  then have "splice out x r = take (sp_start x) out @ r @ drop (max (min (sp_end x) (length out)) (sp_start x)) out"
    using len by (simp add: splice_def Let_def single_floor min_absorb1)
  also have "drop (max (min (sp_end x) (length out)) (sp_start x)) out = drop (sp_end x) out"
    by (rule drop_max_min) (use assms len in linarith)+
  also have "drop (sp_end x) out = drop (sp_end x + (sp_end y - sp_start y - length r)) src"
    using assms by (simp add: drop_append add.commute out_def)
  also have "take (sp_start x) out = take (sp_start x) src" using assms by (simp add: out_def)
  finally have "splice out x r = take (sp_start x) src @ r @
    drop (sp_end x + (sp_end y - sp_start y - length r)) src" .
  moreover have "splice_many src [x, y] r = splice out x r"
    unfolding splice_many_def sort by (simp add: inner)
  ultimately show ?thesis by (simp add: assms(1) replace_query_match_def)
qed

text \<open>The calls of \<open>f(f(1)); y\<close>: the outer one and the one inside it.\<close>

definition sample_language :: language where
  "sample_language = \<lparr>ln_has_errors = (\<lambda>_. Inr False), ln_symbols = (\<lambda>_. Inr []), ln_identifiers = (\<lambda>_ _. Inr []),
     ln_query = (\<lambda>_ _ _. Inr [\<lparr>sp_start = 0, sp_end = 7, sp_first_line = 1, sp_last_line = 1\<rparr>,
       \<lparr>sp_start = 2, sp_end = 6, sp_first_line = 1, sp_last_line = 1\<rparr>])\<rparr>"

theorem nested_matches_eat_text_witness:
  "apply_transform sample_language ''f(f(1)); y = 2'' (ReplaceQueryMatch ''(call_expression) @c'' ''c'' ''g'' True)
    = Some (Inr ''g = 2'')"
proof -
  let ?x = "\<lparr>sp_start = 0, sp_end = 7, sp_first_line = 1, sp_last_line = 1\<rparr>"
  let ?y = "\<lparr>sp_start = 2, sp_end = 6, sp_first_line = 1, sp_last_line = 1\<rparr>"
  have q: "ln_query sample_language ''f(f(1)); y = 2'' ''(call_expression) @c'' ''c'' = Inr [?x, ?y]"
    by (simp add: sample_language_def)
  have s: "single_bytes ''f(f(1)); y = 2''" "single_bytes ''g''"
    by (simp_all add: single_bytes_def continuation_def byte_val_def)
  from nested_matches_eat_text [OF q s] show ?thesis by simp
qed

end
