(* ===== verification/Edit_Engine.thy ===== *)
theory Edit_Engine
  imports Ast_Edit Float64 Ledger
begin

text \<open>
  The edit engine (\<open>crates/valyria-edit/src/strategy.rs\<close>, \<open>transaction.rs\<close>): the ladder of edit
  strategies and the transaction that reads a file, checks the precondition, applies a strategy, rejects
  a change that is none or that breaks the syntax, and writes atomically. The diff library (\<open>diffy\<close>) is
  the record \<open>diffs\<close>; the language registry is a partial function from paths to \<open>language\<close>s.
\<close>

section \<open>Strategies\<close>

record diffs =
  df_apply :: "string \<Rightarrow> string \<Rightarrow> (string + string) + string"  \<comment> \<open>current, diff: a parse error, an apply error, or the text\<close>
  df_create :: "string \<Rightarrow> string \<Rightarrow> string"

datatype edit_strategy =
    ExactReplacement string string
  | UnifiedDiff string
  | SymbolAware string string
  | AstStrategy ast_transform
  | WholeFile string string bool

type_synonym registry_of_languages = "path \<Rightarrow> language option"

definition edit_language :: "registry_of_languages option \<Rightarrow> path \<Rightarrow> edit_error + language" where
  "edit_language langs p = (case Option.bind langs (\<lambda>f. f p) of
     None \<Rightarrow> Inl (LanguageUnavailable p) | Some lang \<Rightarrow> Inr lang)"

definition leading_indent :: "string \<Rightarrow> nat \<Rightarrow> string option" where
  "leading_indent src byte = map_option (\<lambda>pre. take_ws (last_line pre)) (str_get src 0 (min byte (length src)))"

definition reindent_continuation_lines :: "string \<Rightarrow> string \<Rightarrow> string" where
  "reindent_continuation_lines t indent = (case text_lines t of
     [] \<Rightarrow> []
   | [l] \<Rightarrow> l
   | l # ls \<Rightarrow> l @ [newline] @ join [newline] (map (\<lambda>x. if is_blank x then [] else indent @ x) ls))"

definition shrink_percent :: "nat \<Rightarrow> nat \<Rightarrow> nat" where
  "shrink_percent before after =
     (if before = 0 \<or> before \<le> after then 0 else f64_percent (before - after) before)"

definition size_guard_min :: nat where "size_guard_min = 500"
definition size_guard_threshold :: nat where "size_guard_threshold = 90"

text \<open>The whole-file strategy's guard.\<close>

definition size_guard :: "string option \<Rightarrow> string \<Rightarrow> bool \<Rightarrow> nat option" where
  "size_guard current content force = (case current of
     None \<Rightarrow> None
   | Some c \<Rightarrow>
       if \<not> force \<and> size_guard_min \<le> length c \<and> size_guard_threshold \<le> shrink_percent (length c) (length content)
       then Some (shrink_percent (length c) (length content)) else None)"

definition replace_symbol :: "string \<Rightarrow> span \<Rightarrow> string \<Rightarrow> string option" where
  "replace_symbol current sp replacement =
     Option.bind (leading_indent current (sp_start sp)) (\<lambda>indent.
     Option.bind (str_get current 0 (sp_start sp)) (\<lambda>pre.
     map_option (\<lambda>post. pre @ reindent_continuation_lines replacement indent @ post)
       (str_get current (min (sp_end sp) (length current)) (length current))))"

fun apply_strategy ::
  "diffs \<Rightarrow> registry_of_languages option \<Rightarrow> path \<Rightarrow> string option \<Rightarrow> edit_strategy \<Rightarrow> (edit_error + string) option" where
  "apply_strategy df langs p current (ExactReplacement anchor replacement) = Some (case current of
     None \<Rightarrow> Inl NoExistingContent
   | Some c \<Rightarrow> (case count_matches anchor c of
       0 \<Rightarrow> Inl AnchorNotFound
     | Suc 0 \<Rightarrow> Inr (replace_first anchor replacement c)
     | n \<Rightarrow> Inl (AnchorAmbiguous n)))"
| "apply_strategy df langs p current (UnifiedDiff diff) = Some (case current of
     None \<Rightarrow> Inl NoExistingContent
   | Some c \<Rightarrow> (case df_apply df c diff of
       Inl (Inl e) \<Rightarrow> Inl (PatchParse e) | Inl (Inr e) \<Rightarrow> Inl (PatchApply e) | Inr t \<Rightarrow> Inr t))"
| "apply_strategy df langs p current (SymbolAware name replacement) = (case current of
     None \<Rightarrow> Some (Inl NoExistingContent)
   | Some c \<Rightarrow> (case edit_language langs p of
       Inl e \<Rightarrow> Some (Inl e)
     | Inr lang \<Rightarrow> (case resolve_symbol_span lang c name of
         Inl e \<Rightarrow> Some (Inl e)
       | Inr sp \<Rightarrow> map_option Inr (replace_symbol c sp replacement))))"
| "apply_strategy df langs p current (AstStrategy tr) = (case current of
     None \<Rightarrow> Some (Inl NoExistingContent)
   | Some c \<Rightarrow> (case edit_language langs p of
       Inl e \<Rightarrow> Some (Inl e)
     | Inr lang \<Rightarrow> apply_transform lang c tr))"
| "apply_strategy df langs p current (WholeFile content reason force) = Some (
     if is_blank reason then Inl MissingReason
     else case size_guard current content force of
       Some pct \<Rightarrow> Inl (SizeGuardTripped pct)
     | None \<Rightarrow> Inr content)"

section \<open>The transaction\<close>

datatype precondition = MustExistWithHash content_hash | MustNotExist | AnyState

record edit_request =
  er_path :: path
  er_pre :: precondition
  er_strategy :: edit_strategy

record edit_outcome =
  eo_path :: path
  eo_before_hash :: "content_hash option"
  eo_after_hash :: content_hash
  eo_diff :: string
  eo_before :: "string option"
  eo_after :: string

definition check_precondition :: "precondition \<Rightarrow> content_hash option \<Rightarrow> edit_error option" where
  "check_precondition pre actual = (case pre of
     AnyState \<Rightarrow> None
   | MustNotExist \<Rightarrow> if actual \<noteq> None then Some (PreconditionFailed None actual) else None
   | MustExistWithHash h \<Rightarrow> if actual = Some h then None else Some (PreconditionFailed (Some h) actual))"

text \<open>\<open>read_to_string\<close>: bytes that are no UTF-8 are an error too.\<close>

definition read_if_exists :: "os \<Rightarrow> disk \<Rightarrow> real_path \<Rightarrow> edit_error + string option" where
  "read_if_exists os d q = (case fs_read os d q of
     Inl None \<Rightarrow> Inr None
   | Inl (Some e) \<Rightarrow> Inl (EditIo q e)
   | Inr b \<Rightarrow> if valid_text b then Inr (Some (bytes_text b))
              else Inl (EditIo q ''stream did not contain valid UTF-8''))"

definition check_no_syntax_regression ::
  "registry_of_languages option \<Rightarrow> path \<Rightarrow> string option \<Rightarrow> string \<Rightarrow> edit_error option" where
  "check_no_syntax_regression langs p before after = (case Option.bind langs (\<lambda>f. f p) of
     None \<Rightarrow> None
   | Some lang \<Rightarrow> (case before of
       None \<Rightarrow> None
     | Some b \<Rightarrow>
         if ln_has_errors lang b \<noteq> Inr False then None
         else if ln_has_errors lang after = Inr True then Some SyntaxRegression else None))"

text \<open>\<open>EditTransaction::apply\<close>. The state is the disk and the hash cache, of which the path written is
  forgotten.\<close>

definition apply_edit ::
  "env \<Rightarrow> diffs \<Rightarrow> registry_of_languages option \<Rightarrow> edit_request \<Rightarrow> disk \<times> (real_path \<rightharpoonup> 'k)
     \<Rightarrow> ((edit_error + edit_outcome) \<times> (disk \<times> (real_path \<rightharpoonup> 'k))) option" where
  "apply_edit env df langs req w =
     (let (d, cache) = w in
      case resolve (env_os env) (env_root env) d (er_path req) of
        Inl e \<Rightarrow> Some (Inl (EditVfs e), w)
      | Inr q \<Rightarrow> (case read_if_exists (env_os env) d q of
          Inl e \<Rightarrow> Some (Inl e, w)
        | Inr current \<Rightarrow>
            (let h = map_option (\<lambda>c. env_digest env (text_bytes c)) current in
             case check_precondition (er_pre req) h of
               Some e \<Rightarrow> Some (Inl e, w)
             | None \<Rightarrow> (case apply_strategy df langs (er_path req) current (er_strategy req) of
                 None \<Rightarrow> None
               | Some (Inl e) \<Rightarrow> Some (Inl e, w)
               | Some (Inr new) \<Rightarrow>
                   if current = Some new
                   then Some (Inl (VerificationFailed ''strategy produced no change to the file''), w)
                   else case check_no_syntax_regression langs (er_path req) current new of
                     Some e \<Rightarrow> Some (Inl e, w)
                   | None \<Rightarrow> (case write_atomic (env_os env) q (text_bytes new) d of
                       (Inl e, d') \<Rightarrow> Some (Inl (EditVfs e), (d', cache))
                     | (Inr _, d') \<Rightarrow> Some (Inr \<lparr>eo_path = er_path req, eo_before_hash = h,
                         eo_after_hash = env_digest env (text_bytes new),
                         eo_diff = df_create df (case current of None \<Rightarrow> [] | Some c \<Rightarrow> c) new,
                         eo_before = current, eo_after = new\<rparr>, (d', cache(q := None))))))))"

section \<open>Strategies: what they accept and produce\<close>

text \<open>The size guard is exact in spite of its floating point. For every file below \<open>2 ^ 46\<close> bytes the
  whole-file strategy is refused for its size exactly when it is not forced, the file has at least 500
  bytes and at least nine tenths of them would go; rounding never decides.\<close>

theorem size_guard_exact:
  assumes "length c < 2 ^ 46"
  shows "size_guard (Some c) content force \<noteq> None \<longleftrightarrow>
    \<not> force \<and> 500 \<le> length c \<and> 10 * length content \<le> length c"
proof (cases "length c \<le> length content")
  case True
  then show ?thesis
    by (auto simp: size_guard_def shrink_percent_def size_guard_min_def size_guard_threshold_def)
next
  case False
  then have "90 \<le> f64_percent (length c - length content) (length c) \<longleftrightarrow>
      90 * length c \<le> 100 * (length c - length content)"
    using assms by (intro f64_percent_ge) auto
  with False show ?thesis
    by (auto simp: size_guard_def shrink_percent_def size_guard_min_def size_guard_threshold_def)
qed

theorem size_guard_exact_witness:
  "size_guard (Some (replicate 1000 CHR ''x'')) (replicate 100 CHR ''y'') False \<noteq> None \<and>
   size_guard (Some (replicate 1000 CHR ''x'')) (replicate 101 CHR ''y'') False = None"
proof -
  have "length (replicate 1000 CHR ''x'') < 2 ^ 46" by simp
  note exact = size_guard_exact [OF this]
  have "size_guard (Some (replicate 1000 CHR ''x'')) (replicate 100 CHR ''y'') False \<noteq> None"
    unfolding exact by simp
  moreover have "\<not> size_guard (Some (replicate 1000 CHR ''x'')) (replicate 101 CHR ''y'') False \<noteq> None"
    unfolding exact by simp
  ultimately show ?thesis by blast
qed

text \<open>The exact replacement puts the replacement where the first occurrence was; a later occurrence
  that does not overlap it is refused.\<close>

lemma exact_replacement_iff:
  assumes "anchor \<noteq> []"
  shows "apply_strategy df langs p (Some c) (ExactReplacement anchor r) = Some (Inr out) \<longleftrightarrow>
    (\<exists>a b. split_once anchor c = Some (a, b) \<and> split_once anchor b = None \<and> out = a @ r @ b)"
proof -
  have "(\<exists>n. count_matches anchor c = n) \<and> (count_matches anchor c = Suc 0 \<longleftrightarrow>
      (\<exists>a b. split_once anchor c = Some (a, b) \<and> split_once anchor b = None))"
    using count_one [OF assms, of c] by simp
  then show ?thesis by (auto simp: replace_first_def split: nat.splits)
qed

text \<open>C33: an exact replacement changes one place and only what the anchor names, but \<open>exactly once\<close> is
  counted without overlaps. When it succeeds the text is split by its first occurrence of the anchor,
  that occurrence is replaced, everything else is kept, and no occurrence lies in what follows it; any
  other occurrence overlaps the first one. Conversely a single occurrence is always accepted.\<close>

theorem exact_replacement_sound:
  assumes "anchor \<noteq> []"
  shows "(apply_strategy df langs p (Some c) (ExactReplacement anchor r) = Some (Inr out) \<longrightarrow>
      (\<exists>a b. c = a @ anchor @ b \<and> out = a @ r @ b \<and>
        (\<forall>u v. c = u @ anchor @ v \<longrightarrow> length a \<le> length u \<and> length u < length a + length anchor)))
    \<and> ((\<exists>!u. \<exists>v. c = u @ anchor @ v) \<longrightarrow>
      (\<exists>a b. c = a @ anchor @ b \<and>
        apply_strategy df langs p (Some c) (ExactReplacement anchor r) = Some (Inr (a @ r @ b))))"
proof (intro conjI impI)
  assume "apply_strategy df langs p (Some c) (ExactReplacement anchor r) = Some (Inr out)"
  then obtain a b where ab: "split_once anchor c = Some (a, b)" "split_once anchor b = None" "out = a @ r @ b"
    using iffD1 [OF exact_replacement_iff [OF assms]] by blast
  have c: "c = a @ anchor @ b" using split_once_eq [OF ab(1)] .
  have "length a \<le> length u \<and> length u < length a + length anchor" if "c = u @ anchor @ v" for u v
  proof -
    have "length a \<le> length u" using split_once_first [OF ab(1) that] .
    moreover have False if "length a + length anchor \<le> length u"
    proof -
      have "b = drop (length a + length anchor) u @ anchor @ v"
        using c \<open>c = u @ anchor @ v\<close> that by (metis append.assoc append_eq_conv_conj drop_append diff_is_0_eq drop0 length_append)
      with split_once_none [OF ab(2)] show False by blast
    qed
    ultimately show ?thesis by force
  qed
  with c ab(3) show "\<exists>a b. c = a @ anchor @ b \<and> out = a @ r @ b \<and>
    (\<forall>u v. c = u @ anchor @ v \<longrightarrow> length a \<le> length u \<and> length u < length a + length anchor)" by blast
next
  assume one: "\<exists>!u. \<exists>v. c = u @ anchor @ v"
  then obtain u v where uv: "c = u @ anchor @ v" by blast
  obtain a b where ab: "split_once anchor c = Some (a, b)"
    using split_once_none [of anchor c u v] uv by (cases "split_once anchor c") auto
  have c: "c = a @ anchor @ b" using split_once_eq [OF ab] .
  have "split_once anchor b = None"
  proof (rule ccontr)
    assume "split_once anchor b \<noteq> None"
    then obtain x y where "b = x @ anchor @ y" using split_once_eq by (metis option.exhaust prod.exhaust)
    then have "c = (a @ anchor @ x) @ anchor @ y" using c by simp
    with one c have "a = a @ anchor @ x" by blast
    with assms show False by simp
  qed
  with ab c show "\<exists>a b. c = a @ anchor @ b \<and>
      apply_strategy df langs p (Some c) (ExactReplacement anchor r) = Some (Inr (a @ r @ b))"
    using iffD2 [OF exact_replacement_iff [OF assms]] by blast
qed

text \<open>Overlapping occurrences are not noticed: in \<open>aaa\<close> the anchor \<open>aa\<close> occurs twice and is replaced.\<close>

definition sample_diffs :: diffs where
  "sample_diffs = \<lparr>df_apply = (\<lambda>_ _. Inl (Inl [])), df_create = (\<lambda>_ _. [])\<rparr>"

theorem exact_replacement_sound_witness:
  "apply_strategy sample_diffs None [] (Some ''aaa'') (ExactReplacement ''aa'' ''b'') = Some (Inr ''ba'') \<and>
   (\<exists>a b. ''aaa'' = a @ ''aa'' @ b \<and> ''ba'' = a @ ''b'' @ b) \<and>
   (\<exists>u v u' v'. ''aaa'' = u @ ''aa'' @ v \<and> ''aaa'' = u' @ ''aa'' @ v' \<and> u \<noteq> u')"
proof -
  have s: "split_once ''aa'' ''aaa'' = Some ([], ''a'')" "split_once ''aa'' ''a'' = None" by simp_all
  then have a: "apply_strategy sample_diffs None [] (Some ''aaa'') (ExactReplacement ''aa'' ''b'') = Some (Inr ''ba'')"
    by (subst exact_replacement_iff) auto
  with exact_replacement_sound [of "''aa''" sample_diffs None "[]" "''aaa''" "''b''" "''ba''"]
  have "\<exists>a b. ''aaa'' = a @ ''aa'' @ b \<and> ''ba'' = a @ ''b'' @ b" by blast
  moreover have "''aaa'' = [] @ ''aa'' @ ''a'' \<and> ''aaa'' = ''a'' @ ''aa'' @ []" by simp
  ultimately show ?thesis using a by blast
qed

section \<open>The transaction is all or nothing\<close>

lemma read_if_exists_Inr:
  "read_if_exists os d q = Inr c \<Longrightarrow> c = map_option bytes_text (d q) \<and> (\<forall>b. d q = Some b \<longrightarrow> valid_text b)"
  by (auto simp: read_if_exists_def fs_read_def split: option.splits if_splits)

lemma write_atomic_cases:
  "write_atomic os q b d = (r, d') \<Longrightarrow> (case r of Inl _ \<Rightarrow> d' = d | Inr _ \<Rightarrow> d' = d(q \<mapsto> b))"
  by (auto simp: write_atomic_def split: if_splits option.splits)

lemma edit_language_none [simp]: "edit_language None p = Inl (LanguageUnavailable p)"
  by (simp add: edit_language_def)

lemma apply_strategy_total: "apply_strategy df None p current st \<noteq> None"
  by (cases st; cases current) simp_all

definition precondition_holds :: "env \<Rightarrow> precondition \<Rightarrow> bytes option \<Rightarrow> bool" where
  "precondition_holds env pre b = (case pre of
     AnyState \<Rightarrow> True
   | MustNotExist \<Rightarrow> b = None
   | MustExistWithHash h \<Rightarrow> map_option (env_digest env) b = Some h)"

lemma check_precondition_ok:
  "check_precondition pre (map_option (env_digest env) b) = None \<longleftrightarrow> precondition_holds env pre b"
  by (cases pre) (auto simp: check_precondition_def precondition_holds_def)

lemma apply_edit_total: "apply_edit env df None req w \<noteq> None"
  by (cases w) (auto simp: apply_strategy_total apply_edit_def Let_def check_no_syntax_regression_def
      split: sum.splits option.splits prod.splits)

lemma edit_transaction_shape:
  "(case apply_edit env df langs req (d, cache) of
      None \<Rightarrow> langs \<noteq> None
    | Some (Inl e, w) \<Rightarrow> w = (d, cache)
    | Some (Inr o', w) \<Rightarrow> \<exists>q. resolve (env_os env) (env_root env) d (er_path req) = Inr q \<and>
        precondition_holds env (er_pre req) (d q) \<and>
        apply_strategy df langs (er_path req) (eo_before o') (er_strategy req) = Some (Inr (eo_after o')) \<and>
        eo_before o' \<noteq> Some (eo_after o') \<and>
        check_no_syntax_regression langs (er_path req) (eo_before o') (eo_after o') = None \<and>
        w = (d(q \<mapsto> text_bytes (eo_after o')), cache(q := None)) \<and>
        eo_path o' = er_path req \<and> map_option text_bytes (eo_before o') = d q \<and>
        eo_before_hash o' = map_option (env_digest env) (d q) \<and>
        eo_after_hash o' = env_digest env (text_bytes (eo_after o')))"
proof (cases "resolve (env_os env) (env_root env) d (er_path req)")
  case (Inl e)
  then show ?thesis by (simp add: apply_edit_def)
next
  case (Inr q)
  show ?thesis
  proof (cases "read_if_exists (env_os env) d q")
    case (Inl e)
    with Inr show ?thesis by (simp add: apply_edit_def)
  next
    case cur: (Inr c)
    have c: "c = map_option bytes_text (d q)" using read_if_exists_Inr [OF cur] by simp
    then have b: "map_option text_bytes c = d q" by (cases "d q") simp_all
    then have h: "map_option (\<lambda>c. env_digest env (text_bytes c)) c = map_option (env_digest env) (d q)"
      by (metis (no_types, lifting) option.map_comp comp_def option.map_cong0)
    show ?thesis
    proof (cases "check_precondition (er_pre req) (map_option (env_digest env) (d q))")
      case (Some e)
      then show ?thesis using Inr cur h by (simp add: apply_edit_def)
    next
      case None
      then have pre: "precondition_holds env (er_pre req) (d q)" by (simp add: check_precondition_ok)
      show ?thesis
        using apply_strategy_total [of df "er_path req" c "er_strategy req"] pre None b h Inr cur
        by (cases langs) (auto simp: apply_edit_def dest!: write_atomic_cases split: option.splits sum.splits prod.splits)
    qed
  qed
qed

text \<open>C12: the edit transaction. A refused edit changes neither the disk nor the cache. An accepted one
  resolved its path inside the workspace, found the file as the precondition demands (in particular with
  the very hash the caller expected), applied the strategy to what the file holds, is no silent no-op and
  did not break a file that parsed; it wrote exactly that one file with exactly the new text, forgot
  exactly its cached hash, and the outcome reports the true contents and hashes before and after. Without
  a language registry it never panics.\<close>

theorem edit_transaction_exact:
  "(case apply_edit env df langs req (d, cache) of
      None \<Rightarrow> langs \<noteq> None
    | Some (Inl e, w) \<Rightarrow> w = (d, cache)
    | Some (Inr o', w) \<Rightarrow> \<exists>q. resolve (env_os env) (env_root env) d (er_path req) = Inr q \<and>
        precondition_holds env (er_pre req) (d q) \<and>
        apply_strategy df langs (er_path req) (eo_before o') (er_strategy req) = Some (Inr (eo_after o')) \<and>
        eo_before o' \<noteq> Some (eo_after o') \<and>
        check_no_syntax_regression langs (er_path req) (eo_before o') (eo_after o') = None \<and>
        w = (d(q \<mapsto> text_bytes (eo_after o')), cache(q := None)) \<and>
        eo_path o' = er_path req \<and> map_option text_bytes (eo_before o') = d q \<and>
        eo_before_hash o' = map_option (env_digest env) (d q) \<and>
        eo_after_hash o' = env_digest env (text_bytes (eo_after o')))"
  by (rule edit_transaction_shape)

end
