(* ===== verification/Checkpoint.thy ===== *)
theory Checkpoint
  imports Ledger Plan_Model
begin

text \<open>
  Checkpoints and rollback (\<open>crates/valyria-plan/src/checkpoint.rs\<close>): \<open>capture\<close> records the hashes of
  the touched files and the length of the task's ledger; \<open>rollback\<close> reverts the later entries newest
  first and then compares every recorded hash with the disk. The ids and times the reversals draw
  are the function \<open>fresh\<close> from the number of the reversal. A \<open>BTreeMap\<close> is its sorted list of
  entries. Where the code keeps the rendered text of a ledger or VFS error, the model keeps the
  error.
\<close>

section \<open>Checkpoints\<close>

record checkpoint =
  cp_id :: checkpoint_id
  cp_task :: task_id
  cp_step :: plan_step_id
  cp_files :: "(path \<times> string option) list"
  cp_watermark :: nat
  cp_created :: timestamp

record rollback_report =
  rr_reverted :: "path list"
  rr_checkpoint :: checkpoint_id

datatype rollback_error =
    CheckpointNotFound string
  | UserModified path
  | NotRetained path
  | IntegrityCheckFailed path
  | RollbackLedger ledger_error
  | RollbackVfs vfs_error

definition parse_hex :: "string \<Rightarrow> content_hash option" where
  "parse_hex s = (case hash_from_str s of Inl _ \<Rightarrow> None | Inr h \<Rightarrow> Some h)"

definition file_hash :: "checkpoint \<Rightarrow> path \<Rightarrow> content_hash option" where
  "file_hash cp p = (case map_of (cp_files cp) p of
     Some (Some h) \<Rightarrow> parse_hex h | _ \<Rightarrow> None)"

definition capture ::
  "checkpoint_id \<Rightarrow> task_id \<Rightarrow> plan_step_id \<Rightarrow> (path \<times> content_hash option) list \<Rightarrow> nat
    \<Rightarrow> timestamp \<Rightarrow> checkpoint" where
  "capture fresh tid sid touched watermark now =
     \<lparr>cp_id = fresh, cp_task = tid, cp_step = sid,
      cp_files = btree_collect (map (\<lambda>(p, h). (p, map_option to_hex h)) touched),
      cp_watermark = watermark, cp_created = now\<rparr>"

definition current_hash :: "env \<Rightarrow> disk \<Rightarrow> path \<Rightarrow> content_hash option" where
  "current_hash env d p = (case resolve (env_os env) (env_root env) d p of
     Inl _ \<Rightarrow> None
   | Inr q \<Rightarrow> (case fs_read (env_os env) d q of Inl _ \<Rightarrow> None | Inr b \<Rightarrow> Some (env_digest env b)))"

text \<open>The \<open>for entry in since.iter().rev()\<close> loop; \<open>k\<close> counts the reversals.\<close>

fun rollback_each ::
  "env \<Rightarrow> task_id \<Rightarrow> step_id \<Rightarrow> (nat \<Rightarrow> ledger_entry_id \<times> timestamp) \<Rightarrow> nat \<Rightarrow> ledger_entry list
    \<Rightarrow> path list \<Rightarrow> ledger \<times> disk \<Rightarrow> (rollback_error + path list) \<times> (ledger \<times> disk)" where
  "rollback_each env tid sid fresh k [] reverted w = (Inr reverted, w)"
| "rollback_each env tid sid fresh k (e # es) reverted w =
     (case rollback_entry env (le_id e) (current_hash env (snd w) (le_path e)) tid sid
         (fst (fresh k)) (snd (fresh k)) w of
        (Inr _, w') \<Rightarrow> rollback_each env tid sid fresh (Suc k) es
           (if le_path e \<in> set reverted then reverted else reverted @ [le_path e]) w'
      | (Inl RollbackConflict, w') \<Rightarrow> (Inl (UserModified (le_path e)), w')
      | (Inl ContentNotRetained, w') \<Rightarrow> (Inl (NotRetained (le_path e)), w')
      | (Inl (LedgerVfs x), w') \<Rightarrow> (Inl (RollbackVfs x), w')
      | (Inl x, w') \<Rightarrow> (Inl (RollbackLedger x), w'))"

definition expected_hash :: "string option \<Rightarrow> content_hash option" where
  "expected_hash h = Option.bind h parse_hex"

definition since_entries :: "checkpoint \<Rightarrow> ledger \<Rightarrow> ledger_entry list" where
  "since_entries cp l = drop (cp_watermark cp) (entries_for_task l (cp_task cp))"

definition rollback ::
  "checkpoint \<Rightarrow> env \<Rightarrow> step_id \<Rightarrow> (nat \<Rightarrow> ledger_entry_id \<times> timestamp) \<Rightarrow> ledger \<times> disk
    \<Rightarrow> (rollback_error + rollback_report) \<times> (ledger \<times> disk)" where
  "rollback cp env sid fresh w =
     then_do (rollback_each env (cp_task cp) sid fresh 0 (rev (since_entries cp (fst w))) [] w)
       (\<lambda>reverted w'.
          (case find (\<lambda>(p, h). current_hash env (snd w') p \<noteq> expected_hash h) (cp_files cp) of
             Some (p, _) \<Rightarrow> (Inl (IntegrityCheckFailed p), w')
           | None \<Rightarrow> (Inr \<lparr>rr_reverted = reverted, rr_checkpoint = cp_id cp\<rparr>, w')))"

section \<open>What the file tools do between two checkpoints\<close>

text \<open>The effect of \<open>write_file\<close>, \<open>delete_file\<close> and \<open>move_file\<close> (\<open>crates/valyria-tools/src/tools/fs.rs\<close>)
  and of the edit tools on ledger and disk: what was on disk is hashed and retained, the file is
  changed, the change is recorded under a fresh id.\<close>

definition ledger_ids :: "ledger \<Rightarrow> ledger_entry_id set" where
  "ledger_ids l = le_id ` set (lg_entries l)"

inductive agent_change :: "env \<Rightarrow> task_id \<Rightarrow> ledger \<times> disk \<Rightarrow> ledger \<times> disk \<Rightarrow> bool" for env tid where
  change_baseline: "agent_change env tid (l, d) (record_baseline p h l, d)"
| change_write: "resolve (env_os env) (env_root env) d p = Inr q \<Longrightarrow> i \<notin> ledger_ids l \<Longrightarrow>
    record_write env tid sid None p (map_option (env_digest env) (d q)) (d q) (env_digest env c) i now l
      = (Inr j, l') \<Longrightarrow> agent_change env tid (l, d) (l', d(q \<mapsto> c))"
| change_delete: "resolve (env_os env) (env_root env) d p = Inr q \<Longrightarrow> i \<notin> ledger_ids l \<Longrightarrow>
    d q = Some b \<Longrightarrow>
    record_delete env tid sid None p (env_digest env b) (Some b) i now l = (Inr j, l')
      \<Longrightarrow> agent_change env tid (l, d) (l', d(q := None))"
| change_move: "resolve (env_os env) (env_root env) d p = Inr q \<Longrightarrow> i \<notin> ledger_ids l \<Longrightarrow>
    resolve (env_os env) (env_root env) d p2 = Inr q2 \<Longrightarrow> i2 \<notin> ledger_ids l \<Longrightarrow> i2 \<noteq> i \<Longrightarrow>
    d q2 = None \<Longrightarrow> d q = Some b \<Longrightarrow>
    record_delete env tid sid None p (env_digest env b) (Some b) i now l = (Inr j, l1) \<Longrightarrow>
    record_write env tid sid None p2 None None (env_digest env b) i2 now2 l1 = (Inr j2, l')
      \<Longrightarrow> agent_change env tid (l, d) (l', d(q := None, q2 \<mapsto> b))"

section \<open>Unwinding\<close>

definition real :: "env \<Rightarrow> path \<Rightarrow> real_path option" where
  "real env p = (case resolve (env_os env) (env_root env) Map.empty p of
     Inl _ \<Rightarrow> None | Inr q \<Rightarrow> Some q)"

lemma resolve_real:
  assumes "smooth env"
  shows "resolve (env_os env) (env_root env) d p = Inr q \<longleftrightarrow> real env p = Some q"
  using assms unfolding smooth_def real_def
  by (auto simp: resolve_plain split: option.splits sum.splits)

lemma resolve_real_None:
  assumes "smooth env"
  shows "(\<exists>x. resolve (env_os env) (env_root env) d p = Inl x) \<longleftrightarrow> real env p = None"
  using resolve_real [OF assms] by (metis Inl_Inr_False not_Some_eq sum.exhaust)

lemma current_hash_smooth:
  assumes "smooth env"
  shows "current_hash env d p = Option.bind (real env p) (disk_hashes env d)"
proof (cases "real env p")
  case None
  then show ?thesis using resolve_real_None [OF assms, of d p] by (auto simp: current_hash_def)
next
  case (Some q)
  then have "resolve (env_os env) (env_root env) d p = Inr q" using resolve_real [OF assms] by simp
  with Some assms show ?thesis
    by (auto simp: current_hash_def fs_read_def smooth_def disk_hashes_def split: option.splits)
qed

text \<open>Walking the hashes on disk back over entries given newest first.\<close>

fun unwind :: "env \<Rightarrow> ledger_entry list \<Rightarrow> (real_path \<rightharpoonup> content_hash)
    \<Rightarrow> (real_path \<rightharpoonup> content_hash) option" where
  "unwind env [] v = Some v"
| "unwind env (e # es) v = (case real env (le_path e) of
     None \<Rightarrow> None
   | Some q \<Rightarrow> if v q = le_after e then unwind env es (v(q := le_before e)) else None)"

fun reverts :: "task_id \<Rightarrow> step_id \<Rightarrow> (nat \<Rightarrow> ledger_entry_id \<times> timestamp) \<Rightarrow> nat
    \<Rightarrow> ledger_entry list \<Rightarrow> ledger_entry list" where
  "reverts tid sid fresh k [] = []"
| "reverts tid sid fresh k (e # es) =
     revert_entry e tid sid (fst (fresh k)) (snd (fresh k)) # reverts tid sid fresh (Suc k) es"

lemma entry_of_append: "lg_entries l' = lg_entries l @ xs \<Longrightarrow> entry_of l i = Some e \<Longrightarrow> entry_of l' i = Some e"
  by (simp add: entry_of_def find_append)

lemma readable_mono: "(\<And>h. lg_blobs l h \<noteq> None \<Longrightarrow> lg_blobs l' h \<noteq> None) \<Longrightarrow> readable l e \<Longrightarrow> readable l' e"
  by (auto simp: readable_def split: option.splits)

lemma rollback_each_unwinds:
  assumes "smooth env"
  shows "blobs_ok (env_digest env) (lg_blobs l) \<Longrightarrow> unwind env es (disk_hashes env d) = Some v \<Longrightarrow>
    \<forall>e \<in> set es. entry_of l (le_id e) = Some e \<and> readable l e \<Longrightarrow>
    \<exists>rv l' d'. rollback_each env tid sid fresh k es reverted (l, d) = (Inr rv, (l', d'))
      \<and> disk_hashes env d' = v"
proof (induction es arbitrary: k reverted l d)
  case Nil
  then show ?case by simp
next
  case (Cons e es)
  from Cons.prems(2) obtain q where q: "real env (le_path e) = Some q"
    and cur: "disk_hashes env d q = le_after e"
    and u: "unwind env es ((disk_hashes env d)(q := le_before e)) = Some v"
    by (auto split: option.splits if_splits)
  have res: "resolve (env_os env) (env_root env) d (le_path e) = Inr q"
    using q resolve_real [OF assms] by simp
  let ?l = "modify_state (le_path e) (restored_state e)
    (pushed env None (revert_entry e tid sid (fst (fresh k)) (snd (fresh k))) l)"
  obtain d1 where r: "rollback_entry env (le_id e) (le_after e) tid sid (fst (fresh k)) (snd (fresh k)) (l, d)
      = (Inr (), (?l, d1))" and f: "restore_file env l e q d = (Inr (), d1)"
    using rollback_entry_succeeds [OF assms _ _ res] Cons.prems(3) by fastforce
  have h1: "disk_hashes env d1 = (disk_hashes env d)(q := le_before e)"
    using restore_file_ok [OF Cons.prems(1) f] by simp
  have "\<forall>x \<in> set es. entry_of ?l (le_id x) = Some x \<and> readable ?l x"
    using Cons.prems(3) by (auto intro: entry_of_append readable_mono [of l])
  moreover have "blobs_ok (env_digest env) (lg_blobs ?l)" using Cons.prems(1) by simp
  moreover have "current_hash env d (le_path e) = le_after e"
    using current_hash_smooth [OF assms] q cur by simp
  ultimately show ?case
    using Cons.IH [of ?l d1] u h1 r by (simp add: fun_upd_def)
qed

section \<open>A rollback undoes what the agent did\<close>

definition since_ok :: "env \<Rightarrow> task_id \<Rightarrow> ledger \<times> disk \<Rightarrow> ledger \<times> disk \<Rightarrow> bool" where
  "since_ok env tid w0 w \<longleftrightarrow> blobs_ok (env_digest env) (lg_blobs (fst w))
     \<and> distinct (map le_id (lg_entries (fst w)))
     \<and> (\<exists>es. entries_for_task (fst w) tid = entries_for_task (fst w0) tid @ es
         \<and> (\<forall>e \<in> set es. readable (fst w) e)
         \<and> unwind env (rev es) (disk_hashes env (snd w)) = Some (disk_hashes env (snd w0)))"

lemma since_ok_push:
  assumes w: "since_ok env tid w0 (l, d)" and ents: "lg_entries l' = lg_entries l @ [e]"
    and e: "le_task e = tid" "le_id e \<notin> ledger_ids l" "readable l' e"
    and b: "blobs_ok (env_digest env) (lg_blobs l')" "\<And>h. lg_blobs l h \<noteq> None \<Longrightarrow> lg_blobs l' h \<noteq> None"
    and q: "real env (le_path e) = Some q" "disk_hashes env d' = (disk_hashes env d)(q := le_after e)"
      "le_before e = disk_hashes env d q"
  shows "since_ok env tid w0 (l', d')"
proof -
  obtain es where es: "entries_for_task l tid = entries_for_task (fst w0) tid @ es"
    "\<forall>x \<in> set es. readable l x"
    "unwind env (rev es) (disk_hashes env d) = Some (disk_hashes env (snd w0))"
    using w by (auto simp: since_ok_def)
  have "entries_for_task l' tid = entries_for_task (fst w0) tid @ (es @ [e])"
    using es(1) ents e(1) by (simp add: entries_for_task_def)
  moreover have "\<forall>x \<in> set (es @ [e]). readable l' x"
    using es(2) e(3) b(2) by (auto intro: readable_mono [of l])
  moreover have "unwind env (rev (es @ [e])) (disk_hashes env d') = Some (disk_hashes env (snd w0))"
    using es(3) q by simp
  moreover have "distinct (map le_id (lg_entries l'))"
    using w ents e(2) by (auto simp: since_ok_def ledger_ids_def)
  ultimately show ?thesis using b(1) unfolding since_ok_def fst_conv snd_conv by blast
qed

lemma put_ok_mono: "fs h = Some y \<Longrightarrow> \<exists>z. put_ok dg c fs h = Some z"
  by (auto simp: put_ok_def)

lemma put_ok_at [simp]: "\<exists>y. put_ok dg c fs (path_for (dg c)) = Some y"
  by (auto simp: put_ok_def blob_exists_def)

lemma since_ok_write:
  assumes "since_ok env tid w0 (l, d)" and "smooth env" and "real env p = Some q" and "i \<notin> ledger_ids l"
    and "before = disk_hashes env d q" and "content = d q"
    and "record_write env tid sid call p before content after i now l = (Inr j, l')"
    and "disk_hashes env d' = (disk_hashes env d)(q \<mapsto> after)"
  shows "since_ok env tid w0 (l', d')"
proof -
  have l': "l' = set_agent_state p before (Written after) (pushed env content
      (new_entry tid sid call p before (Some after) None i now (content \<noteq> None)) l)"
    using assms(7) unfolding record_write_smooth [OF assms(2)] by auto
  have b: "blobs_ok (env_digest env) (lg_blobs l)" using assms(1) by (simp add: since_ok_def)
  show ?thesis
    by (rule since_ok_push [OF assms(1), of l'
          "new_entry tid sid call p before (Some after) None i now (content \<noteq> None)" q])
      (use assms b in \<open>auto simp: l' readable_def disk_hashes_def put_ok_mono blobs_ok_put
        split: option.splits\<close>)
qed

lemma since_ok_delete:
  assumes "since_ok env tid w0 (l, d)" and "smooth env" and "real env p = Some q" and "i \<notin> ledger_ids l"
    and "d q = Some c"
    and "record_delete env tid sid call p (env_digest env c) (Some c) i now l = (Inr j, l')"
    and "disk_hashes env d' = (disk_hashes env d)(q := None)"
  shows "since_ok env tid w0 (l', d')"
proof -
  have l': "l' = set_agent_state p (Some (env_digest env c)) Deleted (pushed env (Some c)
      (new_entry tid sid call p (Some (env_digest env c)) None None i now True) l)"
    using assms(6) unfolding record_delete_smooth [OF assms(2)] by auto
  have b: "blobs_ok (env_digest env) (lg_blobs l)" using assms(1) by (simp add: since_ok_def)
  show ?thesis
    by (rule since_ok_push [OF assms(1), of l'
          "new_entry tid sid call p (Some (env_digest env c)) None None i now True" q])
      (use assms b in \<open>auto simp: l' readable_def disk_hashes_def put_ok_mono blobs_ok_put\<close>)
qed

lemma since_ok_change:
  assumes "agent_change env tid w w'" and s: "smooth env" and "since_ok env tid w0 w"
  shows "since_ok env tid w0 w'"
  using assms(1,3)
proof (cases rule: agent_change.cases)
  case (change_baseline l d p h)
  moreover have "readable (record_baseline p h l) e \<longleftrightarrow> readable l e" for e
    by (simp add: readable_def split: option.splits)
  ultimately show ?thesis using assms(3) by (simp add: since_ok_def entries_for_task_def)
next
  case (change_write d p q i l sid c now j l')
  then show ?thesis
    using since_ok_write [OF _ s, of tid w0 l d p q i _ _ sid None "env_digest env c" now j l'] assms(3)
    by (auto simp: resolve_real [OF s] disk_hashes_def [of env d q])
next
  case (change_delete d p q i l b sid now j l')
  then show ?thesis
    using since_ok_delete [OF _ s, of tid w0 l d p q i b sid None now j l'] assms(3)
    by (auto simp: resolve_real [OF s])
next
  case (change_move d p q i l p2 q2 i2 b sid now j l1 now2 j2 l')
  have ids: "ledger_ids l1 = insert i (ledger_ids l)"
    using change_move(10) unfolding record_delete_smooth [OF s] by (auto simp: ledger_ids_def)
  have 1: "since_ok env tid w0 (l1, d(q := None))"
    using since_ok_delete [OF _ s, of tid w0 l d p q i b sid None now j l1] assms(3) change_move
    by (auto simp: resolve_real [OF s])
  have "q2 \<noteq> q" using change_move by auto
  then show ?thesis
    using since_ok_write [OF 1 s, of p2 q2 i2 None None sid None "env_digest env b" now2 j2 l'] change_move ids
    by (auto simp: resolve_real [OF s] disk_hashes_def [of _ _ q2])
qed

lemma since_ok_changes:
  "(agent_change env tid)\<^sup>*\<^sup>* w w' \<Longrightarrow> smooth env \<Longrightarrow> since_ok env tid w0 w \<Longrightarrow> since_ok env tid w0 w'"
  by (induction rule: rtranclp_induct) (auto intro: since_ok_change)

lemma entry_of_distinct:
  "distinct (map le_id (lg_entries l)) \<Longrightarrow> e \<in> set (lg_entries l) \<Longrightarrow> entry_of l (le_id e) = Some e"
proof (induction "lg_entries l" arbitrary: l)
  case (Cons x xs)
  have "entry_of l i = (if le_id x = i then Some x else entry_of (l\<lparr>lg_entries := xs\<rparr>) i)" for i
    by (simp add: entry_of_def flip: Cons.hyps(2))
  then show ?case
    using Cons.hyps(1) [of "l\<lparr>lg_entries := xs\<rparr>"] Cons.prems
    by (auto simp flip: Cons.hyps(2))
qed simp

lemma rollback_undoes:
  assumes "smooth env" and "blobs_ok (env_digest env) (lg_blobs l0)"
    and "distinct (map le_id (lg_entries l0))" and "\<forall>b. length (env_digest env b) = 32"
    and "(agent_change env tid)\<^sup>*\<^sup>* (l0, d0) (l, d)"
  shows "\<exists>rep l' d'. rollback (capture cid tid ps (map (\<lambda>p. (p, current_hash env d0 p)) touched)
        (length (entries_for_task l0 tid)) now) env sid fresh (l, d) = (Inr rep, (l', d'))
      \<and> disk_hashes env d' = disk_hashes env d0 \<and> (inj (env_digest env) \<longrightarrow> d' = d0)"
proof -
  let ?cp = "capture cid tid ps (map (\<lambda>p. (p, current_hash env d0 p)) touched)
        (length (entries_for_task l0 tid)) now"
  have "since_ok env tid (l0, d0) (l0, d0)"
    using assms(2,3) by (auto simp: since_ok_def)
  then have inv: "since_ok env tid (l0, d0) (l, d)"
    using since_ok_changes assms(1,5) by blast
  then obtain es where app: "entries_for_task l tid = entries_for_task l0 tid @ es"
    and rd: "\<forall>e \<in> set es. readable l e"
    and u: "unwind env (rev es) (disk_hashes env d) = Some (disk_hashes env d0)"
    by (auto simp: since_ok_def)
  have "set (entries_for_task l tid) \<subseteq> set (lg_entries l)" by (auto simp: entries_for_task_def)
  then have sub: "set es \<subseteq> set (lg_entries l)" using app by simp
  have es: "since_entries ?cp l = es" using app by (simp add: since_entries_def capture_def)
  have "\<forall>e \<in> set (rev es). entry_of l (le_id e) = Some e \<and> readable l e"
    using sub rd entry_of_distinct [of l] inv by (auto simp: since_ok_def)
  moreover have "blobs_ok (env_digest env) (lg_blobs l)" using inv by (simp add: since_ok_def)
  ultimately obtain rv l' d' where run: "rollback_each env tid sid fresh 0 (rev es) [] (l, d) = (Inr rv, (l', d'))"
    and h: "disk_hashes env d' = disk_hashes env d0"
    using rollback_each_unwinds [OF assms(1) _ u] by blast
  have cur: "current_hash env d' p = current_hash env d0 p" for p
    by (simp add: current_hash_smooth [OF assms(1)] h)
  have "expected_hash (map_option to_hex (current_hash env d0 p)) = current_hash env d0 p" for p
    using assms(4) by (cases "current_hash env d0 p")
      (auto simp: expected_hash_def parse_hex_def current_hash_smooth [OF assms(1)] disk_hashes_def
        bind_eq_Some_conv)
  then have "\<forall>x \<in> set (cp_files ?cp). current_hash env d' (fst x) = expected_hash (snd x)"
    by (auto simp: capture_def cur dest!: set_btree_collect)
  then have "find (\<lambda>(p, h). current_hash env d' p \<noteq> expected_hash h) (cp_files ?cp) = None"
    by (auto simp: find_None_iff_set)
  then have "rollback ?cp env sid fresh (l, d) = (Inr \<lparr>rr_reverted = rv, rr_checkpoint = cp_id ?cp\<rparr>, (l', d'))"
    using run es by (simp add: rollback_def capture_def)
  moreover have "d' = d0" if "inj (env_digest env)"
    using h option.inj_map [OF that] by (auto simp: disk_hashes_def fun_eq_iff inj_def)
  ultimately show ?thesis using h by blast
qed

text \<open>Take a checkpoint of any files, let the agent then write, delete and move files in any
  order, and roll back: if nobody else touched the files (and no file operation fails, and there
  are no symbolic links), the rollback succeeds and every file of the workspace has the hash it had
  when the checkpoint was taken - under a collision-free digest, the very same bytes.\<close>

theorem rollback_restores:
  assumes "smooth env" and "blobs_ok (env_digest env) (lg_blobs l0)"
    and "distinct (map le_id (lg_entries l0))" and "\<forall>b. length (env_digest env b) = 32"
    and "(agent_change env tid)\<^sup>*\<^sup>* (l0, d0) (l, d)"
  shows "\<exists>rep l' d'. rollback (capture cid tid ps (map (\<lambda>p. (p, current_hash env d0 p)) touched)
        (length (entries_for_task l0 tid)) now) env sid fresh (l, d) = (Inr rep, (l', d'))
      \<and> disk_hashes env d' = disk_hashes env d0 \<and> (inj (env_digest env) \<longrightarrow> d' = d0)"
  using assms by (rule rollback_undoes)

section \<open>A second rollback\<close>

lemma rollback_each_ConsE:
  assumes "rollback_each env tid sid fresh k (e # es) rv w = (Inr rv', w')"
  obtains w1 rv1 where
    "rollback_entry env (le_id e) (current_hash env (snd w) (le_path e)) tid sid
       (fst (fresh k)) (snd (fresh k)) w = (Inr (), w1)"
    "rollback_each env tid sid fresh (Suc k) es rv1 w1 = (Inr rv', w')"
  using assms by (auto split: prod.splits sum.splits ledger_error.splits)

lemma rollback_each_effect:
  assumes "smooth env"
  shows "rollback_each env tid sid fresh k es rv (l, d) = (Inr rv', (l', d')) \<Longrightarrow>
    blobs_ok (env_digest env) (lg_blobs l) \<Longrightarrow> \<forall>e \<in> set es. entry_of l (le_id e) = Some e \<Longrightarrow>
    lg_entries l' = lg_entries l @ reverts tid sid fresh k es
    \<and> (es \<noteq> [] \<longrightarrow> (\<exists>q. real env (le_path (last es)) = Some q
        \<and> disk_hashes env d' q = le_before (last es)))"
proof (induction es arbitrary: k rv l d)
  case Nil
  then show ?case by simp
next
  case (Cons e es)
  obtain w1 rv1 where run: "rollback_entry env (le_id e) (current_hash env d (le_path e)) tid sid
       (fst (fresh k)) (snd (fresh k)) (l, d) = (Inr (), w1)"
    and rest: "rollback_each env tid sid fresh (Suc k) es rv1 w1 = (Inr rv', (l', d'))"
    using Cons.prems(1) by (rule rollback_each_ConsE) simp
  obtain e' q d1 where e': "entry_of l (le_id e) = Some e'"
    and q: "resolve (env_os env) (env_root env) d (le_path e') = Inr q"
    and f: "restore_file env l e' q d = (Inr (), d1)"
    and w1: "w1 = (modify_state (le_path e') (restored_state e')
        (pushed env None (revert_entry e' tid sid (fst (fresh k)) (snd (fresh k))) l), d1)"
    by (rule rollback_entry_cases [of env "le_id e" "current_hash env d (le_path e)" tid sid
        "fst (fresh k)" "snd (fresh k)" l d]) (use run in auto)
  have ee: "e' = e" using e' Cons.prems(3) by simp
  let ?l = "modify_state (le_path e) (restored_state e)
        (pushed env None (revert_entry e tid sid (fst (fresh k)) (snd (fresh k))) l)"
  have keep: "\<forall>x \<in> set es. entry_of ?l (le_id x) = Some x"
    using Cons.prems(3) by (auto intro: entry_of_append)
  have blobs: "blobs_ok (env_digest env) (lg_blobs ?l)" using Cons.prems(2) by simp
  note IH = Cons.IH [OF rest [unfolded w1 ee] blobs keep]
  have "real env (le_path e) = Some q" using q resolve_real [OF assms] ee by simp
  moreover have "disk_hashes env d1 q = le_before e"
    using restore_file_ok [OF Cons.prems(2) f] ee by simp
  ultimately show ?case using IH rest w1 ee by (cases es) auto
qed

lemma reverts_ids: "map le_id (reverts tid sid fresh k es) = map (\<lambda>j. fst (fresh j)) [k..<k + length es]"
  by (induction es arbitrary: k) (simp_all add: revert_entry_def upt_conv_Cons del: upt_Suc)

lemma reverts_task: "filter (\<lambda>e. le_task e = tid) (reverts tid sid fresh k es) = reverts tid sid fresh k es"
  by (induction es arbitrary: k) (simp_all add: revert_entry_def)

lemma reverts_append:
  "reverts tid sid fresh k (es @ fs) = reverts tid sid fresh k es @ reverts tid sid fresh (k + length es) fs"
  by (induction es arbitrary: k) simp_all

lemma length_reverts [simp]: "length (reverts tid sid fresh k es) = length es"
  by (induction es arbitrary: k) simp_all

lemma rollback_InrD:
  "rollback cp env sid fresh w = (Inr rep, w') \<Longrightarrow> \<exists>rv. rollback_each env (cp_task cp) sid fresh 0
     (rev (since_entries cp (fst w))) [] w = (Inr rv, w')"
  by (auto simp: rollback_def elim!: then_doE split: option.splits)

lemma since_member: "e \<in> set (since_entries cp l) \<Longrightarrow> e \<in> set (lg_entries l) \<and> le_task e = cp_task cp"
  by (auto simp: since_entries_def entries_for_task_def dest: in_set_dropD)

text \<open>After a successful rollback that undid a write, neither the same checkpoint nor any earlier
  one of the task can be rolled back to: the reversal is itself a ledger entry whose previous
  content was not retained, so the next rollback refuses at once and changes nothing.\<close>

theorem rollback_twice_refused:
  assumes "smooth env" and "blobs_ok (env_digest env) (lg_blobs l)"
    and "distinct (map le_id (lg_entries l))"
    and "inj (\<lambda>k. fst (fresh k))" and "\<forall>k. fst (fresh k) \<notin> ledger_ids l"
    and "rollback cp env sid fresh (l, d) = (Inr rep, (l1, d1))"
    and "since_entries cp l = e # es" and "le_after e \<noteq> None"
    and "cp_task cp2 = cp_task cp" and "cp_watermark cp2 \<le> cp_watermark cp"
  shows "rollback cp2 env sid2 fresh2 (l1, d1) = (Inl (NotRetained (le_path e)), (l1, d1))"
proof -
  let ?rs = "reverts (cp_task cp) sid fresh 0 (rev (e # es))"
  obtain rv where run: "rollback_each env (cp_task cp) sid fresh 0 (rev (e # es)) [] (l, d) = (Inr rv, (l1, d1))"
    using rollback_InrD [OF assms(6)] assms(7) by auto
  have "\<forall>x \<in> set (rev (e # es)). entry_of l (le_id x) = Some x"
    using since_member [of _ cp l] assms(3,7) by (auto intro: entry_of_distinct)
  from rollback_each_effect [OF assms(1) run assms(2) this]
  obtain q where l1: "lg_entries l1 = lg_entries l @ ?rs"
    and q: "real env (le_path e) = Some q" "disk_hashes env d1 q = le_before e"
    by auto
  define r where "r = revert_entry e (cp_task cp) sid (fst (fresh (length es))) (snd (fresh (length es)))"
  have rs: "?rs = reverts (cp_task cp) sid fresh 0 (rev es) @ [r]"
    by (simp add: reverts_append r_def)
  have task: "entries_for_task l1 (cp_task cp) = entries_for_task l (cp_task cp) @ ?rs"
    by (simp add: entries_for_task_def l1 reverts_task del: reverts.simps rev.simps)
  have "cp_watermark cp < length (entries_for_task l (cp_task cp))"
    using arg_cong [OF assms(7), of length] by (simp add: since_entries_def)
  then obtain xs where since: "since_entries cp2 l1 = xs @ [r]"
    unfolding since_entries_def assms(9) task rs using assms(10) by simp
  have "distinct (map le_id (lg_entries l1))"
    unfolding l1 map_append reverts_ids distinct_append
  proof (intro conjI)
    have "inj_on (\<lambda>j. fst (fresh j)) (set [0..<0 + length (rev (e # es))])"
      using assms(4) by (rule inj_on_subset) simp
    then show "distinct (map (\<lambda>j. fst (fresh j)) [0..<0 + length (rev (e # es))])"
      unfolding distinct_map by (intro conjI distinct_upt)
    show "set (map le_id (lg_entries l)) \<inter> set (map (\<lambda>j. fst (fresh j)) [0..<0 + length (rev (e # es))]) = {}"
      using assms(5) unfolding ledger_ids_def by (auto simp: image_iff) metis
  qed (rule assms(3))
  moreover have "r \<in> set (lg_entries l1)" unfolding l1 rs by simp
  ultimately have look: "entry_of l1 (le_id r) = Some r" by (rule entry_of_distinct)
  have cur: "current_hash env d1 (le_path e) = le_before e"
    by (simp add: current_hash_smooth [OF assms(1)] q)
  have res: "resolve (env_os env) (env_root env) d1 (le_path e) = Inr q"
    using q(1) resolve_real [OF assms(1)] by simp
  obtain h where "le_after e = Some h" using assms(8) by auto
  then have "rollback_entry env (le_id r) (le_before e) (cp_task cp2) sid2 (fst (fresh2 0))
      (snd (fresh2 0)) (l1, d1) = (Inl ContentNotRetained, (l1, d1))"
    using look res by (simp add: rollback_entry_def r_def revert_entry_def restore_file_def)
  then show ?thesis
    using cur by (simp add: rollback_def since r_def revert_entry_def)
qed

section \<open>A refused rollback\<close>

lemma rollback_each_append:
  "rollback_each env tid sid fresh k (xs @ ys) rv w =
     (case rollback_each env tid sid fresh k xs rv w of
        (Inl x, w') \<Rightarrow> (Inl x, w')
      | (Inr rv', w') \<Rightarrow> rollback_each env tid sid fresh (k + length xs) ys rv' w')"
  by (induction xs arbitrary: k rv w) (auto split: prod.splits sum.splits ledger_error.splits)

text \<open>A rollback that meets a file somebody else changed refuses with the path of the newest such
  entry - after it has reverted every newer entry. Those reversals stay: the disk is left as the
  newer entries' undoing made it, not as it was, and the ledger has grown by one entry for each.\<close>

theorem rollback_refusal_exact:
  assumes "smooth env" and "blobs_ok (env_digest env) (lg_blobs l)"
    and "distinct (map le_id (lg_entries l))"
    and "rev (since_entries cp l) = newer @ e # older"
    and "unwind env newer (disk_hashes env d) = Some v" and "\<forall>x \<in> set newer. readable l x"
    and "real env (le_path e) = Some q" and "v q \<noteq> le_after e"
  shows "\<exists>l' d'. rollback cp env sid fresh (l, d) = (Inl (UserModified (le_path e)), (l', d'))
    \<and> disk_hashes env d' = v
    \<and> lg_entries l' = lg_entries l @ reverts (cp_task cp) sid fresh 0 newer"
proof -
  have mem: "x \<in> set (lg_entries l)" if "x \<in> set (newer @ e # older)" for x
    using that since_member [of x cp l] unfolding assms(4) [symmetric] by simp
  have look: "\<forall>x \<in> set newer. entry_of l (le_id x) = Some x"
    using mem entry_of_distinct [OF assms(3)] by simp
  then obtain rv l' d' where run: "rollback_each env (cp_task cp) sid fresh 0 newer [] (l, d) = (Inr rv, (l', d'))"
    and v: "disk_hashes env d' = v"
    using rollback_each_unwinds [OF assms(1,2,5)] assms(6) by blast
  have l': "lg_entries l' = lg_entries l @ reverts (cp_task cp) sid fresh 0 newer"
    using rollback_each_effect [OF assms(1) run assms(2) look] by simp
  have "entry_of l (le_id e) = Some e" using mem entry_of_distinct [OF assms(3)] by simp
  then have "entry_of l' (le_id e) = Some e" by (rule entry_of_append [OF l'])
  moreover have "current_hash env d' (le_path e) \<noteq> le_after e"
    using assms(7,8) v by (simp add: current_hash_smooth [OF assms(1)])
  ultimately have "rollback cp env sid fresh (l, d) = (Inl (UserModified (le_path e)), (l', d'))"
    by (simp add: rollback_def assms(4) rollback_each_append run rollback_entry_def)
  then show ?thesis using v l' by blast
qed

section \<open>Concrete runs\<close>

definition demo_hash :: "bytes \<Rightarrow> content_hash" where
  "demo_hash b = take 32 (b @ replicate 32 0)"

definition demo32 :: env where
  "demo32 = demo_env\<lparr>env_digest := demo_hash\<rparr>"

lemma demo32_simps [simp]:
  "env_digest demo32 = demo_hash" "env_blob demo32 = calm_blobs" "env_os demo32 = calm_os"
  "env_root demo32 = WorkspaceRoot [''w'']"
  by (simp_all add: demo32_def)

lemma smooth_demo32 [simp]: "smooth demo32"
  by (simp add: smooth_def)

lemma length_demo_hash [simp]: "length (demo_hash b) = 32"
  by (simp add: demo_hash_def)

lemma blobs_ok_empty [simp]: "blobs_ok dg Map.empty"
  by (simp add: blobs_ok_def)

lemma new_ledger_simps [simp]:
  "lg_entries (new_ledger fs) = []" "lg_blobs (new_ledger fs) = fs" "lg_baselines (new_ledger fs) = Map.empty"
  by (simp_all add: new_ledger_def)

lemma real_demo32 [simp]: "real demo32 [Normal n] = Some [''w'', n]"
  by (simp add: real_def resolve_plain is_absolute_def normalize_relative_def)

text \<open>The file \<open>a\<close> holds \<open>[1]\<close>; the agent writes \<open>[2]\<close>, then creates \<open>b\<close>.\<close>

definition demo_start :: disk where
  "demo_start = [[''w'', ''a''] \<mapsto> [1]]"

definition demo_first :: ledger where
  "demo_first = snd (record_write demo32 (TaskId 1) (StepId 1) None [Normal ''a''] (Some (demo_hash [1]))
     (Some [1]) (demo_hash [2]) (LedgerEntryId 7) 0 (new_ledger Map.empty))"

definition demo_second :: ledger where
  "demo_second = snd (record_write demo32 (TaskId 1) (StepId 1) None [Normal ''b''] None None
     (demo_hash [3]) (LedgerEntryId 8) 0 demo_first)"

definition entry_a :: ledger_entry where
  "entry_a = new_entry (TaskId 1) (StepId 1) None [Normal ''a''] (Some (demo_hash [1]))
     (Some (demo_hash [2])) None (LedgerEntryId 7) 0 True"

definition entry_b :: ledger_entry where
  "entry_b = new_entry (TaskId 1) (StepId 1) None [Normal ''b''] None
     (Some (demo_hash [3])) None (LedgerEntryId 8) 0 False"

lemma demo_first_simps:
  "lg_entries demo_first = [entry_a]" "lg_blobs demo_first = put_ok demo_hash [1] Map.empty"
  by (simp_all add: demo_first_def record_write_smooth entry_a_def)

lemma demo_second_simps:
  "lg_entries demo_second = [entry_a, entry_b]" "lg_blobs demo_second = put_ok demo_hash [1] Map.empty"
  by (simp_all add: demo_second_def record_write_smooth demo_first_simps entry_b_def)

lemma demo_change:
  "(agent_change demo32 (TaskId 1))\<^sup>*\<^sup>* (new_ledger Map.empty, demo_start)
     (demo_first, demo_start([''w'', ''a''] \<mapsto> [2]))"
proof (rule r_into_rtranclp, rule change_write)
  show "resolve (env_os demo32) (env_root demo32) demo_start [Normal ''a''] = Inr [''w'', ''a'']"
    using resolve_real [OF smooth_demo32] by simp
  show "record_write demo32 (TaskId 1) (StepId 1) None [Normal ''a'']
      (map_option (env_digest demo32) (demo_start [''w'', ''a''])) (demo_start [''w'', ''a''])
      (env_digest demo32 [2]) (LedgerEntryId 7) 0 (new_ledger Map.empty)
      = (Inr (LedgerEntryId 7), demo_first)"
    by (simp add: demo_start_def demo_first_def record_write_smooth)
qed (simp add: ledger_ids_def)

definition demo_cp :: checkpoint where
  "demo_cp = capture (CheckpointId 1) (TaskId 1) (PlanStepId ''s'')
     (map (\<lambda>p. (p, current_hash demo32 demo_start p)) [[Normal ''a'']])
     (length (entries_for_task (new_ledger Map.empty) (TaskId 1))) 0"

definition demo_fresh :: "nat \<Rightarrow> ledger_entry_id \<times> timestamp" where
  "demo_fresh k = (LedgerEntryId (100 + k), 5)"

lemma demo_rollback:
  "\<exists>rep l' d'. rollback demo_cp demo32 (StepId 2) demo_fresh
      (demo_first, demo_start([''w'', ''a''] \<mapsto> [2])) = (Inr rep, (l', d'))"
  using rollback_undoes [OF _ _ _ _ demo_change, where cid = "CheckpointId 1" and ps = "PlanStepId ''s''"
      and touched = "[[Normal ''a'']]" and now = 0 and sid = "StepId 2" and fresh = demo_fresh]
  by (auto simp: demo_cp_def)

theorem rollback_restores_witness:
  "\<exists>rep l' d'. rollback demo_cp demo32 (StepId 2) demo_fresh
      (demo_first, demo_start([''w'', ''a''] \<mapsto> [2])) = (Inr rep, (l', d'))
    \<and> disk_hashes demo32 d' = disk_hashes demo32 demo_start"
  using rollback_restores [OF _ _ _ _ demo_change, where cid = "CheckpointId 1" and ps = "PlanStepId ''s''"
      and touched = "[[Normal ''a'']]" and now = 0 and sid = "StepId 2" and fresh = demo_fresh]
  by (auto simp: demo_cp_def)

theorem rollback_twice_refused_witness:
  "\<exists>rep l1 d1. rollback demo_cp demo32 (StepId 2) demo_fresh
      (demo_first, demo_start([''w'', ''a''] \<mapsto> [2])) = (Inr rep, (l1, d1))
    \<and> rollback demo_cp demo32 (StepId 3) demo_fresh (l1, d1) = (Inl (NotRetained [Normal ''a'']), (l1, d1))"
proof -
  obtain rep l1 d1 where r: "rollback demo_cp demo32 (StepId 2) demo_fresh
      (demo_first, demo_start([''w'', ''a''] \<mapsto> [2])) = (Inr rep, (l1, d1))"
    using demo_rollback by blast
  have s: "since_entries demo_cp demo_first = [entry_a]"
    by (simp add: since_entries_def demo_cp_def capture_def entries_for_task_def demo_first_simps entry_a_def)
  have b: "blobs_ok (env_digest demo32) (lg_blobs demo_first)"
    by (simp add: demo_first_simps blobs_ok_put)
  have "rollback demo_cp demo32 (StepId 3) demo_fresh (l1, d1) = (Inl (NotRetained (le_path entry_a)), (l1, d1))"
    by (rule rollback_twice_refused [OF smooth_demo32 b _ _ _ r s])
      (auto simp: demo_first_simps inj_def demo_fresh_def ledger_ids_def, simp_all add: entry_a_def)
  with r show ?thesis by (auto simp: entry_a_def)
qed

theorem rollback_refusal_exact_witness:
  "\<exists>l' d'. rollback demo_cp demo32 (StepId 2) demo_fresh
      (demo_second, [[''w'', ''a''] \<mapsto> [9], [''w'', ''b''] \<mapsto> [3]])
        = (Inl (UserModified [Normal ''a'']), (l', d'))
    \<and> disk_hashes demo32 d' = [[''w'', ''a''] \<mapsto> demo_hash [9]]"
proof -
  let ?d = "[[''w'', ''a''] \<mapsto> [9], [''w'', ''b''] \<mapsto> [3]] :: disk"
  have s: "rev (since_entries demo_cp demo_second) = [entry_b] @ entry_a # []"
    by (simp add: since_entries_def demo_cp_def capture_def entries_for_task_def demo_second_simps
        entry_a_def entry_b_def)
  have e: "disk_hashes demo32 Map.empty = Map.empty" by (simp add: disk_hashes_def fun_eq_iff)
  have u: "unwind demo32 [entry_b] (disk_hashes demo32 ?d) = Some [[''w'', ''a''] \<mapsto> demo_hash [9]]"
    by (simp add: entry_b_def e fun_eq_iff)
  have b: "blobs_ok (env_digest demo32) (lg_blobs demo_second)"
    by (simp add: demo_second_simps blobs_ok_put)
  have h: "demo_hash [9] \<noteq> demo_hash [2]" by (simp add: demo_hash_def)
  show ?thesis
    using rollback_refusal_exact [OF smooth_demo32 b _ s u, where q = "[''w'', ''a'']"
        and sid = "StepId 2" and fresh = demo_fresh] h
    by (auto simp: demo_second_simps entry_a_def entry_b_def readable_def)
qed

end
