(* ===== verification/File_Tools.thy ===== *)
theory File_Tools
  imports Edit_Engine Tool_Runtime Checkpoint
begin

text \<open>
  The file tools (\<open>crates/valyria-tools/src/tools/fs.rs\<close>): \<open>read_file\<close>, \<open>write_file\<close>, \<open>edit_file\<close>,
  \<open>delete_file\<close>, \<open>move_file\<close> and \<open>list_directory\<close>, over the change ledger, the disk and the hash cache.
  Entry ids and times are a stream, of which the world counts what was drawn. The tools build their
  transactions without a language registry, as the code does.
\<close>

section \<open>The world of the tools\<close>

record 'k file_world =
  fw_ledger :: ledger
  fw_disk :: disk
  fw_cache :: "real_path \<rightharpoonup> 'k"
  fw_drawn :: nat

text \<open>What is not the tools' own code: the hash of a JSON input, the diff library, the stream, the texts
  of errors, \<open>rename\<close>, and the listing of a directory.\<close>

record file_env =
  fe_env :: env
  fe_hash :: "json \<Rightarrow> content_hash"
  fe_diffs :: diffs
  fe_fresh :: "nat \<Rightarrow> ledger_entry_id \<times> timestamp"
  fe_show_edit :: "edit_error \<Rightarrow> string"
  fe_show_vfs :: "vfs_error \<Rightarrow> string"
  fe_show_ledger :: "ledger_error \<Rightarrow> string"
  fe_show_io :: "string option \<Rightarrow> string"
  fe_rename_err :: "disk \<Rightarrow> real_path \<Rightarrow> real_path \<Rightarrow> string option"
  fe_list :: "bool \<Rightarrow> disk \<Rightarrow> real_path \<Rightarrow> tool_error + string list"

type_synonym ('k, 'a) file_op = "'k file_world \<Rightarrow> (tool_error + 'a) \<times> 'k file_world"

definition vfs_fault :: "file_env \<Rightarrow> vfs_error \<Rightarrow> tool_error" where
  "vfs_fault fe e = ToolOther ''tools.vfs'' (''vfs error: '' @ fe_show_vfs fe e)"

definition edit_fault :: "file_env \<Rightarrow> edit_error \<Rightarrow> tool_error" where
  "edit_fault fe e = ToolOther ''tools.edit'' (''edit error: '' @ fe_show_edit fe e)"

definition ledger_fault :: "file_env \<Rightarrow> ledger_error \<Rightarrow> tool_error" where
  "ledger_fault fe e = ToolOther ''tools.ledger'' (''ledger error: '' @ fe_show_ledger fe e)"

definition io_fault :: "file_env \<Rightarrow> string option \<Rightarrow> tool_error" where
  "io_fault fe e = ToolOther ''tools.io'' (''io error: '' @ fe_show_io fe e)"

text \<open>\<open>result.unwrap_or_else(failure)\<close>\<close>

definition settle :: "(tool_error + tool_outcome) \<times> 'w \<Rightarrow> tool_outcome \<times> 'w" where
  "settle r = (case r of
     (Inl e, w) \<Rightarrow> (tool_failure (tool_error_code e) (show_tool_error e), w)
   | (Inr out, w) \<Rightarrow> (out, w))"

definition pure_op :: "tool_error + 'a \<Rightarrow> ('k, 'a) file_op" where
  "pure_op r w = (r, w)"

definition resolve_op :: "file_env \<Rightarrow> string \<Rightarrow> ('k, real_path) file_op" where
  "resolve_op fe p w =
     (case resolve (env_os (fe_env fe)) (env_root (fe_env fe)) (fw_disk w) (path_of p) of
        Inl e \<Rightarrow> (Inl (vfs_fault fe e), w) | Inr q \<Rightarrow> (Inr q, w))"

definition read_op :: "file_env \<Rightarrow> real_path \<Rightarrow> ('k, bytes) file_op" where
  "read_op fe q w = (case fs_read (env_os (fe_env fe)) (fw_disk w) q of
     Inl e \<Rightarrow> (Inl (io_fault fe e), w) | Inr b \<Rightarrow> (Inr b, w))"

definition remove_op :: "file_env \<Rightarrow> real_path \<Rightarrow> ('k, unit) file_op" where
  "remove_op fe q w = (case fs_remove (env_os (fe_env fe)) q (fw_disk w) of
     (Inl e, d) \<Rightarrow> (Inl (io_fault fe e), w\<lparr>fw_disk := d\<rparr>)
   | (Inr _, d) \<Rightarrow> (Inr (), w\<lparr>fw_disk := d, fw_cache := (fw_cache w)(q := None)\<rparr>))"

definition rename_op :: "file_env \<Rightarrow> real_path \<Rightarrow> real_path \<Rightarrow> ('k, unit) file_op" where
  "rename_op fe q q2 w = (case fe_rename_err fe (fw_disk w) q q2 of
     Some e \<Rightarrow> (Inl (io_fault fe (Some e)), w)
   | None \<Rightarrow> (case fw_disk w q of
       None \<Rightarrow> (Inl (io_fault fe None), w)
     | Some b \<Rightarrow> (Inr (), w\<lparr>fw_disk := (fw_disk w)(q := None, q2 \<mapsto> b),
         fw_cache := (fw_cache w)(q := None, q2 := None)\<rparr>)))"

definition edit_op :: "file_env \<Rightarrow> edit_request \<Rightarrow> ('k, edit_outcome) file_op" where
  "edit_op fe req w = (case the (apply_edit (fe_env fe) (fe_diffs fe) None req (fw_disk w, fw_cache w)) of
     (Inl e, d, c) \<Rightarrow> (Inl (edit_fault fe e), w\<lparr>fw_disk := d, fw_cache := c\<rparr>)
   | (Inr out, d, c) \<Rightarrow> (Inr out, w\<lparr>fw_disk := d, fw_cache := c\<rparr>))"

text \<open>A ledger operation, which draws an entry id and reads the clock.\<close>

definition ledger_op ::
  "file_env \<Rightarrow> (ledger_entry_id \<Rightarrow> timestamp \<Rightarrow> ledger \<Rightarrow> (ledger_error + ledger_entry_id) \<times> ledger)
     \<Rightarrow> ('k, unit) file_op" where
  "ledger_op fe f w = (case f (fst (fe_fresh fe (fw_drawn w))) (snd (fe_fresh fe (fw_drawn w))) (fw_ledger w) of
     (Inl e, l) \<Rightarrow> (Inl (ledger_fault fe e), w\<lparr>fw_ledger := l, fw_drawn := Suc (fw_drawn w)\<rparr>)
   | (Inr _, l) \<Rightarrow> (Inr (), w\<lparr>fw_ledger := l, fw_drawn := Suc (fw_drawn w)\<rparr>))"

section \<open>Requests and inputs\<close>

definition fs_request ::
  "file_env \<Rightarrow> action_kind \<Rightarrow> tool_ctx \<Rightarrow> string \<Rightarrow> string \<Rightarrow> json \<Rightarrow> permission_request" where
  "fs_request fe act ctx tool target inp = \<lparr>rq_task = tc_task ctx, rq_step = tc_step ctx, rq_tool = tool,
     rq_category = Filesystem, rq_action = act, rq_risk = Safe, rq_hash = fe_hash fe inp,
     rq_target = target, rq_in_scope = True\<rparr>"

definition read_request :: "file_env \<Rightarrow> tool_ctx \<Rightarrow> string \<Rightarrow> string \<Rightarrow> json \<Rightarrow> permission_request" where
  "read_request fe = fs_request fe ReadAction"

definition write_request :: "file_env \<Rightarrow> tool_ctx \<Rightarrow> string \<Rightarrow> string \<Rightarrow> json \<Rightarrow> permission_request" where
  "write_request fe = fs_request fe WriteAction"

definition parse_precondition :: "json \<Rightarrow> string \<Rightarrow> tool_error + precondition" where
  "parse_precondition inp tool = (case json_get ''precondition'' inp of
     None \<Rightarrow> Inr AnyState
   | Some (JString s) \<Rightarrow>
       if s = ''any'' then Inr AnyState else if s = ''must_not_exist'' then Inr MustNotExist
       else Inl (InvalidInput tool (''invalid '' @ ticked ''precondition''))
   | Some (JObject kvs) \<Rightarrow> (case Option.bind (map_of kvs ''must_exist_with_hash'') json_as_str of
       None \<Rightarrow> Inl (InvalidInput tool (''precondition object must have '' @ ticked ''must_exist_with_hash''))
     | Some hex \<Rightarrow> (case hash_from_str hex of
         Inl _ \<Rightarrow> Inl (InvalidInput tool ''invalid content hash in precondition'')
       | Inr h \<Rightarrow> Inr (MustExistWithHash h)))
   | _ \<Rightarrow> Inl (InvalidInput tool (''invalid '' @ ticked ''precondition'')))"

definition parse_strategy :: "json \<Rightarrow> string \<Rightarrow> tool_error + edit_strategy" where
  "parse_strategy inp tool = (case json_get ''strategy'' inp of
     None \<Rightarrow> Inl (InvalidInput tool (''missing '' @ ticked ''strategy''))
   | Some st \<Rightarrow> (case Option.bind (json_get ''type'' st) json_as_str of
       None \<Rightarrow> Inl (InvalidInput tool (''strategy missing '' @ ticked ''type''))
     | Some kind \<Rightarrow>
         if kind = ''exact_replacement'' then
           (case require_str st ''anchor'' tool of Inl e \<Rightarrow> Inl e
            | Inr a \<Rightarrow> map_sum id (ExactReplacement a) (require_str st ''replacement'' tool))
         else if kind = ''unified_diff'' then map_sum id UnifiedDiff (require_str st ''diff'' tool)
         else if kind = ''whole_file_replacement'' then
           (case require_str st ''content'' tool of Inl e \<Rightarrow> Inl e
            | Inr c \<Rightarrow> map_sum id (\<lambda>r. WholeFile c r (optional_bool st ''force'' False)) (require_str st ''reason'' tool))
         else Inl (InvalidInput tool (''unknown strategy type '' @ ticked kind))))"

section \<open>The tools\<close>

text \<open>Every tool first checks that the authorization is for this very call.\<close>

definition when_authorized ::
  "file_env \<Rightarrow> string \<Rightarrow> tool_ctx \<Rightarrow> authorization \<Rightarrow> json \<Rightarrow> ('k, tool_outcome) file_op \<Rightarrow> 'k file_world
     \<Rightarrow> tool_outcome \<times> 'k file_world" where
  "when_authorized fe name ctx a inp f w =
     (case verify_authorization (fe_hash fe) a (tc_task ctx) (tc_step ctx) name inp of
        Inl e \<Rightarrow> (tool_failure (tool_error_code e) (show_tool_error e), w)
      | Inr _ \<Rightarrow> settle (f w))"

definition hash_json :: "content_hash option \<Rightarrow> json" where
  "hash_json h = (case h of None \<Rightarrow> JNull | Some x \<Rightarrow> JString (to_hex x))"

text \<open>The end \<open>write_file\<close> and \<open>edit_file\<close> share: the transaction, then the ledger entry.\<close>

definition edit_and_record ::
  "file_env \<Rightarrow> tool_ctx \<Rightarrow> edit_request \<Rightarrow> ('k, tool_outcome) file_op" where
  "edit_and_record fe ctx req w =
     then_do (edit_op fe req w) (\<lambda>out w.
     then_do (ledger_op fe (record_write (fe_env fe) (tc_task ctx) (tc_step ctx) None (eo_path out)
         (eo_before_hash out) (map_option text_bytes (eo_before out)) (eo_after_hash out)) w) (\<lambda>_ w.
     (Inr (ToolSuccess (JObject [(''after_hash'', JString (to_hex (eo_after_hash out))),
        (''before_hash'', hash_json (eo_before_hash out)), (''path'', JString (show_path (eo_path out)))])
        (eo_diff out)), w)))"

definition write_file_op :: "file_env \<Rightarrow> tool_ctx \<Rightarrow> json \<Rightarrow> ('k, tool_outcome) file_op" where
  "write_file_op fe ctx inp w =
     then_do (pure_op (require_str inp ''path'' ''write_file'') w) (\<lambda>p w.
     then_do (pure_op (require_str inp ''content'' ''write_file'') w) (\<lambda>content w.
     then_do (pure_op (parse_precondition inp ''write_file'') w) (\<lambda>pre w.
     edit_and_record fe ctx \<lparr>er_path = path_of p, er_pre = pre,
       er_strategy = WholeFile content
         (case optional_str inp ''reason'' of None \<Rightarrow> ''agent write'' | Some r \<Rightarrow> r)
         (optional_bool inp ''force'' False)\<rparr> w)))"

definition edit_file_op :: "file_env \<Rightarrow> tool_ctx \<Rightarrow> json \<Rightarrow> ('k, tool_outcome) file_op" where
  "edit_file_op fe ctx inp w =
     then_do (pure_op (require_str inp ''path'' ''edit_file'') w) (\<lambda>p w.
     then_do (pure_op (parse_precondition inp ''edit_file'') w) (\<lambda>pre w.
     then_do (pure_op (parse_strategy inp ''edit_file'') w) (\<lambda>st w.
     edit_and_record fe ctx \<lparr>er_path = path_of p, er_pre = pre, er_strategy = st\<rparr> w)))"

definition delete_guard :: "file_env \<Rightarrow> json \<Rightarrow> content_hash \<Rightarrow> tool_error + unit" where
  "delete_guard fe inp h = (case optional_str inp ''must_exist_with_hash'' of
     None \<Rightarrow> Inr ()
   | Some hex \<Rightarrow> (case hash_from_str hex of
       Inl _ \<Rightarrow> Inl (InvalidInput ''delete_file'' (''invalid '' @ ticked ''must_exist_with_hash''))
     | Inr expected \<Rightarrow> if expected \<noteq> h then Inl (ledger_fault fe RollbackConflict) else Inr ()))"

definition delete_file_op :: "file_env \<Rightarrow> tool_ctx \<Rightarrow> json \<Rightarrow> ('k, tool_outcome) file_op" where
  "delete_file_op fe ctx inp w =
     then_do (pure_op (require_str inp ''path'' ''delete_file'') w) (\<lambda>p w.
     then_do (resolve_op fe p w) (\<lambda>q w.
     then_do (read_op fe q w) (\<lambda>b w. let h = env_digest (fe_env fe) b in
     then_do (pure_op (delete_guard fe inp h) w) (\<lambda>_ w.
     then_do (remove_op fe q w) (\<lambda>_ w.
     then_do (ledger_op fe (record_delete (fe_env fe) (tc_task ctx) (tc_step ctx) None (path_of p) h (Some b)) w) (\<lambda>_ w.
     (Inr (ToolSuccess (JObject [(''deleted_hash'', JString (to_hex h)), (''path'', JString p)])
       (''deleted '' @ p)), w)))))))"

definition move_file_op :: "file_env \<Rightarrow> tool_ctx \<Rightarrow> json \<Rightarrow> ('k, tool_outcome) file_op" where
  "move_file_op fe ctx inp w =
     then_do (pure_op (require_str inp ''from'' ''move_file'') w) (\<lambda>p w.
     then_do (pure_op (require_str inp ''to'' ''move_file'') w) (\<lambda>p2 w.
     then_do (resolve_op fe p w) (\<lambda>q w.
     then_do (resolve_op fe p2 w) (\<lambda>q2 w.
     if os_exists (env_os (fe_env fe)) (fw_disk w) q2
     then (Inl (InvalidInput ''move_file'' (''destination '' @ ticked p2 @ '' already exists'')), w)
     else
     then_do (read_op fe q w) (\<lambda>b w. let h = env_digest (fe_env fe) b in
     then_do (rename_op fe q q2 w) (\<lambda>_ w.
     then_do (ledger_op fe (record_delete (fe_env fe) (tc_task ctx) (tc_step ctx) None (path_of p) h (Some b)) w) (\<lambda>_ w.
     then_do (ledger_op fe (record_write (fe_env fe) (tc_task ctx) (tc_step ctx) None (path_of p2) None None h) w) (\<lambda>_ w.
     (Inr (ToolSuccess (JObject [(''from'', JString p), (''hash'', JString (to_hex h)), (''to'', JString p2)])
       (''moved '' @ p @ '' -> '' @ p2)), w)))))))))"

text \<open>\<open>read_file\<close>: a NUL byte among the first 8000 is a binary file; the size limit counts bytes, the cut
  characters.\<close>

definition looks_binary :: "bytes \<Rightarrow> bool" where
  "looks_binary b \<longleftrightarrow> 0 \<in> set b"

definition looks_binary_file :: "os \<Rightarrow> disk \<Rightarrow> real_path \<Rightarrow> bool option" where
  "looks_binary_file os d q = (case fs_read os d q of Inl _ \<Rightarrow> None | Inr b \<Rightarrow> Some (looks_binary (take 8000 b)))"

definition shown_text :: "nat \<Rightarrow> string \<Rightarrow> string" where
  "shown_text n s = (if n < length s then take_chars n s else s)"

definition read_file_op :: "file_env \<Rightarrow> tool_ctx \<Rightarrow> json \<Rightarrow> ('k, tool_outcome) file_op" where
  "read_file_op fe ctx inp w =
     then_do (pure_op (require_str inp ''path'' ''read_file'') w) (\<lambda>p w.
     let n = (case optional_u64 inp ''max_bytes'' of None \<Rightarrow> 1000000 | Some n \<Rightarrow> n) in
     (case resolve (env_os (fe_env fe)) (env_root (fe_env fe)) (fw_disk w) (path_of p) of
        Inl e \<Rightarrow> (Inr (tool_failure ''tools.vfs'' (fe_show_vfs fe e)), w)
      | Inr q \<Rightarrow>
          if looks_binary_file (env_os (fe_env fe)) (fw_disk w) q = Some True
          then (Inr (tool_failure ''tools.binary_file'' (p @ '' looks like a binary file'')), w)
          else (case read_if_exists (env_os (fe_env fe)) (fw_disk w) q of
            Inl (EditIo _ e) \<Rightarrow> (Inr (tool_failure ''tools.io'' (fe_show_io fe (Some e))), w)
          | Inl e \<Rightarrow> (Inr (tool_failure ''tools.io'' (fe_show_edit fe e)), w)
          | Inr None \<Rightarrow> (Inr (tool_failure ''tools.io'' (fe_show_io fe None)), w)
          | Inr (Some s) \<Rightarrow> (Inr (ToolSuccess (JObject [(''content'', JString (shown_text n s)),
              (''size_bytes'', JInt (int (length s))), (''truncated'', JBool (n < length s))])
              (shown_text n s)), w))))"

definition list_directory_op :: "file_env \<Rightarrow> tool_ctx \<Rightarrow> json \<Rightarrow> ('k, tool_outcome) file_op" where
  "list_directory_op fe ctx inp w =
     then_do (pure_op (require_str inp ''path'' ''list_directory'') w) (\<lambda>p w.
     then_do (resolve_op fe p w) (\<lambda>q w.
     then_do (pure_op (fe_list fe (optional_bool inp ''recursive'' False) (fw_disk w) q) w) (\<lambda>es w.
     (Inr (ToolSuccess (JObject [(''entries'', JArray (map JString es)), (''path'', JString p)])
       (join [newline] es)), w))))"

datatype file_tool = ReadFile | WriteFile | EditFile | DeleteFile | MoveFile | ListDirectory

fun file_tool_name :: "file_tool \<Rightarrow> string" where
  "file_tool_name ReadFile = ''read_file''"
| "file_tool_name WriteFile = ''write_file''"
| "file_tool_name EditFile = ''edit_file''"
| "file_tool_name DeleteFile = ''delete_file''"
| "file_tool_name MoveFile = ''move_file''"
| "file_tool_name ListDirectory = ''list_directory''"

fun file_tool_op :: "file_env \<Rightarrow> file_tool \<Rightarrow> tool_ctx \<Rightarrow> json \<Rightarrow> ('k, tool_outcome) file_op" where
  "file_tool_op fe ReadFile = read_file_op fe"
| "file_tool_op fe WriteFile = write_file_op fe"
| "file_tool_op fe EditFile = edit_file_op fe"
| "file_tool_op fe DeleteFile = delete_file_op fe"
| "file_tool_op fe MoveFile = move_file_op fe"
| "file_tool_op fe ListDirectory = list_directory_op fe"

definition file_preflight :: "file_env \<Rightarrow> file_tool \<Rightarrow> tool_ctx \<Rightarrow> json \<Rightarrow> tool_error + permission_request" where
  "file_preflight fe t ctx inp =
     (let name = file_tool_name t in
      if t = MoveFile
      then (case require_str inp ''from'' name of Inl e \<Rightarrow> Inl e
        | Inr p \<Rightarrow> map_sum id (\<lambda>p2. write_request fe ctx name (p @ '' -> '' @ p2) inp) (require_str inp ''to'' name))
      else map_sum id (\<lambda>p. (if t = ReadFile \<or> t = ListDirectory then read_request else write_request) fe ctx name p inp)
        (require_str inp ''path'' name))"

definition file_tool_of :: "file_env \<Rightarrow> file_tool \<Rightarrow> 'k file_world tool" where
  "file_tool_of fe t = \<lparr>tl_name = file_tool_name t, tl_preflight = file_preflight fe t,
     tl_execute = (\<lambda>ctx a inp. when_authorized fe (file_tool_name t) ctx a inp (file_tool_op fe t ctx inp))\<rparr>"

section \<open>The file tools act only with permission\<close>

lemma map_sum_Inr: "map_sum id f x = Inr r \<longleftrightarrow> (\<exists>y. x = Inr y \<and> r = f y)"
  by (cases x) auto

lemma file_tool_guarded: "guarded (fe_hash fe) (file_tool_of fe t)"
  by (auto simp: guarded_def file_tool_of_def file_preflight_def fs_request_def read_request_def
      write_request_def when_authorized_def verify_authorization_def map_sum_Inr Let_def
      split: sum.splits if_splits)

section \<open>What a file tool does to ledger and disk\<close>

text \<open>The ids still to be drawn are new.\<close>

definition fresh_from :: "file_env \<Rightarrow> 'k file_world \<Rightarrow> bool" where
  "fresh_from fe w \<longleftrightarrow> inj (\<lambda>n. fst (fe_fresh fe n)) \<and>
     (\<forall>n. fw_drawn w \<le> n \<longrightarrow> fst (fe_fresh fe n) \<notin> ledger_ids (fw_ledger w))"

definition kept :: "'k file_world \<Rightarrow> ledger \<times> disk" where
  "kept w = (fw_ledger w, fw_disk w)"

text \<open>A step of the world: nothing, or one change by the agent.\<close>

definition at_most_one_change :: "file_env \<Rightarrow> task_id \<Rightarrow> 'k file_world \<Rightarrow> 'k file_world \<Rightarrow> bool" where
  "at_most_one_change fe tid w w' \<longleftrightarrow>
     kept w' = kept w \<or> agent_change (fe_env fe) tid (kept w) (kept w')"

lemma ledger_op_write:
  assumes "smooth (fe_env fe)"
  shows "ledger_op fe (record_write (fe_env fe) tid sid call p before content after) w =
    (Inr (), w\<lparr>fw_drawn := Suc (fw_drawn w), fw_ledger := snd (record_write (fe_env fe) tid sid call p before content
       after (fst (fe_fresh fe (fw_drawn w))) (snd (fe_fresh fe (fw_drawn w))) (fw_ledger w))\<rparr>)"
  by (simp add: ledger_op_def record_write_smooth [OF assms])

lemma ledger_op_delete:
  assumes "smooth (fe_env fe)"
  shows "ledger_op fe (record_delete (fe_env fe) tid sid call p before content) w =
    (Inr (), w\<lparr>fw_drawn := Suc (fw_drawn w), fw_ledger := snd (record_delete (fe_env fe) tid sid call p before content
       (fst (fe_fresh fe (fw_drawn w))) (snd (fe_fresh fe (fw_drawn w))) (fw_ledger w))\<rparr>)"
  by (simp add: ledger_op_def record_delete_smooth [OF assms])

lemma fresh_from_drawn:
  assumes "fresh_from fe w" and "fw_drawn w' = Suc (fw_drawn w)"
    and "ledger_ids (fw_ledger w') = insert (fst (fe_fresh fe (fw_drawn w))) (ledger_ids (fw_ledger w))"
  shows "fresh_from fe w'"
proof -
  have "fst (fe_fresh fe n) \<noteq> fst (fe_fresh fe (fw_drawn w))" if "Suc (fw_drawn w) \<le> n" for n
    using assms(1) that injD [of "\<lambda>n. fst (fe_fresh fe n)" n "fw_drawn w"] by (auto simp: fresh_from_def)
  then show ?thesis using assms by (auto simp: fresh_from_def)
qed

lemma write_is_change:
  assumes "smooth (fe_env fe)" and "fresh_from fe w" and "resolve (env_os (fe_env fe)) (env_root (fe_env fe)) (fw_disk w) p = Inr q"
    and "ledger_op fe (record_write (fe_env fe) tid sid None p (map_option (env_digest (fe_env fe)) (fw_disk w q))
       (fw_disk w q) (env_digest (fe_env fe) b)) (w\<lparr>fw_disk := (fw_disk w)(q \<mapsto> b), fw_cache := c\<rparr>) = (r, w')"
  shows "fresh_from fe w' \<and> at_most_one_change fe tid w w'"
proof -
  let ?i = "fst (fe_fresh fe (fw_drawn w))"
  have i: "?i \<notin> ledger_ids (fw_ledger w)" using assms(2) by (simp add: fresh_from_def)
  note rec = record_write_smooth [OF assms(1)]
  have "agent_change (fe_env fe) tid (kept w) (kept w')"
    using change_write [OF assms(3) i rec] assms(4) by (auto simp: kept_def ledger_op_write [OF assms(1)] rec)
  moreover have "fresh_from fe w'"
    using assms(4) by (intro fresh_from_drawn [OF assms(2)])
      (auto simp: ledger_op_write [OF assms(1)] rec ledger_ids_def)
  ultimately show ?thesis by (simp add: at_most_one_change_def)
qed

lemma delete_is_change:
  assumes "smooth (fe_env fe)" and "fresh_from fe w" and "resolve (env_os (fe_env fe)) (env_root (fe_env fe)) (fw_disk w) p = Inr q"
    and "fw_disk w q = Some b"
    and "ledger_op fe (record_delete (fe_env fe) tid sid None p (env_digest (fe_env fe) b) (Some b))
       (w\<lparr>fw_disk := (fw_disk w)(q := None), fw_cache := c\<rparr>) = (r, w')"
  shows "fresh_from fe w' \<and> at_most_one_change fe tid w w'"
proof -
  let ?i = "fst (fe_fresh fe (fw_drawn w))"
  have i: "?i \<notin> ledger_ids (fw_ledger w)" using assms(2) by (simp add: fresh_from_def)
  note rec = record_delete_smooth [OF assms(1)]
  have "agent_change (fe_env fe) tid (kept w) (kept w')"
    using change_delete [OF assms(3) i assms(4) rec] assms(5) by (auto simp: kept_def ledger_op_delete [OF assms(1)] rec)
  moreover have "fresh_from fe w'"
    using assms(5) by (intro fresh_from_drawn [OF assms(2)])
      (auto simp: ledger_op_delete [OF assms(1)] rec ledger_ids_def)
  ultimately show ?thesis by (simp add: at_most_one_change_def)
qed

lemma no_change [simp]: "at_most_one_change fe tid w w"
  by (simp add: at_most_one_change_def)

lemma edit_op_cases:
  "edit_op fe req w = (r, w') \<Longrightarrow> (case r of
     Inl _ \<Rightarrow> w' = w
   | Inr out \<Rightarrow> \<exists>q. resolve (env_os (fe_env fe)) (env_root (fe_env fe)) (fw_disk w) (er_path req) = Inr q \<and>
       eo_path out = er_path req \<and> map_option text_bytes (eo_before out) = fw_disk w q \<and>
       eo_before_hash out = map_option (env_digest (fe_env fe)) (fw_disk w q) \<and>
       eo_after_hash out = env_digest (fe_env fe) (text_bytes (eo_after out)) \<and>
       w' = w\<lparr>fw_disk := (fw_disk w)(q \<mapsto> text_bytes (eo_after out)), fw_cache := (fw_cache w)(q := None)\<rparr>)"
  using edit_transaction_shape [where env = "fe_env fe" and df = "fe_diffs fe" and langs = None and req = req
      and d = "fw_disk w" and cache = "fw_cache w"]
  by (auto simp: edit_op_def split: option.splits sum.splits prod.splits)

lemma edit_and_record_change:
  assumes "smooth (fe_env fe)" and "fresh_from fe w" and "edit_and_record fe ctx req w = (r, w')"
  shows "fresh_from fe w' \<and> at_most_one_change fe (tc_task ctx) w w'"
proof (cases "edit_op fe req w")
  case (Pair r1 w1)
  show ?thesis
  proof (cases r1)
    case (Inl e)
    with Pair assms edit_op_cases [OF Pair] show ?thesis by (simp add: edit_and_record_def)
  next
    case (Inr out)
    with edit_op_cases [OF Pair] obtain q where q:
      "resolve (env_os (fe_env fe)) (env_root (fe_env fe)) (fw_disk w) (er_path req) = Inr q"
      "eo_path out = er_path req" "map_option text_bytes (eo_before out) = fw_disk w q"
      "eo_before_hash out = map_option (env_digest (fe_env fe)) (fw_disk w q)"
      "eo_after_hash out = env_digest (fe_env fe) (text_bytes (eo_after out))"
      "w1 = w\<lparr>fw_disk := (fw_disk w)(q \<mapsto> text_bytes (eo_after out)), fw_cache := (fw_cache w)(q := None)\<rparr>"
      by auto
    have "ledger_op fe (record_write (fe_env fe) (tc_task ctx) (tc_step ctx) None (er_path req)
      (map_option (env_digest (fe_env fe)) (fw_disk w q)) (fw_disk w q)
      (env_digest (fe_env fe) (text_bytes (eo_after out)))) w1 = (Inr (), w')"
      using assms(3) Pair Inr q by (simp add: edit_and_record_def ledger_op_write [OF assms(1)])
    from write_is_change [OF assms(1,2) q(1) this [unfolded q(6)]] show ?thesis .
  qed
qed

text \<open>\<open>exists\<close> tells the truth about what is there: a path it denies holds no file.\<close>

definition exists_sound :: "os \<Rightarrow> bool" where
  "exists_sound os \<longleftrightarrow> (\<forall>d q. \<not> os_exists os d q \<longrightarrow> d q = None)"

abbreviation file_step :: "file_env \<Rightarrow> task_id \<Rightarrow> 'k file_world \<Rightarrow> 'k file_world \<Rightarrow> bool" where
  "file_step fe tid w w' \<equiv> fresh_from fe w' \<and> at_most_one_change fe tid w w'"

lemma pure_op_then: "then_do (pure_op r w) f = (case r of Inl e \<Rightarrow> (Inl e, w) | Inr x \<Rightarrow> f x w)"
  by (cases r) (simp_all add: pure_op_def)

lemma resolve_op_then: "then_do (resolve_op fe p w) f =
    (case resolve (env_os (fe_env fe)) (env_root (fe_env fe)) (fw_disk w) (path_of p) of
       Inl e \<Rightarrow> (Inl (vfs_fault fe e), w) | Inr q \<Rightarrow> f q w)"
  by (simp add: resolve_op_def split: sum.splits)

lemma read_op_smooth: "smooth (fe_env fe) \<Longrightarrow> then_do (read_op fe q w) f =
    (case fw_disk w q of None \<Rightarrow> (Inl (io_fault fe None), w) | Some b \<Rightarrow> f b w)"
  by (simp add: read_op_def fs_read_def smooth_def split: option.splits)

lemma remove_op_smooth: "smooth (fe_env fe) \<Longrightarrow> fw_disk w q = Some b \<Longrightarrow> remove_op fe q w =
    (Inr (), w\<lparr>fw_disk := (fw_disk w)(q := None), fw_cache := (fw_cache w)(q := None)\<rparr>)"
  by (simp add: remove_op_def fs_remove_def smooth_def)

lemmas op_thens = pure_op_then resolve_op_then read_op_smooth

lemma write_file_step:
  assumes "smooth (fe_env fe)" and "fresh_from fe w" and "write_file_op fe ctx inp w = (r, w')"
  shows "file_step fe (tc_task ctx) w w'"
  using assms(2,3) edit_and_record_change [OF assms(1,2)]
  by (auto simp: write_file_op_def op_thens split: sum.splits)

lemma edit_file_step:
  assumes "smooth (fe_env fe)" and "fresh_from fe w" and "edit_file_op fe ctx inp w = (r, w')"
  shows "file_step fe (tc_task ctx) w w'"
  using assms(2,3) edit_and_record_change [OF assms(1,2)]
  by (auto simp: edit_file_op_def op_thens split: sum.splits)

lemma delete_file_step:
  assumes "smooth (fe_env fe)" and "fresh_from fe w" and "delete_file_op fe ctx inp w = (r, w')"
  shows "file_step fe (tc_task ctx) w w'"
  using assms(2,3) delete_is_change [OF assms(1,2)]
  by (auto simp: delete_file_op_def op_thens assms(1) Let_def remove_op_smooth [OF assms(1)]
      ledger_op_delete [OF assms(1)] split: sum.splits option.splits)

lemma move_is_change:
  assumes "smooth (fe_env fe)" and "fresh_from fe w"
    and "resolve (env_os (fe_env fe)) (env_root (fe_env fe)) (fw_disk w) p = Inr q"
    and "resolve (env_os (fe_env fe)) (env_root (fe_env fe)) (fw_disk w) p2 = Inr q2"
    and "fw_disk w q = Some b" and "fw_disk w q2 = None"
    and "ledger_op fe (record_delete (fe_env fe) tid sid None p (env_digest (fe_env fe) b) (Some b))
       (w\<lparr>fw_disk := (fw_disk w)(q := None, q2 \<mapsto> b), fw_cache := c\<rparr>) = (r1, w1)"
    and "ledger_op fe (record_write (fe_env fe) tid sid None p2 None None (env_digest (fe_env fe) b)) w1 = (r2, w2)"
  shows "file_step fe tid w w2"
proof -
  let ?i = "fst (fe_fresh fe (fw_drawn w))" and ?i2 = "fst (fe_fresh fe (Suc (fw_drawn w)))"
  have i: "?i \<notin> ledger_ids (fw_ledger w)" "?i2 \<notin> ledger_ids (fw_ledger w)"
    using assms(2) by (simp_all add: fresh_from_def)
  have ne: "?i2 \<noteq> ?i"
    using assms(2) injD [of "\<lambda>n. fst (fe_fresh fe n)" "Suc (fw_drawn w)" "fw_drawn w"] by (auto simp: fresh_from_def)
  note rec = record_write_smooth [OF assms(1)] record_delete_smooth [OF assms(1)]
  note op = ledger_op_write [OF assms(1)] ledger_op_delete [OF assms(1)]
  have "agent_change (fe_env fe) tid (kept w) (kept w2)"
    using change_move [OF assms(3) i(1) assms(4) i(2) ne assms(6,5) rec(2) rec(1)] assms(7,8)
    by (auto simp: kept_def op rec)
  moreover have "fresh_from fe w1"
    using assms(7) by (intro fresh_from_drawn [OF assms(2)]) (auto simp: op rec ledger_ids_def)
  then have "fresh_from fe w2"
    using assms(8) by (rule_tac fresh_from_drawn) (auto simp: op rec ledger_ids_def)
  ultimately show ?thesis by (simp add: at_most_one_change_def)
qed

lemma move_file_step:
  assumes s: "smooth (fe_env fe)" and f: "fresh_from fe w" and "exists_sound (env_os (fe_env fe))"
    and r: "move_file_op fe ctx inp w = (r, w')"
  shows "file_step fe (tc_task ctx) w w'"
proof (cases "file_step fe (tc_task ctx) w w' \<or> w' = w")
  case True
  with f show ?thesis by auto
next
  case False
  let ?os = "env_os (fe_env fe)" and ?root = "env_root (fe_env fe)"
  from False r obtain p p2 q q2 b c where
    "resolve ?os ?root (fw_disk w) (path_of p) = Inr q"
    "resolve ?os ?root (fw_disk w) (path_of p2) = Inr q2"
    "fw_disk w q = Some b" "\<not> os_exists ?os (fw_disk w) q2"
    "\<exists>r1 w1 r2. ledger_op fe (record_delete (fe_env fe) (tc_task ctx) (tc_step ctx) None (path_of p)
         (env_digest (fe_env fe) b) (Some b))
       (w\<lparr>fw_disk := (fw_disk w)(q := None, q2 \<mapsto> b), fw_cache := c\<rparr>) = (r1, w1) \<and>
     ledger_op fe (record_write (fe_env fe) (tc_task ctx) (tc_step ctx) None (path_of p2) None None
         (env_digest (fe_env fe) b)) w1 = (r2, w')"
    by (auto simp: move_file_op_def op_thens s Let_def rename_op_def
        ledger_op_delete [OF s] ledger_op_write [OF s] split: sum.splits option.splits if_splits)
  moreover have "fw_disk w q2 = None"
    using assms(3) calculation(4) by (simp add: exists_sound_def)
  ultimately show ?thesis using move_is_change [OF s f] by blast
qed

lemma read_file_world [simp]: "snd (read_file_op fe ctx inp w) = w"
  by (simp add: read_file_op_def op_thens Let_def split: sum.splits option.splits edit_error.splits)

lemma list_directory_world [simp]: "snd (list_directory_op fe ctx inp w) = w"
  by (simp add: list_directory_op_def op_thens split: sum.splits)

lemma file_tool_op_step:
  assumes "smooth (fe_env fe)" and "fresh_from fe w" and "exists_sound (env_os (fe_env fe))"
    and "file_tool_op fe t ctx inp w = (r, w')"
  shows "file_step fe (tc_task ctx) w w'"
proof (cases t)
  case ReadFile
  then show ?thesis using assms read_file_world [of fe ctx inp w] by simp
next
  case ListDirectory
  then show ?thesis using assms list_directory_world [of fe ctx inp w] by simp
qed (use assms in \<open>auto dest: write_file_step edit_file_step delete_file_step move_file_step\<close>)

lemma file_tool_step:
  assumes "smooth (fe_env fe)" and "fresh_from fe w" and "exists_sound (env_os (fe_env fe))"
  shows "file_step fe (tc_task ctx) w (snd (tl_execute (file_tool_of fe t) ctx a inp w))"
proof -
  obtain r w' where "file_tool_op fe t ctx inp w = (r, w')" by fastforce
  with file_tool_op_step [OF assms this] assms(2) show ?thesis
    by (auto simp: file_tool_of_def when_authorized_def settle_def split: sum.splits)
qed

section \<open>Calls through the runtime\<close>

text \<open>The file tools of \<open>all_tools\<close>, on top of the registry of the others.\<close>

definition file_registry :: "file_env \<Rightarrow> 'k file_world registry \<Rightarrow> 'k file_world registry" where
  "file_registry fe = fold (\<lambda>t. register_tool (file_tool_of fe t))
     [ReadFile, WriteFile, EditFile, DeleteFile, MoveFile, ListDirectory]"

lemma file_registry_at: "file_registry fe reg (file_tool_name t) = Some (file_tool_of fe t)"
  by (cases t) (simp_all add: file_registry_def register_tool_def file_tool_of_def)

record file_call =
  fc_now :: timestamp
  fc_id :: tool_invocation_id
  fc_times :: "timestamp \<times> timestamp"
  fc_step :: step_id
  fc_tool :: file_tool
  fc_input :: json

text \<open>The calls of a task, one after the other, each through \<open>invoke\<close>.\<close>

fun file_calls :: "file_env \<Rightarrow> 'k file_world registry \<Rightarrow> (string \<Rightarrow> string) \<Rightarrow> task_id \<Rightarrow> file_call list
    \<Rightarrow> permission_engine \<Rightarrow> 'k file_world \<Rightarrow> permission_engine \<times> 'k file_world" where
  "file_calls fe reg redact tid [] e w = (e, w)"
| "file_calls fe reg redact tid (c # cs) e w =
     (case invoke (evaluate (fc_now c)) redact (fc_id c) (fc_times c) (file_registry fe reg)
         \<lparr>tc_task = tid, tc_step = fc_step c\<rparr> (file_tool_name (fc_tool c)) (fc_input c) e w of
        (_, e', w') \<Rightarrow> file_calls fe reg redact tid cs e' w')"

lemma invoke_step:
  assumes "smooth (fe_env fe)" and "fresh_from fe w" and "exists_sound (env_os (fe_env fe))"
    and "invoke gate redact i ts (file_registry fe reg) ctx (file_tool_name t) inp e w = (res, e', w')"
  shows "file_step fe (tc_task ctx) w w'"
  using assms(4) file_tool_step [OF assms(1-3), where ctx = ctx and t = t] assms(2)
  by (auto simp: invoke_def file_registry_at split: sum.splits prod.splits decision.splits)
    (metis run_tool_world snd_conv)+

lemma file_calls_changes:
  assumes "smooth (fe_env fe)" and "exists_sound (env_os (fe_env fe))"
  shows "fresh_from fe w \<Longrightarrow> file_calls fe reg redact tid cs e w = (e', w') \<Longrightarrow>
    (agent_change (fe_env fe) tid)\<^sup>*\<^sup>* (kept w) (kept w')"
proof (induction cs arbitrary: e w)
  case Nil
  then show ?case by simp
next
  case (Cons c cs)
  obtain res e1 w1 where r: "invoke (evaluate (fc_now c)) redact (fc_id c) (fc_times c) (file_registry fe reg)
         \<lparr>tc_task = tid, tc_step = fc_step c\<rparr> (file_tool_name (fc_tool c)) (fc_input c) e w = (res, e1, w1)"
    by (metis prod_cases3)
  have s: "fresh_from fe w1" "at_most_one_change fe tid w w1"
    using invoke_step [OF assms(1) Cons.prems(1) assms(2) r] by simp_all
  have "(agent_change (fe_env fe) tid)\<^sup>*\<^sup>* (kept w) (kept w1)"
    using s(2) by (auto simp: at_most_one_change_def)
  moreover have "(agent_change (fe_env fe) tid)\<^sup>*\<^sup>* (kept w1) (kept w')"
    using Cons.IH [OF s(1)] Cons.prems(2) r by simp
  ultimately show ?case by (rule rtranclp_trans)
qed

text \<open>C11: what the agent does with its file tools can be undone. Take a checkpoint, let a task make any
  sequence of file tool calls through the tool runtime - refused, denied, failing or effective, reads,
  writes, edits, deletions and moves - and roll back: the rollback succeeds and the disk is as it was
  when the checkpoint was taken (its hashes; under a collision-free digest its bytes), if the file
  operations themselves do not fail, paths have no symbolic links, and entry ids are fresh.\<close>

theorem file_tools_roll_back:
  assumes "smooth (fe_env fe)" and "exists_sound (env_os (fe_env fe))" and "fresh_from fe w0"
    and "blobs_ok (env_digest (fe_env fe)) (lg_blobs (fw_ledger w0))"
    and "distinct (map le_id (lg_entries (fw_ledger w0)))"
    and "\<forall>b. length (env_digest (fe_env fe) b) = 32"
    and "file_calls fe reg redact tid cs e w0 = (e', w)"
  shows "\<exists>rep l' d'. rollback (capture cid tid ps (map (\<lambda>p. (p, current_hash (fe_env fe) (fw_disk w0) p)) touched)
        (length (entries_for_task (fw_ledger w0) tid)) now) (fe_env fe) sid fresh (fw_ledger w, fw_disk w)
        = (Inr rep, (l', d'))
      \<and> disk_hashes (fe_env fe) d' = disk_hashes (fe_env fe) (fw_disk w0)
      \<and> (inj (env_digest (fe_env fe)) \<longrightarrow> d' = fw_disk w0)"
  using rollback_undoes [OF assms(1,4,5,6)] file_calls_changes [OF assms(1-3,7)] by (simp add: kept_def)

text \<open>C30: the file tools act only with permission. Whatever the engine's history, a file tool call either
  leaves ledger, disk and cache as they were, or the engine allowed exactly this call - task, step, tool
  and input hash - for its risk in the mode in force or under a covering grant a user approved.\<close>

theorem file_tool_gated:
  assumes "reachable_engine e"
    and "invoke (evaluate now) redact i ts (file_registry fe reg) ctx (file_tool_name t) inp e w = (res, e', w')"
  shows "w' = w \<or> (\<exists>r a. file_preflight fe t ctx inp = Inr r \<and> evaluate now r e = (Allow a, e') \<and>
    allow_justified r now e \<and>
    auth_matches a (tc_task ctx) (tc_step ctx) (file_tool_name t) (fe_hash fe inp) \<and>
    w' = snd (settle (file_tool_op fe t ctx inp w)))"
proof -
  have "tl_name (file_tool_of fe t) = file_tool_name t" by (simp add: file_tool_of_def)
  from pg.invoke_justified [OF reachable_engine_ok [OF assms(1)] file_registry_at file_tool_guarded this assms(2)]
  show ?thesis by (auto simp: file_tool_of_def when_authorized_def verify_authorization_def)
qed

section \<open>What the tools report\<close>

lemma length_chars_of: "length (chars_of s) \<le> length s"
  by (induction s) (auto split: list.splits)

lemma chars_of_nonempty: "g \<in> set (chars_of s) \<Longrightarrow> g \<noteq> []"
  by (induction s arbitrary: g) (auto split: list.splits if_splits)

lemma shown_text_chars: "shown_text n s = concat (take n (chars_of s))"
  using length_chars_of [of s] by (auto simp: shown_text_def take_chars_def)

lemma chars_cut: "concat (drop n (chars_of s)) = [] \<longleftrightarrow> length (chars_of s) \<le> n"
proof
  assume "concat (drop n (chars_of s)) = []"
  then have "\<forall>g \<in> set (drop n (chars_of s)). g = []" by simp
  then have "drop n (chars_of s) = []"
    by (metis chars_of_nonempty in_set_dropD list.set_intros(1) neq_Nil_conv)
  then show "length (chars_of s) \<le> n" by simp
qed simp

lemma read_file_op_success:
  assumes "read_file_op fe ctx inp w = (Inr (ToolSuccess v shown), w')"
  shows "\<exists>n s. n = (case optional_u64 inp ''max_bytes'' of None \<Rightarrow> 1000000 | Some n \<Rightarrow> n) \<and>
    shown = shown_text n s \<and> v = JObject [(''content'', JString shown),
      (''size_bytes'', JInt (int (length s))), (''truncated'', JBool (n < length s))]"
  using assms by (auto simp: read_file_op_def op_thens Let_def tool_failure_def
      split: sum.splits option.splits if_splits edit_error.splits)

text \<open>\<open>read_file\<close> cuts characters but measures bytes. A file that can be shown is shown from its start;
  the text is reported as truncated exactly when the file has more than \<open>max_bytes\<close> bytes, but it is cut
  exactly when it has more than \<open>max_bytes\<close> characters. So a whole text can be reported as truncated, and
  the shown text can be longer than \<open>max_bytes\<close>.\<close>

theorem read_file_truncation:
  assumes "read_file_op fe ctx inp w = (Inr (ToolSuccess v shown), w')"
  shows "\<exists>n s rest. n = (case optional_u64 inp ''max_bytes'' of None \<Rightarrow> 1000000 | Some n \<Rightarrow> n) \<and>
    s = shown @ rest \<and> shown = concat (take n (chars_of s)) \<and>
    json_get ''content'' v = Some (JString shown) \<and>
    json_get ''truncated'' v = Some (JBool (n < length s)) \<and>
    (rest = [] \<longleftrightarrow> length (chars_of s) \<le> n)"
proof -
  obtain n s where r: "n = (case optional_u64 inp ''max_bytes'' of None \<Rightarrow> 1000000 | Some n \<Rightarrow> n)"
    "shown = shown_text n s" "v = JObject [(''content'', JString shown),
      (''size_bytes'', JInt (int (length s))), (''truncated'', JBool (n < length s))]"
    using read_file_op_success [OF assms] by blast
  have "s = shown @ concat (drop n (chars_of s))"
    by (metis append_take_drop_id concat_append concat_chars_of r(2) shown_text_chars)
  with r chars_cut [of n s] show ?thesis
    by (intro exI [of _ n] exI [of _ s] exI [of _ "concat (drop n (chars_of s))"])
      (simp add: shown_text_chars json_get_def)
qed

text \<open>An edit that cannot be recorded stays. When \<open>write_file\<close> or \<open>edit_file\<close> fails, either nothing
  was changed at all, or the file was already replaced and it was the ledger that failed: then the disk
  holds the new text, the ledger has no entry for it, and the tool reports \<open>tools.ledger\<close>.\<close>

theorem failed_edit_exact:
  assumes "edit_and_record fe ctx req w = (Inl e, w')"
  shows "w' = w \<and> tool_error_code e = ''tools.edit'' \<or>
    (\<exists>q b. resolve (env_os (fe_env fe)) (env_root (fe_env fe)) (fw_disk w) (er_path req) = Inr q \<and>
       fw_disk w' = (fw_disk w)(q \<mapsto> b) \<and> fw_disk w q \<noteq> Some b \<and>
       lg_entries (fw_ledger w') = lg_entries (fw_ledger w) \<and> tool_error_code e = ''tools.ledger'')"
proof -
  obtain r1 w1 where op: "edit_op fe req w = (r1, w1)" by fastforce
  show ?thesis
  proof (cases r1)
    case (Inl x)
    then have "e = x" "w' = w" using assms op edit_op_cases [OF op] by (simp_all add: edit_and_record_def)
    moreover have "tool_error_code x = ''tools.edit''"
      using op Inl by (auto simp: edit_op_def edit_fault_def split: sum.splits prod.splits)
    ultimately show ?thesis by simp
  next
    case (Inr out)
    note c = edit_op_cases [OF op, unfolded Inr sum.case]
    have ne: "eo_before out \<noteq> Some (eo_after out)"
      using edit_transaction_shape [where env = "fe_env fe" and df = "fe_diffs fe" and langs = None
          and req = req and d = "fw_disk w" and cache = "fw_cache w"] op Inr
      by (auto simp: edit_op_def split: option.splits sum.splits prod.splits)
    have "\<exists>l x. e = ledger_fault fe x \<and> fw_disk w' = fw_disk w1 \<and> fw_ledger w' = l \<and>
        lg_entries l = lg_entries (fw_ledger w1)"
      using assms op Inr by (auto simp: edit_and_record_def ledger_op_def record_write_def push_entry_def
          split: sum.splits prod.splits option.splits)
    then show ?thesis using c ne
      by (auto simp: ledger_fault_def)
  qed
qed

section \<open>A concrete call\<close>

definition demo_file_env :: file_env where
  "demo_file_env = \<lparr>fe_env = demo32, fe_hash = (\<lambda>_. []), fe_diffs = sample_diffs,
     fe_fresh = (\<lambda>n. (LedgerEntryId n, 0)), fe_show_edit = (\<lambda>_. []), fe_show_vfs = (\<lambda>_. []),
     fe_show_ledger = (\<lambda>_. []), fe_show_io = (\<lambda>_. []), fe_rename_err = (\<lambda>_ _ _. None),
     fe_list = (\<lambda>_ _ _. Inr [])\<rparr>"

definition demo_world :: "nat file_world" where
  "demo_world = \<lparr>fw_ledger = new_ledger Map.empty, fw_disk = demo_start, fw_cache = Map.empty, fw_drawn = 0\<rparr>"

definition demo_input :: json where
  "demo_input = JObject [(''path'', JString ''a''), (''content'', JString [CHR 0x02])]"

definition demo_call :: file_call where
  "demo_call = \<lparr>fc_now = 3, fc_id = ToolInvocationId 0, fc_times = (0, 0), fc_step = StepId 1,
     fc_tool = WriteFile, fc_input = demo_input\<rparr>"

lemma path_of_a [simp]: "path_of ''a'' = [Normal ''a'']"
  by code_simp

lemma demo_values [simp]:
  "bytes_text [1] = [CHR 0x01]" "valid_text [1]" "\<not> is_blank ''agent write''" "text_bytes [CHR 0x02] = [2]"
  by code_simp+

lemma demo_write:
  "\<exists>e' w'. file_calls demo_file_env Map.empty id (TaskId 1) [demo_call] (new_engine Assisted) demo_world = (e', w')
     \<and> fw_disk w' = demo_start([''w'', ''a''] \<mapsto> [2])"
  by (simp add: demo_call_def demo_input_def invoke_def file_registry_def register_tool_def
      file_tool_of_def file_preflight_def write_request_def fs_request_def require_str_def json_get_def
      evaluate_def find_covering_def new_engine_def effective_mode_def decide_default_def
      filesystem_decision_def mint_def)
    (simp add: run_tool_def when_authorized_def verify_authorization_def Let_def auth_matches_def
      write_file_op_def pure_op_then require_str_def json_get_def parse_precondition_def
      optional_str_def optional_bool_def edit_and_record_def edit_op_def apply_edit_def demo_file_env_def
      demo_world_def smooth_def resolve_plain is_absolute_def normalize_relative_def read_if_exists_def
      demo_start_def fs_read_def check_precondition_def size_guard_def size_guard_min_def write_atomic_def
      check_no_syntax_regression_def ledger_op_def record_write_smooth settle_def)

lemma demo_fresh_from: "fresh_from demo_file_env demo_world"
  by (simp add: fresh_from_def demo_file_env_def demo_world_def inj_def ledger_ids_def)

theorem file_tools_roll_back_witness:
  "\<exists>e' w. file_calls demo_file_env Map.empty id (TaskId 1) [demo_call] (new_engine Assisted) demo_world = (e', w)
     \<and> fw_disk w \<noteq> demo_start
     \<and> (\<exists>rep l' d'. rollback demo_cp demo32 (StepId 2) demo_fresh (fw_ledger w, fw_disk w) = (Inr rep, (l', d'))
       \<and> disk_hashes demo32 d' = disk_hashes demo32 demo_start)"
proof -
  obtain e' w where r: "file_calls demo_file_env Map.empty id (TaskId 1) [demo_call] (new_engine Assisted) demo_world
      = (e', w)" and d: "fw_disk w = demo_start([''w'', ''a''] \<mapsto> [2])"
    using demo_write by blast
  have ne: "fw_disk w \<noteq> demo_start" by (simp add: d demo_start_def fun_upd_def fun_eq_iff)
  have env: "fe_env demo_file_env = demo32" and w: "fw_ledger demo_world = new_ledger Map.empty"
    "fw_disk demo_world = demo_start" by (simp_all add: demo_file_env_def demo_world_def)
  have "exists_sound (env_os demo32)" by (simp add: exists_sound_def)
  from file_tools_roll_back [OF _ _ demo_fresh_from _ _ _ r, unfolded env w, OF smooth_demo32 this,
      where cid = "CheckpointId 1" and ps = "PlanStepId ''s''" and touched = "[[Normal ''a'']]" and now = 0
      and sid = "StepId 2" and fresh = demo_fresh]
  show ?thesis using r ne by (auto simp: demo_cp_def)
qed

theorem file_tool_gated_witness:
  "\<exists>res e' w'. invoke (evaluate 3) id (ToolInvocationId 0) (0, 0) (file_registry demo_file_env Map.empty)
      \<lparr>tc_task = TaskId 1, tc_step = StepId 1\<rparr> (file_tool_name WriteFile) demo_input
      (new_engine Assisted) demo_world = (res, e', w') \<and> w' \<noteq> demo_world
    \<and> (\<exists>r a. file_preflight demo_file_env WriteFile \<lparr>tc_task = TaskId 1, tc_step = StepId 1\<rparr> demo_input = Inr r
        \<and> evaluate 3 r (new_engine Assisted) = (Allow a, e') \<and> allow_justified r 3 (new_engine Assisted))"
proof -
  obtain res e' w' where inv: "invoke (evaluate 3) id (ToolInvocationId 0) (0, 0) (file_registry demo_file_env Map.empty)
      \<lparr>tc_task = TaskId 1, tc_step = StepId 1\<rparr> (file_tool_name WriteFile) demo_input
      (new_engine Assisted) demo_world = (res, e', w')" by (metis prod_cases3)
  with demo_write have "fw_disk w' = demo_start([''w'', ''a''] \<mapsto> [2])" by (auto simp: demo_call_def)
  then have ne: "w' \<noteq> demo_world" by (auto simp: demo_world_def demo_start_def fun_eq_iff split: if_splits)
  have "reachable_engine (new_engine Assisted)" by (auto simp: reachable_engine_def)
  from file_tool_gated [OF this inv] ne inv show ?thesis by blast
qed

text \<open>One character of two bytes, read with \<open>max_bytes\<close> 1.\<close>

definition accent_world :: "nat file_world" where
  "accent_world = demo_world\<lparr>fw_disk := [[''w'', ''a''] \<mapsto> [195, 169]]\<rparr>"

definition accent_input :: json where
  "accent_input = JObject [(''path'', JString ''a''), (''max_bytes'', JInt 1)]"

lemma accent_values [simp]:
  "valid_text [195, 169]" "bytes_text [195, 169] = [CHR 0xC3, CHR 0xA9]" "\<not> looks_binary [195, 169]"
  "shown_text (Suc 0) [CHR 0xC3, CHR 0xA9] = [CHR 0xC3, CHR 0xA9]"
  by code_simp+

theorem read_file_truncation_witness:
  "\<exists>v shown. read_file_op demo_file_env \<lparr>tc_task = TaskId 1, tc_step = StepId 1\<rparr> accent_input accent_world
      = (Inr (ToolSuccess v shown), accent_world) \<and>
     json_get ''truncated'' v = Some (JBool True) \<and> shown = [CHR 0xC3, CHR 0xA9] \<and>
     (\<exists>n s rest. n = 1 \<and> s = shown @ rest \<and> (rest = [] \<longleftrightarrow> length (chars_of s) \<le> n))"
proof -
  have "read_file_op demo_file_env \<lparr>tc_task = TaskId 1, tc_step = StepId 1\<rparr> accent_input accent_world
      = (Inr (ToolSuccess (JObject [(''content'', JString [CHR 0xC3, CHR 0xA9]), (''size_bytes'', JInt 2),
          (''truncated'', JBool True)]) [CHR 0xC3, CHR 0xA9]), accent_world)" (is "?l = (Inr (ToolSuccess ?v ?s), _)")
    by (simp add: read_file_op_def accent_input_def op_thens require_str_def json_get_def optional_u64_def Let_def
        accent_world_def demo_world_def demo_file_env_def resolve_plain is_absolute_def normalize_relative_def
        looks_binary_file_def fs_read_def read_if_exists_def)
  from read_file_truncation [OF this] this show ?thesis
    by (simp add: accent_input_def optional_u64_def json_get_def) blast
qed

text \<open>A store that cannot be written.\<close>

definition stuck_env :: file_env where
  "stuck_env = demo_file_env\<lparr>fe_env := demo32\<lparr>env_blob := calm_blobs\<lparr>blob_write_err := (\<lambda>_ _ _. Some [])\<rparr>\<rparr>\<rparr>"

theorem failed_edit_exact_witness:
  "\<exists>e w'. edit_and_record stuck_env \<lparr>tc_task = TaskId 1, tc_step = StepId 1\<rparr>
      \<lparr>er_path = [Normal ''a''], er_pre = AnyState, er_strategy = WholeFile [CHR 0x02] ''x'' False\<rparr> demo_world = (Inl e, w')
    \<and> fw_disk w' [''w'', ''a''] = Some [2] \<and> lg_entries (fw_ledger w') = [] \<and> tool_error_code e = ''tools.ledger''"
proof -
  let ?run = "edit_and_record stuck_env \<lparr>tc_task = TaskId 1, tc_step = StepId 1\<rparr>
      \<lparr>er_path = [Normal ''a''], er_pre = AnyState, er_strategy = WholeFile [CHR 0x02] ''x'' False\<rparr> demo_world"
  have b: "\<not> is_blank ''x''" by code_simp
  have "\<exists>e w'. ?run = (Inl e, w') \<and> fw_disk w' [''w'', ''a''] = Some [2]"
    by (simp add: stuck_env_def demo_file_env_def demo_world_def edit_and_record_def edit_op_def apply_edit_def
      resolve_plain is_absolute_def normalize_relative_def read_if_exists_def demo_start_def fs_read_def
      check_precondition_def size_guard_def size_guard_min_def write_atomic_def b
      check_no_syntax_regression_def ledger_op_def record_write_def push_entry_def blob_put_def blob_exists_def
      new_ledger_def Let_def)
  then obtain e w' where r: "?run = (Inl e, w')" "fw_disk w' [''w'', ''a''] = Some [2]" by blast
  moreover have "w' \<noteq> demo_world" using r(2) by (auto simp: demo_world_def demo_start_def)
  ultimately show ?thesis using failed_edit_exact [OF r(1)] by (auto simp: demo_world_def)
qed

end
