(* ===== verification/Plan_Store.thy ===== *)
theory Plan_Store
  imports Checkpoint Plan_Correct
begin

text \<open>
  The JSON form of a plan (the \<open>serde\<close> attributes of \<open>crates/valyria-plan/src/model.rs\<close>) and the plan
  store (\<open>store.rs\<close>): the tables \<open>plan_revision\<close> and \<open>plan_checkpoint\<close> as lists of rows. A derived
  struct reads an object, whose unknown keys it ignores, or an array of its fields in order; a field
  with \<open>#[serde(default)]\<close> may be missing. Failures of the database and the text encoding of a
  checkpoint's columns are not modelled.
\<close>

section \<open>Plans as JSON\<close>

fun risk_to_json :: "risk \<Rightarrow> json" where
  "risk_to_json RiskLow = JString ''low''"
| "risk_to_json RiskMedium = JString ''medium''"
| "risk_to_json RiskHigh = JString ''high''"

definition scope_to_json :: "estimated_scope \<Rightarrow> json" where
  "scope_to_json e = JObject [(''files'', JInt (uint (es_files e))), (''risk'', risk_to_json (es_risk e))]"

fun verification_to_json :: "verification_requirement \<Rightarrow> json" where
  "verification_to_json VerifyNone = JObject [(''mode'', JString ''none'')]"
| "verification_to_json VerifyInherit = JObject [(''mode'', JString ''inherit'')]"
| "verification_to_json (VerifyCommand c) =
     JObject [(''command'', JString c), (''mode'', JString ''command'')]"

definition step_to_json :: "plan_step \<Rightarrow> json" where
  "step_to_json s = JObject
     [(''approval_required'', JBool (ps_approval s)), (''checkpoint'', JBool (ps_checkpoint s)),
      (''depends_on'', JArray (map (JString \<circ> step_text) (ps_depends s))),
      (''estimated_scope'', scope_to_json (ps_scope s)), (''id'', JString (step_text (ps_id s))),
      (''intent'', JString (ps_intent s)), (''parallelizable'', JBool (ps_parallel s)),
      (''rollback_boundary'', JBool (ps_rollback s)), (''targets'', JArray (map JString (ps_targets s))),
      (''verification'', verification_to_json (ps_verification s))]"

definition plan_to_json :: "plan \<Rightarrow> json" where
  "plan_to_json p = JObject [(''plan_scope'', JArray (map JString (pl_scope p))),
     (''steps'', JArray (map step_to_json (pl_steps p)))]"

section \<open>Reading a plan\<close>

text \<open>The fields of a struct: of an object by key, of an array by position.\<close>

definition struct_fields :: "string list \<Rightarrow> json \<Rightarrow> (string \<rightharpoonup> json) option" where
  "struct_fields names v = (case v of
     JObject kvs \<Rightarrow> Some (map_of kvs)
   | JArray xs \<Rightarrow> if length xs \<le> length names then Some (map_of (zip names xs)) else None
   | _ \<Rightarrow> None)"

definition required :: "(json \<Rightarrow> 'a option) \<Rightarrow> (string \<rightharpoonup> json) \<Rightarrow> string \<Rightarrow> 'a option" where
  "required read fs k = Option.bind (fs k) read"

definition defaulted :: "(json \<Rightarrow> 'a option) \<Rightarrow> 'a \<Rightarrow> (string \<rightharpoonup> json) \<Rightarrow> string \<Rightarrow> 'a option" where
  "defaulted read d fs k = (case fs k of None \<Rightarrow> Some d | Some v \<Rightarrow> read v)"

fun traverse :: "('a \<Rightarrow> 'b option) \<Rightarrow> 'a list \<Rightarrow> 'b list option" where
  "traverse f [] = Some []"
| "traverse f (x # xs) = (case f x of None \<Rightarrow> None | Some y \<Rightarrow> map_option ((#) y) (traverse f xs))"

definition json_list :: "(json \<Rightarrow> 'a option) \<Rightarrow> json \<Rightarrow> 'a list option" where
  "json_list f v = Option.bind (json_as_array v) (traverse f)"

definition json_as_u32 :: "json \<Rightarrow> u32 option" where
  "json_as_u32 v = (case v of JInt n \<Rightarrow> if 0 \<le> n \<and> n < 2 ^ 32 then Some (word_of_int n) else None | _ \<Rightarrow> None)"

definition step_id_from_json :: "json \<Rightarrow> plan_step_id option" where
  "step_id_from_json v = Option.bind (json_as_str v)
     (\<lambda>t. case new_step_id t of Inl _ \<Rightarrow> None | Inr i \<Rightarrow> Some i)"

text \<open>The name of a unit variant stands alone or as the only key of an object, over \<open>null\<close>.\<close>

definition variant_name :: "json \<Rightarrow> string option" where
  "variant_name v = (case v of JString t \<Rightarrow> Some t | JObject [(t, JNull)] \<Rightarrow> Some t | _ \<Rightarrow> None)"

definition risk_of_name :: "string \<Rightarrow> risk option" where
  "risk_of_name t = (if t = ''low'' then Some RiskLow else if t = ''medium'' then Some RiskMedium
     else if t = ''high'' then Some RiskHigh else None)"

definition risk_from_json :: "json \<Rightarrow> risk option" where
  "risk_from_json v = Option.bind (variant_name v) risk_of_name"

definition scope_from_json :: "json \<Rightarrow> estimated_scope option" where
  "scope_from_json v = Option.bind (struct_fields [''files'', ''risk''] v) (\<lambda>fs.
     Option.bind (defaulted json_as_u32 0 fs ''files'') (\<lambda>files.
     Option.bind (defaulted risk_from_json RiskLow fs ''risk'') (\<lambda>r.
     Some \<lparr>es_files = files, es_risk = r\<rparr>)))"

text \<open>An internally tagged enum: the tag is the key \<open>mode\<close> of an object or the head of an array.\<close>

definition verification_tag :: "json \<Rightarrow> (string \<times> json) option" where
  "verification_tag v = (case v of
     JObject kvs \<Rightarrow> map_option (\<lambda>t. (t, v)) (Option.bind (map_of kvs ''mode'') json_as_str)
   | JArray (x # xs) \<Rightarrow> map_option (\<lambda>t. (t, JArray xs)) (json_as_str x)
   | _ \<Rightarrow> None)"

definition unit_content :: "json \<Rightarrow> bool" where
  "unit_content v = (case v of JArray xs \<Rightarrow> xs = [] | _ \<Rightarrow> True)"

definition verification_from_json :: "json \<Rightarrow> verification_requirement option" where
  "verification_from_json v = Option.bind (verification_tag v) (\<lambda>(t, rest).
     if t = ''none'' then (if unit_content rest then Some VerifyNone else None)
     else if t = ''inherit'' then (if unit_content rest then Some VerifyInherit else None)
     else if t = ''command'' then Option.bind (struct_fields [''command''] rest)
       (\<lambda>fs. map_option VerifyCommand (required json_as_str fs ''command''))
     else None)"

definition step_field_names :: "string list" where
  "step_field_names = [''id'', ''intent'', ''targets'', ''depends_on'', ''parallelizable'', ''checkpoint'',
     ''verification'', ''rollback_boundary'', ''approval_required'', ''estimated_scope'']"

definition step_from_json :: "json \<Rightarrow> plan_step option" where
  "step_from_json v = Option.bind (struct_fields step_field_names v) (\<lambda>fs.
     Option.bind (required step_id_from_json fs ''id'') (\<lambda>i.
     Option.bind (required json_as_str fs ''intent'') (\<lambda>intent.
     Option.bind (defaulted (json_list json_as_str) [] fs ''targets'') (\<lambda>targets.
     Option.bind (defaulted (json_list step_id_from_json) [] fs ''depends_on'') (\<lambda>deps.
     Option.bind (defaulted json_as_bool False fs ''parallelizable'') (\<lambda>par.
     Option.bind (defaulted json_as_bool False fs ''checkpoint'') (\<lambda>cp.
     Option.bind (defaulted verification_from_json VerifyNone fs ''verification'') (\<lambda>ver.
     Option.bind (defaulted json_as_bool False fs ''rollback_boundary'') (\<lambda>rb.
     Option.bind (defaulted json_as_bool False fs ''approval_required'') (\<lambda>ap.
     Option.bind (defaulted scope_from_json \<lparr>es_files = 0, es_risk = RiskLow\<rparr> fs ''estimated_scope'') (\<lambda>sc.
     Some \<lparr>ps_id = i, ps_intent = intent, ps_targets = targets, ps_depends = deps, ps_parallel = par,
       ps_checkpoint = cp, ps_verification = ver, ps_rollback = rb, ps_approval = ap, ps_scope = sc\<rparr>)))))))))))"

definition plan_from_json :: "json \<Rightarrow> plan option" where
  "plan_from_json v = Option.bind (struct_fields [''plan_scope'', ''steps''] v) (\<lambda>fs.
     Option.bind (defaulted (json_list json_as_str) [] fs ''plan_scope'') (\<lambda>scope.
     Option.bind (required (json_list step_from_json) fs ''steps'') (\<lambda>steps.
     Some \<lparr>pl_scope = scope, pl_steps = steps\<rparr>)))"


section \<open>The round trip\<close>

text \<open>The ids \<open>PlanStepId::new\<close> makes.\<close>

definition step_id_ok :: "plan_step_id \<Rightarrow> bool" where
  "step_id_ok i \<longleftrightarrow> new_step_id (step_text i) = Inr i"

definition plan_ids_ok :: "plan \<Rightarrow> bool" where
  "plan_ids_ok p \<longleftrightarrow> (\<forall>s \<in> set (pl_steps p). step_id_ok (ps_id s) \<and> (\<forall>d \<in> set (ps_depends s). step_id_ok d))"

lemma traverse_map: "(\<And>x. x \<in> set xs \<Longrightarrow> f (g x) = Some x) \<Longrightarrow> traverse f (map g xs) = Some xs"
  by (induction xs) simp_all

lemma traverse_Some: "traverse f xs = Some ys \<Longrightarrow> y \<in> set ys \<Longrightarrow> \<exists>x \<in> set xs. f x = Some y"
  by (induction xs arbitrary: ys) (auto split: option.splits)

lemma json_list_map [simp]: "(\<And>x. x \<in> set xs \<Longrightarrow> f (g x) = Some x) \<Longrightarrow> json_list f (JArray (map g xs)) = Some xs"
  by (simp add: json_list_def traverse_map)

lemma risk_json [simp]: "risk_from_json (risk_to_json r) = Some r"
  by (cases r) (simp_all add: risk_from_json_def variant_name_def risk_of_name_def)

lemma u32_json [simp]: "json_as_u32 (JInt (uint (w :: u32))) = Some w"
  using uint_bounded [of w] by (simp add: json_as_u32_def)

lemma scope_json [simp]: "scope_from_json (scope_to_json e) = Some e"
  by (simp add: scope_from_json_def scope_to_json_def struct_fields_def defaulted_def)

lemma verification_json [simp]: "verification_from_json (verification_to_json v) = Some v"
  by (cases v) (simp_all add: verification_from_json_def verification_tag_def unit_content_def
      struct_fields_def required_def)

lemma step_id_json: "step_id_ok i \<Longrightarrow> step_id_from_json (JString (step_text i)) = Some i"
  by (simp add: step_id_ok_def step_id_from_json_def)

lemma step_json:
  assumes "step_id_ok (ps_id s)" and "\<forall>d \<in> set (ps_depends s). step_id_ok d"
  shows "step_from_json (step_to_json s) = Some s"
  using assms by (simp add: step_from_json_def step_to_json_def struct_fields_def required_def defaulted_def step_id_json)

lemma plan_json: "plan_ids_ok p \<Longrightarrow> plan_from_json (plan_to_json p) = Some p"
  by (simp add: plan_from_json_def plan_to_json_def struct_fields_def required_def defaulted_def step_json plan_ids_ok_def)

lemma parsed_step_id: "step_id_from_json v = Some i \<Longrightarrow> step_id_ok i"
  by (auto simp: step_id_from_json_def step_id_ok_def new_step_id_Inr split: sum.splits bind_splits)

lemma parsed_list:
  assumes "defaulted (json_list f) [] fs k = Some xs \<or> required (json_list f) fs k = Some xs" and "x \<in> set xs"
  shows "\<exists>v. f v = Some x"
  using assms by (auto simp: defaulted_def required_def json_list_def split: option.splits bind_splits dest: traverse_Some)

lemma parsed_step: "step_from_json v = Some s \<Longrightarrow> step_id_ok (ps_id s) \<and> (\<forall>d \<in> set (ps_depends s). step_id_ok d)"
  by (auto simp: step_from_json_def required_def split: bind_splits dest!: parsed_step_id dest: parsed_list [OF disjI1])

lemma parsed_plan: "plan_from_json v = Some p \<Longrightarrow> plan_ids_ok p"
  unfolding plan_ids_ok_def plan_from_json_def
  by (auto split: bind_splits dest: parsed_list [OF disjI2] dest!: parsed_step)


section \<open>The tables\<close>

record revision_row =
  rw_task :: task_id
  rw_number :: int
  rw_parent :: "string option"
  rw_rationale :: string
  rw_plan :: json
  rw_created :: int

record plan_store =
  st_revisions :: "revision_row list"
  st_checkpoints :: "checkpoint list"

definition empty_plans :: plan_store where
  "empty_plans = \<lparr>st_revisions = [], st_checkpoints = []\<rparr>"

text \<open>Rust's \<open>x as u128\<close> on an \<open>i64\<close>.\<close>

definition as_u128 :: "int \<Rightarrow> nat" where
  "as_u128 n = nat (n mod 2 ^ 128)"

definition revision_to_row :: "task_id \<Rightarrow> plan_revision \<Rightarrow> revision_row" where
  "revision_to_row i r = \<lparr>rw_task = i, rw_number = uint (rv_number r), rw_parent = rv_parent r,
     rw_rationale = rv_rationale r, rw_plan = plan_to_json (rv_plan r), rw_created = as_i64 (rv_created r)\<rparr>"

definition row_to_revision :: "revision_row \<Rightarrow> plan_revision option" where
  "row_to_revision w = map_option (\<lambda>p. \<lparr>rv_number = word_of_int (rw_number w), rv_parent = rw_parent w,
     rv_rationale = rw_rationale w, rv_plan = p, rv_created = as_u128 (rw_created w)\<rparr>) (plan_from_json (rw_plan w))"

definition save_revision :: "task_id \<Rightarrow> plan_revision \<Rightarrow> plan_store \<Rightarrow> plan_store" where
  "save_revision i r st = st\<lparr>st_revisions := filter (\<lambda>w. \<not> (rw_task w = i \<and> rw_number w = uint (rv_number r)))
     (st_revisions st) @ [revision_to_row i r]\<rparr>"

text \<open>\<open>ORDER BY revision DESC LIMIT 1\<close>; the number is unique within a task.\<close>

definition latest_row :: "task_id \<Rightarrow> plan_store \<Rightarrow> revision_row option" where
  "latest_row i st = (case sort_key (\<lambda>w. - rw_number w) (filter (\<lambda>w. rw_task w = i) (st_revisions st)) of
     [] \<Rightarrow> None | w # _ \<Rightarrow> Some w)"

text \<open>\<open>None\<close> is a row whose plan does not parse, \<open>Some None\<close> no row.\<close>

definition latest_revision :: "task_id \<Rightarrow> plan_store \<Rightarrow> plan_revision option option" where
  "latest_revision i st = (case latest_row i st of
     None \<Rightarrow> Some None | Some w \<Rightarrow> map_option Some (row_to_revision w))"

definition all_revisions :: "task_id \<Rightarrow> plan_store \<Rightarrow> plan_revision list option" where
  "all_revisions i st = traverse row_to_revision
     (sort_key rw_number (filter (\<lambda>w. rw_task w = i) (st_revisions st)))"

definition save_checkpoint :: "checkpoint \<Rightarrow> plan_store \<Rightarrow> plan_store" where
  "save_checkpoint c st = st\<lparr>st_checkpoints := filter (\<lambda>d. cp_id d \<noteq> cp_id c) (st_checkpoints st) @ [c]\<rparr>"

definition find_checkpoint :: "checkpoint_id \<Rightarrow> plan_store \<Rightarrow> checkpoint option" where
  "find_checkpoint c st = find (\<lambda>d. cp_id d = c) (st_checkpoints st)"

definition checkpoints_for_task :: "task_id \<Rightarrow> plan_store \<Rightarrow> checkpoint list" where
  "checkpoints_for_task i st = sort_key cp_created (filter (\<lambda>d. cp_task d = i) (st_checkpoints st))"

definition purge_task :: "task_id \<Rightarrow> plan_store \<Rightarrow> plan_store \<times> nat" where
  "purge_task i st =
     (let rs = filter (\<lambda>w. rw_task w = i) (st_revisions st); cs = filter (\<lambda>d. cp_task d = i) (st_checkpoints st)
      in (st\<lparr>st_revisions := filter (\<lambda>w. rw_task w \<noteq> i) (st_revisions st),
            st_checkpoints := filter (\<lambda>d. cp_task d \<noteq> i) (st_checkpoints st)\<rparr>, length rs + length cs))"

lemma row_revision:
  assumes "plan_ids_ok (rv_plan r)" and "rv_created r < 2 ^ 63"
  shows "row_to_revision (revision_to_row i r) = Some r"
  using assms by (simp add: row_to_revision_def revision_to_row_def plan_json as_i64_small as_u128_def)

text \<open>The row of the highest number is the one read.\<close>

lemma latest_row_max:
  assumes "w \<in> set (st_revisions st)" and "rw_task w = i"
    and "\<And>v. v \<in> set (st_revisions st) \<Longrightarrow> rw_task v = i \<Longrightarrow> rw_number v \<le> rw_number w"
    and "\<And>v. v \<in> set (st_revisions st) \<Longrightarrow> rw_task v = i \<Longrightarrow> rw_number v = rw_number w \<Longrightarrow> v = w"
  shows "latest_row i st = Some w"
proof -
  let ?xs = "sort_key (\<lambda>w. - rw_number w) (filter (\<lambda>w. rw_task w = i) (st_revisions st))"
  have w: "w \<in> set ?xs" using assms(1,2) by simp
  then obtain v vs where v: "?xs = v # vs" by (cases ?xs) auto
  have "sorted (map (\<lambda>w. - rw_number w) ?xs)" by simp
  then have "rw_number w \<le> rw_number v" using w by (auto simp: v)
  moreover have vm: "v \<in> set (st_revisions st)" "rw_task v = i"
    using arg_cong [OF v, of set] by auto
  ultimately have "v = w" using assms(3) [OF vm] by (intro assms(4) [OF vm]) simp
  then show ?thesis by (simp add: latest_row_def v)
qed

lemma revision_row_simps [simp]:
  "rw_task (revision_to_row i r) = i" "rw_number (revision_to_row i r) = uint (rv_number r)"
  by (simp_all add: revision_to_row_def)

lemma latest_row_saved:
  assumes "\<forall>w \<in> set (st_revisions st). rw_task w = i \<longrightarrow> rw_number w \<le> uint (rv_number r)"
  shows "latest_row i (save_revision i r st) = Some (revision_to_row i r)"
  by (rule latest_row_max) (use assms in \<open>auto simp: save_revision_def, metis order_refl revision_row_simps(2)\<close>)

lemma latest_saved:
  assumes "plan_ids_ok (rv_plan r)" and "rv_created r < 2 ^ 63"
    and "\<forall>w \<in> set (st_revisions st). rw_task w = i \<longrightarrow> rw_number w \<le> uint (rv_number r)"
  shows "latest_revision i (save_revision i r st) = Some (Some r)"
  using latest_row_saved [OF assms(3)] by (simp add: latest_revision_def row_revision [OF assms(1,2)])

lemma latest_other: "j \<noteq> i \<Longrightarrow> latest_revision j (save_revision i r st) = latest_revision j st"
proof -
  assume j: "j \<noteq> i"
  have "filter (\<lambda>w. rw_task w = j) (st_revisions (save_revision i r st)) = filter (\<lambda>w. rw_task w = j) (st_revisions st)"
    using j by (auto simp: save_revision_def revision_to_row_def conj_commute intro!: filter_cong)
  then show ?thesis by (simp only: latest_revision_def latest_row_def)
qed

lemma latest_parsed: "latest_revision i st = Some (Some r) \<Longrightarrow> plan_ids_ok (rv_plan r)"
  by (auto simp: latest_revision_def row_to_revision_def split: option.splits dest: parsed_plan)

lemma find_saved_checkpoint [simp]: "find_checkpoint (cp_id c) (save_checkpoint c st) = Some c"
proof -
  have "find (\<lambda>d. cp_id d = cp_id c) (filter (\<lambda>d. cp_id d \<noteq> cp_id c) xs @ [c]) = Some c" for xs
    by (induction xs) simp_all
  then show ?thesis by (simp add: find_checkpoint_def save_checkpoint_def)
qed

section \<open>Properties\<close>

text \<open>C24: plans survive their JSON form. The plan the store reads back, and the plan hash of two revisions,
  rest on this: writing a plan and reading it gives the same plan, for every plan whose step ids are the
  ones \<open>PlanStepId::new\<close> accepts.\<close>

theorem plan_json_roundtrip:
  assumes "plan_ids_ok p"
  shows "plan_from_json (plan_to_json p) = Some p"
  using assms by (rule plan_json)

text \<open>C36: what is read is well formed. Whatever JSON a model submits or a row holds, a plan that parses has
  only step ids and dependency ids of 1 to 64 characters of the id alphabet, so that they can be put into
  prompts, journal payloads and keys unescaped.\<close>

theorem parsed_plan_typed:
  assumes "plan_from_json v = Some p" and "s \<in> set (pl_steps p)" and "i = ps_id s \<or> i \<in> set (ps_depends s)"
  shows "step_text i \<noteq> [] \<and> length (step_text i) \<le> 64 \<and> (\<forall>c \<in> set (step_text i). step_id_char c)"
proof -
  have "step_id_ok i" using parsed_plan [OF assms(1)] assms(2,3) by (auto simp: plan_ids_ok_def)
  then show ?thesis by (simp add: step_id_ok_def new_step_id_Inr)
qed

text \<open>The latest revision is the one saved last. Saving a revision numbered at least as high as every
  stored one of its task makes it the one \<open>latest_revision\<close> reads, unchanged through its row, and leaves
  the plans of other tasks alone.\<close>

theorem saved_revision_is_latest:
  assumes "plan_ids_ok (rv_plan r)" and "rv_created r < 2 ^ 63"
    and "\<forall>w \<in> set (st_revisions st). rw_task w = i \<longrightarrow> rw_number w \<le> uint (rv_number r)"
  shows "latest_revision i (save_revision i r st) = Some (Some r) \<and>
    (\<forall>j. j \<noteq> i \<longrightarrow> latest_revision j (save_revision i r st) = latest_revision j st)"
  using latest_saved [OF assms] latest_other by blast

definition tiny_step :: "string \<Rightarrow> string list \<Rightarrow> plan_step" where
  "tiny_step t ts = \<lparr>ps_id = PlanStepId t, ps_intent = ''do'', ps_targets = ts, ps_depends = [], ps_parallel = True,
     ps_checkpoint = True, ps_verification = VerifyCommand ''cargo test'', ps_rollback = False, ps_approval = False,
     ps_scope = \<lparr>es_files = 3, es_risk = RiskHigh\<rparr>\<rparr>"

definition tiny_plan :: plan where
  "tiny_plan = \<lparr>pl_scope = [''src''], pl_steps = [tiny_step ''s1'' [''src/a.rs'']]\<rparr>"

lemma tiny_ok: "plan_ids_ok tiny_plan"
  by (simp add: plan_ids_ok_def tiny_plan_def tiny_step_def step_id_ok_def new_step_id_Inr step_id_char_def)

theorem plan_json_roundtrip_witness: "plan_from_json (plan_to_json tiny_plan) = Some tiny_plan"
  by (rule plan_json_roundtrip [OF tiny_ok])

theorem parsed_plan_typed_witness:
  "plan_from_json (JArray [JArray [], JArray [JArray [JString ''s1'', JString ''do'']]]) \<noteq> None \<and>
   list_all step_id_char (step_text (PlanStepId ''s1''))"
proof -
  let ?s = "\<lparr>ps_id = PlanStepId ''s1'', ps_intent = ''do'', ps_targets = [], ps_depends = [], ps_parallel = False,
     ps_checkpoint = False, ps_verification = VerifyNone, ps_rollback = False, ps_approval = False,
     ps_scope = \<lparr>es_files = 0, es_risk = RiskLow\<rparr>\<rparr>"
  have "plan_from_json (JArray [JArray [], JArray [JArray [JString ''s1'', JString ''do'']]]) =
      Some \<lparr>pl_scope = [], pl_steps = [?s]\<rparr>"
    by (simp add: plan_from_json_def struct_fields_def defaulted_def required_def json_list_def step_from_json_def
        step_field_names_def step_id_from_json_def new_step_id_def step_id_char_def)
  with parsed_plan_typed [OF this, of ?s "PlanStepId ''s1''"] show ?thesis by simp
qed

theorem saved_revision_is_latest_witness:
  "latest_revision (TaskId 1) (save_revision (TaskId 1) (first_revision tiny_plan ''why'' 5) empty_plans) =
     Some (Some (first_revision tiny_plan ''why'' 5))"
  using saved_revision_is_latest [of "first_revision tiny_plan ''why'' 5" empty_plans "TaskId 1"]
  by (simp add: first_revision_def tiny_ok empty_plans_def)

end
