(* ===== verification/Plan_Exec.thy ===== *)
theory Plan_Exec
  imports App_Runtime Plan_Store
begin

text \<open>
  Model-authored planning and plan-driven execution (\<open>crates/valyria-agent/src/plan_exec.rs\<close>): the two
  handlers the agent's loop calls in \<open>Planning\<close> and \<open>Implementing\<close> when a plan is in play. What a resume
  needs is read back from the plan store and the task's journal, never from memory. The plan store is
  the first component of the world's rest; \<open>plan_env\<close> holds the sandbox profile's write roots, the hash
  of a plan, the rendering of a parse error, the planning call of the model and the scheduler of the children of a
  parallel wave. Errors of the database are not modelled.
\<close>

section \<open>State and parameters\<close>

record 'y plan_env =
  pv_roots :: "string list list"
  pv_hash :: "plan \<Rightarrow> string"
  pv_serde :: "json \<Rightarrow> string"
  pv_generate :: "model_role \<Rightarrow> message list \<Rightarrow> nat \<Rightarrow> (plan_store \<times> 'y) world
    \<Rightarrow> (agent_error + completion) \<times> (plan_store \<times> 'y) world"
  pv_pick :: "nat \<Rightarrow> nat"

type_synonym 'y planner = "(plan_store \<times> 'y) driver"

definition plans :: "'y planner \<Rightarrow> plan_store" where
  "plans s = fst (wd_rest (dv_world s))"

definition set_plans :: "plan_store \<Rightarrow> 'y planner \<Rightarrow> 'y planner" where
  "set_plans st s = s\<lparr>dv_world := (dv_world s)\<lparr>wd_rest := (st, snd (wd_rest (dv_world s)))\<rparr>\<rparr>"

definition stored_plan :: "'y plan_env \<Rightarrow> task_id \<Rightarrow> plan_store \<Rightarrow> agent_error + plan_revision option" where
  "stored_plan pv i st = (case latest_row i st of
     None \<Rightarrow> Inr None
   | Some w \<Rightarrow> (case row_to_revision w of
       None \<Rightarrow> Inl (AgPlan (''json error: '' @ pv_serde pv (rw_plan w))) | Some r \<Rightarrow> Inr (Some r)))"

definition task_has_plan :: "'y plan_env \<Rightarrow> task_id \<Rightarrow> plan_store \<Rightarrow> agent_error + bool" where
  "task_has_plan pv i st = (case stored_plan pv i st of Inl e \<Rightarrow> Inl e | Inr r \<Rightarrow> Inr (r \<noteq> None))"

definition plan_context_of :: "'y plan_env \<Rightarrow> (plan_store \<times> 'y) services \<Rightarrow> 'y planner \<Rightarrow> plan_context" where
  "plan_context_of pv sv s = \<lparr>pc_resolve = (\<lambda>t. case resolve (env_os (sv_env sv)) (env_root (sv_env sv))
       (wd_disk (dv_world s)) (path_of t) of Inl _ \<Rightarrow> None | Inr q \<Rightarrow> Some q),
     pc_mode = pe_mode (dv_engine s), pc_roots = pv_roots pv\<rparr>"

text \<open>\<open>validate\<close>; the panic of \<open>find_cycle\<close> is never reached (\<open>checked_iff\<close>).\<close>

definition checked_plan ::
  "'y plan_env \<Rightarrow> (plan_store \<times> 'y) services \<Rightarrow> plan \<Rightarrow> 'y planner \<Rightarrow> plan_error list + validated_plan" where
  "checked_plan pv sv p s = (case validate_plan (plan_context_of pv sv s) p of None \<Rightarrow> Inl [] | Some r \<Rightarrow> r)"

definition plan_role :: "(plan_store \<times> 'y) services \<Rightarrow> task_id \<Rightarrow> model_role option \<Rightarrow> 'y planner \<Rightarrow> model_role" where
  "plan_role sv i role s = (case role of
     Some r \<Rightarrow> r | None \<Rightarrow> choose_model_role sv (is_role_escalated i s))"

text \<open>An effect issued under fresh effect and step ids.\<close>

definition log_issued :: "task_id \<Rightarrow> string \<Rightarrow> json \<Rightarrow> 'x driver \<Rightarrow> 'x driver" where
  "log_issued i kind payload s =
     (let (u, s1) = draw s; (v, s2) = draw s1
      in log_entry i (EffectIssued (EffectId u) (StepId v) kind payload) s2)"

section \<open>Reading the journal\<close>

definition journal_of :: "task_id \<Rightarrow> 'x driver \<Rightarrow> journal_kind list" where
  "journal_of i s = map je_kind (journal_since i 0 (dv_tasks s))"

fun issued :: "string \<Rightarrow> (json \<Rightarrow> bool) \<Rightarrow> journal_kind \<Rightarrow> bool" where
  "issued kind P (EffectIssued _ _ k p) \<longleftrightarrow> k = kind \<and> P p"
| "issued kind P _ \<longleftrightarrow> False"

fun completed :: "string \<Rightarrow> (json \<Rightarrow> bool) \<Rightarrow> journal_kind \<Rightarrow> bool" where
  "completed kind P (EffectCompleted _ _ k p) \<longleftrightarrow> k = kind \<and> P p"
| "completed kind P _ \<longleftrightarrow> False"

fun completed_payload :: "journal_kind \<Rightarrow> json" where
  "completed_payload (EffectCompleted _ _ _ p) = p"
| "completed_payload _ = JNull"

text \<open>\<open>rposition\<close>: the last entry that satisfies \<open>P\<close> and what follows it.\<close>

fun after_last :: "('a \<Rightarrow> bool) \<Rightarrow> 'a list \<Rightarrow> ('a \<times> 'a list) option" where
  "after_last P [] = None"
| "after_last P (x # xs) = (case after_last P xs of
     Some r \<Rightarrow> Some r | None \<Rightarrow> if P x then Some (x, xs) else None)"

fun after_first :: "('a \<Rightarrow> bool) \<Rightarrow> 'a list \<Rightarrow> 'a list option" where
  "after_first P [] = None"
| "after_first P (x # xs) = (if P x then Some xs else after_first P xs)"

definition names_step :: "string \<Rightarrow> plan_step_id \<Rightarrow> json \<Rightarrow> bool" where
  "names_step key k p \<longleftrightarrow> payload_str key p = Some (step_text k)"

definition has_accepted_plan :: "task_id \<Rightarrow> 'x driver \<Rightarrow> bool" where
  "has_accepted_plan i s \<longleftrightarrow> (\<exists>k \<in> set (journal_of i s). issued ''plan_accepted'' (\<lambda>_. True) k)"

definition plan_rejection_count :: "task_id \<Rightarrow> 'x driver \<Rightarrow> u32" where
  "plan_rejection_count i s = of_nat (length (filter (completed ''plan_rejected'' (\<lambda>_. True)) (journal_of i s)))"

definition unprocessed_plan_submission :: "task_id \<Rightarrow> 'x driver \<Rightarrow> json option" where
  "unprocessed_plan_submission i s =
     (case after_last (completed ''model_completion'' (\<lambda>p. payload_str ''phase'' p = Some ''plan'')) (journal_of i s) of
        None \<Rightarrow> None
      | Some (k, later) \<Rightarrow>
          if \<exists>k \<in> set later. issued ''plan_accepted'' (\<lambda>_. True) k \<or> completed ''plan_rejected'' (\<lambda>_. True) k then None
          else Some (case json_get ''plan_submission'' (completed_payload k) of None \<Rightarrow> JNull | Some v \<Rightarrow> v))"

fun completed_step :: "journal_kind \<Rightarrow> plan_step_id option" where
  "completed_step (EffectCompleted _ _ k p) =
     (if k = ''plan_step_completed'' then Option.bind (payload_str ''step_id'' p)
        (\<lambda>t. case new_step_id t of Inl _ \<Rightarrow> None | Inr i \<Rightarrow> Some i) else None)"
| "completed_step _ = None"

definition completed_plan_steps :: "task_id \<Rightarrow> 'x driver \<Rightarrow> plan_step_id set" where
  "completed_plan_steps i s = set (List.map_filter completed_step (journal_of i s))"

definition step_started :: "task_id \<Rightarrow> plan_step_id \<Rightarrow> 'x driver \<Rightarrow> bool" where
  "step_started i k s \<longleftrightarrow> (\<exists>e \<in> set (journal_of i s). issued ''plan_step_started'' (names_step ''step_id'' k) e)"

definition checkpoint_taken_for :: "task_id \<Rightarrow> plan_step_id \<Rightarrow> 'x driver \<Rightarrow> bool" where
  "checkpoint_taken_for i k s \<longleftrightarrow> (\<exists>e \<in> set (journal_of i s). completed ''plan_checkpoint'' (names_step ''step_id'' k) e)"

definition model_turns_for_step :: "task_id \<Rightarrow> plan_step_id \<Rightarrow> 'x driver \<Rightarrow> nat" where
  "model_turns_for_step i k s =
     (case after_first (issued ''plan_step_started'' (names_step ''step_id'' k)) (journal_of i s) of
        None \<Rightarrow> 0
      | Some later \<Rightarrow> length (filter (issued ''model_call'' (names_step ''plan_step'' k)) later))"

section \<open>The action of a step\<close>

datatype step_action = StepCall string json | StepFinish | StepAsk

fun action_to_json :: "step_action \<Rightarrow> json" where
  "action_to_json (StepCall tool inp) = JObject
     [(''input'', inp), (''kind'', JString ''tool_call''), (''tool'', JString tool)]"
| "action_to_json StepFinish = JObject [(''kind'', JString ''finish'')]"
| "action_to_json StepAsk = JObject [(''kind'', JString ''ask'')]"

definition action_from_json :: "json \<Rightarrow> step_action option" where
  "action_from_json v = Option.bind (payload_str ''kind'' v) (\<lambda>k.
     if k = ''tool_call'' then map_option (\<lambda>t. StepCall t
       (case json_get ''input'' v of None \<Rightarrow> JNull | Some inp \<Rightarrow> inp)) (payload_str ''tool'' v)
     else if k = ''finish'' then Some StepFinish
     else if k = ''ask'' then Some StepAsk
     else None)"

text \<open>An entry after which a step's completion has been acted on.\<close>

definition acted_on :: "journal_kind \<Rightarrow> bool" where
  "acted_on e \<longleftrightarrow> issued ''tool'' (\<lambda>_. True) e \<or> completed ''plan_step_completed'' (\<lambda>_. True) e
     \<or> completed ''plan_scope_expansion'' (\<lambda>_. True) e"

definition step_completion :: "plan_step_id \<Rightarrow> journal_kind \<Rightarrow> bool" where
  "step_completion k = completed ''model_completion''
     (\<lambda>p. payload_str ''phase'' p = Some ''plan_step'' \<and> names_step ''plan_step'' k p)"

definition unprocessed_step_action :: "task_id \<Rightarrow> plan_step_id \<Rightarrow> 'x driver \<Rightarrow> step_action option" where
  "unprocessed_step_action i k s =
     (case after_last (step_completion k) (journal_of i s) of
        None \<Rightarrow> None
      | Some (e, later) \<Rightarrow> if \<exists>e \<in> set later. acted_on e then None
          else Option.bind (json_get ''step_action'' (completed_payload e)) action_from_json)"


section \<open>Planning\<close>

definition max_plan_repair_attempts :: u32 where
  "max_plan_repair_attempts = 3"

definition blank_line :: string where
  "blank_line = [CHR 0x0A, CHR 0x0A]"

definition plan_prompt :: "string \<Rightarrow> string option \<Rightarrow> string" where
  "plan_prompt objective feedback = (case feedback of
     None \<Rightarrow> objective @ blank_line @ ''Produce a plan for this task. Respond with a single ''
       @ ticked ''submit_plan'' @ '' tool call whose arguments are the plan JSON.''
   | Some fb \<Rightarrow> objective @ blank_line @ fb @ blank_line @ ''Resubmit the corrected plan.'')"

fun submission_of :: "action_request \<Rightarrow> json" where
  "submission_of (ToolCall tool inp) = (if tool = ''submit_plan'' then inp else JNull)"
| "submission_of _ = JNull"

definition request_plan_from_model ::
  "'y plan_env \<Rightarrow> (plan_store \<times> 'y) services \<Rightarrow> task_id \<Rightarrow> string option \<Rightarrow> model_role option \<Rightarrow> 'y planner
     \<Rightarrow> (agent_error + json) \<times> 'y planner" where
  "request_plan_from_model pv sv i feedback role s = (case get_state i s of
     Inl e \<Rightarrow> (Inl e, s)
   | Inr t \<Rightarrow>
       (let turn = count_model_calls i (dv_tasks s);
            (u, s1) = draw s; (v, s2) = draw s1; sid = StepId u; e = EffectId v;
            s3 = log_entry i (EffectIssued e sid ''model_call''
              (JObject [(''phase'', JString ''plan''), (''turn_index'', JInt (int turn))])) s2
        in (case pv_generate pv (plan_role sv i role s3) [user_message (plan_prompt (tk_objective t) feedback)]
              turn (dv_world s3) of
            (Inl x, w) \<Rightarrow> (Inl x, s3\<lparr>dv_world := w\<rparr>)
          | (Inr c, w) \<Rightarrow> (case from_completion c of
              Inl x \<Rightarrow> (Inl x, s3\<lparr>dv_world := w\<rparr>)
            | Inr a \<Rightarrow> (Inr (submission_of a), log_entry i (EffectCompleted e sid ''model_completion'' (JObject
                [(''finish_reason'', JString (debug_finish (cm_finish c))), (''phase'', JString ''plan''),
                 (''plan_submission'', submission_of a), (''text'', JString (cm_text c))]))
                (s3\<lparr>dv_world := w\<rparr>))))))"

definition submission_to_plan :: "'y plan_env \<Rightarrow> json \<Rightarrow> plan_error list + plan" where
  "submission_to_plan pv v =
     (if v = JNull then Inl [plan_wide_error NotSubmitted
        (''expected a '' @ ticked ''submit_plan'' @ '' tool call carrying the plan JSON'')
        (''respond with one '' @ ticked ''submit_plan'' @ '' tool call, nothing else'')]
      else (case plan_from_json v of
        Some p \<Rightarrow> Inr p
      | None \<Rightarrow> Inl [plan_wide_error Malformed (''plan JSON did not parse: '' @ pv_serde pv v)
          (''emit valid plan JSON: an object with '' @ ticked ''plan_scope'' @ '' and '' @ ticked ''steps'')]))"

definition judge_submission ::
  "'y plan_env \<Rightarrow> (plan_store \<times> 'y) services \<Rightarrow> json \<Rightarrow> 'y planner \<Rightarrow> plan_error list + validated_plan" where
  "judge_submission pv sv v s = (case submission_to_plan pv v of
     Inl es \<Rightarrow> Inl es | Inr p \<Rightarrow> checked_plan pv sv p s)"

text \<open>An accepted plan is stored, then journaled, then the task moves on.\<close>

definition accept_plan ::
  "'y plan_env \<Rightarrow> task_id \<Rightarrow> validated_plan \<Rightarrow> 'y planner \<Rightarrow> (agent_error + flow) \<times> 'y planner" where
  "accept_plan pv i v s =
     (let p = vp_plan v; (now, s) = read_clock s; rev = first_revision p ''model-authored plan'' now;
          s = set_plans (save_revision i rev (plans s)) s;
          s = log_issued i ''plan_accepted'' (JObject [(''hash'', JString (pv_hash pv p)),
            (''revision'', JInt (uint (rv_number rev))), (''step_count'', JInt (int (length (pl_steps p))))]) s
      in and_return FlowContinue (move_to i Implementing s))"

definition reject_plan :: "task_id \<Rightarrow> plan_error list \<Rightarrow> 'y planner \<Rightarrow> 'y planner" where
  "reject_plan i es s = log_fresh i ''plan_rejected''
     (JObject [(''error_codes'', JArray (map (JString \<circ> plan_code_str \<circ> pe_code) es))]) s"

text \<open>The loop of \<open>step_planning\<close>. It takes fuel; \<open>None\<close> is running out of it.\<close>

fun planning_loop ::
  "nat \<Rightarrow> 'y plan_env \<Rightarrow> (plan_store \<times> 'y) services \<Rightarrow> task_id \<Rightarrow> model_role option \<Rightarrow> plan_repair_ledger
     \<Rightarrow> string option \<Rightarrow> 'y planner \<Rightarrow> ((agent_error + flow) \<times> 'y planner) option" where
  "planning_loop 0 pv sv i role repair feedback s = None"
| "planning_loop (Suc n) pv sv i role repair feedback s =
     (if sv_cancelled sv (dv_world s) then Some (and_return FlowReturn (move_to i Cancelled s))
      else (case (case unprocessed_plan_submission i s of
            Some v \<Rightarrow> (Inr v, s) | None \<Rightarrow> request_plan_from_model pv sv i feedback role s) of
         (Inl e, s) \<Rightarrow> Some (Inl e, s)
       | (Inr v, s) \<Rightarrow> (case judge_submission pv sv v s of
           Inr p \<Rightarrow> Some (accept_plan pv i p s)
         | Inl es \<Rightarrow> (case plan_record_and_decide es repair of
             (PlanRetry fb, repair) \<Rightarrow> planning_loop n pv sv i role repair (Some fb) (reject_plan i es s)
           | (PlanGiveUp reason, _) \<Rightarrow> Some (and_return FlowReturn (move_to i Failed
               (log_entry i (RecoveryNote (''planning gave up: '' @ reason)) (reject_plan i es s))))))))"

definition planning_rounds ::
  "nat \<Rightarrow> 'y plan_env \<Rightarrow> (plan_store \<times> 'y) services \<Rightarrow> task_id \<Rightarrow> model_role option \<Rightarrow> 'y planner
     \<Rightarrow> ((agent_error + flow) \<times> 'y planner) option" where
  "planning_rounds n pv sv i role s =
     (if has_accepted_plan i s then Some (and_return FlowContinue (move_to i Implementing s))
      else let prior = plan_rejection_count i s in
        if max_plan_repair_attempts \<le> prior
        then Some (and_return FlowReturn (move_to i Failed (log_entry i (RecoveryNote
          (''planning gave up: plan still invalid after '' @ show_nat (unat prior) @ '' attempts'')) s)))
        else planning_loop n pv sv i role (resumed_plan_ledger max_plan_repair_attempts prior) None s)"

section \<open>One step of the plan\<close>

definition max_step_turns :: nat where
  "max_step_turns = 3"

definition complete_step :: "task_id \<Rightarrow> plan_step_id \<Rightarrow> 'y planner \<Rightarrow> 'y planner" where
  "complete_step i k s = log_fresh i ''plan_step_completed'' (JObject [(''step_id'', JString (step_text k))]) s"

definition touched_hash :: "(plan_store \<times> 'y) services \<Rightarrow> disk \<Rightarrow> path \<Rightarrow> path \<times> content_hash option" where
  "touched_hash sv d p = (p, current_hash (sv_env sv) d p)"

definition take_checkpoint :: "(plan_store \<times> 'y) services \<Rightarrow> task_id \<Rightarrow> plan_step_id \<Rightarrow> 'y planner \<Rightarrow> 'y planner" where
  "take_checkpoint sv i k s =
     (let touched = map (touched_hash sv (wd_disk (dv_world s))) (task_changed_files i s);
          watermark = length (entries_for_task (wd_ledger (dv_world s)) i);
          (now, s) = read_clock s; (u, s) = draw s;
          cp = capture (CheckpointId u) i k touched watermark now;
          s = set_plans (save_checkpoint cp (plans s)) s
      in log_fresh i ''plan_checkpoint'' (JObject
           [(''checkpoint_id'', JString (show_id (ulid_text (dv_tasks s)) CheckpointKind u)),
            (''step_id'', JString (step_text k))]) s)"

definition step_prompt :: "string \<Rightarrow> plan_step \<Rightarrow> string" where
  "step_prompt objective st = objective @ blank_line @ ''You are executing plan step '' @ ticked (step_text (ps_id st))
     @ '': '' @ ps_intent st @ [CHR 0x0A] @ ''Declared targets: ''
     @ (if ps_targets st = [] then ''(none)'' else join '', '' (ps_targets st)) @ [CHR 0x0A]
     @ ''Make exactly the edits this step needs, one tool call at a time, then finish the step.''"

fun action_of :: "action_request \<Rightarrow> step_action" where
  "action_of (ToolCall tool inp) = StepCall tool inp"
| "action_of (Finish _) = StepFinish"
| "action_of (AskQuestion _) = StepAsk"

definition request_step_action ::
  "(plan_store \<times> 'y) services \<Rightarrow> task_id \<Rightarrow> plan_step \<Rightarrow> model_role option \<Rightarrow> 'y planner
     \<Rightarrow> (agent_error + step_action) \<times> 'y planner" where
  "request_step_action sv i st role s = (case get_state i s of
     Inl e \<Rightarrow> (Inl e, s)
   | Inr t \<Rightarrow>
       (let turn = count_model_calls i (dv_tasks s);
            (u, s1) = draw s; (v, s2) = draw s1; sid = StepId u; e = EffectId v;
            s3 = log_entry i (EffectIssued e sid ''model_call'' (JObject [(''phase'', JString ''plan_step''),
              (''plan_step'', JString (step_text (ps_id st))), (''turn_index'', JInt (int turn))])) s2
        in (case sv_generate sv (plan_role sv i role s3) [user_message (step_prompt (tk_objective t) st)]
              turn (dv_world s3) of
            (Inl x, w) \<Rightarrow> (Inl x, s3\<lparr>dv_world := w\<rparr>)
          | (Inr (c, _), w) \<Rightarrow> (case from_completion c of
              Inl x \<Rightarrow> (Inl x, s3\<lparr>dv_world := w\<rparr>)
            | Inr a \<Rightarrow> (Inr (action_of a), log_entry i (EffectCompleted e sid ''model_completion'' (JObject
                [(''finish_reason'', JString (debug_finish (cm_finish c))), (''phase'', JString ''plan_step''),
                 (''plan_step'', JString (step_text (ps_id st))), (''step_action'', action_to_json (action_of a)),
                 (''text'', JString (cm_text c))])) (s3\<lparr>dv_world := w\<rparr>))))))"

definition within_scope :: "string list \<Rightarrow> string \<Rightarrow> bool" where
  "within_scope scope file \<longleftrightarrow> (let n = replace_char (char_of (92 :: nat)) CHR ''/'' file in
     \<exists>raw \<in> set scope. let p = trim_end CHR ''/'' raw in p = [] \<or> n = p \<or> starts_with (p @ ''/'') n)"

definition note_scope_expansion_if_any :: "task_id \<Rightarrow> plan \<Rightarrow> json \<Rightarrow> 'y planner \<Rightarrow> 'y planner" where
  "note_scope_expansion_if_any i p inp s = (case payload_str ''path'' inp of
     None \<Rightarrow> s
   | Some file \<Rightarrow> if pl_scope p = [] \<or> within_scope (pl_scope p) file then s
       else log_fresh i ''plan_scope_expansion'' (JObject [(''path'', JString file)]) s)"

text \<open>Acting on the action of a step.\<close>

definition act_on_step ::
  "(plan_store \<times> 'y) services \<Rightarrow> task_id \<Rightarrow> plan \<Rightarrow> plan_step_id \<Rightarrow> step_id \<Rightarrow> step_action \<Rightarrow> 'y planner
     \<Rightarrow> (agent_error + flow) \<times> 'y planner" where
  "act_on_step sv i p k sid a s = (case a of
     StepCall tool inp \<Rightarrow>
       then_do (issue_and_execute_tool_call sv i sid tool inp (note_scope_expansion_if_any i p inp s)) (\<lambda>_ s.
         (case get_state i s of
            Inl e \<Rightarrow> (Inl e, s)
          | Inr t \<Rightarrow> (Inr (if tk_state t = Implementing then FlowContinue else FlowReturn), s)))
   | StepFinish \<Rightarrow> (Inr FlowContinue, complete_step i k s)
   | StepAsk \<Rightarrow> and_return FlowReturn (move_to i WaitingForUser s))"

definition begin_step :: "(plan_store \<times> 'y) services \<Rightarrow> task_id \<Rightarrow> plan_step \<Rightarrow> 'y planner \<Rightarrow> 'y planner" where
  "begin_step sv i st s =
     (let s = (if ps_checkpoint st \<and> \<not> checkpoint_taken_for i (ps_id st) s then take_checkpoint sv i (ps_id st) s else s)
      in if step_started i (ps_id st) s then s
         else log_issued i ''plan_step_started'' (JObject [(''intent'', JString (ps_intent st)),
           (''step_id'', JString (step_text (ps_id st)))]) s)"

definition run_plan_step ::
  "(plan_store \<times> 'y) services \<Rightarrow> task_id \<Rightarrow> plan \<Rightarrow> plan_step \<Rightarrow> model_role option \<Rightarrow> 'y planner
     \<Rightarrow> (agent_error + flow) \<times> 'y planner" where
  "run_plan_step sv i p st role s =
     (let k = ps_id st; s = begin_step sv i st s in
      if max_step_turns \<le> model_turns_for_step i k s then (Inr FlowContinue, complete_step i k s)
      else let (u, s) = draw s in
        then_do (case unprocessed_step_action i k s of
            Some a \<Rightarrow> (Inr a, s) | None \<Rightarrow> request_step_action sv i st role s)
          (act_on_step sv i p k (StepId u)))"

text \<open>The handler; \<open>wave\<close> executes what remains of a parallel group of more than one step, or does not
  return.\<close>

definition plan_round ::
  "(plan \<Rightarrow> plan_step_id list \<Rightarrow> 'y planner \<Rightarrow> ((agent_error + flow) \<times> 'y planner) option) \<Rightarrow> 'y plan_env
     \<Rightarrow> (plan_store \<times> 'y) services \<Rightarrow> task_id \<Rightarrow> model_role option \<Rightarrow> 'y planner
     \<Rightarrow> ((agent_error + flow) \<times> 'y planner) option" where
  "plan_round wave pv sv i role s = (case interrupted_tool_call i (dv_tasks s) of
     Some p \<Rightarrow> Some (and_return FlowContinue
       (issue_and_execute_tool_call sv i (pc_step p) (pc_tool p) (pc_input p) s))
   | None \<Rightarrow> (case stored_plan pv i (plans s) of
       Inl e \<Rightarrow> Some (Inl e, s)
     | Inr None \<Rightarrow> Some (Inl (AgPlan ''no plan revision for task in Implementing''), s)
     | Inr (Some r) \<Rightarrow> (case checked_plan pv sv (rv_plan r) s of
         Inl es \<Rightarrow> Some (and_return FlowReturn (move_to i Failed (log_entry i (RecoveryNote
           (''stored plan no longer validates ('' @ join '', '' (map (plan_code_str \<circ> pe_code) es) @ '') ''
             @ em_dash @ '' failing'')) s)))
       | Inr v \<Rightarrow>
           (let sched = make_schedule v; fin = completed_plan_steps i s in
            case next_incomplete sched fin of
              None \<Rightarrow> Some (and_return FlowContinue (move_to i Verifying s))
            | Some st \<Rightarrow>
                (let rest = (case group_for sched (ps_id st) of
                       None \<Rightarrow> [] | Some g \<Rightarrow> filter (\<lambda>k. k \<notin> fin) g)
                 in if 1 < length rest then wave (vp_plan v) rest s
                    else Some (run_plan_step sv i (rv_plan r) st role s))))))"

end
