(* ===== verification/Plan_Run.thy ===== *)
theory Plan_Run
  imports Plan_Exec
begin

text \<open>
  The lemmas the theorems on plan-driven execution share: what each operation adds to a task's journal
  (\<open>adds\<close>), what the readers of the journal say of a longer one, and the cases of a round.
\<close>

section \<open>What an operation adds to a journal\<close>

definition adds :: "(journal_kind \<Rightarrow> bool) \<Rightarrow> task_id \<Rightarrow> 'x driver \<Rightarrow> 'x driver \<Rightarrow> bool" where
  "adds P i s s' \<longleftrightarrow> (\<exists>ks. kinds i s' = kinds i s @ ks \<and> list_all P ks)"

lemma journal_of_kinds: "journal_of i s = kinds i s"
  by (simp add: journal_of_def kinds_def journal_kinds_def)

lemma adds_refl [simp]: "adds P i s s"
  by (auto simp: adds_def)

lemma adds_trans: "adds P i s t \<Longrightarrow> adds P i t u \<Longrightarrow> adds P i s u"
  by (auto simp: adds_def)

lemma adds_mono: "adds P i s t \<Longrightarrow> (\<And>k. P k \<Longrightarrow> Q k) \<Longrightarrow> adds Q i s t"
  by (auto simp: adds_def list_all_iff)

lemma adds_kinds: "kinds i t = kinds i s \<Longrightarrow> adds P i s t"
  by (simp add: adds_def)

lemma adds_simps [simp]:
  "adds P i s (t\<lparr>dv_world := w\<rparr>) \<longleftrightarrow> adds P i s t" "adds P i s (t\<lparr>dv_engine := e\<rparr>) \<longleftrightarrow> adds P i s t"
  "adds P i s (snd (draw t)) \<longleftrightarrow> adds P i s t" "adds P i s (snd (read_clock t)) \<longleftrightarrow> adds P i s t"
  by (simp_all add: adds_def)

lemma adds_plans [simp]: "adds P i s (set_plans st t) \<longleftrightarrow> adds P i s t"
  by (simp add: set_plans_def)

lemma adds_log: "adds P i s t \<Longrightarrow> (i = j \<Longrightarrow> P k) \<Longrightarrow> adds P i s (log_entry j k t)"
  by (auto simp: adds_def)

lemma adds_fresh: "adds P i s t \<Longrightarrow> (\<And>e st. i = j \<Longrightarrow> P (EffectCompleted e st k p)) \<Longrightarrow> adds P i s (log_fresh j k p t)"
  unfolding log_fresh_unfold by (rule adds_log) simp_all

lemma log_issued_unfold:
  "log_issued i k p s = log_entry i (EffectIssued (EffectId (fst (draw s)))
     (StepId (fst (draw (snd (draw s))))) k p) (snd (draw (snd (draw s))))"
  by (simp add: log_issued_def case_prod_beta)

lemma adds_issued: "adds P i s t \<Longrightarrow> (\<And>e st. i = j \<Longrightarrow> P (EffectIssued e st k p)) \<Longrightarrow> adds P i s (log_issued j k p t)"
  unfolding log_issued_unfold by (rule adds_log) simp_all

text \<open>The entries no reader of a plan's journal looks at, but for a move to \<open>Verifying\<close>.\<close>

fun plain :: "journal_kind \<Rightarrow> bool" where
  "plain (EffectIssued _ _ k _) = (k \<notin> {''model_call'', ''plan_accepted'', ''plan_step_started''})"
| "plain (EffectCompleted _ _ k _) = (k \<notin> {''model_completion'', ''plan_rejected'', ''plan_step_completed'',
     ''plan_checkpoint''})"
| "plain (StateChanged _ to) = (to \<noteq> Verifying)"
| "plain _ = True"

lemma plain_skips:
  "plain k \<Longrightarrow> completed_step k = None" "plain k \<Longrightarrow> \<not> step_completion j k"
  "plain k \<Longrightarrow> \<not> issued ''model_call'' P k" "plain k \<Longrightarrow> \<not> issued ''plan_accepted'' P k"
  "plain k \<Longrightarrow> \<not> issued ''plan_step_started'' P k" "plain k \<Longrightarrow> \<not> completed ''model_completion'' P k"
  "plain k \<Longrightarrow> \<not> completed ''plan_rejected'' P k" "plain k \<Longrightarrow> \<not> completed ''plan_checkpoint'' P k"
  by (cases k; simp add: step_completion_def)+

lemma adds_move:
  assumes "adds P i s t" and "\<And>a. i = j \<Longrightarrow> P (StateChanged a to)" and "\<And>e st v. P (EffectCompleted e st ''subtask_completed'' v)"
  shows "adds P i s (snd (move_to j to t))"
proof -
  have "adds P i t (snd (move_to j to t))"
  proof (cases "get_task j (dv_tasks t)")
    case (Inr x)
    show ?thesis
    proof (cases "transition_check x to")
      case None
      let ?m = "mid_transition j x to (dv_tasks t)"
      let ?v = "JObject [(''child_task_id'', JString (id_text (dv_tasks t) j)), (''final_state'', JString (show_state to))]"
      obtain ks where ks: "journal_kinds i (parent_entry (tk_parent x) ''subtask_completed'' ?v ?m) = journal_kinds i ?m @ ks"
        "\<forall>k \<in> set ks. \<exists>e st. k = EffectCompleted e st ''subtask_completed'' ?v"
        using journal_kinds_parent_entry [of i "tk_parent x" "''subtask_completed''" ?v ?m] by blast
      have "list_all P ks" using ks(2) assms(3) by (auto simp: list_all_iff)
      moreover have m: "journal_kinds i ?m = journal_kinds i (dv_tasks t) @ (if i = j then [StateChanged (tk_state x) to] else [])"
        by (simp add: mid_transition_def)
      ultimately show ?thesis
        using Inr None assms(2) ks(1) by (simp add: adds_def kinds_def snd_move_to transition_unfold)
    qed (simp add: adds_def kinds_def snd_move_to transition_unfold Inr)
  qed (simp add: adds_def kinds_def snd_move_to transition_unfold)
  then show ?thesis using assms(1) by (rule adds_trans [rotated])
qed

lemma plain_move: "adds plain i s t \<Longrightarrow> i = j \<longrightarrow> to \<noteq> Verifying \<Longrightarrow> adds plain i s (snd (move_to j to t))"
  by (rule adds_move) simp_all

lemma kinds_baseline [simp]: "kinds i (record_baseline_if_path sv inp s) = kinds i s"
  by (simp add: record_baseline_if_path_def Let_def split: option.split)

lemma kinds_invoke [simp]: "kinds i (snd (invoke_tool sv ctx name inp s)) = kinds i s"
  by (simp add: invoke_tool_def case_prod_beta Let_def)

text \<open>What a tool call writes.\<close>

fun tool_entry :: "journal_kind \<Rightarrow> bool" where
  "tool_entry (EffectIssued _ _ k _) = (k = ''tool'')"
| "tool_entry (EffectCompleted _ _ k _) =
     (k \<in> {''tool_result'', ''permission_ask'', ''tool_denied'', ''subtask_completed''})"
| "tool_entry (StateChanged _ to) = (to \<noteq> Verifying)"
| "tool_entry _ = False"

lemma tool_plain: "tool_entry k \<Longrightarrow> plain k"
  by (cases k) auto

lemma tool_move: "adds tool_entry i s t \<Longrightarrow> to \<noteq> Verifying \<Longrightarrow> adds tool_entry i s (snd (move_to j to t))"
  by (rule adds_move) simp_all

lemma adds_observe: "adds tool_entry j s t \<Longrightarrow> adds tool_entry j s (snd (observe_tool_result i sid e res t))"
  by (cases res) (simp_all add: observe_tool_result_def tool_move adds_log)

lemma adds_issue: "adds tool_entry j s (snd (issue_and_execute_tool_call sv i sid name inp s))"
proof -
  obtain e p where i: "issue_and_execute_tool_call sv i sid name inp s =
    (let s2 = log_entry i (EffectIssued (EffectId e) sid ''tool'' p) (snd (draw s));
         r = invoke_tool sv \<lparr>tc_task = i, tc_step = sid\<rparr> name inp (record_baseline_if_path sv inp s2)
     in observe_tool_result i sid (EffectId e) (fst r) (snd r))"
    by (simp add: issue_and_execute_tool_call_def case_prod_beta Let_def)
  let ?s2 = "log_entry i (EffectIssued (EffectId e) sid ''tool'' p) (snd (draw s))"
  have "adds tool_entry j s ?s2" by (rule adds_log) simp_all
  then have "adds tool_entry j s (snd (invoke_tool sv \<lparr>tc_task = i, tc_step = sid\<rparr> name inp (record_baseline_if_path sv inp ?s2)))"
    by (simp add: adds_def)
  then show ?thesis unfolding i Let_def by (rule adds_observe)
qed


section \<open>Reading a longer journal\<close>

lemma after_first_append:
  "after_first P (xs @ ys) = (case after_first P xs of Some l \<Rightarrow> Some (l @ ys) | None \<Rightarrow> after_first P ys)"
  by (induction xs) simp_all

lemma after_last_append:
  "after_last P (xs @ ys) = (case after_last P ys of
     Some r \<Rightarrow> Some r | None \<Rightarrow> map_option (\<lambda>(x, l). (x, l @ ys)) (after_last P xs))"
  by (induction xs) (simp_all split: option.split)

lemma after_last_None: "list_all (\<lambda>x. \<not> P x) xs \<Longrightarrow> after_last P xs = None"
  by (induction xs) simp_all

lemma after_first_None: "list_all (\<lambda>x. \<not> P x) xs \<Longrightarrow> after_first P xs = None"
  by (induction xs) simp_all

definition turns :: "plan_step_id \<Rightarrow> journal_kind list \<Rightarrow> nat" where
  "turns k ks = (case after_first (issued ''plan_step_started'' (names_step ''step_id'' k)) ks of
     None \<Rightarrow> 0 | Some later \<Rightarrow> length (filter (issued ''model_call'' (names_step ''plan_step'' k)) later))"

lemma model_turns: "model_turns_for_step i k s = turns k (kinds i s)"
  by (simp add: model_turns_for_step_def turns_def journal_of_kinds)

text \<open>An entry that is no turn of any step of a plan.\<close>

definition no_turn :: "journal_kind \<Rightarrow> bool" where
  "no_turn e \<longleftrightarrow> (\<forall>k. \<not> issued ''model_call'' (names_step ''plan_step'' k) e)"

lemma no_turn_simps [simp]:
  "no_turn (EffectCompleted e st k p)" "no_turn (StateChanged a b)" "no_turn (RecoveryNote n)"
  "kd \<noteq> ''model_call'' \<Longrightarrow> no_turn (EffectIssued e st kd p)"
  "payload_str ''plan_step'' p = None \<Longrightarrow> no_turn (EffectIssued e st kd p)"
  by (simp_all add: no_turn_def names_step_def)

lemma plain_no_turn: "plain e \<Longrightarrow> no_turn e"
  by (simp add: no_turn_def plain_skips)

lemma turns_no_turn: "list_all no_turn ls \<Longrightarrow> turns k (ks @ ls) = turns k ks"
proof -
  assume l: "list_all no_turn ls"
  have f: "filter (issued ''model_call'' (names_step ''plan_step'' k)) xs = []" if "set xs \<subseteq> set ls" for xs
    using l that by (auto simp: filter_empty_conv list_all_iff no_turn_def)
  have sub: "after_first P ls = Some l' \<Longrightarrow> set l' \<subseteq> set ls" for P l'
    by (induction ls) (auto split: if_splits)
  show ?thesis
    using f [of ls] f [OF sub] by (auto simp: turns_def after_first_append split: option.splits)
qed

lemma turns_call: "turns k (ks @ [EffectIssued e st ''model_call'' p]) \<le> turns k ks + (if names_step ''plan_step'' k p then 1 else 0)"
  by (simp add: turns_def after_first_append split: option.split)

lemma turns_adds: "adds no_turn i s t \<Longrightarrow> model_turns_for_step i k t = model_turns_for_step i k s"
  by (auto simp: adds_def model_turns turns_no_turn)

definition fin_steps :: "journal_kind list \<Rightarrow> plan_step_id set" where
  "fin_steps ks = set (List.map_filter completed_step ks)"

lemma completed_steps: "completed_plan_steps i s = fin_steps (kinds i s)"
  by (simp add: completed_plan_steps_def fin_steps_def journal_of_kinds)

lemma fin_append [simp]: "fin_steps (xs @ ys) = fin_steps xs \<union> fin_steps ys"
  by (simp add: fin_steps_def List.map_filter_def)

lemma fin_none: "list_all (\<lambda>e. completed_step e = None) ks \<Longrightarrow> fin_steps ks = {}"
  by (induction ks) (simp_all add: fin_steps_def List.map_filter_def)

lemma fin_adds: "adds (\<lambda>e. completed_step e = None) i s t \<Longrightarrow> completed_plan_steps i t = completed_plan_steps i s"
  by (auto simp: adds_def completed_steps fin_none)

lemma fin_plain: "adds plain i s t \<Longrightarrow> completed_plan_steps i t = completed_plan_steps i s"
  by (rule fin_adds) (rule adds_mono, assumption, rule plain_skips)

section \<open>What the steps of the handler add\<close>

lemma adds_begin:
  assumes "\<And>e st p. j = i \<Longrightarrow> P (EffectCompleted e st ''plan_checkpoint'' p)"
    and "\<And>e st p. j = i \<Longrightarrow> P (EffectIssued e st ''plan_step_started'' p)"
  shows "adds P j s (begin_step sv i st s)"
proof -
  have c: "adds P j s (take_checkpoint sv i k s)" for k
    unfolding take_checkpoint_def by (simp add: case_prod_beta Let_def assms(1) adds_fresh)
  show ?thesis
    unfolding begin_step_def Let_def using c by (auto intro: adds_issued assms(2))
qed

lemma adds_scope_note: "adds plain j s (note_scope_expansion_if_any i p inp s)"
  by (simp add: note_scope_expansion_if_any_def adds_fresh split: option.split)

lemma adds_act:
  assumes "\<And>e. plain e \<Longrightarrow> P e"
    and "\<And>e st. j = i \<Longrightarrow> P (EffectCompleted e st ''plan_step_completed'' (JObject [(''step_id'', JString (step_text k))]))"
  shows "adds P j s (snd (act_on_step sv i p k sid a s))"
proof (cases a)
  case (StepCall tool inp)
  let ?t = "note_scope_expansion_if_any i p inp s"
  let ?x = "issue_and_execute_tool_call sv i sid tool inp ?t"
  have "adds plain j s (snd ?x)"
    using adds_scope_note adds_mono [OF adds_issue tool_plain] by (rule adds_trans)
  then have "adds P j s (snd ?x)" by (rule adds_mono) (rule assms(1))
  moreover have "snd (act_on_step sv i p k sid a s) = snd ?x"
    by (cases "?x"; cases "fst ?x") (auto simp: act_on_step_def StepCall split: sum.split)
  ultimately show ?thesis by simp
next
  case StepFinish
  then show ?thesis by (simp add: act_on_step_def complete_step_def adds_fresh assms(2))
next
  case StepAsk
  then have "snd (act_on_step sv i p k sid a s) = snd (move_to i WaitingForUser s)"
    by (simp add: act_on_step_def)
  moreover have "adds P j s (snd (move_to i WaitingForUser s))"
    using assms(1) by (intro adds_move) simp_all
  ultimately show ?thesis by simp
qed

lemma request_shape:
  obtains x where "request_step_action sv i st role s = (Inl x, s)"
  | x e sid n w where "request_step_action sv i st role s = (Inl x, (log_entry i (EffectIssued e sid ''model_call'' (JObject
      [(''phase'', JString ''plan_step''), (''plan_step'', JString (step_text (ps_id st))), (''turn_index'', JInt n)]))
      (snd (draw (snd (draw s)))))\<lparr>dv_world := w\<rparr>)"
  | e sid n w a f t where "request_step_action sv i st role s = (Inr a, log_entry i (EffectCompleted e sid ''model_completion''
      (JObject [(''finish_reason'', f), (''phase'', JString ''plan_step''), (''plan_step'', JString (step_text (ps_id st))),
        (''step_action'', action_to_json a), (''text'', t)]))
      ((log_entry i (EffectIssued e sid ''model_call'' (JObject
        [(''phase'', JString ''plan_step''), (''plan_step'', JString (step_text (ps_id st))), (''turn_index'', JInt n)]))
        (snd (draw (snd (draw s)))))\<lparr>dv_world := w\<rparr>))"
proof (cases "get_state i s")
  case (Inl e)
  then have "request_step_action sv i st role s = (Inl e, s)" by (simp add: request_step_action_def)
  then show ?thesis by (rule that(1))
next
  case (Inr t)
  let ?s2 = "snd (draw (snd (draw s)))"
  let ?n = "int (count_model_calls i (dv_tasks s))"
  let ?e = "EffectId (fst (draw (snd (draw s))))" and ?sid = "StepId (fst (draw s))"
  let ?s3 = "log_entry i (EffectIssued ?e ?sid ''model_call'' (JObject [(''phase'', JString ''plan_step''),
      (''plan_step'', JString (step_text (ps_id st))), (''turn_index'', JInt ?n)])) ?s2"
  obtain r w where g: "sv_generate sv (plan_role sv i role ?s3) [user_message (step_prompt (tk_objective t) st)]
      (count_model_calls i (dv_tasks s)) (dv_world ?s3) = (r, w)" by fastforce
  show ?thesis
  proof (cases r)
    case (Inl x)
    then have "request_step_action sv i st role s = (Inl x, ?s3\<lparr>dv_world := w\<rparr>)" using g
      by (simp add: request_step_action_def Inr case_prod_beta Let_def)
    then show ?thesis by (rule that(2))
  next
    case r: (Inr cm)
    obtain c m where cm: "cm = (c, m)" by fastforce
    show ?thesis
    proof (cases "from_completion c")
      case (Inl x)
      then have "request_step_action sv i st role s = (Inl x, ?s3\<lparr>dv_world := w\<rparr>)" using g r cm
        by (simp add: request_step_action_def Inr case_prod_beta Let_def)
      then show ?thesis by (rule that(2))
    next
      case a: (Inr a)
      then have "request_step_action sv i st role s = (Inr (action_of a), log_entry i (EffectCompleted ?e ?sid ''model_completion''
        (JObject [(''finish_reason'', JString (debug_finish (cm_finish c))), (''phase'', JString ''plan_step''),
          (''plan_step'', JString (step_text (ps_id st))), (''step_action'', action_to_json (action_of a)),
          (''text'', JString (cm_text c))])) (?s3\<lparr>dv_world := w\<rparr>))" using g r cm
        by (simp add: request_step_action_def Inr case_prod_beta Let_def)
      then show ?thesis by (rule that(3))
    qed
  qed
qed


section \<open>A round\<close>

lemma snd_then_do: "snd (then_do x f) = (case fst x of Inl e \<Rightarrow> snd x | Inr a \<Rightarrow> snd (f a (snd x)))"
  by (cases x; cases "fst x") auto

lemma validate_cases:
  obtains es where "validate_plan cx p = Some (Inl es)" "\<not> plan_valid cx p"
  | v where "validate_plan cx p = Some (Inr v)" "plan_valid cx p" "vp_plan v = p"
proof -
  obtain res where r: "validate_plan cx p = Some res" "case res of
       Inr v \<Rightarrow> plan_valid cx p \<and> vp_plan v = p \<and> topological_waves p = Some (vp_waves v)
     | Inl es \<Rightarrow> \<not> plan_valid cx p \<and> es \<noteq> []" using validate_decides [of cx p] by blast
  show ?thesis using r that by (cases res) auto
qed

lemma checked_iff:
  "checked_plan pv sv p s = Inr v \<longleftrightarrow> validate_plan (plan_context_of pv sv s) p = Some (Inr v)"
  "(\<exists>v. checked_plan pv sv p s = Inr v) \<longleftrightarrow> plan_valid (plan_context_of pv sv s) p"
  by (cases rule: validate_cases [of "plan_context_of pv sv s" p]; simp add: checked_plan_def)+

lemma and_return_other: "f \<noteq> g \<Longrightarrow> fst (and_return f x) \<noteq> Inr g"
  by (cases x; cases "fst x") (auto simp: and_return_def)

lemma checked_plan_of: "checked_plan pv sv p s = Inr v \<Longrightarrow> vp_plan v = p"
  by (cases rule: validate_cases [of "plan_context_of pv sv s" p]) (simp_all add: checked_plan_def)

definition peers :: "validated_plan \<Rightarrow> plan_step_id \<Rightarrow> plan_step_id set \<Rightarrow> plan_step_id list" where
  "peers v k fin = (case group_for (make_schedule v) k of None \<Rightarrow> [] | Some g \<Rightarrow> filter (\<lambda>j. j \<notin> fin) g)"

lemma round_cases:
  obtains (redo) q where "interrupted_tool_call i (dv_tasks s) = Some q" "plan_round wave pv sv i role s =
      Some (and_return FlowContinue (issue_and_execute_tool_call sv i (pc_step q) (pc_tool q) (pc_input q) s))"
  | (stop) x t where "interrupted_tool_call i (dv_tasks s) = None" "plan_round wave pv sv i role s = Some (x, t)"
      "adds plain i s t" "dv_world t = dv_world s" "x \<noteq> Inr FlowContinue" "t = s \<or> (\<exists>n. t = snd (move_to i Failed (log_entry i (RecoveryNote n) s)))"
      "\<And>r. stored_plan pv i (plans s) = Inr (Some r) \<Longrightarrow> \<not> plan_valid (plan_context_of pv sv s) (rv_plan r)"
  | (over) r v where "interrupted_tool_call i (dv_tasks s) = None"
      "stored_plan pv i (plans s) = Inr (Some r)" "checked_plan pv sv (rv_plan r) s = Inr v"
      "next_incomplete (make_schedule v) (completed_plan_steps i s) = None"
      "plan_round wave pv sv i role s = Some (and_return FlowContinue (move_to i Verifying s))"
  | (wave) r v st where "interrupted_tool_call i (dv_tasks s) = None"
      "stored_plan pv i (plans s) = Inr (Some r)" "checked_plan pv sv (rv_plan r) s = Inr v"
      "next_incomplete (make_schedule v) (completed_plan_steps i s) = Some st"
      "1 < length (peers v (ps_id st) (completed_plan_steps i s))"
      "plan_round wave pv sv i role s = wave (vp_plan v) (peers v (ps_id st) (completed_plan_steps i s)) s"
  | (solo) r v st where "interrupted_tool_call i (dv_tasks s) = None"
      "stored_plan pv i (plans s) = Inr (Some r)" "checked_plan pv sv (rv_plan r) s = Inr v"
      "next_incomplete (make_schedule v) (completed_plan_steps i s) = Some st"
      "\<not> 1 < length (peers v (ps_id st) (completed_plan_steps i s))"
      "plan_round wave pv sv i role s = Some (run_plan_step sv i (rv_plan r) st role s)"
proof (cases "interrupted_tool_call i (dv_tasks s)")
  case None
  note n = None
  show ?thesis
  proof (cases "stored_plan pv i (plans s)")
    case (Inl e)
    with None show ?thesis by (intro stop [of "Inl e" s]) (simp_all add: plan_round_def)
  next
    case (Inr o')
    show ?thesis
    proof (cases o')
      case None
      with n Inr show ?thesis
        by (intro stop [of "Inl (AgPlan ''no plan revision for task in Implementing'')" s]) (simp_all add: plan_round_def)
    next
      case (Some r)
      note r = Inr [unfolded Some]
      show ?thesis
      proof (cases "checked_plan pv sv (rv_plan r) s")
        case (Inl es)
        let ?n = "''stored plan no longer validates ('' @ join '', '' (map (plan_code_str \<circ> pe_code) es) @ '') '' @ em_dash @ '' failing''"
        let ?x = "and_return FlowReturn (move_to i Failed (log_entry i (RecoveryNote ?n) s))"
        have "\<not> plan_valid (plan_context_of pv sv s) (rv_plan r)" using Inl checked_iff(2) [of pv sv "rv_plan r" s] by auto
        moreover have "plan_round wave pv sv i role s = Some ?x"
          using n r Inl by (simp add: plan_round_def)
        moreover obtain x t where xt: "?x = (x, t)" by fastforce
        moreover have t: "t = snd (move_to i Failed (log_entry i (RecoveryNote ?n) s))"
          using arg_cong [OF xt, of snd] by simp
        moreover have "adds plain i s t" unfolding t by (simp add: plain_move adds_log)
        moreover have "x \<noteq> Inr FlowContinue"
          using and_return_other [of FlowReturn FlowContinue "move_to i Failed (log_entry i (RecoveryNote ?n) s)"] xt
          by (metis flow.distinct(1) fst_conv)
        moreover have "dv_world t = dv_world s" unfolding t by simp
        ultimately show ?thesis using n r by (intro stop [of x t]) (simp_all, blast)
      next
        case (Inr v)
        show ?thesis
        proof (cases "next_incomplete (make_schedule v) (completed_plan_steps i s)")
          case None
          with n r Inr show ?thesis by (intro over) (simp_all add: plan_round_def)
        next
          case (Some st)
          note unfold = plan_round_def peers_def Let_def
          show ?thesis
          proof (cases "1 < length (peers v (ps_id st) (completed_plan_steps i s))")
            case True
            with n r Inr Some show ?thesis by (intro wave) (simp_all add: unfold)
          next
            case False
            with n r Inr Some show ?thesis by (intro solo) (simp_all add: unfold)
          qed
        qed
      qed
    qed
  qed
next
  case (Some q)
  then show ?thesis by (intro redo) (simp_all add: plan_round_def)
qed

lemma run_step_snd:
  "snd (run_plan_step sv i p st role s) =
     (let s1 = begin_step sv i st s; s2 = snd (draw s1) in
      if max_step_turns \<le> model_turns_for_step i (ps_id st) s1 then complete_step i (ps_id st) s1
      else (case unprocessed_step_action i (ps_id st) s2 of
          Some a \<Rightarrow> snd (act_on_step sv i p (ps_id st) (StepId (fst (draw s1))) a s2)
        | None \<Rightarrow> (case request_step_action sv i st role s2 of
            (Inl e, s3) \<Rightarrow> s3
          | (Inr a, s3) \<Rightarrow> snd (act_on_step sv i p (ps_id st) (StepId (fst (draw s1))) a s3))))"
  by (simp add: run_plan_step_def Let_def case_prod_beta snd_then_do split: option.split sum.split prod.split)

lemma adds_request:
  assumes "\<And>e sid p. j = i \<Longrightarrow> P (EffectCompleted e sid ''model_completion'' p)"
    and "\<And>e sid n. j = i \<Longrightarrow> P (EffectIssued e sid ''model_call'' (JObject [(''phase'', JString ''plan_step''),
      (''plan_step'', JString (step_text (ps_id st))), (''turn_index'', JInt n)]))"
  shows "adds P j s (snd (request_step_action sv i st role s))"
  by (cases rule: request_shape [where sv = sv and i = i and st = st and role = role and s = s])
    (simp_all add: adds_log assms)

lemma adds_run_step:
  assumes pl: "\<And>e. plain e \<Longrightarrow> P e" and "\<And>e sid p. j = i \<Longrightarrow> P (EffectCompleted e sid ''plan_checkpoint'' p)"
    and "\<And>e sid p. j = i \<Longrightarrow> P (EffectIssued e sid ''plan_step_started'' p)"
    and mc: "\<And>e sid p. j = i \<Longrightarrow> P (EffectCompleted e sid ''model_completion'' p)"
    and sc: "\<And>e sid. j = i \<Longrightarrow> P (EffectCompleted e sid ''plan_step_completed'' (JObject [(''step_id'', JString (step_text (ps_id st)))]))"
    and mi: "\<And>e sid n. j = i \<Longrightarrow> P (EffectIssued e sid ''model_call'' (JObject [(''phase'', JString ''plan_step''),
      (''plan_step'', JString (step_text (ps_id st))), (''turn_index'', JInt n)]))"
  shows "adds P j s (snd (run_plan_step sv i p st role s))"
proof -
  let ?s1 = "begin_step sv i st s" and ?k = "ps_id st"
  have b: "adds P j s ?s1" by (rule adds_begin) fact+
  have act: "adds P j t (snd (act_on_step sv i p ?k sid a t))" for t sid a
    by (rule adds_act) (fact pl, fact sc)
  have req: "adds P j t (snd (request_step_action sv i st role t))" for t
    by (rule adds_request) (fact mc, fact mi)
  have "adds P j ?s1 (snd (run_plan_step sv i p st role s))"
  proof (cases "max_step_turns \<le> model_turns_for_step i ?k ?s1")
    case True
    then show ?thesis by (simp add: run_step_snd Let_def complete_step_def adds_fresh sc)
  next
    case False
    let ?s2 = "snd (draw ?s1)"
    have d: "adds P j ?s1 ?s2" by simp
    show ?thesis
    proof (cases "unprocessed_step_action i ?k ?s2")
      case (Some a)
      with False show ?thesis using adds_trans [OF d act] by (simp add: run_step_snd Let_def)
    next
      case None
      obtain x t where q: "request_step_action sv i st role ?s2 = (x, t)" by fastforce
      have t: "adds P j ?s1 t" using adds_trans [OF d req] q by (metis snd_conv)
      show ?thesis
        by (cases x) (simp_all add: run_step_snd Let_def False None q t adds_trans [OF t act])
    qed
  qed
  with b show ?thesis by (rule adds_trans)
qed

end
