(* ===== verification/Plan_Order.thy ===== *)
theory Plan_Order
  imports Plan_Run
begin

text \<open>
  Which step a round works on, and what the journal says is complete afterwards: the order of the
  dependencies as an invariant of the rounds.
\<close>

lemma next_ready:
  assumes "checked_plan pv sv p s = Inr v" and "next_incomplete (make_schedule v) fin = Some st"
  shows "st \<in> set (pl_steps p)" and "ps_id st \<notin> fin" and "set (ps_depends st) \<subseteq> fin"
  using next_incomplete_ready [of "plan_context_of pv sv s" p v fin] assms by (simp_all add: checked_iff)

lemma next_none:
  assumes "checked_plan pv sv p s = Inr v" and "next_incomplete (make_schedule v) fin = None"
  shows "plan_ids p \<subseteq> fin"
  using next_incomplete_ready [of "plan_context_of pv sv s" p v fin] assms by (simp add: checked_iff)

lemma group_found: "group_for sc j = Some g \<Longrightarrow> g \<in> set (concat (sc_waves sc)) \<and> j \<in> set g"
  unfolding group_for_def find_Some_iff by (metis nth_mem)

lemma peers_group:
  assumes "k \<in> set (peers v j fin)"
  obtains g where "g \<in> set (concat (sc_waves (make_schedule v)))" "j \<in> set g" "k \<in> set g" "k \<notin> fin"
    "peers v j fin = filter (\<lambda>k. k \<notin> fin) g"
proof (cases "group_for (make_schedule v) j")
  case None
  then show ?thesis using assms by (simp add: peers_def)
next
  case (Some g)
  show ?thesis using group_found [OF Some] assms Some by (intro that [of g]) (simp_all add: peers_def del: set_concat)
qed

lemma wave_of_group:
  assumes "g \<in> set (concat (sc_waves (make_schedule v)))"
  obtains m where "m < length (vp_waves v)" "g \<in> set (wave_groups (vp_plan v) (vp_waves v ! m))"
proof -
  have "g \<in> set (concat (map (wave_groups (vp_plan v)) (vp_waves v)))" using assms by (simp add: make_schedule_def)
  then obtain w where "w \<in> set (vp_waves v)" "g \<in> set (wave_groups (vp_plan v) w)" by auto
  then show ?thesis using that by (metis in_set_conv_nth)
qed

lemma peers_ready:
  assumes c: "checked_plan pv sv p s = Inr v" and n: "next_incomplete (make_schedule v) fin = Some st"
    and k: "k \<in> set (peers v (ps_id st) fin)"
  shows "\<exists>x \<in> set (pl_steps p). ps_id x = k \<and> k \<notin> fin \<and> set (ps_depends x) \<subseteq> fin"
proof -
  have v: "validate_plan (plan_context_of pv sv s) p = Some (Inr v)" using c by (simp add: checked_iff)
  note f = validated_facts [OF v]
  have sc: "sc_order (make_schedule v) = concat (vp_waves v)" "sc_plan (make_schedule v) = p"
    "sc_waves (make_schedule v) = map (wave_groups p) (vp_waves v)"
    using f(1) by (simp_all add: make_schedule_def)
  obtain i where i: "find (\<lambda>i. i \<notin> fin) (concat (vp_waves v)) = Some i" "plan_find p i = Some st"
    using n by (auto simp: next_incomplete_def sc split: bind_splits)
  have id: "ps_id st = i" using i(2) by (auto simp: plan_find_def find_Some_iff)
  obtain us vs where u: "concat (vp_waves v) = us @ i # vs" "set us \<subseteq> fin" using find_first [OF i(1)] by blast
  obtain g where g: "g \<in> set (concat (sc_waves (make_schedule v)))" "i \<in> set g" "k \<in> set g" "k \<notin> fin"
    using peers_group [OF k] id by metis
  obtain m where m: "m < length (vp_waves v)" "g \<in> set (wave_groups p (vp_waves v ! m))"
    using wave_of_group [OF g(1)] f(1) by metis
  have iw: "i \<in> set (vp_waves v ! m)" and kw: "k \<in> set (vp_waves v ! m)"
    using group_in_wave [OF m(2)] g(2,3) by auto
  have before: "set (concat (take m (vp_waves v))) \<subseteq> fin"
    using in_concat_before [OF f(5) m(1) iw u(1)] u(2) by blast
  have "k \<in> set (concat (vp_waves v))" using kw nth_mem [OF m(1)] by auto
  then have "k \<in> plan_ids p" using f(4) by blast
  then obtain x where x: "x \<in> set (pl_steps p)" "ps_id x = k" by auto
  have "set (ps_depends x) = set (succs (adjacency p) k)" using f(6) [OF x(1)] x(2) by simp
  also have "\<dots> \<subseteq> set (concat (take m (vp_waves v)))" using layered_nth [OF f(3) m(1)] kw by auto
  finally show ?thesis using x g(4) before by blast
qed

lemma distinct_part: "distinct (concat ws) \<Longrightarrow> w \<in> set ws \<Longrightarrow> distinct w"
  by (induction ws) auto

lemma peers_distinct:
  assumes "checked_plan pv sv p s = Inr v"
  shows "distinct (peers v k fin)"
proof -
  have v: "validate_plan (plan_context_of pv sv s) p = Some (Inr v)" using assms by (simp add: checked_iff)
  note f = validated_facts [OF v]
  show ?thesis
  proof (cases "peers v k fin")
    case (Cons j js)
    then have "j \<in> set (peers v k fin)" by simp
    then obtain g where g: "g \<in> set (concat (sc_waves (make_schedule v)))" "peers v k fin = filter (\<lambda>k. k \<notin> fin) g"
      by (rule peers_group)
    obtain m where m: "m < length (vp_waves v)" "g \<in> set (wave_groups (vp_plan v) (vp_waves v ! m))"
      using wave_of_group [OF g(1)] by metis
    have "distinct (vp_waves v ! m)" using distinct_part [OF f(5) nth_mem [OF m(1)]] .
    then have "distinct g" using m(2) by (auto simp: wave_groups_def Let_def split: if_splits)
    then show ?thesis using g(2) by simp
  qed simp
qed

section \<open>What a round completes\<close>

lemma step_named: "new_step_id t = Inr k \<Longrightarrow> k = PlanStepId t"
  by (auto simp: new_step_id_def split: if_splits)

lemma complete_marks:
  "completed_step (EffectCompleted e sid ''plan_step_completed'' (JObject [(''step_id'', JString (step_text k))])) \<in> {None, Some k}"
proof -
  have "new_step_id (step_text k) = Inr j \<Longrightarrow> j = k" for j using step_named [of "step_text k" j] by (cases k) simp
  then show ?thesis by (cases "new_step_id (step_text k)") (simp_all add: payload_str_def json_get_def)
qed

lemma fin_within:
  assumes "adds (\<lambda>e. completed_step e \<in> insert None (Some ` K)) i s t"
  shows "completed_plan_steps i s \<subseteq> completed_plan_steps i t"
    and "completed_plan_steps i t \<subseteq> completed_plan_steps i s \<union> K"
proof -
  obtain ks where ks: "kinds i t = kinds i s @ ks" "list_all (\<lambda>e. completed_step e \<in> insert None (Some ` K)) ks"
    using assms by (auto simp: adds_def)
  have "fin_steps ks \<subseteq> K" using ks(2) by (auto simp: fin_steps_def List.map_filter_def list_all_iff)
  then show "completed_plan_steps i s \<subseteq> completed_plan_steps i t"
    "completed_plan_steps i t \<subseteq> completed_plan_steps i s \<union> K" using ks(1) by (auto simp: completed_steps)
qed

lemma step_completes:
  "adds (\<lambda>e. completed_step e \<in> insert None (Some ` {ps_id st})) j s (snd (run_plan_step sv i p st role s))"
proof (rule adds_run_step)
  show "plain e \<Longrightarrow> completed_step e \<in> insert None (Some ` {ps_id st})" for e by (simp add: plain_skips(1))
  show "completed_step (EffectCompleted e sid ''plan_step_completed'' (JObject [(''step_id'', JString (step_text (ps_id st)))]))
      \<in> insert None (Some ` {ps_id st})" for e sid using complete_marks by simp
qed simp_all

definition deps_closed :: "plan \<Rightarrow> plan_step_id set \<Rightarrow> bool" where
  "deps_closed p fin \<longleftrightarrow> (\<forall>st \<in> set (pl_steps p). ps_id st \<in> fin \<longrightarrow> set (ps_depends st) \<subseteq> fin)"

lemma deps_closed_grow:
  assumes "deps_closed p fin" and "fin \<subseteq> fin'" and "fin' \<subseteq> fin \<union> K"
    and "\<And>st. st \<in> set (pl_steps p) \<Longrightarrow> ps_id st \<in> K \<Longrightarrow> set (ps_depends st) \<subseteq> fin"
  shows "deps_closed p fin'"
  using assms unfolding deps_closed_def by blast

lemma unique_step: "plan_valid cx p \<Longrightarrow> x \<in> set (pl_steps p) \<Longrightarrow> y \<in> set (pl_steps p) \<Longrightarrow> ps_id x = ps_id y \<Longrightarrow> x = y"
  by (auto simp: plan_valid_def distinct_map inj_on_def)

lemma tool_adds_fin: "adds tool_entry i s t \<Longrightarrow> completed_plan_steps i t = completed_plan_steps i s"
  by (rule fin_plain) (erule adds_mono, rule tool_plain)

end
