(* ===== verification/Plan_Wave.thy ===== *)
theory Plan_Wave
  imports Plan_Order
begin

text \<open>
  The parallel wave executor of \<open>plan_exec.rs\<close>. The steps of a group run as child tasks, at most four at
  a time, and steps whose declared targets overlap are put into batches that run one after the other.
  The children of a chunk are interleaved in the order \<open>pv_pick\<close> chooses, one pass of a child's loop at a
  time.
\<close>

section \<open>Batches\<close>

definition targets_of :: "plan \<Rightarrow> plan_step_id \<Rightarrow> string list" where
  "targets_of p k = (case plan_find p k of None \<Rightarrow> [] | Some st \<Rightarrow> ps_targets st)"

definition overlap :: "plan \<Rightarrow> plan_step_id \<Rightarrow> plan_step_id \<Rightarrow> bool" where
  "overlap p k j \<longleftrightarrow> (\<exists>t \<in> set (targets_of p k). path_of t \<in> path_of ` set (targets_of p j))"

fun place_step :: "plan \<Rightarrow> plan_step_id \<Rightarrow> plan_step_id list list \<Rightarrow> plan_step_id list list" where
  "place_step p k [] = [[k]]"
| "place_step p k (b # bs) =
     (if \<exists>j \<in> set b. overlap p k j then b # place_step p k bs else (b @ [k]) # bs)"

definition partition_conflict_free :: "plan_step_id list \<Rightarrow> plan \<Rightarrow> plan_step_id list list" where
  "partition_conflict_free ks p = foldl (\<lambda>bs k. place_step p k bs) [] ks"

definition max_parallel_children :: nat where
  "max_parallel_children = 4"

function chunks_of :: "nat \<Rightarrow> 'a list \<Rightarrow> 'a list list" where
  "chunks_of n xs = (if xs = [] \<or> n = 0 then [] else take n xs # chunks_of n (drop n xs))"
  by pat_completeness auto
termination by (relation "measure (\<lambda>(n, xs). length xs)") auto

section \<open>A child\<close>

datatype wave_child = Unborn plan_step | Alive task_id plan_step_id | Ended "agent_error + plan_step_id \<times> bool"

definition solo_plan :: "string list \<Rightarrow> plan_step \<Rightarrow> plan" where
  "solo_plan scope st = \<lparr>pl_scope = scope, pl_steps = [st\<lparr>ps_depends := []\<rparr>]\<rparr>"

fun move_along :: "task_id \<Rightarrow> agent_state list \<Rightarrow> 'x driver \<Rightarrow> (agent_error + unit) \<times> 'x driver" where
  "move_along i [] s = (Inr (), s)"
| "move_along i (st # sts) s = then_do (move_to i st s) (\<lambda>_. move_along i sts)"

text \<open>A child is made, given its one-step plan and moved straight to \<open>Implementing\<close>.\<close>

definition start_child ::
  "task_id \<Rightarrow> string list \<Rightarrow> plan_step \<Rightarrow> 'y planner \<Rightarrow> (agent_error + task_id) \<times> 'y planner" where
  "start_child parent scope st s =
     then_do (on_tasks (create_child parent (ps_intent st) default_budget) s) (\<lambda>t s.
       (let (now, s) = read_clock s;
            s = set_plans (save_revision (tk_id t) (first_revision (solo_plan scope st) ''parallel wave step'' now)
              (plans s)) s
        in then_do (move_along (tk_id t) [Understanding, Discovery, Planning, Implementing] s)
             (\<lambda>_ s. (Inr (tk_id t), s))))"

text \<open>One pass of a child's loop; a plan of one step has no parallel group, so the child never waves.\<close>

definition child_round ::
  "'y plan_env \<Rightarrow> (plan_store \<times> 'y) services \<Rightarrow> task_id \<Rightarrow> model_role option \<Rightarrow> 'y planner
     \<Rightarrow> ((agent_error + flow) \<times> 'y planner) option" where
  "child_round = plan_round (\<lambda>_ _ _. None)"

definition child_pass ::
  "'y plan_env \<Rightarrow> (plan_store \<times> 'y) services \<Rightarrow> task_id \<Rightarrow> plan_step_id \<Rightarrow> model_role option \<Rightarrow> 'y planner
     \<Rightarrow> (wave_child \<times> 'y planner) option" where
  "child_pass pv sv c k role s =
     (if sv_cancelled sv (dv_world s)
      then (case move_to c Cancelled s of
          (Inl e, s) \<Rightarrow> Some (Ended (Inl e), s) | (Inr _, s) \<Rightarrow> Some (Ended (Inr (k, False)), s))
      else if k \<in> completed_plan_steps c s
      then (case move_along c [Verifying, Completed] s of
          (Inl e, s) \<Rightarrow> Some (Ended (Inl e), s) | (Inr _, s) \<Rightarrow> Some (Ended (Inr (k, True)), s))
      else (case child_round pv sv c role s of
          None \<Rightarrow> None
        | Some (Inl e, s) \<Rightarrow> Some (Ended (Inl e), s)
        | Some (Inr FlowContinue, s) \<Rightarrow> Some (Alive c k, s)
        | Some (Inr FlowReturn, s) \<Rightarrow> Some (Ended (Inr (k, False)), s)))"

fun child_step ::
  "'y plan_env \<Rightarrow> (plan_store \<times> 'y) services \<Rightarrow> task_id \<Rightarrow> string list \<Rightarrow> model_role option \<Rightarrow> wave_child \<Rightarrow> 'y planner
     \<Rightarrow> (wave_child \<times> 'y planner) option" where
  "child_step pv sv parent scope role (Unborn st) s = (case start_child parent scope st s of
     (Inl e, s) \<Rightarrow> Some (Ended (Inl e), s) | (Inr c, s) \<Rightarrow> Some (Alive c (ps_id st), s))"
| "child_step pv sv parent scope role (Alive c k) s = child_pass pv sv c k role s"
| "child_step pv sv parent scope role (Ended r) s = Some (Ended r, s)"

fun child_result :: "wave_child \<Rightarrow> (agent_error + plan_step_id \<times> bool) option" where
  "child_result (Ended r) = Some r"
| "child_result _ = None"

text \<open>The children of a chunk together (\<open>join_all\<close>): in each round one that has not ended makes a pass.
  The number of rounds is the fuel; \<open>None\<close> is running out of it.\<close>

fun run_children ::
  "nat \<Rightarrow> 'y plan_env \<Rightarrow> (plan_store \<times> 'y) services \<Rightarrow> task_id \<Rightarrow> string list \<Rightarrow> model_role option \<Rightarrow> wave_child list
     \<Rightarrow> 'y planner \<Rightarrow> ((agent_error + plan_step_id \<times> bool) list \<times> 'y planner) option" where
  "run_children n pv sv parent scope role cs s =
     (case traverse child_result cs of
        Some rs \<Rightarrow> Some (rs, s)
      | None \<Rightarrow> (case n of
          0 \<Rightarrow> None
        | Suc m \<Rightarrow>
            (let busy = filter (\<lambda>j. child_result (cs ! j) = None) [0..<length cs];
                 j = busy ! (pv_pick pv m mod length busy)
             in case child_step pv sv parent scope role (cs ! j) s of
                  None \<Rightarrow> None
                | Some (c, s) \<Rightarrow> run_children m pv sv parent scope role (cs[j := c]) s)))"

declare run_children.simps [simp del] chunks_of.simps [simp del]

section \<open>Folding the children back\<close>

definition fold_in :: "(plan_store \<times> 'y) services \<Rightarrow> task_id \<Rightarrow> plan_step \<Rightarrow> 'y planner \<Rightarrow> 'y planner" where
  "fold_in sv i st s =
     (let s = (if ps_checkpoint st \<and> \<not> checkpoint_taken_for i (ps_id st) s then take_checkpoint sv i (ps_id st) s else s);
          s = (if step_started i (ps_id st) s then s
            else log_issued i ''plan_step_started'' (JObject [(''intent'', JString (ps_intent st)),
              (''ran_in_child'', JBool True), (''step_id'', JString (step_text (ps_id st)))]) s)
      in complete_step i (ps_id st) s)"

text \<open>\<open>None\<close> stands for the panic of \<open>expect\<close> on a step the plan does not have.\<close>

fun settle_children ::
  "(plan_store \<times> 'y) services \<Rightarrow> task_id \<Rightarrow> plan \<Rightarrow> (agent_error + plan_step_id \<times> bool) list \<Rightarrow> 'y planner
     \<Rightarrow> ((agent_error + flow) \<times> 'y planner) option" where
  "settle_children sv i p [] s = Some (Inr FlowContinue, s)"
| "settle_children sv i p (Inl e # rs) s = Some (Inl e, s)"
| "settle_children sv i p (Inr (k, ok) # rs) s =
     (if \<not> ok then Some (and_return FlowReturn (move_to i Failed (log_entry i (RecoveryNote
          (''parallel step '' @ ticked (step_text k) @ '' did not complete cleanly (needed permission, asked the ''
            @ ''user, or failed) '' @ em_dash @ '' the wave executor fails the whole wave rather than partially ''
            @ ''resuming it'')) s)))
      else (case plan_find p k of
          None \<Rightarrow> None | Some st \<Rightarrow> settle_children sv i p rs (fold_in sv i st s)))"

definition run_chunk ::
  "nat \<Rightarrow> 'y plan_env \<Rightarrow> (plan_store \<times> 'y) services \<Rightarrow> task_id \<Rightarrow> plan \<Rightarrow> model_role option \<Rightarrow> plan_step_id list
     \<Rightarrow> 'y planner \<Rightarrow> ((agent_error + flow) \<times> 'y planner) option" where
  "run_chunk n pv sv i p role ks s = (case traverse (plan_find p) ks of
     None \<Rightarrow> None
   | Some sts \<Rightarrow> (case run_children n pv sv i (pl_scope p) role (map Unborn sts) s of
       None \<Rightarrow> None | Some (rs, s) \<Rightarrow> settle_children sv i p rs s))"

fun run_chunks ::
  "nat \<Rightarrow> 'y plan_env \<Rightarrow> (plan_store \<times> 'y) services \<Rightarrow> task_id \<Rightarrow> plan \<Rightarrow> model_role option \<Rightarrow> plan_step_id list list
     \<Rightarrow> 'y planner \<Rightarrow> ((agent_error + flow) \<times> 'y planner) option" where
  "run_chunks n pv sv i p role [] s = Some (Inr FlowContinue, s)"
| "run_chunks n pv sv i p role (ks # kss) s = (case run_chunk n pv sv i p role ks s of
     Some (Inr FlowContinue, s) \<Rightarrow> run_chunks n pv sv i p role kss s | r \<Rightarrow> r)"

definition child_role :: "(plan_store \<times> 'y) services \<Rightarrow> model_role option \<Rightarrow> model_role option" where
  "child_role sv role = (if sv_is_bound sv FastCoder then Some FastCoder else role)"

definition run_parallel_group ::
  "nat \<Rightarrow> 'y plan_env \<Rightarrow> (plan_store \<times> 'y) services \<Rightarrow> task_id \<Rightarrow> model_role option \<Rightarrow> plan \<Rightarrow> plan_step_id list
     \<Rightarrow> 'y planner \<Rightarrow> ((agent_error + flow) \<times> 'y planner) option" where
  "run_parallel_group n pv sv i role p ks s = run_chunks n pv sv i p (child_role sv role)
     (concat (map (chunks_of max_parallel_children) (partition_conflict_free ks p))) s"

text \<open>The handler of \<open>Implementing\<close> with the wave in place; \<open>n\<close> bounds the rounds of each chunk.\<close>

definition step_implementing_plan ::
  "nat \<Rightarrow> 'y plan_env \<Rightarrow> (plan_store \<times> 'y) services \<Rightarrow> task_id \<Rightarrow> model_role option \<Rightarrow> 'y planner
     \<Rightarrow> ((agent_error + flow) \<times> 'y planner) option" where
  "step_implementing_plan n pv sv i role = plan_round (run_parallel_group n pv sv i role) pv sv i role"

section \<open>What a wave leaves in the journals\<close>

lemma adds_then_do:
  assumes "adds P i s (snd x)" and "\<And>a. fst x = Inr a \<Longrightarrow> adds P i (snd x) (snd (f a (snd x)))"
  shows "adds P i s (snd (then_do x f))"
proof (cases "fst x")
  case Inl
  then show ?thesis using assms(1) by (simp add: snd_then_do)
next
  case (Inr a)
  then show ?thesis using adds_trans [OF assms(1) assms(2) [OF Inr]] by (simp add: snd_then_do)
qed

lemma plain_move_along: "j \<noteq> i \<Longrightarrow> adds plain j s (snd (move_along i sts s))"
proof (induction sts arbitrary: s)
  case (Cons st sts)
  show ?case unfolding move_along.simps
    by (rule adds_then_do) (use Cons in \<open>simp_all add: plain_move\<close>)
qed simp

lemma insert_kinds [simp]: "journal_kinds j (snd (insert_task r t)) = journal_kinds j t"
  by (simp add: insert_task_def journal_kinds_def journal_since_def)

definition grown :: "task_id \<Rightarrow> task_store \<Rightarrow> task_store \<Rightarrow> bool" where
  "grown j t u \<longleftrightarrow> (\<exists>ks. journal_kinds j u = journal_kinds j t @ ks \<and> list_all plain ks)"

lemma grown_trans: "grown j t u \<Longrightarrow> grown j u v \<Longrightarrow> grown j t v"
  by (auto simp: grown_def)

lemma grown_then: "grown j t (snd x) \<Longrightarrow> (\<And>a u. grown j u (snd (f a u))) \<Longrightarrow> grown j t (snd (then_do x f))"
  by (auto simp: snd_then_do split: sum.split intro: grown_trans)

lemma grown_parent: "(\<And>e st. plain (EffectCompleted e st k v)) \<Longrightarrow> grown j t (parent_entry q k v t)"
  using journal_kinds_parent_entry [of j q k v t] by (fastforce simp: grown_def list_all_iff)

lemma grown_quiet [simp]:
  "grown j t (snd (draw_ulid u)) = grown j t u" "grown j t (snd (clock_now u)) = grown j t u"
  "grown j t (snd (insert_task r u)) = grown j t u" "grown j t t"
  by (simp_all add: grown_def)

lemma grown_create: "grown j t (snd (create_with_parent w q obj bud t))"
proof -
  have c: "grown j u (parent_entry q ''subtask_started'' v (snd (append_journal i TaskCreated u)))" for i v u
    by (rule grown_trans [OF _ grown_parent]) (simp_all add: grown_def)
  show ?thesis unfolding create_with_parent_def Let_def case_prod_beta
    by (rule grown_then) (simp_all add: c)
qed

lemma adds_grown: "grown j (dv_tasks s) (dv_tasks t) \<Longrightarrow> adds plain j s t"
  by (auto simp: grown_def adds_def kinds_def)

lemma plain_create: "adds plain j s (snd (on_tasks (create_child p obj bud) s))"
proof (rule adds_grown)
  have "grown j t (snd (create_child p obj bud t))" for t
    by (simp add: create_child_def grown_create split: sum.split)
  then show "grown j (dv_tasks s) (dv_tasks (snd (on_tasks (create_child p obj bud) s)))"
    by (simp add: on_tasks_def case_prod_beta split: sum.split)
qed

text \<open>The new task is not the parent: an id that is taken is refused, and the parent must exist.\<close>

lemma child_differs:
  assumes "fst (on_tasks (create_child p obj bud) s) = Inr t"
  shows "tk_id t \<noteq> p"
proof -
  have "fst (create_child p obj bud (dv_tasks s)) = Inr t"
    using assms by (auto simp: on_tasks_def case_prod_beta split: sum.splits)
  then obtain x where x: "get_task p (dv_tasks s) = Inr x"
    "fst (create_with_parent (tk_workspace x) (Some p) obj bud (dv_tasks s)) = Inr t"
    by (auto simp: create_child_def split: sum.splits)
  have "\<exists>q \<in> set (tasks (dv_tasks s)). tr_id q = p"
    using x(1) by (auto simp: get_task_def row_of_def find_Some_iff split: option.splits)
  then show ?thesis using x(2)
    by (auto simp: create_with_parent_def case_prod_beta Let_def insert_task_def clock_now_def draw_ulid_def
        split: if_splits)
qed

lemma plain_other_run: "j \<noteq> c \<Longrightarrow> adds plain j s (snd (run_plan_step sv c p st role s))"
  by (rule adds_run_step) simp_all

lemma plain_other_tool: "adds plain j s (snd (issue_and_execute_tool_call sv c sid name inp s))"
  by (rule adds_mono [OF adds_issue tool_plain])

lemma plain_other_round:
  assumes "j \<noteq> c" and "child_round pv sv c role s = Some (x, t)"
  shows "adds plain j s t"
proof -
  have r: "plan_round (\<lambda>_ _ _. None) pv sv c role s = Some (x, t)" using assms(2) by (simp add: child_round_def)
  have out: "plan_round (\<lambda>_ _ _. None) pv sv c role s = Some y \<Longrightarrow> t = snd y" for y using r by auto
  show ?thesis
  proof (cases rule: round_cases [where wave = "\<lambda>_ _ _. None" and pv = pv and sv = sv and i = c and role = role and s = s])
    case redo
    then show ?thesis using out plain_other_tool by fastforce
  next
    case (stop x' t')
    then have "t = t'" using out by fastforce
    with stop(6) assms(1) show ?thesis by (auto intro!: plain_move adds_log)
  next
    case over
    then have "t = snd (move_to c Verifying s)" using out by fastforce
    with assms(1) show ?thesis by (simp add: plain_move)
  next
    case wave
    then show ?thesis using r by simp
  next
    case (solo q v st)
    then have "t = snd (run_plan_step sv c (rv_plan q) st role s)" using out by blast
    then show ?thesis using plain_other_run [OF assms(1)] by simp
  qed
qed

fun child_of :: "task_id \<Rightarrow> plan_step_id set \<Rightarrow> wave_child \<Rightarrow> bool" where
  "child_of i K (Unborn st) = (ps_id st \<in> K)"
| "child_of i K (Alive c k) = (c \<noteq> i \<and> k \<in> K)"
| "child_of i K (Ended (Inl e)) = True"
| "child_of i K (Ended (Inr (k, ok))) = (k \<in> K)"

lemma then_do_case: "then_do x f = (case fst x of Inl e \<Rightarrow> (Inl e, snd x) | Inr a \<Rightarrow> f a (snd x))"
  by (cases x; cases "fst x") auto

lemma start_child_plain:
  assumes "start_child i scope st s = (r, t)"
  shows "adds plain i s t" and "r = Inr c \<Longrightarrow> c \<noteq> i"
proof -
  let ?x = "on_tasks (create_child i (ps_intent st) default_budget) s"
  have "adds plain i s (snd (start_child i scope st s)) \<and> (fst (start_child i scope st s) = Inr c \<longrightarrow> c \<noteq> i)"
  proof (cases "fst ?x")
    case (Inl e)
    then show ?thesis using plain_create by (simp add: start_child_def then_do_case case_prod_beta)
  next
    case (Inr x)
    have d: "tk_id x \<noteq> i" using child_differs Inr by blast
    let ?now = "fst (read_clock (snd ?x))" and ?u = "snd (read_clock (snd ?x))"
    let ?v = "set_plans (save_revision (tk_id x) (first_revision (solo_plan scope st) ''parallel wave step'' ?now) (plans ?u)) ?u"
    let ?m = "move_along (tk_id x) [Understanding, Discovery, Planning, Implementing] ?v"
    have "adds plain i s ?v" using plain_create by simp
    then have m: "adds plain i s (snd ?m)" by (rule adds_trans) (rule plain_move_along, use d in simp)
    have sc: "start_child i scope st s = then_do ?m (\<lambda>_ s. (Inr (tk_id x), s))"
      using Inr by (simp add: start_child_def then_do_case [of ?x] case_prod_beta Let_def del: move_along.simps)
    obtain r' u' where q: "?m = (r', u')" by fastforce
    show ?thesis using m d unfolding sc q by (cases r') auto
  qed
  then show "adds plain i s t" "r = Inr c \<Longrightarrow> c \<noteq> i" using assms by auto
qed

lemma child_pass_plain:
  assumes "child_pass pv sv c k role s = Some (c', t)" and "c \<noteq> i" and "k \<in> K"
  shows "child_of i K c' \<and> adds plain i s t"
proof (cases "sv_cancelled sv (dv_world s)")
  case True
  then have "t = snd (move_to c Cancelled s)" "child_of i K c'"
    using assms by (auto simp: child_pass_def split: prod.splits sum.splits)
  then show ?thesis using assms(2) by (simp add: plain_move)
next
  case False
  show ?thesis
  proof (cases "k \<in> completed_plan_steps c s")
    case True
    then have "t = snd (move_along c [Verifying, Completed] s)" "child_of i K c'" using False assms
      by (auto simp: child_pass_def simp del: move_along.simps split: prod.splits sum.splits)
    then show ?thesis using plain_move_along [of i c s] assms(2) by metis
  next
    case n: False
    obtain x where x: "child_round pv sv c role s = Some (x, t)" "child_of i K c'" using False n assms
      by (auto simp: child_pass_def split: option.splits prod.splits sum.splits flow.splits)
    then show ?thesis using plain_other_round [OF _ x(1)] assms(2) by metis
  qed
qed

lemma child_step_plain:
  assumes "child_step pv sv i scope role c s = Some (c', t)" and "child_of i K c"
  shows "child_of i K c' \<and> adds plain i s t"
proof (cases c)
  case (Unborn st)
  obtain r u where r: "start_child i scope st s = (r, u)" by fastforce
  then show ?thesis using assms start_child_plain [OF r] Unborn by (cases r) auto
next
  case (Alive d k)
  then show ?thesis using assms child_pass_plain [of pv sv d k role s c' t i K] by simp
next
  case (Ended r)
  then show ?thesis using assms by simp
qed

lemma run_children_plain:
  assumes "run_children n pv sv i scope role cs s = Some (rs, t)" and "\<And>c. c \<in> set cs \<Longrightarrow> child_of i K c"
  shows "(\<forall>k ok. Inr (k, ok) \<in> set rs \<longrightarrow> k \<in> K) \<and> adds plain i s t"
  using assms
proof (induction n arbitrary: cs s)
  case (0 cs s)
  then show ?case
    by (auto simp: run_children.simps [of 0] split: option.splits dest!: traverse_Some)
       (metis child_of.simps(4) child_result.elims option.inject option.distinct(1))
next
  case (Suc n cs s)
  show ?case
  proof (cases "traverse child_result cs")
    case (Some x)
    then show ?thesis using Suc.prems
      by (auto simp: run_children.simps [of "Suc n"] dest!: traverse_Some)
         (metis child_of.simps(4) child_result.elims option.inject option.distinct(1))
  next
    case None
    let ?busy = "filter (\<lambda>j. child_result (cs ! j) = None) [0..<length cs]"
    let ?j = "?busy ! (pv_pick pv n mod length ?busy)"
    obtain c' u where c: "child_step pv sv i scope role (cs ! ?j) s = Some (c', u)"
      "run_children n pv sv i scope role (cs[?j := c']) u = Some (rs, t)"
      using Suc.prems(1) None by (auto simp: run_children.simps [of "Suc n"] Let_def split: option.splits)
    have "?busy \<noteq> []"
    proof
      assume "?busy = []"
      then have "\<forall>c \<in> set cs. child_result c \<noteq> None" by (auto simp: filter_empty_conv in_set_conv_nth)
      then have "traverse child_result cs \<noteq> None" by (induction cs) auto
      with None show False by simp
    qed
    then have "?j \<in> set ?busy" by (intro nth_mem) simp
    then have j: "cs ! ?j \<in> set cs" by simp
    note s = child_step_plain [OF c(1) Suc.prems(2) [OF j]]
    have "child_of i K d" if "d \<in> set (cs[?j := c'])" for d
      using that s Suc.prems(2) set_update_subset_insert [of cs ?j c'] by blast
    from Suc.IH [OF c(2) this] s show ?thesis using adds_trans by blast
  qed
qed

text \<open>What a wave over the steps \<open>K\<close> writes into its parent's journal.\<close>

definition folds :: "plan_step_id set \<Rightarrow> journal_kind \<Rightarrow> bool" where
  "folds K e \<longleftrightarrow> completed_step e \<in> insert None (Some ` K) \<and> no_turn e \<and> (\<forall>a. e \<noteq> StateChanged a Verifying)"

lemma plain_folds: "plain e \<Longrightarrow> folds K e"
  by (auto simp: folds_def plain_skips(1) plain_no_turn)

lemma folds_adds: "adds plain i s t \<Longrightarrow> adds (folds K) i s t"
  by (erule adds_mono) (rule plain_folds)

lemma folds_take: "adds (folds K) i s (take_checkpoint sv i k s)"
  by (simp add: take_checkpoint_def case_prod_beta Let_def adds_fresh folds_def)

lemma folds_start: "adds (folds K) i s (log_issued i ''plan_step_started'' p s)"
  by (intro adds_issued) (simp_all add: folds_def)

lemma folds_fold_in:
  assumes "ps_id st \<in> K"
  shows "adds (folds K) i s (fold_in sv i st s)"
proof -
  have "adds (folds K) i t (complete_step i (ps_id st) t)" for t
    using complete_marks [of _ _ "ps_id st"] assms unfolding complete_step_def
    by (intro adds_fresh) (auto simp: folds_def simp del: completed_step.simps)
  moreover have "adds (folds K) i s (if b then take_checkpoint sv i k s else s)" for b k by (simp add: folds_take)
  moreover have "adds (folds K) i u (if c then u else log_issued i ''plan_step_started'' q u)" for c q u
    by (simp add: folds_start)
  ultimately show ?thesis unfolding fold_in_def Let_def by (blast intro: adds_trans)
qed

lemma settle_fails:
  "settle_children sv i p (Inr (k, False) # rs) s = Some y \<Longrightarrow>
     \<exists>n. y = and_return FlowReturn (move_to i Failed (log_entry i (RecoveryNote n) s))"
  by (simp only: settle_children.simps simp_thms if_True option.inject) blast

lemma folds_settle:
  assumes "settle_children sv i p rs s = Some (x, t)" and "\<forall>k ok. Inr (k, ok) \<in> set rs \<longrightarrow> k \<in> K"
  shows "adds (folds K) i s t"
  using assms
proof (induction sv i p rs s rule: settle_children.induct)
  case (3 sv i p k ok rs s)
  show ?case
  proof (cases ok)
    case True
    then obtain st where st: "plan_find p k = Some st" "settle_children sv i p rs (fold_in sv i st s) = Some (x, t)"
      using "3.prems"(1) by (auto split: option.splits)
    have "ps_id st = k" using st(1) by (auto simp: plan_find_def find_Some_iff)
    moreover have "k \<in> K" using "3.prems"(2) by auto
    ultimately have "adds (folds K) i s (fold_in sv i st s)" using folds_fold_in by metis
    moreover have "\<forall>k ok. Inr (k, ok) \<in> set rs \<longrightarrow> k \<in> K" using "3.prems"(2) by auto
    then have "adds (folds K) i (fold_in sv i st s) t" using "3.IH" True st by blast
    ultimately show ?thesis by (rule adds_trans)
  next
    case False
    then obtain n where "(x, t) = and_return FlowReturn (move_to i Failed (log_entry i (RecoveryNote n) s))"
      using "3.prems"(1) settle_fails [of sv i p k rs s "(x, t)"] by auto
    then have "t = snd (move_to i Failed (log_entry i (RecoveryNote n) s))" by (metis snd_and_return snd_conv)
    then have "adds plain i s t" by (simp add: plain_move adds_log)
    then show ?thesis by (rule folds_adds)
  qed
qed simp_all

lemma find_named: "traverse (plan_find p) ks = Some sts \<Longrightarrow> map ps_id sts = ks"
  by (induction ks arbitrary: sts) (auto simp: plan_find_def find_Some_iff split: option.splits)

lemma folds_chunk:
  assumes "run_chunk n pv sv i p role ks s = Some (x, t)"
  shows "adds (folds (set ks)) i s t"
proof -
  obtain sts rs u where r: "traverse (plan_find p) ks = Some sts"
    "run_children n pv sv i (pl_scope p) role (map Unborn sts) s = Some (rs, u)"
    "settle_children sv i p rs u = Some (x, t)"
    using assms by (auto simp: run_chunk_def split: option.splits)
  have "child_of i (set ks) c" if "c \<in> set (map Unborn sts)" for c
    using that find_named [OF r(1)] by auto
  from run_children_plain [OF r(2) this] have u: "\<forall>k ok. Inr (k, ok) \<in> set rs \<longrightarrow> k \<in> set ks" "adds plain i s u" by auto
  from folds_adds [OF u(2)] folds_settle [OF r(3) u(1)] show ?thesis by (rule adds_trans)
qed

lemma folds_chunks:
  assumes "run_chunks n pv sv i p role kss s = Some (x, t)" and "set (concat kss) \<subseteq> K"
  shows "adds (folds K) i s t"
  using assms
proof (induction kss arbitrary: s)
  case (Cons ks kss)
  obtain y u where y: "run_chunk n pv sv i p role ks s = Some (y, u)"
    using Cons.prems(1) by (auto split: option.splits)
  have "adds (folds (set ks)) i s u" using y by (rule folds_chunk)
  then have u: "adds (folds K) i s u" by (rule adds_mono) (use Cons.prems(2) in \<open>auto simp: folds_def\<close>)
  show ?case
  proof (cases "y = Inr FlowContinue")
    case True
    with Cons.prems y have "adds (folds K) i u t" by (intro Cons.IH) simp_all
    with u show ?thesis by (rule adds_trans)
  next
    case False
    with Cons.prems(1) y have "t = u" by (auto split: sum.splits flow.splits)
    with u show ?thesis by simp
  qed
qed simp

section \<open>Batches are a partition without conflicts\<close>

lemma place_mset: "mset (concat (place_step p k bs)) = add_mset k (mset (concat bs))"
  by (induction bs) auto

lemma partition_mset: "mset (concat (partition_conflict_free ks p)) = mset ks"
proof -
  have "mset (concat (foldl (\<lambda>bs k. place_step p k bs) bs ks)) = mset (concat bs) + mset ks" for bs
    by (induction ks arbitrary: bs) (simp_all add: place_mset)
  from this [of "[]"] show ?thesis by (simp add: partition_conflict_free_def)
qed

definition apart :: "plan \<Rightarrow> plan_step_id \<Rightarrow> plan_step_id \<Rightarrow> bool" where
  "apart p j k \<longleftrightarrow> path_of ` set (targets_of p j) \<inter> path_of ` set (targets_of p k) = {}"

lemma misses_image: "A \<inter> f ` B = {} \<longleftrightarrow> \<not> (\<exists>t \<in> B. f t \<in> A)"
  by auto

lemma apart_iff: "apart p j k \<longleftrightarrow> \<not> overlap p k j"
  unfolding apart_def overlap_def by (rule misses_image)

definition batch_ok :: "plan \<Rightarrow> plan_step_id list \<Rightarrow> bool" where
  "batch_ok p b \<longleftrightarrow> b \<noteq> [] \<and> sorted_wrt (apart p) b"

lemma place_ok: "list_all (batch_ok p) bs \<Longrightarrow> list_all (batch_ok p) (place_step p k bs)"
proof (induction bs)
  case (Cons b bs)
  have "\<not> (\<exists>j \<in> set b. overlap p k j) \<Longrightarrow> batch_ok p b \<Longrightarrow> batch_ok p (b @ [k])"
    by (auto simp: batch_ok_def sorted_wrt_append apart_iff)
  with Cons show ?case by simp
qed (simp add: batch_ok_def)

lemma partition_ok: "list_all (batch_ok p) (partition_conflict_free ks p)"
proof -
  have "list_all (batch_ok p) bs \<Longrightarrow> list_all (batch_ok p) (foldl (\<lambda>bs k. place_step p k bs) bs ks)" for bs
    by (induction ks arbitrary: bs) (simp_all add: place_ok)
  then show ?thesis by (simp add: partition_conflict_free_def)
qed

lemma chunks_concat: "0 < n \<Longrightarrow> concat (chunks_of n xs) = xs"
proof (induction n xs rule: chunks_of.induct)
  case (1 n xs)
  then show ?case by (subst chunks_of.simps) auto
qed

lemma chunks_length: "c \<in> set (chunks_of n xs) \<Longrightarrow> length c \<le> n \<and> c \<noteq> []"
proof (induction n xs rule: chunks_of.induct)
  case (1 n xs)
  then show ?case by (subst (asm) (2) chunks_of.simps) (auto split: if_splits)
qed

lemma chunked_concat: "0 < n \<Longrightarrow> concat (concat (map (chunks_of n) bs)) = concat bs"
  by (induction bs) (simp_all add: chunks_concat)

lemma folds_wave:
  assumes "run_parallel_group n pv sv i role p ks s = Some (x, t)"
  shows "adds (folds (set ks)) i s t"
proof -
  have "set (concat (partition_conflict_free ks p)) = set ks"
    using arg_cong [OF partition_mset, of set_mset] by (simp only: set_mset_mset)
  moreover have "concat (concat (map (chunks_of max_parallel_children) (partition_conflict_free ks p))) =
      concat (partition_conflict_free ks p)" by (rule chunked_concat) (simp add: max_parallel_children_def)
  ultimately have "set (concat (concat (map (chunks_of max_parallel_children) (partition_conflict_free ks p)))) = set ks"
    by (simp only:)
  then show ?thesis by (intro folds_chunks [OF assms [unfolded run_parallel_group_def]]) (simp only: order_refl)
qed

end
