(* ===== verification/Plan_Safety.thy ===== *)
theory Plan_Safety
  imports Plan_Run Driver_Demo
begin

text \<open>
  Model-authored planning returns within its budget, and what it accepts is what execution finds.
\<close>

section \<open>Planning returns\<close>

definition rejections :: "task_id \<Rightarrow> 'x driver \<Rightarrow> nat" where
  "rejections i s = length (filter (completed ''plan_rejected'' (\<lambda>_. True)) (kinds i s))"

lemma rejection_count: "plan_rejection_count i s = of_nat (rejections i s)"
  by (simp add: plan_rejection_count_def rejections_def journal_of_kinds)

lemma no_rejection:
  assumes "adds (\<lambda>k. \<not> completed ''plan_rejected'' (\<lambda>_. True) k) i s t"
  shows "rejections i t = rejections i s"
proof -
  obtain ks where "kinds i t = kinds i s @ ks" "list_all (\<lambda>k. \<not> completed ''plan_rejected'' (\<lambda>_. True) k) ks"
    using assms by (auto simp: adds_def)
  moreover from this(2) have "filter (completed ''plan_rejected'' (\<lambda>_. True)) ks = []"
    by (simp add: filter_empty_conv list_all_iff)
  ultimately show ?thesis by (simp add: rejections_def)
qed

lemma plain_no_rejection: "adds plain i s t \<Longrightarrow> rejections i t = rejections i s"
  by (rule no_rejection) (erule adds_mono, rule plain_skips(7))

lemma rejections_move [simp]: "rejections i (snd (move_to j to s)) = rejections i s"
  by (rule no_rejection) (rule adds_move, simp_all)

lemma rejections_log: "\<not> completed ''plan_rejected'' (\<lambda>_. True) k \<Longrightarrow> rejections i (log_entry j k s) = rejections i s"
  by (rule no_rejection) (rule adds_log, simp_all)

lemma rejections_frame [simp]:
  "rejections i (s\<lparr>dv_world := w\<rparr>) = rejections i s" "rejections i (snd (draw s)) = rejections i s"
  "rejections i (snd (read_clock s)) = rejections i s" "rejections i (set_plans st s) = rejections i s"
  "rejections i (log_entry j (RecoveryNote n) s) = rejections i s"
  by (simp_all add: rejections_def set_plans_def)

lemma rejections_reject: "rejections i (reject_plan i es s) = Suc (rejections i s)"
  by (simp add: reject_plan_def log_fresh_unfold rejections_def)

lemma accept_snd:
  "snd (accept_plan pv i v s) = snd (move_to i Implementing (log_issued i ''plan_accepted''
     (JObject [(''hash'', JString (pv_hash pv (vp_plan v))),
       (''revision'', JInt (uint (rv_number (first_revision (vp_plan v) ''model-authored plan'' (fst (read_clock s)))))),
       (''step_count'', JInt (int (length (pl_steps (vp_plan v)))))])
     (set_plans (save_revision i (first_revision (vp_plan v) ''model-authored plan'' (fst (read_clock s)))
       (plans (snd (read_clock s)))) (snd (read_clock s)))))"
  by (simp add: accept_plan_def Let_def case_prod_beta)

lemma rejections_accept [simp]: "rejections i (snd (accept_plan pv i v s)) = rejections i s"
proof -
  have "adds plain j t (snd (read_clock t))" for j and t :: "'a planner" by simp
  show ?thesis unfolding accept_snd log_issued_unfold by (simp add: rejections_log)
qed

lemma rejections_request [simp]: "rejections j (snd (request_plan_from_model pv sv i fb role s)) = rejections j s"
proof (cases "get_state i s")
  case (Inr t)
  show ?thesis
    by (simp add: request_plan_from_model_def Inr Let_def case_prod_beta rejections_log split: sum.split)
qed (simp add: request_plan_from_model_def)

lemma pair_out: "m = Some x \<Longrightarrow> P (snd x) \<Longrightarrow> \<exists>r s'. m = Some (r, s') \<and> P s'"
  by (cases x) simp

lemma planning_loop_returns:
  assumes "3 \<le> length (rl_attempts l) + n" and "length (rl_attempts l) < 3" and "rl_max l = 3"
  shows "\<exists>r s'. planning_loop n pv sv i role l fb s = Some (r, s') \<and>
    rejections i s' + length (rl_attempts l) \<le> rejections i s + 3"
  using assms
proof (induction n arbitrary: l fb s)
  case (Suc n)
  show ?case
  proof (cases "sv_cancelled sv (dv_world s)")
    case True
    have "rejections i (snd (and_return FlowReturn (move_to i Cancelled s))) = rejections i s" by simp
    then show ?thesis using True Suc.prems by (cases "and_return FlowReturn (move_to i Cancelled s)") simp
  next
    case False
    note running = this
    obtain x t where q: "(case unprocessed_plan_submission i s of
        Some v \<Rightarrow> (Inr v, s) | None \<Rightarrow> request_plan_from_model pv sv i fb role s) = (x, t)" by fastforce
    have t: "rejections i t = rejections i s"
    proof (cases "unprocessed_plan_submission i s")
      case None
      then show ?thesis using q rejections_request [of i pv sv i fb role s] by simp
    next
      case Some
      then show ?thesis using q by simp
    qed
    note step = planning_loop.simps(2) q running
    show ?thesis
    proof (cases x)
      case Inl
      then show ?thesis using t Suc.prems by (simp add: step)
    next
      case x: (Inr v)
      show ?thesis
      proof (cases "judge_submission pv sv v t")
        case (Inr p)
        have "rejections i (snd (accept_plan pv i p t)) = rejections i s" using t by simp
        then show ?thesis using Suc.prems by (cases "accept_plan pv i p t") (simp add: step x Inr)
      next
        case (Inl es)
        let ?k = "length (rl_attempts l)"
        let ?a = "of_nat ?k + 1 :: u32"
        let ?l = "snd (plan_record_and_decide es l)"
        have a: "(3 :: u32) \<le> ?a \<longleftrightarrow> 3 \<le> Suc ?k"
          using Suc.prems(2) by (simp add: word_le_nat_alt unat_word_ariths unat_of_nat)
        have l: "length (rl_attempts ?l) = Suc ?k" "rl_max ?l = 3"
          using Suc.prems(3) by (simp_all add: plan_record_and_decide_def Let_def)
        show ?thesis
        proof (cases "3 \<le> Suc ?k")
          case True
          then obtain reason where r: "fst (plan_record_and_decide es l) = PlanGiveUp reason"
            using a Suc.prems(3) by (simp add: plan_record_and_decide_def Let_def)
          let ?x = "and_return FlowReturn (move_to i Failed
             (log_entry i (RecoveryNote (''planning gave up: '' @ reason)) (reject_plan i es t)))"
          have "rejections i (snd ?x) = Suc (rejections i s)" using t by (simp add: rejections_reject)
          then show ?thesis using Suc.prems(2) r
            by (intro pair_out [where x = ?x]) (simp_all add: step x Inl case_prod_beta)
        next
          case False
          then obtain fb' where r: "fst (plan_record_and_decide es l) = PlanRetry fb'"
            using a Suc.prems(3) by (simp add: plan_record_and_decide_def Let_def)
          have "\<exists>r s'. planning_loop n pv sv i role ?l (Some fb') (reject_plan i es t) = Some (r, s') \<and>
              rejections i s' + length (rl_attempts ?l) \<le> rejections i (reject_plan i es t) + 3"
            by (rule Suc.IH) (use False Suc.prems l in simp_all)
          then show ?thesis using r l(1) t by (simp add: step x Inl case_prod_beta rejections_reject add.commute)
        qed
      qed
    qed
  qed
qed simp

text \<open>C13: planning returns, and its budget survives restarts. Whatever the model submits and whatever a
  previous run left in the journal, three rounds of the planning loop are enough for it to return; the
  rejections journaled by all runs together never exceed three beyond what the first run found.\<close>

theorem planning_returns:
  "\<exists>r s'. planning_rounds 3 pv sv i role s = Some (r, s') \<and>
     rejections i s' \<le> rejections i s + (3 - unat (plan_rejection_count i s))"
proof (cases "has_accepted_plan i s")
  case True
  have "rejections i (snd (and_return FlowContinue (move_to i Implementing s))) = rejections i s" by simp
  then show ?thesis using True
    by (cases "and_return FlowContinue (move_to i Implementing s)") (simp add: planning_rounds_def)
next
  case False
  note fresh = this
  let ?n = "plan_rejection_count i s"
  show ?thesis
  proof (cases "(3 :: u32) \<le> ?n")
    case True
    let ?x = "and_return FlowReturn (move_to i Failed (log_entry i (RecoveryNote
          (''planning gave up: plan still invalid after '' @ show_nat (unat ?n) @ '' attempts'')) s))"
    have "rejections i (snd ?x) = rejections i s" by simp
    then show ?thesis using fresh True
      by (intro pair_out [where x = ?x]) (simp_all add: planning_rounds_def Let_def max_plan_repair_attempts_def)
  next
    case False
    let ?l = "resumed_plan_ledger 3 ?n"
    have len: "length (rl_attempts ?l) = unat ?n" "rl_max ?l = 3" by (simp_all add: resumed_plan_ledger_def)
    have n: "unat ?n < 3" using False by (simp add: word_le_nat_alt)
    have "\<exists>r s'. planning_loop 3 pv sv i role ?l None s = Some (r, s') \<and>
        rejections i s' + length (rl_attempts ?l) \<le> rejections i s + 3"
      by (rule planning_loop_returns) (simp_all add: len n)
    then obtain r s' where "planning_loop 3 pv sv i role ?l None s = Some (r, s')"
      "rejections i s' + unat ?n \<le> rejections i s + 3" by (auto simp: len)
    then show ?thesis using fresh False n by (simp add: planning_rounds_def max_plan_repair_attempts_def)
  qed
qed

section \<open>What is accepted\<close>

text \<open>A model call of planning leaves the plan store alone.\<close>

definition keeps_plans :: "'y plan_env \<Rightarrow> bool" where
  "keeps_plans pv \<longleftrightarrow> (\<forall>ro ms n w. fst (wd_rest (snd (pv_generate pv ro ms n w))) = fst (wd_rest w))"

lemma plans_frame [simp]:
  "plans (log_entry j k s) = plans s" "plans (snd (draw s)) = plans s" "plans (snd (read_clock s)) = plans s"
  "plans (snd (move_to j to s)) = plans s" "plans (set_plans st s) = st"
  by (simp_all add: plans_def set_plans_def)

lemma plans_logs [simp]: "plans (log_issued j o' v s) = plans s" "plans (log_fresh j o' v s) = plans s"
  by (simp_all add: log_issued_unfold log_fresh_unfold)

lemma plans_request:
  assumes "keeps_plans pv"
  shows "plans (snd (request_plan_from_model pv sv i fb role s)) = plans s"
proof (cases "get_state i s")
  case (Inr t)
  have "fst (wd_rest (snd (pv_generate pv ro ms n w))) = fst (wd_rest w)" for ro ms n w
    using assms by (simp add: keeps_plans_def)
  then show ?thesis
    by (simp add: request_plan_from_model_def Inr Let_def case_prod_beta plans_def split: sum.split)
qed (simp add: request_plan_from_model_def)

lemma context_frame [simp]:
  "plan_context_of pv sv (log_entry j k s) = plan_context_of pv sv s"
  "plan_context_of pv sv (snd (draw s)) = plan_context_of pv sv s"
  "plan_context_of pv sv (snd (read_clock s)) = plan_context_of pv sv s"
  "plan_context_of pv sv (snd (move_to j to s)) = plan_context_of pv sv s"
  "plan_context_of pv sv (set_plans st s) = plan_context_of pv sv s"
  "plan_context_of pv sv (log_issued j o' v s) = plan_context_of pv sv s"
  by (simp_all add: plan_context_of_def set_plans_def log_issued_unfold snd_draw snd_read_clock snd_move_to log_entry_def)

lemma judged:
  assumes "judge_submission pv sv v s = Inr p"
  shows "plan_valid (plan_context_of pv sv s) (vp_plan p)" and "plan_ids_ok (vp_plan p)"
proof -
  obtain q where q: "submission_to_plan pv v = Inr q" "checked_plan pv sv q s = Inr p"
    using assms by (auto simp: judge_submission_def split: sum.splits)
  have "vp_plan p = q" using q(2) by (rule checked_plan_of)
  moreover have "plan_valid (plan_context_of pv sv s) q" using q(2) checked_iff(2) by blast
  moreover have "plan_ids_ok q" using q(1) parsed_plan
    by (auto simp: submission_to_plan_def split: if_splits option.splits)
  ultimately show "plan_valid (plan_context_of pv sv s) (vp_plan p)" "plan_ids_ok (vp_plan p)" by simp_all
qed

lemma loop_accepts:
  assumes "planning_loop n pv sv i role l fb s = Some (Inr FlowContinue, t)" and "keeps_plans pv"
  shows "\<exists>p u. plan_valid (plan_context_of pv sv u) (vp_plan p) \<and> plan_ids_ok (vp_plan p) \<and> plans u = plans s \<and>
    accept_plan pv i p u = (Inr FlowContinue, t)"
  using assms(1)
proof (induction n arbitrary: l fb s)
  case (Suc n)
  have stop: "and_return FlowReturn x \<noteq> (Inr FlowContinue, t)" for x :: "(agent_error + unit) \<times> 'a planner"
    using and_return_other [of FlowReturn FlowContinue x] by (metis flow.distinct(1) fst_conv)
  have running: "\<not> sv_cancelled sv (dv_world s)" using Suc.prems stop by (auto split: if_splits)
  obtain x u where q: "(case unprocessed_plan_submission i s of
      Some v \<Rightarrow> (Inr v, s) | None \<Rightarrow> request_plan_from_model pv sv i fb role s) = (x, u)" by fastforce
  have u: "plans u = plans s"
  proof (cases "unprocessed_plan_submission i s")
    case None
    then show ?thesis using q plans_request [OF assms(2), of sv i fb role s] by simp
  next
    case Some
    then show ?thesis using q by simp
  qed
  note run = Suc.prems [unfolded planning_loop.simps(2) q] running
  show ?case
  proof (cases x)
    case Inl
    then show ?thesis using run by simp
  next
    case x: (Inr v)
    show ?thesis
    proof (cases "judge_submission pv sv v u")
      case (Inr p)
      then have "accept_plan pv i p u = (Inr FlowContinue, t)" using run x by simp
      with judged [OF Inr] u show ?thesis by blast
    next
      case (Inl es)
      obtain d l' where d: "plan_record_and_decide es l = (d, l')" by fastforce
      show ?thesis
      proof (cases d)
        case (PlanRetry fb')
        have "planning_loop n pv sv i role l' (Some fb') (reject_plan i es u) = Some (Inr FlowContinue, t)"
          using run x Inl d PlanRetry by simp
        from Suc.IH [OF this] show ?thesis using u by (simp add: reject_plan_def)
      next
        case (PlanGiveUp reason)
        then show ?thesis using run x Inl d stop by simp
      qed
    qed
  qed
qed simp

text \<open>C16: what planning accepts is what execution finds. When a task without an accepted plan leaves
  planning for execution, the acceptance is journaled, the task is in \<open>Implementing\<close>, and the plan that
  the store now returns for it passes validation there, so the next round does not reject it. This needs
  model calls that leave the plan store alone, and no revision of the task numbered above the first.\<close>

theorem accepted_plan_executes:
  assumes "planning_rounds n pv sv i role s = Some (Inr FlowContinue, t)" and "\<not> has_accepted_plan i s"
    and "keeps_plans pv" and "\<forall>w \<in> set (st_revisions (plans s)). rw_task w = i \<longrightarrow> rw_number w \<le> 1"
  shows "has_accepted_plan i t \<and> in_state i Implementing t \<and>
    (\<exists>r v. stored_plan pv i (plans t) = Inr (Some r) \<and> checked_plan pv sv (rv_plan r) t = Inr v)"
proof -
  have stop: "and_return FlowReturn x \<noteq> (Inr FlowContinue, t)" for x :: "(agent_error + unit) \<times> 'a planner"
    using and_return_other [of FlowReturn FlowContinue x] by (metis flow.distinct(1) fst_conv)
  have "planning_loop n pv sv i role (resumed_plan_ledger max_plan_repair_attempts (plan_rejection_count i s)) None s =
      Some (Inr FlowContinue, t)"
    using assms(1,2) stop by (auto simp: planning_rounds_def Let_def split: if_splits)
  then obtain p u where p: "plan_valid (plan_context_of pv sv u) (vp_plan p)" "plan_ids_ok (vp_plan p)" "plans u = plans s"
    "accept_plan pv i p u = (Inr FlowContinue, t)" using loop_accepts [OF _ assms(3)] by blast
  let ?r = "first_revision (vp_plan p) ''model-authored plan'' (fst (read_clock u))"
  have t: "plans t = save_revision i ?r (plans s)" "plan_context_of pv sv t = plan_context_of pv sv u"
    using arg_cong [OF p(4), of snd] p(3) by (auto simp: accept_snd)
  have "latest_row i (plans t) = Some (revision_to_row i ?r)"
    unfolding t(1) by (rule latest_row_saved) (use assms(4) in \<open>simp add: first_revision_def\<close>)
  moreover obtain r where r: "row_to_revision (revision_to_row i ?r) = Some r" "rv_plan r = vp_plan p"
    using plan_json [OF p(2)] by (simp add: row_to_revision_def revision_to_row_def first_revision_def)
  ultimately have stored: "stored_plan pv i (plans t) = Inr (Some r)" by (simp add: stored_plan_def)
  have "\<exists>v. checked_plan pv sv (rv_plan r) t = Inr v" unfolding checked_iff(2) r(2) t(2) by (rule p(1))
  moreover have "has_accepted_plan i t \<and> in_state i Implementing t"
  proof -
    let ?j = "JObject [(''hash'', JString (pv_hash pv (vp_plan p))), (''revision'', JInt (uint (rv_number ?r))),
      (''step_count'', JInt (int (length (pl_steps (vp_plan p)))))]"
    let ?m = "log_issued i ''plan_accepted'' ?j
      (set_plans (save_revision i ?r (plans (snd (read_clock u)))) (snd (read_clock u)))"
    have a: "accept_plan pv i p u = and_return FlowContinue (move_to i Implementing ?m)"
      by (simp add: accept_plan_def Let_def case_prod_beta)
    then have t: "t = snd (move_to i Implementing ?m)" using p(4) by (metis snd_and_return snd_conv)
    have "fst (move_to i Implementing ?m) = Inr ()"
      using p(4) unfolding a by (cases "move_to i Implementing ?m"; cases "fst (move_to i Implementing ?m)")
        (auto simp: and_return_def)
    then have "in_state i Implementing t" unfolding t
      by (cases rule: move_to_cases [of i ?m Implementing]) (auto simp: in_state_def)
    moreover have "adds (\<lambda>_. True) i ?m t" unfolding t by (rule adds_move) simp_all
    then have "has_accepted_plan i t"
      by (auto simp: has_accepted_plan_def journal_of_kinds adds_def log_issued_unfold)
    ultimately show ?thesis by simp
  qed
  ultimately show ?thesis using stored by blast
qed

end
