(* ===== verification/Plan_Moves.thy ===== *)
theory Plan_Moves
  imports Plan_Wave Plan_Safety
begin

text \<open>
  A task in plan-driven execution as a transition system: rounds of the handler under any scheduler, and
  whatever else happens to the task and its surroundings in between (answers, approvals, crashes and
  recovery, other states' handlers). The order of the dependencies, the bound on the turns of a step and
  the way into \<open>Verifying\<close> along its runs.
\<close>

definition aside :: "journal_kind \<Rightarrow> bool" where
  "aside e \<longleftrightarrow> no_turn e \<and> completed_step e = None"

inductive plan_move ::
  "'y plan_env \<Rightarrow> (plan_store \<times> 'y) services \<Rightarrow> task_id \<Rightarrow> plan \<Rightarrow> 'y planner \<Rightarrow> 'y planner \<Rightarrow> bool"
  for pv sv i p where
  pm_round: "stored_plan pv i (plans s) = Inr (Some r) \<Longrightarrow> rv_plan r = p \<Longrightarrow>
    step_implementing_plan n pv sv i role s = Some (x, t) \<Longrightarrow> plan_move pv sv i p s t"
| pm_aside: "adds aside i s t \<Longrightarrow> plan_move pv sv i p s t"

lemma adds_and: "adds P i s t \<Longrightarrow> adds Q i s t \<Longrightarrow> adds (\<lambda>e. P e \<and> Q e) i s t"
  by (auto simp: adds_def list_all_iff)

lemma plain_enough: "adds plain i s t \<Longrightarrow> adds (folds {}) i s t"
  by (rule folds_adds)

text \<open>What a round may complete, and what it journals.\<close>

lemma round_effect:
  assumes "stored_plan pv i (plans s) = Inr (Some r)" and "step_implementing_plan n pv sv i role s = Some (x, t)"
  obtains K where "\<forall>st \<in> set (pl_steps (rv_plan r)). ps_id st \<in> K \<longrightarrow> set (ps_depends st) \<subseteq> completed_plan_steps i s"
    and "adds (\<lambda>e. completed_step e \<in> insert None (Some ` K)) i s t"
    and "plan_ids (rv_plan r) \<subseteq> completed_plan_steps i s \<or> adds (\<lambda>e. \<forall>a. e \<noteq> StateChanged a Verifying) i s t"
proof -
  have folds: "adds (folds K) i s t \<Longrightarrow> adds (\<lambda>e. completed_step e \<in> insert None (Some ` K)) i s t \<and>
      adds (\<lambda>e. \<forall>a. e \<noteq> StateChanged a Verifying) i s t" for K
    by (auto simp: folds_def adds_def list_all_iff)
  note * = that
  have plain: thesis if "adds plain i s t"
    using folds [of "{}", OF folds_adds [OF that]] by (intro * [of "{}"]) simp_all
  have out: "plan_round (run_parallel_group n pv sv i role) pv sv i role s = Some y \<Longrightarrow> t = snd y" for y
    using assms(2) by (auto simp: step_implementing_plan_def)
  show ?thesis
  proof (cases rule: round_cases [where wave = "run_parallel_group n pv sv i role" and pv = pv and sv = sv
        and i = i and role = role and s = s])
    case redo
    then show ?thesis using out plain plain_other_tool by fastforce
  next
    case (stop x' t')
    then show ?thesis using out plain by fastforce
  next
    case (over q v)
    have q: "q = r" using over(2) assms(1) by simp
    have t: "t = snd (move_to i Verifying s)" using out [OF over(5)] by simp
    have "adds (\<lambda>e. completed_step e \<in> insert None (Some ` {})) i s t" unfolding t by (rule adds_move) simp_all
    then show ?thesis using next_none [OF over(3,4)] q by (intro that [of "{}"]) simp_all
  next
    case (wave q v st)
    have q: "q = r" using wave(2) assms(1) by simp
    let ?K = "set (peers v (ps_id st) (completed_plan_steps i s))"
    obtain y where y: "run_parallel_group n pv sv i role (vp_plan v) (peers v (ps_id st) (completed_plan_steps i s)) s = Some (y, t)"
      using wave(6) assms(2) by (simp add: step_implementing_plan_def)
    have c: "checked_plan pv sv (rv_plan r) s = Inr v" using wave(3) q by simp
    have K: "set (ps_depends u) \<subseteq> completed_plan_steps i s" if "u \<in> set (pl_steps (rv_plan r))" "ps_id u \<in> ?K" for u
      using peers_ready [OF c wave(4) that(2)] unique_step [of "plan_context_of pv sv s" "rv_plan r" u] that(1) c
      by (metis checked_iff(2))
    show ?thesis using folds [OF folds_wave [OF y]] K by (intro that [of ?K]) simp_all
  next
    case (solo q v st)
    have q: "q = r" using solo(2) assms(1) by simp
    have t: "t = snd (run_plan_step sv i (rv_plan r) st role s)" using out [OF solo(6)] q by simp
    have c: "checked_plan pv sv (rv_plan r) s = Inr v" using solo(3) q by simp
    have K: "set (ps_depends u) \<subseteq> completed_plan_steps i s"
      if "u \<in> set (pl_steps (rv_plan r))" "ps_id u \<in> {ps_id st}" for u
      using next_ready [OF c solo(4)] unique_step [of "plan_context_of pv sv s" "rv_plan r" u st] that c
      by (metis checked_iff(2) singletonD)
    have "adds (\<lambda>e. \<forall>a. e \<noteq> StateChanged a Verifying) i s t" unfolding t
      by (rule adds_run_step) auto
    then show ?thesis using step_completes [of st i s sv i "rv_plan r" role] K t
      by (intro that [of "{ps_id st}"]) simp_all
  qed
qed

section \<open>Turns\<close>

lemma names_iff: "names_step ''plan_step'' k (JObject [(''phase'', JString ''plan_step''),
    (''plan_step'', JString (step_text j)), (''turn_index'', JInt n)]) \<longleftrightarrow> j = k"
  by (cases j; cases k) (auto simp: names_step_def payload_str_def json_get_def)

lemma kinds_fields [simp]:
  "kinds i (s\<lparr>dv_world := w\<rparr>) = kinds i s" "kinds i (snd (draw s)) = kinds i s"
  by simp_all

lemma request_turns:
  "model_turns_for_step i k (snd (request_step_action sv i st role s)) \<le>
     model_turns_for_step i k s + (if k = ps_id st then 1 else 0)"
proof -
  let ?c = "\<lambda>e sid n. EffectIssued e sid ''model_call'' (JObject [(''phase'', JString ''plan_step''),
      (''plan_step'', JString (step_text (ps_id st))), (''turn_index'', JInt n)])"
  have call: "turns k (kinds i s @ [?c e sid n]) \<le> model_turns_for_step i k s + (if k = ps_id st then 1 else 0)" for e sid n
    using turns_call [of k "kinds i s" e sid "JObject [(''phase'', JString ''plan_step''),
      (''plan_step'', JString (step_text (ps_id st))), (''turn_index'', JInt n)]"]
    by (auto simp: names_iff model_turns split: if_splits)
  have done': "turns k (kinds i s @ [?c e sid n, EffectCompleted e' sid' o' p']) =
      turns k (kinds i s @ [?c e sid n])" for e sid n e' sid' o' p'
    using turns_no_turn [of "[EffectCompleted e' sid' o' p']" k "kinds i s @ [?c e sid n]"] by simp
  show ?thesis
    by (cases rule: request_shape [where sv = sv and i = i and st = st and role = role and s = s])
      (simp_all add: model_turns [of i k "log_entry _ _ _"] model_turns [of i k "_\<lparr>dv_world := _\<rparr>"] done' call)
qed

lemma solo_turns:
  "model_turns_for_step i k (snd (run_plan_step sv i p st role s)) \<le> max max_step_turns (model_turns_for_step i k s)"
proof -
  let ?s1 = "begin_step sv i st s" and ?s2 = "snd (draw (begin_step sv i st s))"
  have b: "model_turns_for_step i k ?s1 = model_turns_for_step i k s" for k
    by (rule turns_adds, rule adds_begin) simp_all
  have d: "model_turns_for_step i k ?s2 = model_turns_for_step i k s" for k
    using b by (simp add: model_turns)
  have act: "model_turns_for_step i k (snd (act_on_step sv i p j sid a t)) = model_turns_for_step i k t" for j sid a t
    by (rule turns_adds, rule adds_act) (simp_all add: plain_no_turn)
  show ?thesis
  proof (cases "max_step_turns \<le> model_turns_for_step i (ps_id st) ?s1")
    case True
    have "model_turns_for_step i k (complete_step i (ps_id st) ?s1) = model_turns_for_step i k ?s1"
      unfolding complete_step_def by (rule turns_adds, rule adds_fresh) simp_all
    with True show ?thesis using b by (simp add: run_step_snd Let_def)
  next
    case False
    show ?thesis
    proof (cases "unprocessed_step_action i (ps_id st) ?s2")
      case (Some a)
      with False show ?thesis using act d by (simp add: run_step_snd Let_def)
    next
      case None
      obtain x t where q: "request_step_action sv i st role ?s2 = (x, t)" by fastforce
      have t: "model_turns_for_step i k t \<le> max max_step_turns (model_turns_for_step i k s)"
        using request_turns [of i k sv st role ?s2] q d [of k] False b [of "ps_id st"] by (auto split: if_splits)
      show ?thesis
        by (cases x) (use False None q t act in \<open>simp_all add: run_step_snd Let_def\<close>)
    qed
  qed
qed

lemma round_turns:
  assumes "step_implementing_plan n pv sv i role s = Some (x, t)"
  shows "model_turns_for_step i k t \<le> max max_step_turns (model_turns_for_step i k s)"
proof -
  have same: "adds no_turn i s t \<Longrightarrow> model_turns_for_step i k t \<le> max max_step_turns (model_turns_for_step i k s)"
    by (simp add: turns_adds)
  have out: "plan_round (run_parallel_group n pv sv i role) pv sv i role s = Some y \<Longrightarrow> t = snd y" for y
    using assms by (auto simp: step_implementing_plan_def)
  show ?thesis
  proof (cases rule: round_cases [where wave = "run_parallel_group n pv sv i role" and pv = pv and sv = sv
        and i = i and role = role and s = s])
    case (redo q)
    have t: "t = snd (issue_and_execute_tool_call sv i (pc_step q) (pc_tool q) (pc_input q) s)" using out [OF redo(2)] by simp
    show ?thesis by (rule same) (simp add: t adds_mono [OF plain_other_tool plain_no_turn])
  next
    case (stop x' t')
    then show ?thesis using out [OF stop(2)] by (intro same) (auto elim: adds_mono intro: plain_no_turn)
  next
    case over
    have "t = snd (move_to i Verifying s)" using out [OF over(5)] by simp
    then show ?thesis by (intro same) (simp add: adds_move)
  next
    case (wave q v st)
    obtain y where "run_parallel_group n pv sv i role (vp_plan v) (peers v (ps_id st) (completed_plan_steps i s)) s = Some (y, t)"
      using wave(6) assms by (simp add: step_implementing_plan_def)
    from folds_wave [OF this] show ?thesis by (intro same) (erule adds_mono, simp add: folds_def)
  next
    case (solo q v st)
    have "t = snd (run_plan_step sv i (rv_plan q) st role s)" using out [OF solo(6)] by simp
    then show ?thesis using solo_turns by simp
  qed
qed

lemma move_turns:
  assumes "plan_move pv sv i p s t"
  shows "model_turns_for_step i k t \<le> max max_step_turns (model_turns_for_step i k s)"
  using assms
proof cases
  case (pm_round r n role x)
  show ?thesis by (rule round_turns [OF pm_round(3)])
next
  case pm_aside
  then have "adds no_turn i s t" by (rule adds_mono) (simp add: aside_def)
  then show ?thesis by (simp add: turns_adds)
qed

lemma move_order:
  assumes "plan_move pv sv i p s t" and "deps_closed p (completed_plan_steps i s)"
  shows "deps_closed p (completed_plan_steps i t) \<and> completed_plan_steps i s \<subseteq> completed_plan_steps i t"
  using assms(1)
proof cases
  case (pm_round r n role x)
  obtain K where K: "\<forall>st \<in> set (pl_steps (rv_plan r)). ps_id st \<in> K \<longrightarrow> set (ps_depends st) \<subseteq> completed_plan_steps i s"
    "adds (\<lambda>e. completed_step e \<in> insert None (Some ` K)) i s t"
    "plan_ids (rv_plan r) \<subseteq> completed_plan_steps i s \<or> adds (\<lambda>e. \<forall>a. e \<noteq> StateChanged a Verifying) i s t"
    by (rule round_effect [OF pm_round(1,3)])
  note f = fin_within [OF K(2)]
  have "deps_closed p (completed_plan_steps i t)"
    by (rule deps_closed_grow [OF assms(2) f]) (use K(1) pm_round(2) in simp)
  then show ?thesis using f(1) by simp
next
  case pm_aside
  then have "completed_plan_steps i t = completed_plan_steps i s"
    by (intro fin_adds) (erule adds_mono, simp add: aside_def)
  then show ?thesis using assms(2) by simp
qed

text \<open>C4: steps are completed in the order of their dependencies. Along every run of a plan (rounds under
  any scheduler, parallel waves, crashes and whatever else happens in between), a completed step never
  has an incomplete dependency, and no step loses its completion.\<close>

theorem plan_order_kept:
  assumes "(plan_move pv sv i p)\<^sup>*\<^sup>* s t" and "deps_closed p (completed_plan_steps i s)"
  shows "deps_closed p (completed_plan_steps i t) \<and> completed_plan_steps i s \<subseteq> completed_plan_steps i t"
  using assms
proof (induction rule: rtranclp_induct)
  case (step t u)
  then show ?case using move_order [OF step(2)] by blast
qed simp

text \<open>C14: the turns of a step are bounded. Along every run of a plan no step gets more than three model
  calls after its start, however often the task is resumed.\<close>

theorem step_turns_bounded:
  assumes "(plan_move pv sv i p)\<^sup>*\<^sup>* s t" and "model_turns_for_step i k s \<le> 3"
  shows "model_turns_for_step i k t \<le> 3"
  using assms
proof (induction rule: rtranclp_induct)
  case (step t u)
  then have "model_turns_for_step i k u \<le> max max_step_turns 3"
    using move_turns [OF step(2), of k] by simp
  then show ?case by (simp add: max_step_turns_def)
qed

text \<open>C15: the full check comes after the whole plan. A round of plan execution journals a move to
  \<open>Verifying\<close> only when every step of the stored plan is complete.\<close>

theorem verifying_after_every_step:
  assumes "stored_plan pv i (plans s) = Inr (Some r)" and "step_implementing_plan n pv sv i role s = Some (x, t)"
    and "kinds i t = kinds i s @ ks" and "StateChanged a Verifying \<in> set ks"
  shows "plan_ids (rv_plan r) \<subseteq> completed_plan_steps i s"
proof -
  have "\<not> adds (\<lambda>e. \<forall>a. e \<noteq> StateChanged a Verifying) i s t"
    using assms(3,4) by (auto simp: adds_def list_all_iff)
  then show ?thesis using round_effect [OF assms(1,2)] by blast
qed

text \<open>No two steps of a batch declare the same target. The batches of a parallel group hold every step
  exactly once; within a batch the declared targets are pairwise different paths; a batch runs in chunks
  of at most four children, in order.\<close>

theorem wave_batches_disjoint:
  "mset (concat (partition_conflict_free ks p)) = mset ks \<and>
   (\<forall>b \<in> set (partition_conflict_free ks p). b \<noteq> [] \<and>
      sorted_wrt (\<lambda>j k. path_of ` set (targets_of p j) \<inter> path_of ` set (targets_of p k) = {}) b \<and>
      concat (chunks_of max_parallel_children b) = b \<and> (\<forall>c \<in> set (chunks_of max_parallel_children b). length c \<le> 4))"
proof -
  have "apart p = (\<lambda>j k. path_of ` set (targets_of p j) \<inter> path_of ` set (targets_of p k) = {})"
    by (intro ext) (simp add: apart_def)
  then have b: "\<forall>b \<in> set (partition_conflict_free ks p). b \<noteq> [] \<and>
      sorted_wrt (\<lambda>j k. path_of ` set (targets_of p j) \<inter> path_of ` set (targets_of p k) = {}) b"
    using partition_ok [of p ks] by (simp add: list_all_iff batch_ok_def)
  have "concat (chunks_of max_parallel_children b) = b" for b :: "plan_step_id list"
    by (rule chunks_concat) (simp add: max_parallel_children_def)
  moreover have "\<forall>c \<in> set (chunks_of max_parallel_children b). length c \<le> 4" for b :: "plan_step_id list"
    using chunks_length [of _ max_parallel_children b] by (auto simp: max_parallel_children_def)
  ultimately show ?thesis using partition_mset b by blast
qed

end
