(* ===== verification/Plan_Resume.thy ===== *)
theory Plan_Resume
  imports Plan_Moves
begin

text \<open>
  Resuming a step from the journal: what a round does with an answer of the model that was journaled but
  not acted on, and what becomes of a step that asked a question.
\<close>

section \<open>The current step\<close>

definition on_step ::
  "'y plan_env \<Rightarrow> (plan_store \<times> 'y) services \<Rightarrow> task_id \<Rightarrow> plan \<Rightarrow> plan_step \<Rightarrow> 'y planner \<Rightarrow> bool" where
  "on_step pv sv i p st s \<longleftrightarrow> calm i s \<and>
     (\<exists>r. stored_plan pv i (plans s) = Inr (Some r) \<and> rv_plan r = p) \<and>
     (\<exists>v. checked_plan pv sv p s = Inr v \<and> next_incomplete (make_schedule v) (completed_plan_steps i s) = Some st \<and>
        length (peers v (ps_id st) (completed_plan_steps i s)) \<le> 1)"

lemma on_step_round:
  assumes "on_step pv sv i p st s"
  shows "step_implementing_plan n pv sv i role s = Some (run_plan_step sv i p st role s)"
proof -
  obtain r v where f: "stored_plan pv i (plans s) = Inr (Some r)" "rv_plan r = p" "checked_plan pv sv p s = Inr v"
    "next_incomplete (make_schedule v) (completed_plan_steps i s) = Some st"
    "length (peers v (ps_id st) (completed_plan_steps i s)) \<le> 1"
    using assms unfolding on_step_def by blast
  have "interrupted_tool_call i (dv_tasks s) = None" using assms by (simp add: on_step_def calm_none)
  note f = f this
  have "\<not> 1 < length (peers v (ps_id st) (completed_plan_steps i s))" using f(5) by simp
  then show ?thesis using f(1-4,6) unfolding step_implementing_plan_def plan_round_def peers_def Let_def by simp
qed

lemma on_step_keep:
  assumes "on_step pv sv i p st s" and "calm i t" and "plans t = plans s"
    and "plan_context_of pv sv t = plan_context_of pv sv s" and "completed_plan_steps i t = completed_plan_steps i s"
  shows "on_step pv sv i p st t"
  using assms unfolding on_step_def checked_plan_def by simp

lemma checked_of_valid: "plan_valid (plan_context_of pv sv s) p \<Longrightarrow> \<exists>v. checked_plan pv sv p s = Inr v"
  by (simp add: checked_iff(2))

text \<open>A plan of one step never waves: the recursion of the handler into children is one level deep.\<close>

lemma one_step:
  assumes "pl_steps p = [st]" and "plan_valid (plan_context_of pv sv s) p" and "calm i s"
    and "stored_plan pv i (plans s) = Inr (Some r)" and "rv_plan r = p" and "ps_id st \<notin> completed_plan_steps i s"
  shows "on_step pv sv i p st s"
proof -
  obtain v where v: "checked_plan pv sv p s = Inr v" using checked_of_valid [OF assms(2)] by blast
  let ?fin = "completed_plan_steps i s"
  obtain u where u: "next_incomplete (make_schedule v) ?fin = Some u"
    using next_none [OF v, of ?fin] assms(1,6) by (cases "next_incomplete (make_schedule v) ?fin") auto
  have "u = st" using next_ready(1) [OF v u] assms(1) by simp
  have "set (peers v (ps_id st) ?fin) \<subseteq> {ps_id st}"
    using peers_ready [OF v u] assms(1) \<open>u = st\<close> by auto
  then have "card (set (peers v (ps_id st) ?fin)) \<le> 1" using card_mono [of "{ps_id st}"] by fastforce
  then have "length (peers v (ps_id st) ?fin) \<le> 1" using distinct_card [OF peers_distinct [OF v]] by metis
  then show ?thesis using assms v u \<open>u = st\<close> by (auto simp: on_step_def)
qed

section \<open>An answer that was not acted on\<close>

lemma action_json: "action_from_json (action_to_json a) = Some a"
  by (cases a) (simp_all add: action_from_json_def payload_str_def json_get_def)

definition idle_entry :: "plan_step_id \<Rightarrow> journal_kind \<Rightarrow> bool" where
  "idle_entry k e \<longleftrightarrow> \<not> acted_on e \<and> \<not> step_completion k e"

lemma unprocessed_kinds:
  "unprocessed_step_action i k s = (case after_last (step_completion k) (kinds i s) of
     None \<Rightarrow> None
   | Some (e, later) \<Rightarrow> if \<exists>e \<in> set later. acted_on e then None
       else Option.bind (json_get ''step_action'' (completed_payload e)) action_from_json)"
  by (simp add: unprocessed_step_action_def journal_of_kinds)

lemma unprocessed_idle:
  assumes "adds (idle_entry k) i s t"
  shows "unprocessed_step_action i k t = unprocessed_step_action i k s"
proof -
  obtain ks where ks: "kinds i t = kinds i s @ ks" "list_all (idle_entry k) ks" using assms by (auto simp: adds_def)
  have "after_last (step_completion k) ks = None"
    by (rule after_last_None) (use ks(2) in \<open>simp add: idle_entry_def list_all_iff\<close>)
  moreover have "\<not> (\<exists>e \<in> set ks. acted_on e)" using ks(2) by (auto simp: idle_entry_def list_all_iff)
  ultimately show ?thesis using ks(1)
    by (auto simp: unprocessed_kinds after_last_append bex_Un split: option.split)
qed

lemma idle_simps [simp]:
  "idle_entry k (StateChanged a b)" "idle_entry k (RecoveryNote n)"
  "kd \<noteq> ''tool'' \<Longrightarrow> idle_entry k (EffectIssued e st kd p)"
  "kd \<notin> {''model_completion'', ''plan_step_completed'', ''plan_scope_expansion''} \<Longrightarrow> idle_entry k (EffectCompleted e st kd p)"
  by (simp_all add: idle_entry_def acted_on_def step_completion_def)

lemma request_journal:
  assumes "request_step_action sv i st role s = (Inr a, t)"
  shows "\<exists>c d. kinds i t = kinds i s @ [c, d] \<and> step_completion (ps_id st) d \<and>
    json_get ''step_action'' (completed_payload d) = Some (action_to_json a) \<and>
    issued ''model_call'' (names_step ''plan_step'' (ps_id st)) c \<and> issued_tool_call c = None \<and>
    issued_tool_call d = None \<and> completed_step c = None \<and> completed_step d = None"
  using assms by (cases rule: request_shape [where sv = sv and i = i and st = st and role = role and s = s])
    (auto simp: step_completion_def names_step_def payload_str_def json_get_def)

lemma request_replayed:
  assumes "request_step_action sv i st role s = (Inr a, t)"
  shows "unprocessed_step_action i (ps_id st) t = Some a"
proof -
  obtain c d where "kinds i t = kinds i s @ [c, d]" "step_completion (ps_id st) d"
    "json_get ''step_action'' (completed_payload d) = Some (action_to_json a)"
    using request_journal [OF assms] by blast
  then show ?thesis by (simp add: unprocessed_kinds after_last_append action_json)
qed

lemma begin_idle: "adds (idle_entry k) j s (begin_step sv i st s)"
  by (rule adds_begin) simp_all

lemma begin_no_turn: "adds no_turn j s (begin_step sv i st s)"
  by (rule adds_begin) simp_all

text \<open>C10: a crash after the model answered loses nothing, except on the last turn. Once the answer of a
  step is journaled, a resumed round of that step acts on the same action without a model call, whatever
  entries of other kinds came in between; but the bound on the turns is tested first, so when the answer
  was the third turn's the step is closed and the action it decided is dropped.\<close>

theorem journaled_answer_resumed:
  assumes "request_step_action sv i st role s = (Inr a, t)" and "adds (idle_entry (ps_id st)) i t u"
    and "on_step pv sv i p st u"
  shows "step_implementing_plan n pv sv i role' u = Some
    (let b = begin_step sv i st u in
     if max_step_turns \<le> model_turns_for_step i (ps_id st) u then (Inr FlowContinue, complete_step i (ps_id st) b)
     else act_on_step sv i p (ps_id st) (StepId (fst (draw b))) a (snd (draw b)))"
proof -
  let ?b = "begin_step sv i st u"
  have n: "model_turns_for_step i (ps_id st) ?b = model_turns_for_step i (ps_id st) u"
    by (rule turns_adds) (rule begin_no_turn)
  have "adds (idle_entry (ps_id st)) i t (snd (draw ?b))"
    using adds_trans [OF assms(2) begin_idle] by simp
  then have "unprocessed_step_action i (ps_id st) (snd (draw ?b)) = Some a"
    using unprocessed_idle request_replayed [OF assms(1)] by metis
  then show ?thesis using on_step_round [OF assms(3)] n
    by (simp add: run_plan_step_def Let_def case_prod_beta)
qed

section \<open>A question\<close>

fun answers ::
  "nat \<Rightarrow> 'y plan_env \<Rightarrow> (plan_store \<times> 'y) services \<Rightarrow> task_id \<Rightarrow> model_role option \<Rightarrow> string list \<Rightarrow> 'y planner
     \<Rightarrow> 'y planner option" where
  "answers n pv sv i role [] s = Some s"
| "answers n pv sv i role (a # as) s =
     (case step_implementing_plan n pv sv i role (snd (respond_to_user i a s)) of
        None \<Rightarrow> None | Some (_, t) \<Rightarrow> answers n pv sv i role as t)"

definition asked ::
  "'y plan_env \<Rightarrow> (plan_store \<times> 'y) services \<Rightarrow> task_id \<Rightarrow> plan \<Rightarrow> plan_step \<Rightarrow> 'y planner \<Rightarrow> bool" where
  "asked pv sv i p st s \<longleftrightarrow> in_state i WaitingForUser s \<and> on_step pv sv i p st s \<and>
     unprocessed_step_action i (ps_id st) s = Some StepAsk \<and>
     model_turns_for_step i (ps_id st) s < max_step_turns \<and> step_started i (ps_id st) s \<and>
     (ps_checkpoint st \<longrightarrow> checkpoint_taken_for i (ps_id st) s)"

lemma context_same: "dv_world t = dv_world s \<Longrightarrow> dv_engine t = dv_engine s \<Longrightarrow>
    plans t = plans s \<and> plan_context_of pv sv t = plan_context_of pv sv s"
  by (simp add: plans_def plan_context_of_def)

lemma step_started_kinds: "step_started i k s \<longleftrightarrow> (\<exists>e \<in> set (kinds i s). issued ''plan_step_started'' (names_step ''step_id'' k) e)"
  and checkpoint_kinds: "checkpoint_taken_for i k s \<longleftrightarrow> (\<exists>e \<in> set (kinds i s). completed ''plan_checkpoint'' (names_step ''step_id'' k) e)"
  by (simp_all add: step_started_def checkpoint_taken_for_def journal_of_kinds)

definition calls :: "task_id \<Rightarrow> 'x driver \<Rightarrow> nat" where
  "calls i s = length (filter (issued ''model_call'' (\<lambda>_. True)) (kinds i s))"

definition rest_entry :: "plan_step_id \<Rightarrow> journal_kind \<Rightarrow> bool" where
  "rest_entry k e \<longleftrightarrow> idle_entry k e \<and> aside e \<and> \<not> issued ''model_call'' (\<lambda>_. True) e"

lemma rest_adds:
  assumes "adds (rest_entry k) i s t"
  shows "unprocessed_step_action i k t = unprocessed_step_action i k s"
    and "model_turns_for_step i k t = model_turns_for_step i k s"
    and "completed_plan_steps i t = completed_plan_steps i s" and "calls i t = calls i s"
    and "step_started i k s \<Longrightarrow> step_started i k t" and "checkpoint_taken_for i k s \<Longrightarrow> checkpoint_taken_for i k t"
proof -
  show "unprocessed_step_action i k t = unprocessed_step_action i k s"
    by (rule unprocessed_idle, rule adds_mono [OF assms]) (simp add: rest_entry_def)
  show "model_turns_for_step i k t = model_turns_for_step i k s"
    by (rule turns_adds, rule adds_mono [OF assms]) (simp add: rest_entry_def aside_def)
  show "completed_plan_steps i t = completed_plan_steps i s"
    by (rule fin_adds, rule adds_mono [OF assms]) (simp add: rest_entry_def aside_def)
  obtain ks where ks: "kinds i t = kinds i s @ ks" "list_all (rest_entry k) ks" using assms by (auto simp: adds_def)
  then have "filter (issued ''model_call'' (\<lambda>_. True)) ks = []"
    by (simp add: filter_empty_conv list_all_iff rest_entry_def)
  then show "calls i t = calls i s" using ks(1) by (simp add: calls_def)
  show "step_started i k s \<Longrightarrow> step_started i k t" "checkpoint_taken_for i k s \<Longrightarrow> checkpoint_taken_for i k t"
    using ks(1) by (auto simp: step_started_kinds checkpoint_kinds)
qed

lemma rest_simps [simp]:
  "rest_entry k (StateChanged a b)" "rest_entry k (EffectCompleted e st ''user_response'' p)"
  "rest_entry k (EffectCompleted e st ''subtask_completed'' p)"
  by (simp_all add: rest_entry_def aside_def)

lemma begun: "step_started i (ps_id st) s \<Longrightarrow> ps_checkpoint st \<longrightarrow> checkpoint_taken_for i (ps_id st) s \<Longrightarrow> begin_step sv i st s = s"
  by (auto simp: begin_step_def Let_def)

lemma asked_again:
  assumes a: "asked pv sv i p st s"
  shows "\<exists>t. step_implementing_plan n pv sv i role (snd (respond_to_user i txt s)) = Some (Inr FlowReturn, t) \<and>
    asked pv sv i p st t \<and> completed_plan_steps i t = completed_plan_steps i s \<and> calls i t = calls i s"
proof -
  let ?k = "ps_id st"
  let ?u = "log_fresh i ''user_response'' (JObject [(''answer'', JString txt)]) s"
  let ?v = "snd (move_to i Implementing ?u)"
  let ?t = "snd (move_to i WaitingForUser (snd (draw ?v)))"
  note A = a [unfolded asked_def]
  obtain x where x: "get_task i (dv_tasks s) = Inr x" "tk_state x = WaitingForUser" using A by (auto simp: in_state_def)
  have r: "snd (respond_to_user i txt s) = ?v" using x by (simp add: respond_to_user_def get_state_def)
  have e: "can_transition_to WaitingForUser Implementing" "can_transition_to Implementing WaitingForUser" by code_simp+
  have "in_state i WaitingForUser ?u" using A by simp
  from move_to_legal [OF this, of Implementing] e have "in_state i Implementing (snd (draw ?v))" by simp
  from move_to_legal [OF this, of WaitingForUser] e
  have m: "fst (move_to i WaitingForUser (snd (draw ?v))) = Inr ()" "in_state i WaitingForUser ?t" by simp_all
  have v: "adds (rest_entry ?k) i s ?v" by (rule adds_move) (simp_all add: adds_fresh)
  have t: "adds (rest_entry ?k) i s ?t" by (rule adds_move) (use v in simp_all)
  note V = rest_adds [OF v] and T = rest_adds [OF t]
  have calm: "calm i s" using A by (simp add: on_step_def)
  have cv: "calm i ?v" and ct: "calm i ?t" using calm by simp_all
  have wv: "dv_world ?v = dv_world s" "dv_engine ?v = dv_engine s" and wt: "dv_world ?t = dv_world s" "dv_engine ?t = dv_engine s"
    by simp_all
  have on: "on_step pv sv i p st ?v"
    by (rule on_step_keep [of pv sv i p st s]) (use A V(3) cv context_same [OF wv] in simp_all)
  have b: "begin_step sv i st ?v = ?v" using A V(5,6) by (intro begun) blast+
  have "unprocessed_step_action i ?k (snd (draw ?v)) = Some StepAsk"
    using V(1) A by (simp add: unprocessed_kinds)
  moreover have "\<not> max_step_turns \<le> model_turns_for_step i ?k ?v" using V(2) A by simp
  ultimately have "run_plan_step sv i p st role ?v = and_return FlowReturn (move_to i WaitingForUser (snd (draw ?v)))"
    by (simp add: run_plan_step_def b case_prod_beta Let_def act_on_step_def)
  also have "\<dots> = (Inr FlowReturn, ?t)" using m(1) by (cases "move_to i WaitingForUser (snd (draw ?v))") (simp add: and_return_def)
  finally have "step_implementing_plan n pv sv i role (snd (respond_to_user i txt s)) = Some (Inr FlowReturn, ?t)"
    using on_step_round [OF on] r by simp
  moreover have "on_step pv sv i p st ?t"
    by (rule on_step_keep [of pv sv i p st s]) (use A T(3) ct context_same [OF wt] in simp_all)
  then have "asked pv sv i p st ?t" using A T m(2) by (simp add: asked_def)
  ultimately show ?thesis using T(3,4) by blast
qed


end
