(* ===== verification/Plan_Demo.thy ===== *)
theory Plan_Demo
  imports Plan_Resume
begin

text \<open>
  A plan of one step and a task that executes it, at which the properties of plan-driven execution are
  instantiated; and a plan in which two parallel steps name one file in two ways.
\<close>

section \<open>The configuration\<close>

definition pd_step :: plan_step where
  "pd_step = \<lparr>ps_id = PlanStepId ''s1'', ps_intent = ''look'', ps_targets = [], ps_depends = [], ps_parallel = False,
     ps_checkpoint = False, ps_verification = VerifyNone, ps_rollback = False, ps_approval = False,
     ps_scope = \<lparr>es_files = 0, es_risk = RiskLow\<rparr>\<rparr>"

definition pd_plan :: plan where
  "pd_plan = \<lparr>pl_scope = [], pl_steps = [pd_step]\<rparr>"

lemma pd_ids: "plan_ids_ok pd_plan"
  by (simp add: plan_ids_ok_def pd_plan_def pd_step_def step_id_ok_def new_step_id_Inr step_id_char_def)

lemma pd_valid: "plan_valid cx pd_plan"
proof -
  have "topological_waves pd_plan = Some [[PlanStepId ''s1'']]" by code_simp
  then have "\<not> is_cycle (adjacency pd_plan) c" for c by (rule waves_acyclic)
  then show ?thesis by (simp add: plan_valid_def pd_plan_def pd_step_def)
qed

definition pd_services :: "completion \<Rightarrow> (plan_store \<times> unit) services" where
  "pd_services c = \<lparr>sv_env = demo_env, sv_hash = (\<lambda>_. []), sv_redact = id, sv_show_json = (\<lambda>_. []),
     sv_registry = Map.empty, sv_hash_file = (\<lambda>_ _. None), sv_cancelled = (\<lambda>_. False), sv_planning = Passthrough,
     sv_assemble = (\<lambda>_ _. Inr JNull), sv_prompt = (\<lambda>_ _. Inr ([], JNull)), sv_is_bound = (\<lambda>_. False),
     sv_generate = (\<lambda>_ _ _ w. (Inr (c, ''m''), w)),
     sv_scan = (\<lambda>_. []), sv_validate = (\<lambda>r w. ([], w)),
     sv_run_check = (\<lambda>_ _ w. (Inr (demo_result True), w)), sv_log_run = (\<lambda>_ _ w. (Inr (), w)),
     sv_neighbors = (\<lambda>_ _. []), sv_memory = (\<lambda>_ w. w), sv_has_plan = (\<lambda>_ _. Inr False),
     sv_step_planning = (\<lambda>_ _ s. (Inr FlowReturn, s)), sv_step_plan = (\<lambda>_ _ s. (Inr FlowReturn, s))\<rparr>"

lemma pd_services_simps [simp]:
  "sv_cancelled (pd_services c) w = False" "sv_generate (pd_services c) ro ms n w = (Inr (c, ''m''), w)"
  by (simp_all add: pd_services_def)

definition pd_env :: "completion \<Rightarrow> unit plan_env" where
  "pd_env c = \<lparr>pv_roots = [], pv_hash = (\<lambda>_. []), pv_serde = (\<lambda>_. []), pv_generate = (\<lambda>_ _ _ w. (Inr c, w)),
     pv_pick = id\<rparr>"

lemma pd_keeps [simp]: "keeps_plans (pd_env c)"
  by (simp add: keeps_plans_def pd_env_def)

definition pd_created :: "unit planner" where
  "pd_created = \<lparr>dv_tasks = snd (create_task (WorkspaceId 0) ''fix''
     \<lparr>max_steps = None, max_wall_ms = None, max_tokens = None\<rparr> demo_store), dv_engine = new_engine Manual,
     dv_verify = Map.empty,
     dv_world = \<lparr>wd_ledger = new_ledger Map.empty, wd_disk = Map.empty, wd_rest = (empty_plans, ())\<rparr>\<rparr>"

lemma pd_created_ready: "ready (TaskId 0) Idle pd_created" "calm (TaskId 0) pd_created"
  "plans pd_created = empty_plans" "kinds (TaskId 0) pd_created = [TaskCreated]"
  by (simp_all add: ready_def calm_def plans_def pd_created_def create_task_def
      create_with_parent_def Let_def case_prod_beta insert_task_def demo_store_def empty_store_def
      parent_entry_def get_task_def row_of_def frame row_to_task_def kinds_def call_status_snoc draw_ulid_def
      clock_now_def empty_table_def no_entries)

text \<open>The task in state \<open>st\<close>, before anything that a plan's readers look at.\<close>

definition pd_at :: "agent_state \<Rightarrow> unit planner \<Rightarrow> bool" where
  "pd_at st s \<longleftrightarrow> ready (TaskId 0) st s \<and> calm (TaskId 0) s \<and> plans s = empty_plans \<and> list_all plain (kinds (TaskId 0) s)"

lemma pd_move:
  assumes "pd_at st s" and "st \<noteq> Paused" and "can_transition_to st to" and "\<not> is_terminal to" and "to \<noteq> Verifying"
  shows "pd_at to (snd (move_to (TaskId 0) to s))"
proof -
  obtain ks where "kinds (TaskId 0) (snd (move_to (TaskId 0) to s)) = kinds (TaskId 0) s @ ks" "list_all plain ks"
    using plain_move [OF adds_refl, of "TaskId 0" "TaskId 0" to s] assms(5) by (auto simp: adds_def)
  then show ?thesis using move_ready [of "TaskId 0" st s to] assms by (simp add: pd_at_def)
qed

definition pd_planning :: "unit planner" where
  "pd_planning = foldl (\<lambda>s st. snd (move_to (TaskId 0) st s)) pd_created [Understanding, Discovery, Planning]"

lemma pd_planning_at: "pd_at Planning pd_planning"
proof -
  have "pd_at Idle pd_created" using pd_created_ready by (simp add: pd_at_def)
  from pd_move [OF pd_move [OF pd_move [OF this]], of Understanding Discovery Planning]
  show ?thesis by (simp add: pd_planning_def can_transition_to_def)
qed

text \<open>With the plan stored and the task in \<open>Implementing\<close>.\<close>

definition pd_start :: "unit planner" where
  "pd_start = set_plans (save_revision (TaskId 0) (first_revision pd_plan [] 0) empty_plans)
     (snd (move_to (TaskId 0) Implementing pd_planning))"

lemma plain_reads:
  assumes "list_all plain (kinds i s)"
  shows "completed_plan_steps i s = {}" "\<not> step_started i k s" "model_turns_for_step i k s = 0"
    "unprocessed_step_action i k s = None" "\<not> has_accepted_plan i s" "plan_rejection_count i s = 0"
    "unprocessed_plan_submission i s = None" "\<not> checkpoint_taken_for i k s"
proof -
  have p: "e \<in> set (kinds i s) \<Longrightarrow> plain e" for e using assms by (simp add: list_all_iff)
  show "completed_plan_steps i s = {}"
    unfolding completed_steps by (rule fin_none) (use p in \<open>simp add: list_all_iff plain_skips\<close>)
  show "\<not> step_started i k s" "\<not> checkpoint_taken_for i k s" "\<not> has_accepted_plan i s"
    using p plain_skips by (auto simp: step_started_kinds checkpoint_kinds has_accepted_plan_def journal_of_kinds)
  show "model_turns_for_step i k s = 0"
    using p plain_skips by (simp add: model_turns turns_def after_first_None list_all_iff)
  show "unprocessed_step_action i k s = None"
    using p plain_skips by (simp add: unprocessed_kinds after_last_None list_all_iff)
  show "unprocessed_plan_submission i s = None"
    using p plain_skips by (simp add: unprocessed_plan_submission_def journal_of_kinds after_last_None list_all_iff)
  show "plan_rejection_count i s = 0"
    using p plain_skips by (simp add: plan_rejection_count_def journal_of_kinds filter_empty_conv)
qed

lemma pd_start_facts:
  "ready (TaskId 0) Implementing pd_start" "calm (TaskId 0) pd_start" "list_all plain (kinds (TaskId 0) pd_start)"
  "stored_plan pv (TaskId 0) (plans pd_start) = Inr (Some (first_revision pd_plan [] 0))"
proof -
  have "pd_at Implementing (snd (move_to (TaskId 0) Implementing pd_planning))"
    by (rule pd_move [OF pd_planning_at]) (simp_all add: can_transition_to_def)
  then show "ready (TaskId 0) Implementing pd_start" "calm (TaskId 0) pd_start"
    "list_all plain (kinds (TaskId 0) pd_start)" by (simp_all add: pd_at_def pd_start_def set_plans_def)
  have "latest_revision (TaskId 0) (plans pd_start) = Some (Some (first_revision pd_plan [] 0))"
    unfolding pd_start_def plans_frame
    by (rule latest_saved) (simp_all add: first_revision_def pd_ids empty_plans_def)
  then show "stored_plan pv (TaskId 0) (plans pd_start) = Inr (Some (first_revision pd_plan [] 0))"
    by (auto simp: latest_revision_def stored_plan_def split: option.splits)
qed

lemma pd_simps [simp]: "pl_steps pd_plan = [pd_step]" "ps_id pd_step = PlanStepId ''s1''" "ps_checkpoint pd_step = False"
  by (simp_all add: pd_plan_def pd_step_def)

lemma first_plan [simp]: "rv_plan (first_revision p w n) = p"
  by (simp add: first_revision_def)

lemma pd_one_step:
  assumes "calm (TaskId 0) s" and "stored_plan pv (TaskId 0) (plans s) = Inr (Some (first_revision pd_plan [] 0))"
    and "PlanStepId ''s1'' \<notin> completed_plan_steps (TaskId 0) s"
  shows "on_step pv sv (TaskId 0) pd_plan pd_step s"
proof (rule one_step)
  show "stored_plan pv (TaskId 0) (plans s) = Inr (Some (first_revision pd_plan [] 0))" by (fact assms(2))
  show "rv_plan (first_revision pd_plan [] 0) = pd_plan" by (simp add: first_revision_def)
qed (use assms in \<open>simp_all add: pd_valid\<close>)

lemma pd_on_step: "on_step pv sv (TaskId 0) pd_plan pd_step pd_start"
  by (rule pd_one_step) (use pd_start_facts plain_reads [OF pd_start_facts(3)] in simp_all)

section \<open>A request and a round\<close>

lemma pd_request:
  assumes "ready i st' s" and "from_completion c = Inr a"
  obtains t where "request_step_action (pd_services c) i st role s = (Inr (action_of a), t)" and "ready i st' t"
    and "plans t = plans s" and "dv_engine t = dv_engine s" and "calm i t = calm i s"
proof -
  obtain x where x: "get_state i s = Inr x" using assms(1) by (auto simp: ready_def get_state_def)
  let ?s2 = "snd (draw (snd (draw s)))"
  let ?e = "EffectId (fst (draw (snd (draw s))))" and ?sid = "StepId (fst (draw s))"
  let ?t = "log_entry i (EffectCompleted ?e ?sid ''model_completion'' (JObject
      [(''finish_reason'', JString (debug_finish (cm_finish c))), (''phase'', JString ''plan_step''),
       (''plan_step'', JString (step_text (ps_id st))), (''step_action'', action_to_json (action_of a)),
       (''text'', JString (cm_text c))]))
      (log_entry i (EffectIssued ?e ?sid ''model_call'' (JObject [(''phase'', JString ''plan_step''),
        (''plan_step'', JString (step_text (ps_id st))), (''turn_index'', JInt (int (count_model_calls i (dv_tasks s))))])) ?s2)"
  have "request_step_action (pd_services c) i st role s = (Inr (action_of a), ?t)"
    using x assms(2) by (simp add: request_step_action_def case_prod_beta Let_def)
  then show ?thesis by (rule that) (use assms(1) in \<open>simp_all add: calm_log\<close>)
qed

lemma turns_after_start:
  assumes "list_all plain ks" and "issued ''plan_step_started'' (names_step ''step_id'' k) e"
  shows "turns k (ks @ e # later) = length (filter (issued ''model_call'' (names_step ''plan_step'' k)) later)"
proof -
  have "after_first (issued ''plan_step_started'' (names_step ''step_id'' k)) ks = None"
    by (rule after_first_None) (use assms(1) plain_skips in \<open>simp add: list_all_iff\<close>)
  then show ?thesis using assms(2) by (simp add: turns_def after_first_append)
qed

definition pd_call :: "nat \<Rightarrow> journal_kind" where
  "pd_call n = EffectIssued (EffectId 7) (StepId 7) ''model_call'' (JObject [(''phase'', JString ''plan_step''),
     (''plan_step'', JString ''s1''), (''turn_index'', JInt (int n))])"

lemma pd_call_counts: "issued ''model_call'' (names_step ''plan_step'' (PlanStepId ''s1'')) (pd_call n)"
  "issued_tool_call (pd_call n) = None" "completed_step (pd_call n) = None" "\<not> step_completion k (pd_call n)"
  by (simp_all add: pd_call_def names_step_def payload_str_def json_get_def step_completion_def)

text \<open>The step has been started and has had \<open>n\<close> calls.\<close>

definition pd_begun :: "nat \<Rightarrow> unit planner" where
  "pd_begun n = foldl (\<lambda>s m. log_entry (TaskId 0) (pd_call m) s)
     (log_issued (TaskId 0) ''plan_step_started'' (JObject [(''intent'', JString ''look''), (''step_id'', JString ''s1'')]) pd_start)
     [0..<n]"

lemma pd_begun_facts:
  "ready (TaskId 0) Implementing (pd_begun n)" "calm (TaskId 0) (pd_begun n)" "plans (pd_begun n) = plans pd_start"
  "\<exists>e. issued ''plan_step_started'' (names_step ''step_id'' (PlanStepId ''s1'')) e \<and> completed_step e = None \<and>
     kinds (TaskId 0) (pd_begun n) = kinds (TaskId 0) pd_start @ e # map pd_call [0..<n]"
proof -
  have "\<exists>e. issued ''plan_step_started'' (names_step ''step_id'' (PlanStepId ''s1'')) e \<and> completed_step e = None \<and>
     kinds (TaskId 0) (pd_begun 0) = kinds (TaskId 0) pd_start @ [e] \<and> issued_tool_call e = None"
    by (simp add: pd_begun_def log_issued_unfold names_step_def payload_str_def json_get_def)
  moreover have suc: "pd_begun (Suc n) = log_entry (TaskId 0) (pd_call n) (pd_begun n)" for n by (simp add: pd_begun_def)
  ultimately show "\<exists>e. issued ''plan_step_started'' (names_step ''step_id'' (PlanStepId ''s1'')) e \<and> completed_step e = None \<and>
     kinds (TaskId 0) (pd_begun n) = kinds (TaskId 0) pd_start @ e # map pd_call [0..<n]"
    by (induction n) (auto simp: suc)
  show "ready (TaskId 0) Implementing (pd_begun n)" "calm (TaskId 0) (pd_begun n)" "plans (pd_begun n) = plans pd_start"
    by (induction n) (use pd_start_facts(1,2) in \<open>simp_all add: suc pd_begun_def log_issued_unfold calm_log pd_call_counts\<close>)
qed

lemma pd_asked_at:
  assumes "from_completion c = Inr a" and "n \<le> 2"
  obtains t where "request_step_action (pd_services c) (TaskId 0) pd_step None (pd_begun n) = (Inr (action_of a), t)"
    and "ready (TaskId 0) Implementing t" and "on_step pv sv (TaskId 0) pd_plan pd_step t"
    and "model_turns_for_step (TaskId 0) (PlanStepId ''s1'') t = Suc n" and "step_started (TaskId 0) (PlanStepId ''s1'') t"
    and "completed_plan_steps (TaskId 0) t = {}" and "plans t = plans pd_start"
proof -
  let ?i = "TaskId 0" and ?k = "PlanStepId ''s1''"
  obtain t where t: "request_step_action (pd_services c) ?i pd_step None (pd_begun n) = (Inr (action_of a), t)"
    "ready ?i Implementing t" "plans t = plans (pd_begun n)" "calm ?i t = calm ?i (pd_begun n)"
    using pd_request [OF pd_begun_facts(1) assms(1)] by metis
  obtain e where e: "issued ''plan_step_started'' (names_step ''step_id'' ?k) e" "completed_step e = None"
    "kinds ?i (pd_begun n) = kinds ?i pd_start @ e # map pd_call [0..<n]" using pd_begun_facts(4) by blast
  obtain x d where r: "kinds ?i t = kinds ?i (pd_begun n) @ [x, d]"
    "issued ''model_call'' (names_step ''plan_step'' ?k) x" "completed_step x = None" "completed_step d = None" "step_completion ?k d"
    using request_journal [OF t(1)] by auto
  have k: "kinds ?i t = kinds ?i pd_start @ e # (map pd_call [0..<n] @ [x, d])" using r(1) e(3) by simp
  have "\<not> issued ''model_call'' P d" for P using r(5) by (cases d) (simp_all add: step_completion_def)
  then have turns: "model_turns_for_step ?i ?k t = Suc n"
    unfolding model_turns k turns_after_start [OF pd_start_facts(3) e(1)] using r(2) pd_call_counts(1) by simp
  have "fin_steps (e # map pd_call [0..<n] @ [x, d]) = {}"
    by (rule fin_none) (use e(2) r(3,4) pd_call_counts(3) in \<open>simp add: list_all_iff\<close>)
  then have "completed_plan_steps ?i t = {}"
    using plain_reads(1) [OF pd_start_facts(3)] by (simp add: completed_steps k)
  then have "on_step pv sv ?i pd_plan pd_step t"
    by (intro pd_one_step) (use t(3,4) pd_begun_facts(2,3) [of n] pd_start_facts(4) in simp_all)
  moreover have "step_started ?i ?k t" using e(1) by (simp add: step_started_kinds k)
  moreover have "plans t = plans pd_start" using t(3) pd_begun_facts(3) by simp
  ultimately show ?thesis using t(1,2) turns \<open>completed_plan_steps ?i t = {}\<close> by (intro that)
qed

section \<open>The properties at work\<close>

text \<open>The third answer of the step is a tool call; resumed, the step is closed and the call is not made.\<close>

theorem journaled_answer_resumed_witness:
  "\<exists>t u. request_step_action (pd_services run_c) (TaskId 0) pd_step None (pd_begun 2) = (Inr (StepCall ''run'' JNull), t) \<and>
     step_implementing_plan 0 (pd_env run_c) (pd_services run_c) (TaskId 0) None t = Some (Inr FlowContinue, u) \<and>
     PlanStepId ''s1'' \<in> completed_plan_steps (TaskId 0) u"
proof -
  obtain t where t: "request_step_action (pd_services run_c) (TaskId 0) pd_step None (pd_begun 2) = (Inr (StepCall ''run'' JNull), t)"
    "on_step (pd_env run_c) (pd_services run_c) (TaskId 0) pd_plan pd_step t"
    "model_turns_for_step (TaskId 0) (PlanStepId ''s1'') t = 3"
    using pd_asked_at [of run_c "ToolCall ''run'' JNull" 2 "pd_env run_c" "pd_services run_c"] by auto
  let ?b = "begin_step (pd_services run_c) (TaskId 0) pd_step t"
  have "step_implementing_plan 0 (pd_env run_c) (pd_services run_c) (TaskId 0) None t =
      Some (Inr FlowContinue, complete_step (TaskId 0) (PlanStepId ''s1'') ?b)"
    using journaled_answer_resumed [OF t(1) adds_refl t(2), of 0 None] t(3) by (simp add: max_step_turns_def Let_def)
  moreover have "completed_step (EffectCompleted e sid ''plan_step_completed'' (JObject [(''step_id'', JString ''s1'')])) =
      Some (PlanStepId ''s1'')" for e sid
    by (simp add: payload_str_def json_get_def new_step_id_def step_id_char_def)
  then have "PlanStepId ''s1'' \<in> completed_plan_steps (TaskId 0) (complete_step (TaskId 0) (PlanStepId ''s1'') ?b)"
    by (simp add: completed_steps complete_step_def log_fresh_unfold fin_steps_def List.map_filter_def)
  ultimately show ?thesis using t(1) by blast
qed


text \<open>A step whose journaled answer is that it is finished.\<close>

definition pd_env0 :: "unit plan_env" where
  "pd_env0 = pd_env finish_c"

lemma pd_completes:
  "completed_plan_steps (TaskId 0) (complete_step (TaskId 0) (PlanStepId ''s1'') s) =
     insert (PlanStepId ''s1'') (completed_plan_steps (TaskId 0) s)"
  by (simp add: completed_steps complete_step_def log_fresh_unfold fin_steps_def List.map_filter_def payload_str_def
      json_get_def new_step_id_def step_id_char_def)

lemma pd_finishes:
  assumes "n < 2"
  shows "\<exists>s t. step_implementing_plan 0 pd_env0 (pd_services finish_c) (TaskId 0) None s = Some (Inr FlowContinue, t) \<and>
    plans s = plans pd_start \<and> completed_plan_steps (TaskId 0) s = {} \<and>
    completed_plan_steps (TaskId 0) t = {PlanStepId ''s1''} \<and>
    model_turns_for_step (TaskId 0) (PlanStepId ''s1'') s = Suc n"
proof -
  let ?i = "TaskId 0" and ?k = "PlanStepId ''s1''"
  obtain s where s: "request_step_action (pd_services finish_c) ?i pd_step None (pd_begun n) = (Inr StepFinish, s)"
    "on_step pd_env0 (pd_services finish_c) ?i pd_plan pd_step s" "step_started ?i ?k s"
    "model_turns_for_step ?i ?k s = Suc n" "completed_plan_steps ?i s = {}" "plans s = plans pd_start"
    using pd_asked_at [of finish_c "Finish ''ok''" n pd_env0 "pd_services finish_c"] assms by auto
  have "unprocessed_step_action ?i ?k (snd (draw s)) = Some StepFinish"
    using request_replayed [OF s(1)] by (simp add: unprocessed_kinds)
  moreover have "begin_step (pd_services finish_c) ?i pd_step s = s" by (rule begun) (use s(3) in simp_all)
  ultimately have "run_plan_step (pd_services finish_c) ?i pd_plan pd_step None s =
      (Inr FlowContinue, complete_step ?i ?k (snd (draw s)))"
    using s(4) assms by (simp add: run_plan_step_def Let_def case_prod_beta max_step_turns_def act_on_step_def)
  then have "step_implementing_plan 0 pd_env0 (pd_services finish_c) ?i None s =
      Some (Inr FlowContinue, complete_step ?i ?k (snd (draw s)))"
    using on_step_round [OF s(2)] by simp
  moreover have "completed_plan_steps ?i (snd (draw s)) = {}" using s(5) by (simp add: completed_steps)
  ultimately show ?thesis using s(4,5,6) pd_completes [of "snd (draw s)"] by blast
qed

lemma pd_plan_move:
  assumes "step_implementing_plan n pv sv (TaskId 0) role s = Some (x, t)" and "plans s = plans pd_start"
  shows "(plan_move pv sv (TaskId 0) pd_plan)\<^sup>*\<^sup>* s t"
proof (rule r_into_rtranclp, rule pm_round [OF _ _ assms(1)])
  show "stored_plan pv (TaskId 0) (plans s) = Inr (Some (first_revision pd_plan [] 0))"
    unfolding assms(2) by (rule pd_start_facts(4))
qed simp

theorem plan_order_kept_witness:
  "\<exists>s t. (plan_move pd_env0 (pd_services finish_c) (TaskId 0) pd_plan)\<^sup>*\<^sup>* s t \<and> completed_plan_steps (TaskId 0) s = {} \<and>
     completed_plan_steps (TaskId 0) t = {PlanStepId ''s1''} \<and> deps_closed pd_plan (completed_plan_steps (TaskId 0) t)"
proof -
  obtain s t where t: "step_implementing_plan 0 pd_env0 (pd_services finish_c) (TaskId 0) None s = Some (Inr FlowContinue, t)"
    "plans s = plans pd_start" "completed_plan_steps (TaskId 0) s = {}" "completed_plan_steps (TaskId 0) t = {PlanStepId ''s1''}"
    using pd_finishes [of 0] by auto
  note m = pd_plan_move [OF t(1,2)]
  have "deps_closed pd_plan (completed_plan_steps (TaskId 0) s)" by (simp add: t(3) deps_closed_def)
  from plan_order_kept [OF m this] m t(3,4) show ?thesis by blast
qed

theorem step_turns_bounded_witness:
  "\<exists>s t. (plan_move pd_env0 (pd_services finish_c) (TaskId 0) pd_plan)\<^sup>*\<^sup>* s t \<and>
     model_turns_for_step (TaskId 0) (PlanStepId ''s1'') s = 2 \<and> model_turns_for_step (TaskId 0) (PlanStepId ''s1'') t \<le> 3"
proof -
  obtain s t where t: "step_implementing_plan 0 pd_env0 (pd_services finish_c) (TaskId 0) None s = Some (Inr FlowContinue, t)"
    "plans s = plans pd_start" "model_turns_for_step (TaskId 0) (PlanStepId ''s1'') s = 2"
    using pd_finishes [of 1] by auto
  note m = pd_plan_move [OF t(1,2)]
  from step_turns_bounded [OF m, of "PlanStepId ''s1''"] m t(3) show ?thesis by auto
qed

lemma moved_kinds:
  assumes "ready i st s" and "st \<noteq> Paused" and "can_transition_to st to"
  shows "\<exists>ks. kinds i (snd (move_to i to s)) = kinds i s @ StateChanged st to # ks"
proof -
  obtain x where x: "get_task i (dv_tasks s) = Inr x" "tk_state x = st" using assms(1) by (auto simp: ready_def)
  have "transition_check x to = None" using x assms(2,3) by (simp add: transition_check_from)
  let ?m = "mid_transition i x to (dv_tasks s)"
  obtain ks where "journal_kinds i (parent_entry (tk_parent x) ''subtask_completed'' (JObject
      [(''child_task_id'', JString (id_text (dv_tasks s) i)), (''final_state'', JString (show_state to))]) ?m) = journal_kinds i ?m @ ks"
    using journal_kinds_parent_entry [of i "tk_parent x" "''subtask_completed''"] by blast
  moreover have "journal_kinds i ?m = journal_kinds i (dv_tasks s) @ [StateChanged st to]"
    using x(2) by (simp add: mid_transition_def)
  ultimately show ?thesis using x(1) \<open>transition_check x to = None\<close>
    by (simp add: kinds_def snd_move_to transition_unfold)
qed

theorem verifying_after_every_step_witness:
  "\<exists>s x t. step_implementing_plan 0 pd_env0 (pd_services finish_c) (TaskId 0) None s = Some (x, t) \<and>
     in_state (TaskId 0) Verifying t \<and> plan_ids pd_plan \<subseteq> completed_plan_steps (TaskId 0) s"
proof -
  let ?i = "TaskId 0" and ?sv = "pd_services finish_c"
  let ?s = "complete_step ?i (PlanStepId ''s1'') pd_start"
  have f: "ready ?i Implementing ?s" "calm ?i ?s" "plans ?s = plans pd_start"
    using pd_start_facts(1,2) by (simp_all add: complete_step_def)
  have st: "stored_plan pd_env0 ?i (plans ?s) = Inr (Some (first_revision pd_plan [] 0))" using f(3) pd_start_facts(4) by simp
  obtain v where v: "checked_plan pd_env0 ?sv pd_plan ?s = Inr v" using checked_of_valid [OF pd_valid] by blast
  have "next_incomplete (make_schedule v) (completed_plan_steps ?i ?s) = None"
    using next_ready(1,2) [OF v, of "completed_plan_steps ?i ?s"] pd_completes [of pd_start]
    by (cases "next_incomplete (make_schedule v) (completed_plan_steps ?i ?s)") auto
  then have r: "step_implementing_plan 0 pd_env0 ?sv ?i None ?s = Some (and_return FlowContinue (move_to ?i Verifying ?s))"
    using v st calm_none [OF f(2)] by (simp add: step_implementing_plan_def plan_round_def)
  let ?t = "snd (move_to ?i Verifying ?s)"
  obtain x t where x: "and_return FlowContinue (move_to ?i Verifying ?s) = (x, t)" by fastforce
  then have t: "t = ?t" by (metis snd_and_return snd_conv)
  note r = r [unfolded x]
  obtain ks where "kinds ?i ?t = kinds ?i ?s @ StateChanged Implementing Verifying # ks"
    using moved_kinds [OF f(1), of Verifying] by (auto simp: can_transition_to_def)
  moreover have "in_state ?i Verifying ?t"
    using move_ready [OF f(1), of Verifying] by (simp add: can_transition_to_def ready_in)
  moreover have "plan_ids (rv_plan (first_revision pd_plan [] 0)) \<subseteq> completed_plan_steps ?i ?s"
    using verifying_after_every_step [OF st r, of "StateChanged Implementing Verifying # ks" Implementing] calculation(1) t by simp
  ultimately show ?thesis using r t by auto
qed

theorem wave_batches_disjoint_witness:
  "partition_conflict_free [PlanStepId ''a'', PlanStepId ''b'', PlanStepId ''c'']
     \<lparr>pl_scope = [], pl_steps = [tiny_step ''a'' [''x.rs''], tiny_step ''b'' [''x.rs''], tiny_step ''c'' [''y.rs'']]\<rparr> =
     [[PlanStepId ''a'', PlanStepId ''c''], [PlanStepId ''b'']] \<and>
   mset (concat [[PlanStepId ''a'', PlanStepId ''c''], [PlanStepId ''b'']]) =
     mset [PlanStepId ''a'', PlanStepId ''b'', PlanStepId ''c'']"
proof -
  let ?p = "\<lparr>pl_scope = [], pl_steps = [tiny_step ''a'' [''x.rs''], tiny_step ''b'' [''x.rs''], tiny_step ''c'' [''y.rs'']]\<rparr>"
  have "partition_conflict_free [PlanStepId ''a'', PlanStepId ''b'', PlanStepId ''c''] ?p =
     [[PlanStepId ''a'', PlanStepId ''c''], [PlanStepId ''b'']]" by code_simp
  with wave_batches_disjoint [of "[PlanStepId ''a'', PlanStepId ''b'', PlanStepId ''c'']" ?p] show ?thesis by metis
qed

lemma pd_accepts:
  assumes "ready i Planning s"
  shows "fst (accept_plan pv i v s) = Inr FlowContinue"
proof -
  have r: "fst x = Inr () \<Longrightarrow> fst (and_return FlowContinue x) = Inr FlowContinue" for x :: "(agent_error + unit) \<times> 'a planner"
    by (cases x) (simp add: and_return_def)
  have f: "ready i Planning (log_issued i ''plan_accepted'' j (set_plans st (snd (read_clock s))))" for j st
    using assms by (simp add: log_issued_unfold set_plans_def)
  show ?thesis unfolding accept_plan_def Let_def case_prod_beta
    by (rule r) (use move_ready [OF f, of Implementing] in \<open>simp add: can_transition_to_def\<close>)
qed

definition submit_c :: completion where
  "submit_c = \<lparr>cm_text = [], cm_calls = [(''submit_plan'', plan_to_json pd_plan)], cm_finish = FinToolCalls\<rparr>"

theorem accepted_plan_executes_witness:
  "\<exists>t r v. planning_rounds 3 (pd_env submit_c) (pd_services submit_c) (TaskId 0) None pd_planning = Some (Inr FlowContinue, t) \<and>
     stored_plan (pd_env submit_c) (TaskId 0) (plans t) = Inr (Some r) \<and>
     checked_plan (pd_env submit_c) (pd_services submit_c) (rv_plan r) t = Inr v"
proof -
  let ?i = "TaskId 0" and ?sv = "pd_services submit_c" and ?pv = "pd_env submit_c"
  have f: "ready ?i Planning pd_planning" "plans pd_planning = empty_plans" "list_all plain (kinds ?i pd_planning)"
    using pd_planning_at by (simp_all add: pd_at_def)
  note p = plain_reads [OF f(3)]
  obtain x where x: "get_state ?i pd_planning = Inr x" using f(1) by (auto simp: ready_def get_state_def)
  have a: "from_completion submit_c = Inr (ToolCall ''submit_plan'' (plan_to_json pd_plan))"
    by (simp add: from_completion_def submit_c_def)
  obtain t where t: "request_plan_from_model ?pv ?sv ?i None None pd_planning = (Inr (plan_to_json pd_plan), t)"
    "ready ?i Planning t"
    using x a f(1) by (simp add: request_plan_from_model_def pd_env_def case_prod_beta Let_def)
  obtain v where v: "checked_plan ?pv ?sv pd_plan t = Inr v" using checked_of_valid [OF pd_valid] by blast
  have "plan_to_json pd_plan \<noteq> JNull" by (simp add: plan_to_json_def)
  then have j: "judge_submission ?pv ?sv (plan_to_json pd_plan) t = Inr v"
    using v plan_json [OF pd_ids] by (simp add: judge_submission_def submission_to_plan_def)
  have "planning_rounds 3 ?pv ?sv ?i None pd_planning = Some (accept_plan ?pv ?i v t)"
    using p(5,6,7) t(1) j by (simp add: planning_rounds_def max_plan_repair_attempts_def numeral_3_eq_3)
  moreover have "fst (accept_plan ?pv ?i v t) = Inr FlowContinue" using t(2) by (rule pd_accepts)
  ultimately obtain u where u: "planning_rounds 3 ?pv ?sv ?i None pd_planning = Some (Inr FlowContinue, u)"
    by (metis prod.collapse)
  have "\<forall>w \<in> set (st_revisions (plans pd_planning)). rw_task w = ?i \<longrightarrow> rw_number w \<le> 1" by (simp add: f(2) empty_plans_def)
  from accepted_plan_executes [OF u p(5) pd_keeps this] u show ?thesis by blast
qed

section \<open>Two names of one file\<close>

definition alias_plan :: plan where
  "alias_plan = \<lparr>pl_scope = [], pl_steps = [tiny_step ''a'' [''src/a.rs''], tiny_step ''b'' [''src/x/../a.rs'']]\<rparr>"

lemma alias_facts:
  "map ps_id (pl_steps alias_plan) = [PlanStepId ''a'', PlanStepId ''b'']"
  "map ps_targets (pl_steps alias_plan) = [[''src/a.rs''], [''src/x/../a.rs'']]"
  "partition_conflict_free [PlanStepId ''a'', PlanStepId ''b''] alias_plan = [[PlanStepId ''a'', PlanStepId ''b'']]"
  "topological_waves alias_plan = Some [[PlanStepId ''a'', PlanStepId ''b'']]"
  by code_simp+

lemma alias_resolves:
  "resolve calm_os (WorkspaceRoot [''w'']) d (path_of ''src/a.rs'') = Inr [''w'', ''src'', ''a.rs'']"
  "resolve calm_os (WorkspaceRoot [''w'']) d (path_of ''src/x/../a.rs'') = Inr [''w'', ''src'', ''a.rs'']"
proof -
  have "path_of ''src/a.rs'' = [Normal ''src'', Normal ''a.rs'']"
    "path_of ''src/x/../a.rs'' = [Normal ''src'', Normal ''x'', ParentDir, Normal ''a.rs'']" by code_simp+
  then show "resolve calm_os (WorkspaceRoot [''w'']) d (path_of ''src/a.rs'') = Inr [''w'', ''src'', ''a.rs'']"
    "resolve calm_os (WorkspaceRoot [''w'']) d (path_of ''src/x/../a.rs'') = Inr [''w'', ''src'', ''a.rs'']"
    by (simp_all add: resolve_plain is_absolute_def normalize_relative_def)
qed

text \<open>Overlap is decided on the paths as written. A valid plan can hold two parallel steps that declare
  one file under two names: validation accepts both targets and resolves them to the same file, the
  schedule runs the two steps as one wave, and the partition that is meant to serialize overlapping
  targets puts them into one batch, whose children run at the same time.\<close>

theorem aliased_targets_share_batch:
  "\<exists>p v t u f. checked_plan (pd_env finish_c) (pd_services finish_c) p pd_created = Inr v \<and>
     map ps_targets (pl_steps p) = [[t], [u]] \<and>
     resolve calm_os (WorkspaceRoot [''w'']) Map.empty (path_of t) = Inr f \<and>
     resolve calm_os (WorkspaceRoot [''w'']) Map.empty (path_of u) = Inr f \<and>
     peers v (PlanStepId ''a'') {} = map ps_id (pl_steps p) \<and>
     partition_conflict_free (map ps_id (pl_steps p)) p = [map ps_id (pl_steps p)]"
proof -
  let ?cx = "plan_context_of (pd_env finish_c) (pd_services finish_c) pd_created"
  have "pc_resolve ?cx t = (case resolve calm_os (WorkspaceRoot [''w'']) Map.empty (path_of t) of Inl _ \<Rightarrow> None | Inr q \<Rightarrow> Some q)" for t
    by (simp add: plan_context_of_def pd_services_def pd_created_def)
  then have "pc_resolve ?cx ''src/a.rs'' \<noteq> None" "pc_resolve ?cx ''src/x/../a.rs'' \<noteq> None"
    by (simp_all only: alias_resolves) simp_all
  moreover have "\<not> is_cycle (adjacency alias_plan) c" for c using alias_facts(4) by (rule waves_acyclic)
  ultimately have "plan_valid ?cx alias_plan"
    by (simp add: plan_valid_def target_ok_def alias_plan_def tiny_step_def)
  then obtain v where v: "checked_plan (pd_env finish_c) (pd_services finish_c) alias_plan pd_created = Inr v"
    using checked_of_valid by blast
  then have "vp_plan v = alias_plan" "topological_waves alias_plan = Some (vp_waves v)"
    using validated_facts(1,7) [OF checked_iff(1) [THEN iffD1, OF v]] by simp_all
  then have "v = \<lparr>vp_plan = alias_plan, vp_waves = [[PlanStepId ''a'', PlanStepId ''b'']]\<rparr>"
    using alias_facts(4) by (cases v) simp
  moreover have "peers \<lparr>vp_plan = alias_plan, vp_waves = [[PlanStepId ''a'', PlanStepId ''b'']]\<rparr> (PlanStepId ''a'') {} =
      [PlanStepId ''a'', PlanStepId ''b'']" by code_simp
  ultimately show ?thesis using v alias_facts alias_resolves
    by (intro exI [of _ alias_plan] exI [of _ v] exI [of _ "''src/a.rs''"] exI [of _ "''src/x/../a.rs''"] exI) simp
qed

end
