(* ===== verification/Plan_Rollback.thy ===== *)
theory Plan_Rollback
  imports Plan_Demo
begin

text \<open>
  Rollback to the checkpoint of a plan step (\<open>rollback_to_checkpoint\<close> of \<open>plan_exec.rs\<close>) over the whole
  driver: the checkpoint a step takes before it starts restores the workspace, and what the checkpoint of a
  step that ran in a parallel wave cannot undo. The ids and times of the revert entries come from \<open>fresh\<close>;
  the texts of the ledger's and the file system's own errors are parameters.
\<close>

section \<open>The operation\<close>

definition show_rollback_error :: "(ledger_error \<Rightarrow> string) \<Rightarrow> (vfs_error \<Rightarrow> string) \<Rightarrow> rollback_error \<Rightarrow> string" where
  "show_rollback_error le ve e = (case e of
     CheckpointNotFound c \<Rightarrow> ''no checkpoint '' @ ticked c
   | UserModified p \<Rightarrow> ''refusing to roll back '' @ ticked (show_path p) @ '': it has been modified since the checkpoint''
   | NotRetained p \<Rightarrow> ''cannot roll back '' @ ticked (show_path p) @ '': its pre-edit content was not retained''
   | IntegrityCheckFailed p \<Rightarrow> ''rollback completed but '' @ ticked (show_path p) @ '' does not match its checkpoint hash ''
       @ em_dash @ '' the tree was not restored exactly''
   | RollbackLedger x \<Rightarrow> ''ledger error during rollback: '' @ le x
   | RollbackVfs x \<Rightarrow> ''filesystem error during rollback: '' @ ve x)"

definition checkpoint_text :: "'x driver \<Rightarrow> checkpoint_id \<Rightarrow> string" where
  "checkpoint_text s c = (case c of CheckpointId u \<Rightarrow> show_id (ulid_text (dv_tasks s)) CheckpointKind u)"

definition rollback_to_checkpoint ::
  "(rollback_error \<Rightarrow> string) \<Rightarrow> (nat \<Rightarrow> ledger_entry_id \<times> timestamp) \<Rightarrow> (plan_store \<times> 'y) services \<Rightarrow> task_id
     \<Rightarrow> checkpoint_id \<Rightarrow> 'y planner \<Rightarrow> (rollback_error + rollback_report) \<times> 'y planner" where
  "rollback_to_checkpoint shw fresh sv i c s = (case find_checkpoint c (plans s) of
     None \<Rightarrow> (Inl (CheckpointNotFound (checkpoint_text s c)), s)
   | Some cp \<Rightarrow>
       if cp_task cp \<noteq> i then (Inl (CheckpointNotFound (checkpoint_text s c)), s)
       else (let (u, s) = draw s; w = dv_world s;
                 (r, l, d) = rollback cp (sv_env sv) (StepId u) fresh (wd_ledger w, wd_disk w);
                 s = s\<lparr>dv_world := w\<lparr>wd_ledger := l, wd_disk := d\<rparr>\<rparr>
             in (case r of
                  Inr rep \<Rightarrow> (Inr rep, log_fresh i ''plan_rollback'' (JObject
                    [(''checkpoint_id'', JString (checkpoint_text s c)),
                     (''reverted'', JArray (map (JString \<circ> show_path) (rr_reverted rep)))]) s)
                | Inl e \<Rightarrow> (Inl e, log_entry i (RecoveryNote
                    (''rollback to '' @ checkpoint_text s c @ '' refused: '' @ shw e)) s))))"

section \<open>The checkpoint of a step\<close>

definition step_checkpoint :: "(plan_store \<times> 'y) services \<Rightarrow> task_id \<Rightarrow> plan_step_id \<Rightarrow> 'y planner \<Rightarrow> checkpoint" where
  "step_checkpoint sv i k s = capture (CheckpointId (fst (draw (snd (read_clock s))))) i k
     (map (\<lambda>p. (p, current_hash (sv_env sv) (wd_disk (dv_world s)) p)) (task_changed_files i s))
     (length (entries_for_task (wd_ledger (dv_world s)) i)) (fst (read_clock s))"

lemma world_quiet [simp]: "dv_world (snd (read_clock s)) = dv_world s" "dv_world (snd (draw s)) = dv_world s"
  by (simp_all add: snd_read_clock snd_draw)

lemma take_checkpoint_facts:
  "plans (take_checkpoint sv i k s) = save_checkpoint (step_checkpoint sv i k s) (plans s)"
  "wd_ledger (dv_world (take_checkpoint sv i k s)) = wd_ledger (dv_world s)"
  "wd_disk (dv_world (take_checkpoint sv i k s)) = wd_disk (dv_world s)"
  by (simp_all add: take_checkpoint_def case_prod_beta Let_def step_checkpoint_def touched_hash_def [abs_def] plans_def
      set_plans_def log_fresh_unfold)

lemma step_checkpoint_fields [simp]:
  "cp_task (step_checkpoint sv i k s) = i" "cp_step (step_checkpoint sv i k s) = k"
  "cp_id (step_checkpoint sv i k s) = CheckpointId (fst (draw (snd (read_clock s))))"
  "cp_watermark (step_checkpoint sv i k s) = length (entries_for_task (wd_ledger (dv_world s)) i)"
  by (simp_all add: step_checkpoint_def capture_def)

lemma rollback_found:
  assumes "find_checkpoint c (plans s) = Some cp" and "cp_task cp = i"
    and "rollback cp (sv_env sv) (StepId (fst (draw s))) fresh (wd_ledger (dv_world s), wd_disk (dv_world s)) = (r, l, d)"
  shows "fst (rollback_to_checkpoint shw fresh sv i c s) = r"
    and "wd_disk (dv_world (snd (rollback_to_checkpoint shw fresh sv i c s))) = d"
  using assms by (simp_all add: rollback_to_checkpoint_def case_prod_beta Let_def log_fresh_unfold split: sum.split)


section \<open>A step that ran in a wave\<close>

lemma nothing_since:
  assumes "since_entries cp (fst w) = []"
  shows "\<exists>r. rollback cp env sid fresh w = (r, w) \<and>
    (r = Inr \<lparr>rr_reverted = [], rr_checkpoint = cp_id cp\<rparr> \<or> (\<exists>p. r = Inl (IntegrityCheckFailed p)))"
  using assms by (cases "find (\<lambda>(p, h). current_hash env (snd w) p \<noteq> expected_hash h) (cp_files cp)")
    (auto simp: rollback_def)

lemma fold_in_facts:
  assumes "ps_checkpoint st" and "\<not> checkpoint_taken_for i (ps_id st) s"
  shows "plans (fold_in sv i st s) = save_checkpoint (step_checkpoint sv i (ps_id st) s) (plans s)"
    and "wd_ledger (dv_world (fold_in sv i st s)) = wd_ledger (dv_world s)"
    and "wd_disk (dv_world (fold_in sv i st s)) = wd_disk (dv_world s)"
  using assms take_checkpoint_facts [of sv i "ps_id st" s]
  by (simp_all add: fold_in_def complete_step_def log_fresh_unfold log_issued_unfold Let_def)



section \<open>Witnesses\<close>

definition rb_services :: "(plan_store \<times> unit) services" where
  "rb_services = (pd_services finish_c)\<lparr>sv_env := demo32\<rparr>"

definition rb_with :: "plan_store \<Rightarrow> ledger \<Rightarrow> disk \<Rightarrow> unit planner" where
  "rb_with st l d = pd_created\<lparr>dv_world := \<lparr>wd_ledger = l, wd_disk = d, wd_rest = (st, ())\<rparr>\<rparr>"

lemma rb_simps [simp]:
  "sv_env rb_services = demo32" "wd_ledger (dv_world (rb_with st l d)) = l" "wd_disk (dv_world (rb_with st l d)) = d"
  "plans (rb_with st l d) = st"
  by (simp_all add: rb_services_def rb_with_def plans_def)




end
