(* ===== verification/Context_Model.thy ===== *)
theory Context_Model
  imports Ids Text Diagnose
begin

text \<open>
  The data of the context pipeline: the trust lattice and provenance (\<open>crates/valyria-types/src/trust.rs\<close>),
  the sections of a prompt and their budget (\<open>budget.rs\<close>), a retrieval candidate and its compression levels
  (\<open>candidate.rs\<close>) of \<open>crates/valyria-context/src\<close>, and the token counter of \<open>crates/valyria-util\<close>. A relevance
  is a rational: a finite \<open>f64\<close>, and only compared.
\<close>

section \<open>Trust\<close>

datatype trust = TrustPolicy | TrustInstruction | TrustEvidence | TrustRepoData | TrustModelOutput

fun authority_rank :: "trust \<Rightarrow> nat" where
  "authority_rank TrustPolicy = 0"
| "authority_rank TrustInstruction = 1"
| "authority_rank TrustEvidence = 2"
| "authority_rank TrustRepoData = 3"
| "authority_rank TrustModelOutput = 4"

definition may_occupy_system_position :: "trust \<Rightarrow> bool" where
  "may_occupy_system_position t \<longleftrightarrow> authority_rank t \<le> authority_rank TrustInstruction"

definition requires_fencing :: "trust \<Rightarrow> bool" where
  "requires_fencing t \<longleftrightarrow> \<not> may_occupy_system_position t"

instantiation trust :: linorder
begin

definition less_eq_trust :: "trust \<Rightarrow> trust \<Rightarrow> bool" where
  "less_eq_trust a b \<longleftrightarrow> authority_rank a \<le> authority_rank b"

definition less_trust :: "trust \<Rightarrow> trust \<Rightarrow> bool" where
  "less_trust a b \<longleftrightarrow> authority_rank a < authority_rank b"

instance
proof
  show "a = b" if "a \<le> b" and "b \<le> a" for a b :: trust
    using that by (cases a; cases b) (simp_all add: less_eq_trust_def)
qed (auto simp: less_eq_trust_def less_trust_def)

end

fun trust_str :: "trust \<Rightarrow> string" where
  "trust_str TrustPolicy = ''Policy''"
| "trust_str TrustInstruction = ''Instruction''"
| "trust_str TrustEvidence = ''Evidence''"
| "trust_str TrustRepoData = ''RepoData''"
| "trust_str TrustModelOutput = ''ModelOutput''"

datatype provenance_source =
    FromFile string
  | FromToolOutput tool_invocation_id
  | FromGit string
  | FromInstruction string
  | FromMemory nat
  | FromModelTurn

record provenance =
  pr_source :: provenance_source
  pr_path :: "string list"
  pr_score :: "rat option"

definition new_provenance :: "provenance_source \<Rightarrow> provenance" where
  "new_provenance src = \<lparr>pr_source = src, pr_path = [], pr_score = None\<rparr>"

definition with_step :: "string \<Rightarrow> provenance \<Rightarrow> provenance" where
  "with_step t p = p\<lparr>pr_path := pr_path p @ [t]\<rparr>"

definition with_score :: "rat \<Rightarrow> provenance \<Rightarrow> provenance" where
  "with_score q p = p\<lparr>pr_score := Some q\<rparr>"

section \<open>Sections and budgets\<close>

datatype section_kind =
    SecPolicy | SecInstructions | SecMemory | SecTask | SecRepository | SecEvidence | SecHistory

definition all_sections :: "section_kind list" where
  "all_sections = [SecPolicy, SecInstructions, SecMemory, SecTask, SecRepository, SecEvidence, SecHistory]"

fun section_str :: "section_kind \<Rightarrow> string" where
  "section_str SecPolicy = ''policy''"
| "section_str SecInstructions = ''instructions''"
| "section_str SecMemory = ''memory''"
| "section_str SecTask = ''task''"
| "section_str SecRepository = ''repository''"
| "section_str SecEvidence = ''evidence''"
| "section_str SecHistory = ''history''"

text \<open>The derived order is that of the declaration.\<close>

fun section_index :: "section_kind \<Rightarrow> nat" where
  "section_index SecPolicy = 0"
| "section_index SecInstructions = 1"
| "section_index SecMemory = 2"
| "section_index SecTask = 3"
| "section_index SecRepository = 4"
| "section_index SecEvidence = 5"
| "section_index SecHistory = 6"

instantiation section_kind :: linorder
begin

definition less_eq_section_kind :: "section_kind \<Rightarrow> section_kind \<Rightarrow> bool" where
  "less_eq_section_kind a b \<longleftrightarrow> section_index a \<le> section_index b"

definition less_section_kind :: "section_kind \<Rightarrow> section_kind \<Rightarrow> bool" where
  "less_section_kind a b \<longleftrightarrow> section_index a < section_index b"

instance
proof
  show "a = b" if "a \<le> b" and "b \<le> a" for a b :: section_kind
    using that by (cases a; cases b) (simp_all add: less_eq_section_kind_def)
qed (auto simp: less_eq_section_kind_def less_section_kind_def)

end

record section_spec =
  ss_kind :: section_kind
  ss_min :: nat
  ss_ideal :: nat
  ss_max :: nat
  ss_priority :: u8

record context_budget =
  cb_total :: nat
  cb_reserve :: nat
  cb_sections :: "section_spec list"

section \<open>Candidates\<close>

datatype compression = Full | Outline | Signature | Reference

fun next_level :: "compression \<Rightarrow> compression option" where
  "next_level Full = Some Outline"
| "next_level Outline = Some Signature"
| "next_level Signature = Some Reference"
| "next_level Reference = None"

fun level_rank :: "compression \<Rightarrow> nat" where
  "level_rank Full = 3"
| "level_rank Outline = 2"
| "level_rank Signature = 1"
| "level_rank Reference = 0"

function ladder :: "compression \<Rightarrow> compression list" where
  "ladder l = l # (case next_level l of None \<Rightarrow> [] | Some m \<Rightarrow> ladder m)"
  by pat_completeness auto

termination ladder
  by (relation "measure level_rank") (auto elim: next_level.elims)

declare ladder.simps [simp del]

record symbol_span =
  sy_path :: string
  sy_kind :: string
  sy_signature :: string
  sy_doc :: "string option"
  sy_start :: nat
  sy_end :: nat
  sy_body :: string
  sy_relevance :: rat

datatype candidate_content =
    TextContent string
  | SourceContent string "string option" "symbol_span list"

record candidate =
  ca_trust :: trust
  ca_provenance :: provenance
  ca_section :: section_kind
  ca_relevance :: rat
  ca_content :: candidate_content

definition clamp01 :: "rat \<Rightarrow> rat" where
  "clamp01 q = (if q < 0 then 0 else if 1 < q then 1 else q)"

definition new_candidate ::
  "trust \<Rightarrow> provenance \<Rightarrow> section_kind \<Rightarrow> rat \<Rightarrow> candidate_content \<Rightarrow> candidate" where
  "new_candidate t p k q c =
     \<lparr>ca_trust = t, ca_provenance = p, ca_section = k, ca_relevance = clamp01 q, ca_content = c\<rparr>"

text \<open>The label of a block; the rendering of a bare ULID is the argument \<open>ulid\<close>.\<close>

fun source_label :: "(nat \<Rightarrow> string) \<Rightarrow> provenance_source \<Rightarrow> string" where
  "source_label ulid (FromFile p) = ''file: '' @ p"
| "source_label ulid (FromToolOutput v) =
     ''tool output: '' @ show_id ulid ToolInvocationKind (case v of ToolInvocationId n \<Rightarrow> n)"
| "source_label ulid (FromGit c) = ''git: '' @ c"
| "source_label ulid (FromInstruction p) = ''instruction: '' @ p"
| "source_label ulid (FromMemory n) = ''memory: '' @ show_id ulid MemoryKind n"
| "source_label ulid FromModelTurn = ''prior model turn''"

definition ca_label :: "(nat \<Rightarrow> string) \<Rightarrow> candidate \<Rightarrow> string" where
  "ca_label ulid c = source_label ulid (pr_source (ca_provenance c))"

section \<open>Errors\<close>

datatype context_error =
    BudgetExceeded string nat nat
  | ReadFailed string string
  | BudgetInfeasible nat nat
  | PolicyDoesNotFit nat nat
  | UnbudgetedSection section_kind
  | Retrieval string

fun context_error_code :: "context_error \<Rightarrow> string" where
  "context_error_code (BudgetExceeded _ _ _) = ''context.budget_exceeded''"
| "context_error_code (ReadFailed _ _) = ''context.read_failed''"
| "context_error_code (BudgetInfeasible _ _) = ''context.budget_infeasible''"
| "context_error_code (PolicyDoesNotFit _ _) = ''context.policy_does_not_fit''"
| "context_error_code (UnbudgetedSection _) = ''context.unbudgeted_section''"
| "context_error_code (Retrieval _) = ''context.retrieval_failed''"

section \<open>Counting tokens\<close>

text \<open>\<open>text.chars().count()\<close>: the bytes that begin a character.\<close>

definition char_count :: "string \<Rightarrow> nat" where
  "char_count s = length (filter (\<lambda>c. \<not> continuation c) s)"

definition heuristic_count :: "string \<Rightarrow> nat" where
  "heuristic_count s = max ((char_count s + 3) div 4) (if s = [] then 0 else 1)"

text \<open>
  What the pipeline relies on of a counter: the empty text is free, and a text costs no more than its parts.
\<close>

locale token_counter =
  fixes count :: "string \<Rightarrow> nat"
  assumes count_Nil: "count [] = 0"
    and count_append: "count (a @ b) \<le> count a + count b"
begin

lemma count_concat: "count (concat xs) \<le> (\<Sum>x \<leftarrow> xs. count x)"
proof (induction xs)
  case (Cons x xs)
  then show ?case using count_append [of x "concat xs"] by simp
qed (simp add: count_Nil)

lemma count_concat_map: "count (concat (map f xs)) \<le> (\<Sum>x \<leftarrow> xs. count (f x))"
  using count_concat [of "map f xs"] by (simp add: comp_def)

lemma count_append3: "count (a @ b @ c) \<le> count a + count b + count c"
  using count_append [of a "b @ c"] count_append [of b c] by linarith

end

lemma char_count_append [simp]: "char_count (a @ b) = char_count a + char_count b"
  by (simp add: char_count_def)

lemma char_count_Nil [simp]: "char_count [] = 0"
  by (simp add: char_count_def)

lemma char_count_Cons: "char_count (c # s) = (if continuation c then 0 else 1) + char_count s"
  by (simp add: char_count_def)

interpretation hc: token_counter heuristic_count
proof
  fix a b :: string
  show "heuristic_count (a @ b) \<le> heuristic_count a + heuristic_count b"
    by (cases "a = []"; cases "b = []") (auto simp: heuristic_count_def max_def)
qed (simp add: heuristic_count_def)

end
