(* ===== verification/Context_Budget.thy ===== *)
theory Context_Budget
  imports Context_Model
begin

text \<open>
  The budget allocator (\<open>crates/valyria-context/src/budget.rs\<close>): a token cap per section from the budget and
  what each section would use. Both maps are keyed by section; the caps handed out never exceed what is
  available, and tokens go to the sections in the order of their priority.
\<close>

section \<open>Budgets\<close>

definition new_budget :: "nat \<Rightarrow> context_budget" where
  "new_budget tokens = (let
       reserve = min (max (tokens div 8) 256) tokens;
       body = max (tokens - reserve) 1;
       pct = (\<lambda>n. max (body * n div 100) 1);
       spec = (\<lambda>k lo i m p. \<lparr>ss_kind = k, ss_min = lo, ss_ideal = pct i, ss_max = pct m, ss_priority = p\<rparr>)
     in \<lparr>cb_total = tokens, cb_reserve = reserve, cb_sections =
          [spec SecPolicy 1 6 12 250, spec SecTask 1 6 15 240, spec SecInstructions 0 15 30 200,
           spec SecMemory 0 10 20 150, spec SecEvidence 0 25 55 120, spec SecRepository 0 35 70 100,
           spec SecHistory 0 8 20 60]\<rparr>)"

definition available :: "context_budget \<Rightarrow> nat" where
  "available b = cb_total b - cb_reserve b"

definition spec_of :: "context_budget \<Rightarrow> section_kind \<Rightarrow> section_spec option" where
  "spec_of b k = find (\<lambda>s. ss_kind s = k) (cb_sections b)"

definition with_section :: "section_spec \<Rightarrow> context_budget \<Rightarrow> context_budget" where
  "with_section sp b = b\<lparr>cb_sections := filter (\<lambda>s. ss_kind s \<noteq> ss_kind sp) (cb_sections b) @ [sp]\<rparr>"

section \<open>Allocation\<close>

type_synonym section_map = "section_kind \<rightharpoonup> nat"

record allocation =
  al_available :: nat
  al_caps :: section_map

definition wants :: "section_map \<Rightarrow> section_kind \<Rightarrow> nat" where
  "wants d k = (case d k of None \<Rightarrow> 0 | Some n \<Rightarrow> n)"

definition cap :: "allocation \<Rightarrow> section_kind \<Rightarrow> nat" where
  "cap a k = wants (al_caps a) k"

definition total_allocated :: "allocation \<Rightarrow> nat" where
  "total_allocated a = (\<Sum>k \<leftarrow> all_sections. cap a k)"

text \<open>Phase 1: the floor of a section is its minimum, or what it wants where that is less.\<close>

definition floor_of :: "section_map \<Rightarrow> section_spec \<Rightarrow> nat" where
  "floor_of d s = min (ss_min s) (wants d (ss_kind s))"

fun floors :: "section_map \<Rightarrow> section_spec list \<Rightarrow> section_map \<times> nat \<Rightarrow> section_map \<times> nat" where
  "floors d [] r = r"
| "floors d (s # ss) (m, used) =
     floors d ss (m(ss_kind s \<mapsto> floor_of d s), sat_add used (floor_of d s))"

text \<open>Phases 2 and 3: top up toward a target, the richest priority first, while tokens remain.\<close>

definition priority_order :: "section_spec list \<Rightarrow> section_spec list" where
  "priority_order ss = sort_key (\<lambda>s. (- uint (ss_priority s), ss_kind s)) ss"

fun top_up ::
  "(section_spec \<Rightarrow> nat) \<Rightarrow> section_map \<Rightarrow> section_spec list \<Rightarrow> section_map \<times> nat \<Rightarrow> section_map \<times> nat" where
  "top_up target d [] r = r"
| "top_up target d (s # ss) (m, remaining) =
     (if remaining = 0 then (m, remaining)
      else let want = min (target s) (wants d (ss_kind s)); current = wants m (ss_kind s);
               grant = min (want - current) remaining
           in if current < want then top_up target d ss (m(ss_kind s \<mapsto> current + grant), remaining - grant)
              else top_up target d ss (m, remaining))"

definition allocate :: "context_budget \<Rightarrow> section_map \<Rightarrow> context_error + allocation" where
  "allocate b d =
     (case find (\<lambda>k. d k \<noteq> None \<and> spec_of b k = None) all_sections of
        Some k \<Rightarrow> Inl (UnbudgetedSection k)
      | None \<Rightarrow> (let (m, needed) = floors d (cb_sections b) (Map.empty, 0) in
          if available b < needed then Inl (BudgetInfeasible needed (available b))
          else let order = priority_order (cb_sections b);
                   ideal = top_up ss_ideal d order (m, available b - needed);
                   full = top_up ss_max d order ideal
               in Inr \<lparr>al_available = available b, al_caps = fst full\<rparr>))"

section \<open>Totals of a map\<close>

definition map_total :: "section_map \<Rightarrow> nat" where
  "map_total m = (\<Sum>k \<leftarrow> all_sections. wants m k)"

lemma in_all_sections [simp]: "k \<in> set all_sections"
  by (cases k) (simp_all add: all_sections_def)

lemma distinct_all_sections [simp]: "distinct all_sections"
  by (simp add: all_sections_def)

lemma wants_upd [simp]: "wants (m(k \<mapsto> n)) j = (if j = k then n else wants m j)"
  by (simp add: wants_def)

lemma wants_empty [simp]: "wants Map.empty k = 0"
  by (simp add: wants_def)

lemma sum_upd:
  assumes "distinct ks" and "k \<in> set ks"
  shows "(\<Sum>j \<leftarrow> ks. wants (m(k \<mapsto> n)) j) + wants m k = (\<Sum>j \<leftarrow> ks. wants m j) + n"
  using assms
proof (induction ks)
  case (Cons x ks)
  have "k \<notin> set ks \<Longrightarrow> (\<Sum>j \<leftarrow> ks. wants (m(k \<mapsto> n)) j) = (\<Sum>j \<leftarrow> ks. wants m j)"
    by (intro arg_cong [where f = sum_list] map_cong) auto
  with Cons show ?case by (auto simp del: fun_upd_apply)
qed simp

lemma map_total_upd: "map_total (m(k \<mapsto> n)) + wants m k = map_total m + n"
  by (simp add: map_total_def sum_upd del: wants_upd)

lemma map_total_empty [simp]: "map_total Map.empty = 0"
  by (simp add: map_total_def)

lemma wants_le_total: "wants m k \<le> map_total m"
  by (simp add: map_total_def member_le_sum_list)

section \<open>What a round of top-ups does\<close>

lemma top_up_other: "k \<notin> ss_kind ` set ss \<Longrightarrow> fst (top_up target d ss r) k = fst r k"
  by (induction target d ss r rule: top_up.induct) (auto simp: Let_def)

lemma wants_other:
  assumes "k \<notin> ss_kind ` set ss"
  shows "wants (fst (top_up target d ss r)) k = wants (fst r) k"
  using top_up_other [OF assms] by (simp add: wants_def)

lemma top_up_total:
  "map_total (fst (top_up target d ss r)) + snd (top_up target d ss r) = map_total (fst r) + snd r"
proof (induction target d ss r rule: top_up.induct)
  case (2 target d s ss m remaining)
  have "map_total (m(ss_kind s \<mapsto> wants m (ss_kind s) + g)) = map_total m + g" for g
    using map_total_upd [of m "ss_kind s" "wants m (ss_kind s) + g"] by simp
  with 2 show ?case by (auto simp: Let_def simp del: fun_upd_apply)
qed simp

definition goal :: "(section_spec \<Rightarrow> nat) \<Rightarrow> section_map \<Rightarrow> section_spec \<Rightarrow> nat" where
  "goal target d s = min (target s) (wants d (ss_kind s))"

lemma top_up_zero [simp]: "snd r = 0 \<Longrightarrow> top_up target d ss r = r"
  by (cases r; cases ss) simp_all

lemma top_up_append: "top_up target d (us @ vs) r = top_up target d vs (top_up target d us r)"
  by (induction target d us r rule: top_up.induct) (simp_all add: Let_def)

lemma top_up_one:
  "wants (fst (top_up target d [s] r)) (ss_kind s) =
     wants (fst r) (ss_kind s) + min (goal target d s - wants (fst r) (ss_kind s)) (snd r) \<and>
   snd (top_up target d [s] r) = snd r - min (goal target d s - wants (fst r) (ss_kind s)) (snd r)"
  by (cases r) (auto simp: Let_def goal_def simp del: fun_upd_apply)

lemma top_up_split:
  assumes "distinct (map ss_kind (us @ s # vs))"
  obtains m n where "wants (fst (top_up target d (us @ s # vs) r)) (ss_kind s) =
      wants (fst r) (ss_kind s) + min (goal target d s - wants (fst r) (ss_kind s)) n"
    and "top_up target d (us @ s # vs) r =
      top_up target d vs (m, n - min (goal target d s - wants (fst r) (ss_kind s)) n)"
    and "\<And>k. k \<notin> ss_kind ` set us \<Longrightarrow> k \<noteq> ss_kind s \<Longrightarrow> wants m k = wants (fst r) k"
proof -
  let ?u = "top_up target d us r"
  let ?o = "top_up target d [s] ?u"
  have all: "top_up target d (us @ s # vs) r = top_up target d vs ?o"
    using top_up_append [of target d us "s # vs" r] top_up_append [of target d "[s]" vs ?u] by simp
  have u: "wants (fst ?u) (ss_kind s) = wants (fst r) (ss_kind s)" using assms by (intro wants_other) auto
  have v: "wants (fst (top_up target d vs ?o)) (ss_kind s) = wants (fst ?o) (ss_kind s)"
    using assms by (intro wants_other) auto
  have k: "wants (fst ?o) k = wants (fst r) k" if "k \<notin> ss_kind ` set us" "k \<noteq> ss_kind s" for k
    using wants_other [of k "[s]" target d ?u] wants_other [OF that(1), of target d r] that(2) by simp
  show ?thesis
  proof (rule that)
    show "wants (fst (top_up target d (us @ s # vs) r)) (ss_kind s) =
      wants (fst r) (ss_kind s) + min (goal target d s - wants (fst r) (ss_kind s)) (snd ?u)"
      using all u v top_up_one [of target d s ?u] by simp
    show "top_up target d (us @ s # vs) r =
      top_up target d vs (fst ?o, snd ?u - min (goal target d s - wants (fst r) (ss_kind s)) (snd ?u))"
      using all u top_up_one [of target d s ?u] by (metis prod.collapse)
  qed (rule k)
qed

text \<open>Tokens left: everyone reached the target. Short of it: no token left, and nothing for those behind.\<close>

lemma top_up_cases:
  assumes "distinct (map ss_kind ss)" and "s \<in> set ss"
  shows "wants (fst r) (ss_kind s) \<le> wants (fst (top_up target d ss r)) (ss_kind s)"
    and "wants (fst (top_up target d ss r)) (ss_kind s) \<le> max (wants (fst r) (ss_kind s)) (goal target d s)"
    and "wants (fst (top_up target d ss r)) (ss_kind s) < goal target d s \<Longrightarrow> snd (top_up target d ss r) = 0"
proof -
  obtain us vs where ss: "ss = us @ s # vs" using assms(2) split_list by metis
  from top_up_split [OF assms(1) [unfolded ss], of target d r] obtain m n where
    w: "wants (fst (top_up target d ss r)) (ss_kind s) =
      wants (fst r) (ss_kind s) + min (goal target d s - wants (fst r) (ss_kind s)) n"
    and t: "top_up target d ss r =
      top_up target d vs (m, n - min (goal target d s - wants (fst r) (ss_kind s)) n)"
    unfolding ss by metis
  show "wants (fst r) (ss_kind s) \<le> wants (fst (top_up target d ss r)) (ss_kind s)"
    and "wants (fst (top_up target d ss r)) (ss_kind s) \<le> max (wants (fst r) (ss_kind s)) (goal target d s)"
    using w by auto
  assume "wants (fst (top_up target d ss r)) (ss_kind s) < goal target d s"
  then have "n - min (goal target d s - wants (fst r) (ss_kind s)) n = 0" using w by linarith
  with t show "snd (top_up target d ss r) = 0" by simp
qed

lemma top_up_behind:
  assumes "distinct (map ss_kind (us @ s # vs))"
    and "wants (fst (top_up target d (us @ s # vs) r)) (ss_kind s) < goal target d s" and "t \<in> set vs"
  shows "wants (fst (top_up target d (us @ s # vs) r)) (ss_kind t) = wants (fst r) (ss_kind t)"
proof -
  from top_up_split [OF assms(1), of target d r] obtain m n where
    w: "wants (fst (top_up target d (us @ s # vs) r)) (ss_kind s) =
      wants (fst r) (ss_kind s) + min (goal target d s - wants (fst r) (ss_kind s)) n"
    and t: "top_up target d (us @ s # vs) r =
      top_up target d vs (m, n - min (goal target d s - wants (fst r) (ss_kind s)) n)"
    and k: "\<And>k. k \<notin> ss_kind ` set us \<Longrightarrow> k \<noteq> ss_kind s \<Longrightarrow> wants m k = wants (fst r) k"
    by metis
  have "n - min (goal target d s - wants (fst r) (ss_kind s)) n = 0" using w assms(2) by linarith
  moreover have "wants m (ss_kind t) = wants (fst r) (ss_kind t)" using assms(1,3) by (intro k) (auto, metis imageI)
  ultimately show ?thesis using t by simp
qed

section \<open>Floors and the whole allocation\<close>

definition total_floors :: "section_map \<Rightarrow> section_spec list \<Rightarrow> nat" where
  "total_floors d ss = (\<Sum>s \<leftarrow> ss. floor_of d s)"

lemma floors_other: "k \<notin> ss_kind ` set ss \<Longrightarrow> fst (floors d ss r) k = fst r k"
  by (induction d ss r rule: floors.induct) auto

lemma floors_wants:
  assumes "distinct (map ss_kind ss)" and "s \<in> set ss"
  shows "wants (fst (floors d ss r)) (ss_kind s) = floor_of d s"
  using assms
proof (induction d ss r rule: floors.induct)
  case (2 d t ss m used)
  have "s = t \<Longrightarrow> ss_kind s \<notin> ss_kind ` set ss" using "2.prems"(1) by simp
  with 2 show ?case by (cases "s = t") (auto simp: floors_other wants_def)
qed simp

lemma floors_used:
  "snd r < 2 ^ 64 \<Longrightarrow> snd (floors d ss r) = min (snd r + total_floors d ss) (2 ^ 64 - 1)"
  by (induction d ss r rule: floors.induct) (auto simp: total_floors_def sat_add_def)

lemma floors_total:
  assumes "distinct (map ss_kind ss)" and "\<forall>s \<in> set ss. wants (fst r) (ss_kind s) = 0"
  shows "map_total (fst (floors d ss r)) = map_total (fst r) + total_floors d ss"
  using assms
proof (induction d ss r rule: floors.induct)
  case (2 d s ss m used)
  have "map_total (m(ss_kind s \<mapsto> floor_of d s)) = map_total m + floor_of d s"
    using map_total_upd [of m "ss_kind s" "floor_of d s"] "2.prems"(2) by simp
  moreover have "\<forall>t \<in> set ss. wants (m(ss_kind s \<mapsto> floor_of d s)) (ss_kind t) = 0"
  proof
    fix t assume t: "t \<in> set ss"
    then have "ss_kind t \<noteq> ss_kind s" using "2.prems"(1) by (auto, metis imageI)
    with t "2.prems"(2) show "wants (m(ss_kind s \<mapsto> floor_of d s)) (ss_kind t) = 0" by simp
  qed
  ultimately show ?case using 2 by (simp add: total_floors_def del: fun_upd_apply)
qed (simp add: total_floors_def)

lemma floor_le_total: "s \<in> set ss \<Longrightarrow> floor_of d s \<le> total_floors d ss"
  unfolding total_floors_def by (intro member_le_sum_list) simp_all

lemma set_priority_order [simp]: "set (priority_order ss) = set ss"
  by (simp add: priority_order_def)

lemma distinct_priority_order: "distinct (map ss_kind ss) \<Longrightarrow> distinct (map ss_kind (priority_order ss))"
  unfolding priority_order_def distinct_map by (auto simp: inj_on_def)

text \<open>The parts of a successful allocation.\<close>

lemma allocate_InrD:
  assumes "allocate b d = Inr a"
  defines "order \<equiv> priority_order (cb_sections b)"
    and "f \<equiv> fst (floors d (cb_sections b) (Map.empty, 0))"
    and "n \<equiv> available b - snd (floors d (cb_sections b) (Map.empty, 0))"
  shows "al_available a = available b"
    and "al_caps a = fst (top_up ss_max d order (top_up ss_ideal d order (f, n)))"
    and "snd (floors d (cb_sections b) (Map.empty, 0)) \<le> available b"
    and "\<forall>k. d k \<noteq> None \<longrightarrow> spec_of b k \<noteq> None"
proof -
  have none: "find (\<lambda>k. d k \<noteq> None \<and> spec_of b k = None) all_sections = None"
    using assms(1) by (cases "find (\<lambda>k. d k \<noteq> None \<and> spec_of b k = None) all_sections") (simp_all add: allocate_def)
  then show "\<forall>k. d k \<noteq> None \<longrightarrow> spec_of b k \<noteq> None" unfolding find_None_iff by (metis in_all_sections)
  show "al_available a = available b"
    and "al_caps a = fst (top_up ss_max d order (top_up ss_ideal d order (f, n)))"
    and "snd (floors d (cb_sections b) (Map.empty, 0)) \<le> available b"
    using assms(1) none unfolding order_def f_def n_def
    by (auto simp: allocate_def Let_def split: prod.splits if_splits)
qed

definition budget_ok :: "context_budget \<Rightarrow> bool" where
  "budget_ok b \<longleftrightarrow> distinct (map ss_kind (cb_sections b)) \<and> cb_total b < 2 ^ 64 - 1"

lemma new_budget_ok: "n < 2 ^ 64 - 1 \<Longrightarrow> budget_ok (new_budget n)"
  by (simp add: budget_ok_def new_budget_def Let_def)

lemma floors_needed: "snd (floors d ss (Map.empty, 0)) = min (total_floors d ss) (2 ^ 64 - 1)"
  by (simp add: floors_used)

lemma floors_fit:
  assumes "budget_ok b" and "snd (floors d (cb_sections b) (Map.empty, 0)) \<le> available b"
  shows "snd (floors d (cb_sections b) (Map.empty, 0)) = total_floors d (cb_sections b)"
  using assms by (auto simp: budget_ok_def floors_needed available_def min_def split: if_splits)

text \<open>C38: An allocation never hands out more than the tokens available.\<close>

theorem allocation_within_available:
  assumes "budget_ok b" and "allocate b d = Inr a"
  shows "total_allocated a \<le> available b \<and>
    (\<forall>s \<in> set (cb_sections b). floor_of d s \<le> cap a (ss_kind s) \<and> cap a (ss_kind s) \<le> wants d (ss_kind s) \<and>
       cap a (ss_kind s) \<le> max (ss_min s) (max (ss_ideal s) (ss_max s))) \<and>
    (\<forall>k. k \<notin> ss_kind ` set (cb_sections b) \<longrightarrow> cap a k = 0 \<and> d k = None) \<and>
    (total_allocated a < available b \<longrightarrow> (\<forall>s \<in> set (cb_sections b).
       cap a (ss_kind s) = max (floor_of d s) (max (goal ss_ideal d s) (goal ss_max d s))))"
proof -
  let ?ss = "cb_sections b"
  let ?o = "priority_order ?ss"
  let ?f = "floors d ?ss (Map.empty, 0)"
  let ?i = "top_up ss_ideal d ?o (fst ?f, available b - snd ?f)"
  let ?m = "top_up ss_max d ?o ?i"
  have dist: "distinct (map ss_kind ?ss)" using assms(1) by (simp add: budget_ok_def)
  note parts = allocate_InrD [OF assms(2)]
  have fit: "snd ?f = total_floors d ?ss" using floors_fit [OF assms(1) parts(3)] .
  have caps: "cap a k = wants (fst ?m) k" for k by (simp add: cap_def parts(2))
  have tot: "total_allocated a = map_total (fst ?m)"
    by (simp add: total_allocated_def map_total_def caps)
  have "map_total (fst ?f) = snd ?f" using floors_total [of ?ss "(Map.empty, 0)" d] dist fit by simp
  then have sum: "map_total (fst ?m) + snd ?m = available b"
    using top_up_total [of ss_max d ?o ?i] top_up_total [of ss_ideal d ?o "(fst ?f, available b - snd ?f)"] parts(3)
    by simp
  have per: "floor_of d s \<le> cap a (ss_kind s)"
    "cap a (ss_kind s) \<le> max (floor_of d s) (max (goal ss_ideal d s) (goal ss_max d s))"
    "total_allocated a < available b \<Longrightarrow>
       max (floor_of d s) (max (goal ss_ideal d s) (goal ss_max d s)) \<le> cap a (ss_kind s)"
    if s: "s \<in> set ?ss" for s
  proof -
    have o: "distinct (map ss_kind ?o)" "s \<in> set ?o" using distinct_priority_order [OF dist] s by simp_all
    have f: "wants (fst ?f) (ss_kind s) = floor_of d s" using floors_wants [OF dist s] .
    note i = top_up_cases [OF o, where r = "(fst ?f, available b - snd ?f)" and target = ss_ideal and d = d,
        unfolded fst_conv f]
    note m = top_up_cases [OF o, where r = ?i and target = ss_max and d = d]
    show "floor_of d s \<le> cap a (ss_kind s)" using i(1) m(1) caps by simp
    show "cap a (ss_kind s) \<le> max (floor_of d s) (max (goal ss_ideal d s) (goal ss_max d s))"
      using i(2) m(2) caps by (auto simp: max_def split: if_splits)
    assume "total_allocated a < available b"
    then have nz: "snd ?m \<noteq> 0" using sum tot by simp
    then have "snd ?i \<noteq> 0" by (metis top_up_zero)
    then have "goal ss_ideal d s \<le> wants (fst ?i) (ss_kind s)" using i(3) by (meson not_less)
    moreover have "goal ss_max d s \<le> wants (fst ?m) (ss_kind s)" using m(3) nz by (meson not_less)
    ultimately show "max (floor_of d s) (max (goal ss_ideal d s) (goal ss_max d s)) \<le> cap a (ss_kind s)"
      using i(1) m(1) caps by simp
  qed
  have out: "cap a k = 0 \<and> d k = None" if k: "k \<notin> ss_kind ` set ?ss" for k
  proof
    show "cap a k = 0" using k by (simp add: caps wants_other) (simp add: wants_def floors_other)
    have "spec_of b k = None" using k by (auto simp: spec_of_def find_None_iff)
    then show "d k = None" using parts(4) by metis
  qed
  have bounds: "cap a (ss_kind s) \<le> wants d (ss_kind s) \<and>
      cap a (ss_kind s) \<le> max (ss_min s) (max (ss_ideal s) (ss_max s))" if s: "s \<in> set ?ss" for s
  proof -
    have "max (floor_of d s) (max (goal ss_ideal d s) (goal ss_max d s)) \<le> wants d (ss_kind s)"
      "max (floor_of d s) (max (goal ss_ideal d s) (goal ss_max d s)) \<le> max (ss_min s) (max (ss_ideal s) (ss_max s))"
      by (auto simp: floor_of_def goal_def max_def min_def)
    then show ?thesis using per(2) [OF s] le_trans by blast
  qed
  have "total_allocated a \<le> available b" using sum tot by linarith
  then show ?thesis using per bounds out by (meson le_antisym)
qed


text \<open>The refusals are exactly these.\<close>

lemma allocate_unbudgeted:
  "allocate b d = Inl (UnbudgetedSection k) \<Longrightarrow> d k \<noteq> None \<and> spec_of b k = None"
  by (auto simp: allocate_def Let_def find_Some_iff split: option.splits prod.splits if_splits)

theorem allocation_infeasible_exact:
  assumes "budget_ok b" and "\<forall>k. d k \<noteq> None \<longrightarrow> spec_of b k \<noteq> None"
  shows "(\<exists>n. allocate b d = Inl (BudgetInfeasible n (available b))) \<longleftrightarrow> available b < total_floors d (cb_sections b)"
proof -
  have none: "find (\<lambda>k. d k \<noteq> None \<and> spec_of b k = None) all_sections = None"
    unfolding find_None_iff using assms(2) by metis
  obtain m n where f: "floors d (cb_sections b) (Map.empty, 0) = (m, n)" by fastforce
  have n: "n = min (total_floors d (cb_sections b)) (2 ^ 64 - 1)" using floors_needed [of d "cb_sections b"] f by simp
  have av: "available b < 2 ^ 64 - 1" using assms(1) unfolding budget_ok_def available_def by linarith
  have eq: "allocate b d = (if available b < n then Inl (BudgetInfeasible n (available b))
      else Inr \<lparr>al_available = available b, al_caps = fst (top_up ss_max d (priority_order (cb_sections b))
        (top_up ss_ideal d (priority_order (cb_sections b)) (m, available b - n)))\<rparr>)"
    by (simp only: allocate_def none f Let_def option.case prod.case)
  have "(\<exists>k. allocate b d = Inl (BudgetInfeasible k (available b))) \<longleftrightarrow> available b < n"
    unfolding eq by simp
  also have "\<dots> \<longleftrightarrow> available b < total_floors d (cb_sections b)" unfolding n using av by linarith
  finally show ?thesis .
qed

section \<open>An example\<close>

definition small_budget :: context_budget where
  "small_budget = \<lparr>cb_total = 120, cb_reserve = 20, cb_sections =
     [\<lparr>ss_kind = SecRepository, ss_min = 10, ss_ideal = 50, ss_max = 90, ss_priority = 100\<rparr>,
      \<lparr>ss_kind = SecEvidence, ss_min = 20, ss_ideal = 60, ss_max = 80, ss_priority = 120\<rparr>]\<rparr>"

definition small_demand :: section_map where
  "small_demand = [SecEvidence \<mapsto> 100, SecRepository \<mapsto> 100]"

lemma small_priority: "priority_order (cb_sections small_budget) =
    [] @ \<lparr>ss_kind = SecEvidence, ss_min = 20, ss_ideal = 60, ss_max = 80, ss_priority = 120\<rparr> #
     [\<lparr>ss_kind = SecRepository, ss_min = 10, ss_ideal = 50, ss_max = 90, ss_priority = 100\<rparr>]"
  by (simp add: priority_order_def small_budget_def)

lemma small_allocation: "\<exists>a. allocate small_budget small_demand = Inr a \<and> cap a SecEvidence = 60 \<and> cap a SecRepository = 40"
proof -
  have "find (\<lambda>k. small_demand k \<noteq> None \<and> spec_of small_budget k = None) all_sections = None"
    by (simp add: find_None_iff small_demand_def spec_of_def small_budget_def)
  then show ?thesis
    using small_priority
    by (simp add: allocate_def Let_def cap_def wants_def small_demand_def small_budget_def floor_of_def sat_add_def available_def)
qed

lemma small_budget_ok: "budget_ok small_budget"
  by (simp add: budget_ok_def small_budget_def)

theorem allocation_within_available_witness:
  "\<exists>a. allocate small_budget small_demand = Inr a \<and> total_allocated a \<le> 100"
proof -
  obtain a where "allocate small_budget small_demand = Inr a" using small_allocation by blast
  with allocation_within_available [OF small_budget_ok this] show ?thesis
    by (simp add: available_def small_budget_def)
qed


end
