(* ===== verification/Context_Compress.thy ===== *)
theory Context_Compress
  imports Context_Budget
begin

text \<open>
  Rendering a candidate at a compression level (\<open>crates/valyria-context/src/compress.rs\<close>): text loses whole
  trailing lines, source whole symbols, the least relevant first. The counter is an argument \<open>tok\<close>.
\<close>

section \<open>Trimming\<close>

text \<open>\<open>str::trim_end\<close>: the Unicode whitespace at the end is cut off, character by character.\<close>

definition trim_ws_end :: "string \<Rightarrow> string" where
  "trim_ws_end s = concat (rev (dropWhile (\<lambda>g. ws_len g = length g) (rev (chars_of s))))"

definition ensure_trailing_newline :: "string \<Rightarrow> string" where
  "ensure_trailing_newline s = (if s \<noteq> [] \<and> last s = newline then s else s @ [newline])"

section \<open>Rendering\<close>

record rendered =
  rd_text :: string
  rd_tokens :: nat
  rd_level :: compression
  rd_dropped :: nat
  rd_truncated :: bool

definition reference_note :: string where
  "reference_note = ''[reference only '' @ em_dash @ '' omitted to fit the context budget]''"

definition truncation_marker :: string where
  "truncation_marker = newline # ''['' @ ellipsis @ '' truncated to fit the context budget]''"

text \<open>The loop over the number of lines kept, from one less than all of them down to one.\<close>

fun keep_lines :: "(string \<Rightarrow> nat) \<Rightarrow> nat \<Rightarrow> string list \<Rightarrow> nat \<Rightarrow> nat option" where
  "keep_lines tok target ls 0 = None"
| "keep_lines tok target ls (Suc k) =
     (if tok (concat (take (Suc k) ls)) + tok truncation_marker \<le> target then Some (Suc k)
      else keep_lines tok target ls k)"

definition render_text :: "(string \<Rightarrow> nat) \<Rightarrow> string \<Rightarrow> compression \<Rightarrow> nat \<Rightarrow> rendered" where
  "render_text tok txt level target =
     (if level = Reference then
        \<lparr>rd_text = reference_note, rd_tokens = tok reference_note, rd_level = level, rd_dropped = 0, rd_truncated = True\<rparr>
      else if tok txt \<le> target then
        \<lparr>rd_text = txt, rd_tokens = tok txt, rd_level = level, rd_dropped = 0, rd_truncated = False\<rparr>
      else let ls = split_inclusive newline txt in
        (case keep_lines tok target ls (length ls - 1) of
           Some k \<Rightarrow> \<lparr>rd_text = concat (take k ls) @ truncation_marker,
              rd_tokens = tok (concat (take k ls)) + tok truncation_marker, rd_level = level,
              rd_dropped = length ls - k, rd_truncated = True\<rparr>
         | None \<Rightarrow> (let t = (case ls of [] \<Rightarrow> [] | l # _ \<Rightarrow> l) @ truncation_marker in
             \<lparr>rd_text = t, rd_tokens = tok t, rd_level = level, rd_dropped = length ls - 1, rd_truncated = True\<rparr>)))"

text \<open>Symbols, the most relevant first.\<close>

definition rank_symbols :: "symbol_span list \<Rightarrow> symbol_span list" where
  "rank_symbols ss = sort_key (\<lambda>s. (- sy_relevance s, sy_start s)) ss"

definition header_line :: "string \<Rightarrow> string option \<Rightarrow> string" where
  "header_line path header = ''// '' @ path @ [newline] @
     (case header of None \<Rightarrow> [] | Some h \<Rightarrow> trim_ws_end h @ [newline])"

fun render_symbol :: "compression \<Rightarrow> symbol_span \<Rightarrow> string" where
  "render_symbol Full s =
     (case sy_doc s of None \<Rightarrow> [] | Some d \<Rightarrow> trim_ws_end d @ [newline]) @ ensure_trailing_newline (sy_body s)"
| "render_symbol Outline s =
     (case sy_doc s of None \<Rightarrow> []
      | Some d \<Rightarrow> (case text_lines d of [] \<Rightarrow> [] | l # _ \<Rightarrow> ''// '' @ l @ [newline]))
     @ trim_ws_end (sy_signature s) @ [newline]"
| "render_symbol Signature s = trim_ws_end (sy_signature s) @ [newline]"
| "render_symbol Reference s = []"

text \<open>The loop over the symbols: the text so far, the tokens used and the number kept.\<close>

fun keep_symbols ::
  "(string \<Rightarrow> nat) \<Rightarrow> nat \<Rightarrow> string list \<Rightarrow> string \<Rightarrow> nat \<Rightarrow> nat \<Rightarrow> string \<times> nat" where
  "keep_symbols tok target [] body used kept = (body, kept)"
| "keep_symbols tok target (p # ps) body used kept =
     (if 0 < kept \<and> target < used + tok p then (body, kept)
      else if target \<le> used + tok p then (body @ p, kept + 1)
      else keep_symbols tok target ps (body @ p) (used + tok p) (kept + 1))"

definition omission_note :: "nat \<Rightarrow> string" where
  "omission_note n = ''// (+'' @ show_nat n @ '' more symbol(s) omitted to fit the context budget)'' @ [newline]"

definition source_reference :: "string \<Rightarrow> symbol_span list \<Rightarrow> string" where
  "source_reference path ss = path @ '': '' @
     (if ss = [] then ''no indexed symbols'' else join '', '' (map sy_path ss)) @
     '' (bodies omitted to fit the context budget)''"

definition render_source ::
  "(string \<Rightarrow> nat) \<Rightarrow> string \<Rightarrow> string option \<Rightarrow> symbol_span list \<Rightarrow> compression \<Rightarrow> nat \<Rightarrow> rendered" where
  "render_source tok path header symbols level target =
     (if level = Reference then
        \<lparr>rd_text = source_reference path symbols, rd_tokens = tok (source_reference path symbols),
         rd_level = level, rd_dropped = 0, rd_truncated = True\<rparr>
      else let ordered = rank_symbols symbols; hl = header_line path header;
               (body, kept) = keep_symbols tok target (map (render_symbol level) ordered) [] (tok hl) 0;
               dropped = length ordered - kept;
               txt = hl @ body @ (if 0 < dropped then omission_note dropped else [])
        in \<lparr>rd_text = txt, rd_tokens = tok txt, rd_level = level, rd_dropped = dropped, rd_truncated = 0 < dropped\<rparr>)"

definition render :: "(string \<Rightarrow> nat) \<Rightarrow> candidate \<Rightarrow> compression \<Rightarrow> nat \<Rightarrow> rendered" where
  "render tok c level target = (case ca_content c of
     TextContent t \<Rightarrow> render_text tok t level target
   | SourceContent path header symbols \<Rightarrow> render_source tok path header symbols level target)"

section \<open>Whole lines\<close>

lemma concat_split_inclusive [simp]: "concat (split_inclusive c s) = s"
  by (induction c s rule: split_inclusive.induct) (auto split: list.splits)

lemma split_inclusive_nonempty: "l \<in> set (split_inclusive c s) \<Longrightarrow> l \<noteq> []"
  by (induction c s rule: split_inclusive.induct) (auto split: list.splits if_splits)

lemma split_inclusive_last:
  "l \<in> set (butlast (split_inclusive c s)) \<Longrightarrow> last l = c"
proof (induction c s arbitrary: l rule: split_inclusive.induct)
  case (2 c x xs)
  have "y \<noteq> []" if "split_inclusive c xs = y # ys" for y ys
    using split_inclusive_nonempty [of y c xs] that by simp
  with 2 show ?case by (auto split: list.splits if_splits)
qed simp

lemma keep_lines_Some:
  "keep_lines tok target ls n = Some k \<Longrightarrow> 0 < k \<and> k \<le> n \<and>
     tok (concat (take k ls)) + tok truncation_marker \<le> target \<and>
     (\<forall>j. k < j \<and> j \<le> n \<longrightarrow> target < tok (concat (take j ls)) + tok truncation_marker)"
  by (induction n) (auto split: if_splits simp: le_Suc_eq)

lemma keep_lines_None:
  "keep_lines tok target ls n = None \<Longrightarrow> 0 < j \<Longrightarrow> j \<le> n \<Longrightarrow>
     target < tok (concat (take j ls)) + tok truncation_marker"
  by (induction n) (auto split: if_splits simp: le_Suc_eq)

lemma render_text_cases:
  assumes "level \<noteq> Reference"
  obtains (whole) "render_text tok txt level target =
      \<lparr>rd_text = txt, rd_tokens = tok txt, rd_level = level, rd_dropped = 0, rd_truncated = False\<rparr>"
      "tok txt \<le> target"
  | (cut) k where "k \<le> length (split_inclusive newline txt)" "target < tok txt"
      "rd_text (render_text tok txt level target) = concat (take k (split_inclusive newline txt)) @ truncation_marker"
      "rd_dropped (render_text tok txt level target) = length (split_inclusive newline txt) - k"
      "rd_truncated (render_text tok txt level target)"
      "txt \<noteq> [] \<Longrightarrow> 0 < k"
      "rd_tokens (render_text tok txt level target) =
         tok (concat (take k (split_inclusive newline txt))) + tok truncation_marker \<or>
       rd_tokens (render_text tok txt level target) = tok (rd_text (render_text tok txt level target))"
      "\<forall>j. k < j \<and> j < length (split_inclusive newline txt) \<longrightarrow>
         target < tok (concat (take j (split_inclusive newline txt))) + tok truncation_marker"
proof (cases "tok txt \<le> target")
  case True
  then show thesis using assms by (intro whole) (simp_all add: render_text_def)
next
  case False
  let ?ls = "split_inclusive newline txt"
  show thesis
  proof (cases "keep_lines tok target ?ls (length ?ls - 1)")
    case None
    have one: "(case ?ls of [] \<Rightarrow> [] | l # _ \<Rightarrow> l) = concat (take 1 ?ls)" by (cases ?ls) simp_all
    have ne: "?ls = [] \<Longrightarrow> txt = []" by (metis concat.simps(1) concat_split_inclusive)
    show thesis
    proof (rule cut [of "min 1 (length ?ls)"])
      show "\<forall>j. min 1 (length ?ls) < j \<and> j < length ?ls \<longrightarrow>
         target < tok (concat (take j ?ls)) + tok truncation_marker"
        using keep_lines_None [OF None] by auto
    qed (use assms False None one ne in \<open>auto simp: render_text_def Let_def min_def not_le\<close>)
  next
    case (Some k)
    from keep_lines_Some [OF this] Some assms False show thesis
      by (intro cut [of k]) (auto simp: render_text_def Let_def)
  qed
qed

section \<open>Whole symbols\<close>

lemma keep_symbols_take:
  "\<exists>n. keep_symbols tok target ps body used kept = (body @ concat (take n ps), kept + n) \<and> n \<le> length ps \<and>
     (ps \<noteq> [] \<and> kept = 0 \<longrightarrow> 0 < n)"
proof (induction tok target ps body used kept rule: keep_symbols.induct)
  case (2 tok target p ps body used kept)
  show ?case
  proof (cases "0 < kept \<and> target < used + tok p")
    case False
    show ?thesis
    proof (cases "target \<le> used + tok p")
      case True
      with False show ?thesis by (intro exI [of _ 1]) auto
    next
      case more: False
      with 2 False obtain n where "keep_symbols tok target ps (body @ p) (used + tok p) (kept + 1) =
          ((body @ p) @ concat (take n ps), kept + 1 + n)" "n \<le> length ps" by blast
      with False more show ?thesis by (intro exI [of _ "Suc n"]) auto
    qed
  qed auto
qed simp

lemma render_source_cases:
  assumes "level \<noteq> Reference"
  obtains n where "n \<le> length symbols" and "symbols \<noteq> [] \<Longrightarrow> 0 < n"
    and "rd_text (render_source tok path header symbols level target) =
      header_line path header @ concat (map (render_symbol level) (take n (rank_symbols symbols))) @
      (if n < length symbols then omission_note (length symbols - n) else [])"
    and "rd_dropped (render_source tok path header symbols level target) = length symbols - n"
    and "rd_truncated (render_source tok path header symbols level target) = (n < length symbols)"
proof -
  obtain n where n: "keep_symbols tok target (map (render_symbol level) (rank_symbols symbols)) []
      (tok (header_line path header)) 0 = (concat (take n (map (render_symbol level) (rank_symbols symbols))), n)"
      "n \<le> length symbols" "symbols \<noteq> [] \<Longrightarrow> 0 < n"
    using keep_symbols_take [of tok target "map (render_symbol level) (rank_symbols symbols)" "[]"
        "tok (header_line path header)" 0]
    by (auto simp: rank_symbols_def) (metis length_0_conv length_sort)
  show thesis
    by (rule that [of n]) (use n assms in \<open>auto simp: render_source_def Let_def rank_symbols_def take_map\<close>)
qed

end
