(* ===== verification/Context_Inject.thy ===== *)
theory Context_Inject
  imports Context_Compress
begin

text \<open>
  The injection detector (\<open>crates/valyria-context/src/inject.rs\<close>): the signals a body of untrusted text
  raises, at most one of each kind. The four regular expressions (what \<open>Regex::find\<close> returns) and
  \<open>char::is_alphanumeric\<close> are the fields of \<open>patterns\<close>.
\<close>

section \<open>Characters\<close>

text \<open>The code point of a character given as its bytes.\<close>

definition code_point :: "string \<Rightarrow> nat" where
  "code_point g = (case map byte_val g of
     [a] \<Rightarrow> a
   | [a, b] \<Rightarrow> (a - 192) * 64 + (b - 128)
   | [a, b, c] \<Rightarrow> ((a - 224) * 64 + (b - 128)) * 64 + (c - 128)
   | [a, b, c, d] \<Rightarrow> (((a - 240) * 64 + (b - 128)) * 64 + (c - 128)) * 64 + (d - 128)
   | _ \<Rightarrow> 0)"

definition zero_width :: "nat list" where
  "zero_width = [0x200B, 0x200C, 0x200D, 0x2060, 0xFEFF, 0x00AD]"

definition bidi_controls :: "nat list" where
  "bidi_controls = [0x202A, 0x202B, 0x202C, 0x202D, 0x202E, 0x2066, 0x2067, 0x2068, 0x2069]"

definition is_control :: "nat \<Rightarrow> bool" where
  "is_control p \<longleftrightarrow> p < 32 \<or> 127 \<le> p \<and> p < 160"

definition hex_upper_digit :: "nat \<Rightarrow> char" where
  "hex_upper_digit d = (if d < 10 then digit_char d else char_of (55 + d))"

fun hex_upper :: "nat \<Rightarrow> string" where
  "hex_upper n = (if n < 16 then [hex_upper_digit n] else hex_upper (n div 16) @ [hex_upper_digit (n mod 16)])"

declare hex_upper.simps [simp del]

text \<open>\<open>format!("U+{:04X}", c as u32)\<close>\<close>

definition show_code_point :: "nat \<Rightarrow> string" where
  "show_code_point p = (let h = hex_upper p in ''U+'' @ replicate (4 - length h) CHR ''0'' @ h)"

text \<open>Splitting a list of characters at those that satisfy a predicate, empty parts kept.\<close>

fun split_chars :: "(string \<Rightarrow> bool) \<Rightarrow> string list \<Rightarrow> string list list" where
  "split_chars P [] = [[]]"
| "split_chars P (g # gs) =
     (case split_chars P gs of
        [] \<Rightarrow> []
      | w # ws \<Rightarrow> if P g then [] # w # ws else (g # w) # ws)"

definition is_ws_char :: "string \<Rightarrow> bool" where
  "is_ws_char g \<longleftrightarrow> ws_len g = length g"

definition split_whitespace :: "string list \<Rightarrow> string list" where
  "split_whitespace gs = map concat (filter (\<lambda>w. w \<noteq> []) (split_chars is_ws_char gs))"

section \<open>Signals\<close>

datatype injection_kind =
    InstructionOverride | RoleMarker | FakeSystemTag | FenceBreakout
  | HiddenText | BidiControl | Homoglyph | EncodedBlob

fun injection_str :: "injection_kind \<Rightarrow> string" where
  "injection_str InstructionOverride = ''instruction-override''"
| "injection_str RoleMarker = ''role-marker''"
| "injection_str FakeSystemTag = ''fake-system-tag''"
| "injection_str FenceBreakout = ''fence-breakout''"
| "injection_str HiddenText = ''hidden-text''"
| "injection_str BidiControl = ''bidi-control''"
| "injection_str Homoglyph = ''homoglyph''"
| "injection_str EncodedBlob = ''encoded-blob''"

record injection_signal =
  is_kind :: injection_kind
  is_evidence :: string

record patterns =
  pt_override :: "string \<Rightarrow> string option"
  pt_role :: "string \<Rightarrow> string option"
  pt_tag :: "string \<Rightarrow> string option"
  pt_blob :: "string \<Rightarrow> string option"
  pt_alnum :: "string \<Rightarrow> bool"

definition clean_char :: "string \<Rightarrow> string" where
  "clean_char g = (let p = code_point g in
     if is_control p \<or> p \<in> set zero_width \<or> p \<in> set bidi_controls then '' '' else g)"

definition make_signal :: "injection_kind \<Rightarrow> string \<Rightarrow> injection_signal" where
  "make_signal k ev = (let
       cleaned = join '' '' (split_whitespace (map clean_char (chars_of ev)))
     in \<lparr>is_kind = k, is_evidence =
          (if 80 < length (chars_of cleaned) then take_chars 77 cleaned @ ellipsis else cleaned)\<rparr>)"

definition is_latin :: "string \<Rightarrow> bool" where
  "is_latin g \<longleftrightarrow> (let p = code_point g in 65 \<le> p \<and> p \<le> 90 \<or> 97 \<le> p \<and> p \<le> 122)"

definition is_confusable :: "string \<Rightarrow> bool" where
  "is_confusable g \<longleftrightarrow> (let p = code_point g in 0x0400 \<le> p \<and> p \<le> 0x04FF \<or> 0x0370 \<le> p \<and> p \<le> 0x03FF)"

definition mixed_script_word :: "patterns \<Rightarrow> string \<Rightarrow> string option" where
  "mixed_script_word pt body = map_option concat
     (find (\<lambda>w. 3 \<le> length w \<and> list_ex is_latin w \<and> list_ex is_confusable w)
        (split_chars (\<lambda>g. \<not> pt_alnum pt g) (chars_of body)))"

definition valyria_data :: string where
  "valyria_data = ''<<valyria-data''"

definition raise_if :: "injection_kind \<Rightarrow> string option \<Rightarrow> injection_signal list" where
  "raise_if k ev = (case ev of None \<Rightarrow> [] | Some e \<Rightarrow> [make_signal k e])"

definition fence_evidence :: "string \<Rightarrow> string \<Rightarrow> string option" where
  "fence_evidence fence body =
     (if fence \<noteq> [] \<and> contains_str fence body then Some fence
      else if contains_str valyria_data body then Some valyria_data
      else None)"

definition find_code_point :: "nat list \<Rightarrow> string \<Rightarrow> string option" where
  "find_code_point ps body =
     map_option (\<lambda>g. show_code_point (code_point g)) (find (\<lambda>g. code_point g \<in> set ps) (chars_of body))"

definition scan :: "patterns \<Rightarrow> string \<Rightarrow> string \<Rightarrow> injection_signal list" where
  "scan pt body fence =
     raise_if InstructionOverride (pt_override pt body) @
     raise_if RoleMarker (pt_role pt body) @
     raise_if FakeSystemTag (pt_tag pt body) @
     raise_if FenceBreakout (fence_evidence fence body) @
     raise_if HiddenText (find_code_point zero_width body) @
     raise_if BidiControl (find_code_point bidi_controls body) @
     raise_if Homoglyph (mixed_script_word pt body) @
     raise_if EncodedBlob (pt_blob pt body)"

section \<open>At most one signal of a kind\<close>

lemma map_kind_raise_if [simp]: "map is_kind (raise_if k ev) = (if ev = None then [] else [k])"
  by (simp add: raise_if_def make_signal_def Let_def split: option.split)

lemma scan_kinds_distinct: "distinct (map is_kind (scan pt body fence))"
  by (simp add: scan_def)

lemma scan_flags_fence:
  "FenceBreakout \<in> is_kind ` set (scan pt body fence) \<longleftrightarrow>
     fence \<noteq> [] \<and> contains_str fence body \<or> contains_str valyria_data body"
proof -
  have "is_kind ` set (scan pt body fence) = set (map is_kind (scan pt body fence))" by simp
  also have "FenceBreakout \<in> \<dots> \<longleftrightarrow> fence_evidence fence body \<noteq> None" by (simp add: scan_def)
  finally show ?thesis by (simp add: fence_evidence_def)
qed

text \<open>The kinds of a scan, joined by commas, take at most 118 characters.\<close>

definition kinds_text :: "injection_signal list \<Rightarrow> string" where
  "kinds_text ss = join '', '' (map (\<lambda>s. injection_str (is_kind s)) ss)"

lemma char_count_join:
  "char_count (join sep xs) = (\<Sum>x \<leftarrow> xs. char_count x) + (length xs - 1) * char_count sep"
proof (induction sep xs rule: join.induct)
  case (3 sep x y ys)
  then show ?case by (simp add: algebra_simps)
qed simp_all

lemma sum_plus_two: "(\<Sum>x \<leftarrow> xs. Suc (Suc (f x))) = (\<Sum>x \<leftarrow> xs. f x) + (length xs + length xs)"
  by (induction xs) simp_all

lemma kinds_text_bound: "char_count (kinds_text (scan pt body fence)) \<le> 118"
proof -
  have m: "map (\<lambda>s. injection_str (is_kind s)) ss = map injection_str (map is_kind ss)" for ss by simp
  have "char_count (kinds_text (scan pt body fence)) \<le>
      (\<Sum>k \<leftarrow> map is_kind (scan pt body fence). char_count (injection_str k) + 2) - 2"
    unfolding kinds_text_def m char_count_join
    by (cases "scan pt body fence")
      (simp_all add: sum_plus_two comp_def char_count_Cons continuation_def byte_val_def)
  also have "(\<Sum>k \<leftarrow> map is_kind (scan pt body fence). char_count (injection_str k) + 2) \<le> 120"
    by (simp add: scan_def char_count_Cons continuation_def byte_val_def)
  finally show ?thesis by simp
qed

end
