(* ===== verification/Context_Assemble.thy ===== *)
theory Context_Assemble
  imports Context_Snapshot
begin

text \<open>
  Assembly of a prompt (\<open>crates/valyria-context/src/assemble.rs\<close>): candidates are grouped by section and
  ranked, a nonce is drawn, the budget is divided by demand, and each candidate is placed at the highest
  fidelity that fits or dropped. The random source is a sequence of 64-bit draws, the identifier of the
  snapshot and the rendering of ULIDs are arguments.
\<close>

section \<open>Requests\<close>

record assembly_request =
  ar_intent :: string
  ar_budget :: context_budget
  ar_candidates :: "candidate list"

record dropped_item =
  di_label :: string
  di_section :: section_kind
  di_reason :: string

record assembled_prompt =
  ap_messages :: "message list"
  ap_snapshot :: context_snapshot
  ap_allocation :: allocation
  ap_total :: nat
  ap_dropped :: "dropped_item list"

record prompt_assembler =
  pa_policy :: string
  pa_count :: "string \<Rightarrow> nat"
  pa_rng :: "nat \<Rightarrow> u64"
  pa_patterns :: patterns
  pa_ulid :: "nat \<Rightarrow> string"

definition within_budget :: "assembled_prompt \<Rightarrow> bool" where
  "within_budget p \<longleftrightarrow> ap_total p \<le> al_available (ap_allocation p)"

definition unlimited :: nat where
  "unlimited = (2 ^ 64 - 1) div 4"

definition header_slack :: nat where
  "header_slack = 24"

definition warn_slack :: nat where
  "warn_slack = 40"

section \<open>Grouping\<close>

definition push_candidate ::
  "candidate \<Rightarrow> (section_kind \<rightharpoonup> candidate list) \<Rightarrow> section_kind \<rightharpoonup> candidate list" where
  "push_candidate c m = m(ca_section c \<mapsto> (case m (ca_section c) of None \<Rightarrow> [] | Some l \<Rightarrow> l) @ [c])"

definition rank_candidates :: "prompt_assembler \<Rightarrow> candidate list \<Rightarrow> candidate list" where
  "rank_candidates a cs = sort_key (\<lambda>c. (- ca_relevance c, ca_label (pa_ulid a) c)) cs"

definition by_section :: "prompt_assembler \<Rightarrow> candidate list \<Rightarrow> section_kind \<rightharpoonup> candidate list" where
  "by_section a cs = (let m = fold push_candidate cs Map.empty in (\<lambda>k. map_option (rank_candidates a) (m k)))"

section \<open>The nonce\<close>

fun candidate_bodies :: "candidate_content \<Rightarrow> string list" where
  "candidate_bodies (TextContent t) = [t]"
| "candidate_bodies (SourceContent _ header symbols) =
     map sy_body symbols @ (case header of None \<Rightarrow> [] | Some h \<Rightarrow> [h])"

definition hex_lower :: "nat \<Rightarrow> char" where
  "hex_lower d = (if d < 10 then char_of (48 + d) else char_of (87 + d))"

text \<open>\<open>{:016x}\<close> is \<open>show_hex 16\<close> on a 64-bit value.\<close>

fun show_hex :: "nat \<Rightarrow> nat \<Rightarrow> string" where
  "show_hex 0 n = []"
| "show_hex (Suc w) n = show_hex w (n div 16) @ [hex_lower (n mod 16)]"

definition nonce_at :: "prompt_assembler \<Rightarrow> nat \<Rightarrow> string" where
  "nonce_at a i = show_hex 16 (unat (pa_rng a (2 * i))) @ show_hex 16 (unat (pa_rng a (2 * i + 1)))"

definition nonce_collides :: "(section_kind \<rightharpoonup> candidate list) \<Rightarrow> string \<Rightarrow> bool" where
  "nonce_collides m nonce \<longleftrightarrow> (\<exists>k \<in> set all_sections. \<exists>c \<in> set (case m k of None \<Rightarrow> [] | Some l \<Rightarrow> l).
     \<exists>b \<in> set (candidate_bodies (ca_content c)). contains_str (fence_open nonce) b \<or> contains_str nonce b)"

definition pick_nonce :: "prompt_assembler \<Rightarrow> (section_kind \<rightharpoonup> candidate list) \<Rightarrow> string" where
  "pick_nonce a m = (case find (\<lambda>i. \<not> nonce_collides m (nonce_at a i)) [0..<16] of
     Some i \<Rightarrow> nonce_at a i
   | None \<Rightarrow> nonce_at a 16)"

section \<open>Fitting\<close>

definition overhead_of :: "prompt_assembler \<Rightarrow> trust \<Rightarrow> string \<Rightarrow> section_kind \<Rightarrow> string \<Rightarrow> nat" where
  "overhead_of a t label k nonce =
     (if requires_fencing t then
        pa_count a (''<<valyria-data:'' @ nonce @ '' section='' @ [CHR 0x22] @ section_str k @ [CHR 0x22] @ '' source='' @
          [CHR 0x22] @ label @ [CHR 0x22] @ '' trust='' @ [CHR 0x22] @ ''Instruction'' @ [CHR 0x22] @ ''>>'' @ [newline]) +
        pa_count a (''<<valyria-data-end:'' @ nonce @ ''>>'' @ [newline]) + warn_slack
      else pa_count a ([newline] @ ''## '' @ label @ '' (Instruction)'' @ [newline]) + 2)"

definition wrapper_overhead :: "prompt_assembler \<Rightarrow> candidate \<Rightarrow> section_kind \<Rightarrow> string \<Rightarrow> nat" where
  "wrapper_overhead a c k nonce = overhead_of a (ca_trust c) (ca_label (pa_ulid a) c) k nonce"

definition demand_of :: "prompt_assembler \<Rightarrow> string \<Rightarrow> section_kind \<Rightarrow> candidate list \<Rightarrow> nat" where
  "demand_of a nonce k cs = foldl (\<lambda>n c. sat_add (sat_add n (rd_tokens (render (pa_count a) c Full unlimited)))
     (wrapper_overhead a c k nonce)) 0 cs"

definition fit_one ::
  "prompt_assembler \<Rightarrow> candidate \<Rightarrow> nat \<Rightarrow> string \<Rightarrow> (compression \<times> rendered \<times> injection_signal list) option" where
  "fit_one a c left fence = find_map (\<lambda>level. let r = render (pa_count a) c level left in
     if rd_tokens r \<le> left
     then Some (level, r, if requires_fencing (ca_trust c) then scan (pa_patterns a) (rd_text r) fence else [])
     else None) (ladder Full)"

record fit_state =
  fs_used :: nat
  fs_items :: "assembled_item list"
  fs_dropped :: "dropped_item list"

definition make_item ::
  "prompt_assembler \<Rightarrow> candidate \<Rightarrow> section_kind \<Rightarrow> compression \<times> rendered \<times> injection_signal list \<Rightarrow> assembled_item" where
  "make_item a c k x = (case x of (level, r, signals) \<Rightarrow>
     \<lparr>ai_section = k, ai_trust = ca_trust c, ai_provenance = ca_provenance c, ai_label = ca_label (pa_ulid a) c,
      ai_level = level, ai_rendered = rd_text r, ai_signals = signals\<rparr>)"

definition drop_item :: "prompt_assembler \<Rightarrow> candidate \<Rightarrow> section_kind \<Rightarrow> nat \<Rightarrow> dropped_item" where
  "drop_item a c k n = \<lparr>di_label = ca_label (pa_ulid a) c, di_section = k,
     di_reason = ''no room in the '' @ section_str k @ '' section ('' @ show_nat n @ '' tokens allocated)''\<rparr>"

text \<open>The room a candidate has, and what fits into it: the wrapper is charged with the body.\<close>

definition room :: "nat \<Rightarrow> nat \<Rightarrow> nat \<Rightarrow> nat \<Rightarrow> nat" where
  "room avail global most used = min (avail - global) (most - used)"

definition fit_candidate ::
  "prompt_assembler \<Rightarrow> string \<Rightarrow> section_kind \<Rightarrow> candidate \<Rightarrow> nat \<Rightarrow> (compression \<times> rendered \<times> injection_signal list) option" where
  "fit_candidate a nonce k c hard = (let overhead = wrapper_overhead a c k nonce in
     case fit_one a c (hard - overhead) (fence_open nonce) of
       Some (level, r, signals) \<Rightarrow> if rd_tokens r + overhead \<le> hard then Some (level, r, signals) else None
     | None \<Rightarrow> None)"

fun place_all ::
  "prompt_assembler \<Rightarrow> nat \<Rightarrow> string \<Rightarrow> section_kind \<Rightarrow> nat \<Rightarrow> nat \<Rightarrow> candidate list \<Rightarrow> fit_state \<Rightarrow> context_error + fit_state" where
  "place_all a avail nonce k most used [] st = Inr st"
| "place_all a avail nonce k most used (c # cs) st =
     (case fit_candidate a nonce k c (room avail (fs_used st) most used) of
        Some x \<Rightarrow> (let cost = rd_tokens (fst (snd x)) + wrapper_overhead a c k nonce in
          place_all a avail nonce k most (used + cost) cs
            (st\<lparr>fs_used := fs_used st + cost, fs_items := fs_items st @ [make_item a c k x]\<rparr>))
      | None \<Rightarrow>
          if ca_trust c = TrustPolicy
          then Inl (PolicyDoesNotFit (rd_tokens (render (pa_count a) c Full unlimited)) most)
          else place_all a avail nonce k most used cs (st\<lparr>fs_dropped := fs_dropped st @ [drop_item a c k most]\<rparr>))"

fun place_sections ::
  "prompt_assembler \<Rightarrow> nat \<Rightarrow> string \<Rightarrow> (section_kind \<rightharpoonup> candidate list) \<Rightarrow> allocation \<Rightarrow> section_kind list \<Rightarrow> fit_state \<Rightarrow>
     context_error + fit_state" where
  "place_sections a avail nonce m al [] st = Inr st"
| "place_sections a avail nonce m al (k # ks) st =
     (case m k of
        None \<Rightarrow> place_sections a avail nonce m al ks st
      | Some cs \<Rightarrow> (case place_all a avail nonce k (cap al k) 0 cs st of
          Inl e \<Rightarrow> Inl e
        | Inr st' \<Rightarrow> place_sections a avail nonce m al ks st'))"

section \<open>Assembly\<close>

definition fixed_overhead :: "prompt_assembler \<Rightarrow> string \<Rightarrow> nat" where
  "fixed_overhead a intent =
     pa_count a (pa_policy a) + pa_count a standing_data_frame + pa_count a intent + header_slack"

definition total_tokens :: "prompt_assembler \<Rightarrow> message list \<Rightarrow> nat" where
  "total_tokens a ms = (\<Sum>m \<leftarrow> ms. pa_count a (mg_content m))"

definition assemble :: "prompt_assembler \<Rightarrow> nat \<Rightarrow> assembly_request \<Rightarrow> context_error + assembled_prompt" where
  "assemble a sid req = (let
       m = by_section a (ar_candidates req);
       nonce = pick_nonce a m;
       demand = (\<lambda>k. map_option (demand_of a nonce k) (m k))
     in case allocate (ar_budget req) demand of
          Inl e \<Rightarrow> Inl e
        | Inr al \<Rightarrow> (case place_sections a (al_available al) nonce m al all_sections
              \<lparr>fs_used = fixed_overhead a (ar_intent req), fs_items = [], fs_dropped = []\<rparr> of
            Inl e \<Rightarrow> Inl e
          | Inr st \<Rightarrow> (let
                snap = \<lparr>cs_id = sid, cs_nonce = nonce, cs_policy = pa_policy a, cs_intent = ar_intent req, cs_items = fs_items st\<rparr>;
                ms = render_snapshot snap
              in Inr \<lparr>ap_messages = ms, ap_snapshot = snap, ap_allocation = al, ap_total = total_tokens a ms,
                      ap_dropped = fs_dropped st\<rparr>)))"

section \<open>Groups\<close>

lemma fold_push:
  "fold push_candidate cs m k =
     (case m k of Some l \<Rightarrow> Some (l @ filter (\<lambda>c. ca_section c = k) cs)
      | None \<Rightarrow> if \<exists>c \<in> set cs. ca_section c = k then Some (filter (\<lambda>c. ca_section c = k) cs) else None)"
  by (induction cs arbitrary: m) (auto simp: push_candidate_def split: option.splits)

lemma by_section_eq:
  "by_section a cs k = (if \<exists>c \<in> set cs. ca_section c = k
     then Some (rank_candidates a (filter (\<lambda>c. ca_section c = k) cs)) else None)"
  by (simp add: by_section_def Let_def fold_push)

lemma mset_rank [simp]: "mset (rank_candidates a cs) = mset cs"
  by (simp add: rank_candidates_def)

lemma set_ranked [simp]: "set (rank_candidates a cs) = set cs"
  by (simp add: rank_candidates_def)

definition section_list :: "prompt_assembler \<Rightarrow> candidate list \<Rightarrow> section_kind \<Rightarrow> candidate list" where
  "section_list a cs k = rank_candidates a (filter (\<lambda>c. ca_section c = k) cs)"

lemma by_section_list: "(case by_section a cs k of None \<Rightarrow> [] | Some l \<Rightarrow> l) = section_list a cs k"
  by (auto simp: by_section_eq section_list_def rank_candidates_def filter_empty_conv)

lemma mset_sections:
  assumes "distinct ks"
  shows "mset (concat (map (section_list a cs) ks)) = filter_mset (\<lambda>c. ca_section c \<in> set ks) (mset cs)"
  using assms
proof (induction ks)
  case (Cons k ks)
  have "filter_mset (\<lambda>c. ca_section c \<in> set (k # ks)) (mset cs) =
      filter_mset (\<lambda>c. ca_section c = k) (mset cs) + filter_mset (\<lambda>c. ca_section c \<in> set ks) (mset cs)"
    using Cons.prems by (induction cs) auto
  with Cons show ?case by (simp add: section_list_def)
qed simp

lemma mset_all_sections: "mset (concat (map (section_list a cs) all_sections)) = mset cs"
  using mset_sections [OF distinct_all_sections] by simp

end
