(* ===== verification/Spec2Isabelle.thy ===== *)
theory Spec2Isabelle
  imports Task_Cascade Tool_Runtime Plan_Correct App_Correct File_Tools Plan_Rollback Context_Assemble
begin

text \<open>
  \<^bold>\<open>Valyria\<close> is a local coding-agent runtime: a task names an objective, a driver takes it through a
  state machine (understand, plan, implement, verify, diagnose, repair), a model proposes tool calls, a
  permission engine decides which of them run, and a journal, a change ledger and an event stream
  record what happened so that a crash, a pause or a rollback can be answered from them. This
  development models that core and proves what makes it correct. Paths are under \<open>src/crates/\<close>.

  \<^bold>\<open>The parts, bottom up.\<close>

  \<^item> \<open>Prelude\<close>: errors as sums, JSON values and their accessors, \<open>then_do\<close> (the \<open>?\<close> of the code on a
    state-passing computation), numbers as text, and the \<open>frame\<close> collection.
  \<^item> \<open>Ids\<close> (\<open>valyria-types/src/id.rs\<close>): typed identifiers and their text; the ULID codec is a parameter.
  \<^item> \<open>Agent_State\<close> (\<open>valyria-types/src/state.rs\<close>, \<open>valyria-task/src/codec.rs\<close>): the fourteen states, the
    legal edges and their stored text.
  \<^item> \<open>Seq_Log\<close>, \<open>Event_Bus\<close> (\<open>valyria-events\<close>): tables with assigned sequence numbers; the durable event
    log, subscriptions with a backlog and a bounded live queue, lag and resumption.
  \<^item> \<open>Task_Manager\<close>, \<open>Task_Invariant\<close>, \<open>Task_Correct\<close>, \<open>Task_Cascade\<close> (\<open>valyria-task/src/manager.rs\<close>): the
    tasks and journal tables, transitions, control signals and their cascade to subtasks, crash
    recovery, and the tracking of interrupted and pending tool calls; the manager as a transition
    system with the invariant \<open>store_ok\<close>.
  \<^item> \<open>Permissions\<close>, \<open>Command_Risk\<close>, \<open>Tool_Runtime\<close> (\<open>valyria-permissions\<close>, \<open>valyria-tools/src/runtime.rs\<close>):
    grants, modes and the default policy; the classifier of shell commands; the preflight, decision,
    authorization and execution of a tool call. The contract between them is the locale
    \<open>permission_gate\<close>, interpreted on the engine.
  \<^item> \<open>Plan_Model\<close>, \<open>Plan_Graph\<close>, \<open>Plan_Cycle\<close>, \<open>Plan_Validate\<close>, \<open>Plan_Correct\<close> (\<open>valyria-plan\<close>): plans as
    graphs of steps, validation, topological waves, the ready steps, the plan repair budget.
  \<^item> \<open>Content_Hash\<close>, \<open>Vfs_Path\<close>, \<open>Blob_Store\<close>, \<open>Ledger\<close>, \<open>Checkpoint\<close> (\<open>valyria-util\<close>, \<open>valyria-vfs\<close>,
    \<open>valyria-store/src/blob.rs\<close>, \<open>valyria-ledger\<close>, \<open>valyria-plan/src/checkpoint.rs\<close>): content addressing,
    path confinement, the change ledger over a disk, and rollback to a checkpoint.
  \<^item> \<open>Loop_Detect\<close>, \<open>Repair_Ledger\<close>, \<open>Driver_Model\<close>, \<open>Driver_Steps\<close> (\<open>valyria-agent\<close>): the loop detector, the
    repair budget and its decisions, and the driver: one definition per state handler of \<open>driver.rs\<close>,
    the resolution of approvals and questions, and the loop. \<open>Driver_Frame\<close> says what each step leaves
    alone, \<open>Driver_Invariant\<close> holds the invariant, \<open>Driver_Reach\<close> the reachable drivers (crashes, time
    and other tasks' steps included), \<open>Driver_Correct\<close> the theorems, \<open>Driver_Demo\<close> a concrete run.
  \<^item> \<open>App_Runtime\<close>, \<open>App_Correct\<close> (\<open>valyria-app/src/runtime.rs\<close>): the operations a client calls on tasks and
    the driver each of them spawns.

  \<^bold>\<open>How state and effects are modelled.\<close> A SQL table is a list of rows; a \<open>Result\<close> is a sum with the
  error on the left; a handler takes the state and returns result and state, and every \<open>?\<close> of the code is
  a branch. Clocks and id generators are streams drawn from the task store. The parts behind other
  crates are records of functions (\<open>services\<close> of the driver, \<open>env\<close> and \<open>os\<close> of the ledger), which are
  arguments of the definitions; theorems that need something of them say so in a named predicate
  (\<open>reactive\<close>: the two plan services leave a driver that returns at rest).

  \<^bold>\<open>Fuel.\<close> The cascade over subtasks takes fuel above the number of tasks (proved enough in
  \<open>signal_reaches_descendants\<close>), \<open>task_changed_files\<close> the same bound, the plan's graph search is proved
  to end. The driver's loop is unbounded in the code, since a model may go on calling tools; its fuel is
  a parameter and theorems about it hold for every fuel.

  \<^bold>\<open>Not modelled.\<close> Inputs and outputs of the operating system (processes, sandbox profiles, network,
  terminal), SQLite itself, tree-sitter and language servers, floating-point ranking and embeddings,
  model runtimes, and the command line. The manifest lists every crate with its reason.
\<close>

end
